(* ===== verification/Prelude.thy ===== *)
theory Prelude
  imports Main "HOL-Library.Word"
begin

text \<open>
  Shared vocabulary of the egos-2000 development: the C integer types at their RISC-V
  (ilp32) widths, the outcome of a C function that may not return normally, and the
  little-endian reading and writing of 32-bit fields inside byte buffers, through which
  the sources overlay their structs on \<open>char\<close> arrays. The lemmas below are what the
  component theories use of these notions: the sequencing laws of \<open>bindr\<close>, the loop
  rules of \<open>for_each\<close>, and the get/put laws of \<open>get32\<close> and \<open>put32\<close>.
\<close>

unbundle bit_operations_syntax

named_theorems res_simps \<open>unfolding rules for sequenced outcomes\<close>
named_theorems bytes_simps \<open>get/put laws of fields in byte buffers\<close>

section \<open>Machine types and outcomes\<close>

type_synonym u8 = "8 word"
type_synonym u16 = "16 word"
type_synonym u32 = "32 word"
type_synonym u64 = "64 word"

text \<open>A C \<open>int\<close> is a 32-bit word read with \<^const>\<open>sint\<close> where the sign matters.\<close>

type_synonym i32 = "32 word"

text \<open>
  A call either returns, or ends in one of three ways. \<open>FATAL\<close> prints its message and
  spins forever (library/libc/print.c), so nothing after it runs; the message is the
  format string of the call. \<open>Undef\<close> is a C access outside the object it names.
  \<open>Diverge\<close> is a loop without output that never ends.
\<close>

datatype fault = FATAL string | Undef string | Diverge

type_synonym 'a res = "fault + 'a"

definition bindr :: "'a res \<Rightarrow> ('a \<Rightarrow> 'b res) \<Rightarrow> 'b res" where
  "bindr m f = (case m of Inl e \<Rightarrow> Inl e | Inr x \<Rightarrow> f x)"

text \<open>A counting \<open>for\<close> loop whose body may fail: the body runs on each index in turn.\<close>

fun for_each :: "'i list \<Rightarrow> ('i \<Rightarrow> 's \<Rightarrow> 's res) \<Rightarrow> 's \<Rightarrow> 's res" where
  "for_each [] body s = Inr s"
| "for_each (i # is) body s = bindr (body i s) (for_each is body)"

section \<open>32-bit fields of byte buffers\<close>

definition byte_of :: "nat \<Rightarrow> u32 \<Rightarrow> u8" where
  "byte_of i w = ucast (drop_bit (8 * i) w)"

definition le32 :: "u8 \<Rightarrow> u8 \<Rightarrow> u8 \<Rightarrow> u8 \<Rightarrow> u32" where
  "le32 b0 b1 b2 b3 =
     ucast b0 OR push_bit 8 (ucast b1) OR push_bit 16 (ucast b2) OR push_bit 24 (ucast b3)"

text \<open>\<open>get32 bs k\<close> and \<open>put32 bs k w\<close> access the \<open>uint\<close> at byte offset \<open>k\<close>.\<close>

definition get32 :: "u8 list \<Rightarrow> nat \<Rightarrow> u32" where
  "get32 bs k = le32 (bs ! k) (bs ! (k + 1)) (bs ! (k + 2)) (bs ! (k + 3))"

definition put32 :: "u8 list \<Rightarrow> nat \<Rightarrow> u32 \<Rightarrow> u8 list" where
  "put32 bs k w =
     bs[k := byte_of 0 w, k + 1 := byte_of 1 w, k + 2 := byte_of 2 w, k + 3 := byte_of 3 w]"

definition bytes32 :: "u32 \<Rightarrow> u8 list" where
  "bytes32 w = [byte_of 0 w, byte_of 1 w, byte_of 2 w, byte_of 3 w]"

section \<open>Sequencing\<close>

lemma bindr_Inl [simp, res_simps]: "bindr (Inl e) f = Inl e"
  by (simp add: bindr_def)

lemma bindr_Inr [simp, res_simps]: "bindr (Inr x) f = f x"
  by (simp add: bindr_def)

lemma bindr_eq_Inr [res_simps]:
  "(bindr m f = Inr y) = (\<exists>x. m = Inr x \<and> f x = Inr y)"
  by (cases m) auto

lemma bindr_InrE:
  assumes "bindr m f = Inr y"
  obtains x where "m = Inr x" and "f x = Inr y"
  using assms by (auto simp: bindr_eq_Inr)

lemma bindr_assoc: "bindr (bindr m f) g = bindr m (\<lambda>x. bindr (f x) g)"
  by (cases m) auto

lemma bindr_cong [fundef_cong]:
  "\<lbrakk>m = m'; \<And>x. m' = Inr x \<Longrightarrow> f x = f' x\<rbrakk> \<Longrightarrow> bindr m f = bindr m' f'"
  by (cases m') auto

lemma bindr_split:
  "P (bindr m f) = ((\<forall>e. m = Inl e \<longrightarrow> P (Inl e)) \<and> (\<forall>x. m = Inr x \<longrightarrow> P (f x)))"
  by (cases m) auto

lemma for_each_append:
  "for_each (xs @ ys) body s = bindr (for_each xs body s) (for_each ys body)"
  by (induction xs arbitrary: s) (auto simp: bindr_assoc intro!: bindr_cong)

text \<open>The loop rule: an indexed invariant carried by every iteration holds at the end.\<close>

lemma for_each_preserves:
  assumes "for_each xs body s = Inr t" "P s" "\<And>i s t. i \<in> set xs \<Longrightarrow> body i s = Inr t \<Longrightarrow> P s \<Longrightarrow> P t"
  shows "P t"
  using assms
proof (induction xs arbitrary: s)
  case (Cons x xs)
  obtain s1 where "body x s = Inr s1" "for_each xs body s1 = Inr t"
    using Cons.prems(1) by (auto elim: bindr_InrE)
  with Cons show ?case by (metis list.set_intros)
qed simp

lemma for_each_invariant:
  assumes "P [] s"
    and "\<And>done i rest t. xs = done @ i # rest \<Longrightarrow> P done t \<Longrightarrow>
           \<exists>t'. body i t = Inr t' \<and> P (done @ [i]) t'"
  shows "\<exists>t. for_each xs body s = Inr t \<and> P xs t"
proof -
  have "\<exists>t. for_each ys body s = Inr t \<and> P ys t" if "xs = ys @ zs" for ys zs
    using that
  proof (induction ys arbitrary: zs rule: rev_induct)
    case Nil
    then show ?case using assms(1) by simp
  next
    case (snoc y ys)
    then obtain t where t: "for_each ys body s = Inr t" "P ys t"
      by (metis append.assoc)
    obtain t' where "body y t = Inr t'" "P (ys @ [y]) t'"
      using assms(2)[of ys y zs t] snoc.prems t(2) by auto
    with t(1) show ?case by (simp add: for_each_append)
  qed
  from this[of xs "[]"] show ?thesis by simp
qed

lemma for_each_cong [fundef_cong]:
  "\<lbrakk>xs = ys; s = t; \<And>i s. i \<in> set ys \<Longrightarrow> body i s = body' i s\<rbrakk>
    \<Longrightarrow> for_each xs body s = for_each ys body' t"
proof (induction xs arbitrary: ys s t)
  case Nil
  then show ?case by auto
next
  case (Cons x xs)
  then show ?case by (auto intro!: bindr_cong)
qed

section \<open>Bytes and words\<close>

lemma unat_plus_one_less: "n < m \<Longrightarrow> unat (n + 1) = Suc (unat n)" for n m :: "'a::len word"
proof -
  assume "n < m"
  then have "n \<noteq> - 1"
    using word_n1_ge[of m] by auto
  then have "1 + n \<noteq> 0"
    by (metis add.inverse_inverse add_eq_0_iff)
  then show ?thesis
    by (simp add: unatSuc add.commute)
qed

lemma unat_of_nat_u32: "n < 2 ^ 32 \<Longrightarrow> unat (of_nat n :: u32) = n"
  by (simp add: unat_of_nat take_bit_nat_eq_self)

lemma of_nat_Suc_u32: "Suc n < 2 ^ 32 \<Longrightarrow> (of_nat (Suc n) :: u32) \<noteq> 0"
  using unat_of_nat_u32[of "Suc n"] by auto

lemma word_pos_of_less: "k < n \<Longrightarrow> 0 < n" for k n :: "'a::len word"
  using le_less_trans word_zero_le by blast

lemma bit_le32:
  "n < 32 \<Longrightarrow> bit (le32 a b c d) n =
     (if n < 8 then bit a n else if n < 16 then bit b (n - 8)
      else if n < 24 then bit c (n - 16) else bit d (n - 24))"
  using bit_imp_le_length[of a n] bit_imp_le_length[of b "n - 8"]
    bit_imp_le_length[of c "n - 16"]
  by (auto simp: le32_def bit_simps)

lemma bit_byte_of: "bit (byte_of i w) n = (n < 8 \<and> bit w (8 * i + n))"
  by (auto simp: byte_of_def bit_simps dest: bit_imp_le_length)

lemma le32_byte_of [simp, bytes_simps]:
  "le32 (byte_of 0 w) (byte_of (Suc 0) w) (byte_of 2 w) (byte_of 3 w) = w"
proof (rule bit_word_eqI)
  fix n
  assume "n < LENGTH(32)"
  then show "bit (le32 (byte_of 0 w) (byte_of (Suc 0) w) (byte_of 2 w) (byte_of 3 w)) n = bit w n"
    by (auto simp: bit_le32 bit_byte_of)
qed

lemma byte_of_le32 [simp, bytes_simps]:
  "byte_of 0 (le32 a b c d) = a" "byte_of (Suc 0) (le32 a b c d) = b"
  "byte_of 2 (le32 a b c d) = c" "byte_of 3 (le32 a b c d) = d"
  by (rule bit_word_eqI, simp add: bit_le32 bit_byte_of)+

lemma length_put32 [simp, bytes_simps]: "length (put32 bs k w) = length bs"
  by (simp add: put32_def)

lemma get32_put32_same [simp, bytes_simps]:
  "k + 3 < length bs \<Longrightarrow> get32 (put32 bs k w) k = w"
  by (simp add: get32_def put32_def nth_list_update)

lemma get32_put32_other [bytes_simps]:
  "j + 4 \<le> k \<or> k + 4 \<le> j \<Longrightarrow> get32 (put32 bs k w) j = get32 bs j"
  by (auto simp: get32_def put32_def nth_list_update)

lemma nth_put32_other [bytes_simps]:
  "j < k \<or> k + 4 \<le> j \<Longrightarrow> put32 bs k w ! j = bs ! j"
  by (auto simp: put32_def nth_list_update)

lemma put32_same [simp, bytes_simps]: "put32 (put32 bs k v) k w = put32 bs k w"
  by (simp add: put32_def list_update_swap)

lemma put32_get32 [simp, bytes_simps]: "k + 3 < length bs \<Longrightarrow> put32 bs k (get32 bs k) = bs"
  by (simp add: put32_def get32_def)

lemma le32_zero [simp]: "le32 0 0 0 0 = 0"
  by (simp add: le32_def)

lemma get32_replicate_zero [simp, bytes_simps]:
  "k + 3 < n \<Longrightarrow> get32 (replicate n 0) k = 0"
  by (simp add: get32_def)

lemma length_bytes32 [simp]: "length (bytes32 w) = 4"
  by (simp add: bytes32_def)

lemma get32_bytes32 [simp, bytes_simps]: "get32 (bytes32 w @ bs) 0 = w"
  by (simp add: get32_def bytes32_def)

lemma get32_append_right [bytes_simps]:
  "length xs \<le> k \<Longrightarrow> get32 (xs @ ys) k = get32 ys (k - length xs)"
  by (simp add: get32_def nth_append Suc_diff_le)

lemma get32_append_left [bytes_simps]:
  "k + 3 < length xs \<Longrightarrow> get32 (xs @ ys) k = get32 xs k"
  by (simp add: get32_def nth_append)

end
