(* ===== verification/Machine.thy ===== *)
theory Machine
  imports Prelude
begin

text \<open>
  Physical memory and the address space of library/egos.h. Memory is a function from addresses
  to bytes; the C globals of the kernel are separate state of the components and do not live
  in it. Pages are 4096 bytes; \<open>page_bytes m p\<close> is the contents of page number \<open>p\<close>, and
  the lemmas below reduce copies and stores to statements about whole pages.
\<close>

type_synonym mem = "u32 \<Rightarrow> u8"
type_synonym addr = u32

section \<open>Layout (egos.h)\<close>

datatype platform = ARTY | QEMU
datatype translation = PAGE_TABLE | SOFT_TLB

abbreviation RAM_END :: addr where "RAM_END \<equiv> 0x81000000"
abbreviation APPS_PAGES_BASE :: addr where "APPS_PAGES_BASE \<equiv> 0x80800000"
abbreviation APPS_STACK_TOP :: addr where "APPS_STACK_TOP \<equiv> 0x80800000"
abbreviation SHELL_WORK_DIR :: addr where "SHELL_WORK_DIR \<equiv> 0x80602000"
abbreviation SYSCALL_ARG :: addr where "SYSCALL_ARG \<equiv> 0x80601000"
abbreviation APPS_ARG :: addr where "APPS_ARG \<equiv> 0x80600000"
abbreviation APPS_ENTRY :: addr where "APPS_ENTRY \<equiv> 0x80400000"
abbreviation RAM_START :: addr where "RAM_START \<equiv> 0x80000000"
abbreviation BOARD_FLASH_ROM :: addr where "BOARD_FLASH_ROM \<equiv> 0x20400000"
abbreviation ETHMAC_CSR_BASE :: addr where "ETHMAC_CSR_BASE \<equiv> 0xF0002000"
abbreviation ETHMAC_RX_BUFFER :: addr where "ETHMAC_RX_BUFFER \<equiv> 0x90000000"
abbreviation ETHMAC_TX_BUFFER :: addr where "ETHMAC_TX_BUFFER \<equiv> 0x90001000"
abbreviation VGA_MMIO_START :: addr where "VGA_MMIO_START \<equiv> 0x81000000"

definition SPI_BASE :: "platform \<Rightarrow> addr" where
  "SPI_BASE p = (if p = ARTY then 0xF0008800 else 0x10050000)"

definition UART_BASE :: "platform \<Rightarrow> addr" where
  "UART_BASE p = (if p = ARTY then 0xF0001000 else 0x10010000)"

definition CLINT_BASE :: "platform \<Rightarrow> addr" where
  "CLINT_BASE p = (if p = ARTY then 0xF0010000 else 0x02000000)"

abbreviation PAGE_SIZE :: nat where "PAGE_SIZE \<equiv> 4096"

section \<open>Access\<close>

definition load32 :: "mem \<Rightarrow> addr \<Rightarrow> u32" where
  "load32 m a = le32 (m a) (m (a + 1)) (m (a + 2)) (m (a + 3))"

definition memcpy_in :: "mem \<Rightarrow> addr \<Rightarrow> u8 list \<Rightarrow> mem" where
  "memcpy_in m a bs = (\<lambda>x. if unat (x - a) < length bs then bs ! unat (x - a) else m x)"

definition memcpy_out :: "mem \<Rightarrow> addr \<Rightarrow> nat \<Rightarrow> u8 list" where
  "memcpy_out m a n = map (\<lambda>i. m (a + of_nat i)) [0 ..< n]"

definition store32 :: "mem \<Rightarrow> addr \<Rightarrow> u32 \<Rightarrow> mem" where
  "store32 m a w = memcpy_in m a (bytes32 w)"

text \<open>\<open>memset\<close> and \<open>memcpy\<close> of the C library on disjoint ranges.\<close>

definition memset :: "mem \<Rightarrow> addr \<Rightarrow> u8 \<Rightarrow> nat \<Rightarrow> mem" where
  "memset m a v n = memcpy_in m a (replicate n v)"

definition memcpy :: "mem \<Rightarrow> addr \<Rightarrow> addr \<Rightarrow> nat \<Rightarrow> mem" where
  "memcpy m dst src n = memcpy_in m dst (memcpy_out m src n)"

section \<open>Pages\<close>

definition page_addr :: "nat \<Rightarrow> addr" where
  "page_addr p = of_nat (p * PAGE_SIZE)"

definition page_bytes :: "mem \<Rightarrow> nat \<Rightarrow> u8 list" where
  "page_bytes m p = memcpy_out m (page_addr p) PAGE_SIZE"

lemma length_memcpy_out [simp]: "length (memcpy_out m a n) = n"
  by (simp add: memcpy_out_def)

lemma length_page_bytes [simp]: "length (page_bytes m p) = PAGE_SIZE"
  by (simp add: page_bytes_def)

lemma nth_page_bytes: "o' < PAGE_SIZE \<Longrightarrow> page_bytes m p ! o' = m (page_addr p + of_nat o')"
  by (simp add: page_bytes_def memcpy_out_def)

lemma unat_page_addr: "p < 2 ^ 20 \<Longrightarrow> unat (page_addr p) = p * PAGE_SIZE"
  unfolding page_addr_def by (intro unat_of_nat_u32) simp

lemma unat_page_off:
  "p < 2 ^ 20 \<Longrightarrow> o' < PAGE_SIZE \<Longrightarrow> unat (page_addr p + of_nat o') = p * PAGE_SIZE + o'"
proof -
  assume a: "p < 2 ^ 20" "o' < PAGE_SIZE"
  have "page_addr p + of_nat o' = of_nat (p * PAGE_SIZE + o')" by (simp add: page_addr_def)
  moreover have "p * PAGE_SIZE + o' < 2 ^ 32" using a by simp
  ultimately show ?thesis by (metis unat_of_nat_u32)
qed

text \<open>Every address is an offset in a page, and distances inside a page are those of offsets.\<close>

lemma addr_split: "page_addr (unat a div PAGE_SIZE) + of_nat (unat a mod PAGE_SIZE) = a"
proof -
  have "page_addr (unat a div PAGE_SIZE) + of_nat (unat a mod PAGE_SIZE)
      = of_nat (unat a div PAGE_SIZE * PAGE_SIZE + unat a mod PAGE_SIZE)"
    by (simp only: page_addr_def of_nat_add)
  also have "\<dots> = a" by (simp only: div_mult_mod_eq) simp
  finally show ?thesis .
qed

lemma page_no_less: "unat (a :: addr) div PAGE_SIZE < 2 ^ 20"
  using unsigned_less[of a, where 'a = nat] by simp

lemma page_off_inj:
  assumes "page_addr p + of_nat k = page_addr q + of_nat j" "p < 2 ^ 20" "q < 2 ^ 20"
    "k < PAGE_SIZE" "j < PAGE_SIZE"
  shows "p = q \<and> k = j"
proof -
  have eq: "p * PAGE_SIZE + k = q * PAGE_SIZE + j"
    using arg_cong[OF assms(1), of unat] unat_page_off assms(2-5) by simp
  have "(p * PAGE_SIZE + k) div PAGE_SIZE = p" "(q * PAGE_SIZE + j) div PAGE_SIZE = q"
    using assms(4,5) by simp_all
  with eq have "p = q" by metis
  with eq show ?thesis by simp
qed

lemma page_diff:
  assumes "p < 2 ^ 20" "q < 2 ^ 20" "o' < PAGE_SIZE" "k + n \<le> PAGE_SIZE"
  shows "unat (page_addr q + of_nat o' - (page_addr p + of_nat k)) < n
      \<longleftrightarrow> q = p \<and> k \<le> o' \<and> o' - k < n" (is "unat (?x - ?a) < n \<longleftrightarrow> _")
proof
  define j where "j = unat (?x - ?a)"
  assume "unat (?x - ?a) < n"
  then have lt: "j < n" by (simp only: j_def)
  have "?x = page_addr p + of_nat (k + j)" by (simp add: j_def)
  then have "q = p \<and> o' = k + j"
    using lt assms by (intro page_off_inj) simp_all
  with lt show "q = p \<and> k \<le> o' \<and> o' - k < n" by simp
next
  assume r: "q = p \<and> k \<le> o' \<and> o' - k < n"
  then have "?x - ?a = of_nat (o' - k)" by (simp add: of_nat_diff)
  moreover have "o' - k < 2 ^ 32" using assms(3) by simp
  ultimately have "unat (?x - ?a) = o' - k" by (metis unat_of_nat_u32)
  with r show "unat (?x - ?a) < n" by simp
qed

lemma unat_page_diff:
  assumes "k \<le> o'" "o' < PAGE_SIZE"
  shows "unat (page_addr p + of_nat o' - (page_addr p + of_nat k)) = o' - k"
proof -
  have "page_addr p + of_nat o' - (page_addr p + of_nat k) = of_nat (o' - k)"
    using assms by (simp add: of_nat_diff)
  moreover have "o' - k < 2 ^ 32" using assms by simp
  ultimately show ?thesis by (metis unat_of_nat_u32)
qed

text \<open>What a write inside one page does to every page.\<close>

lemma page_bytes_memcpy_in:
  assumes "p < 2 ^ 20" "q < 2 ^ 20" "k + length bs \<le> PAGE_SIZE"
  shows "page_bytes (memcpy_in m (page_addr p + of_nat k) bs) q =
    (if q = p then take k (page_bytes m p) @ bs @ drop (k + length bs) (page_bytes m p)
     else page_bytes m q)"
proof (rule nth_equalityI)
  show "length (page_bytes (memcpy_in m (page_addr p + of_nat k) bs) q) =
    length (if q = p then take k (page_bytes m p) @ bs @ drop (k + length bs) (page_bytes m p)
     else page_bytes m q)"
    using assms(3) by simp
next
  fix i
  assume "i < length (page_bytes (memcpy_in m (page_addr p + of_nat k) bs) q)"
  then have i: "i < PAGE_SIZE" by simp
  have "page_bytes (memcpy_in m (page_addr p + of_nat k) bs) q ! i =
      (if q = p \<and> k \<le> i \<and> i - k < length bs then bs ! (i - k) else m (page_addr q + of_nat i))"
    using page_diff[OF assms(1,2) i assms(3)] unat_page_diff[OF _ i, of k p]
    by (simp add: nth_page_bytes[OF i] memcpy_in_def)
  then show "page_bytes (memcpy_in m (page_addr p + of_nat k) bs) q ! i =
    (if q = p then take k (page_bytes m p) @ bs @ drop (k + length bs) (page_bytes m p)
     else page_bytes m q) ! i"
    using i assms(3) by (auto simp: nth_page_bytes nth_append min_def)
qed

lemma page_bytes_fill:
  assumes "p < 2 ^ 20" "q < 2 ^ 20" "length bs = PAGE_SIZE"
  shows "page_bytes (memcpy_in m (page_addr p) bs) q = (if q = p then bs else page_bytes m q)"
  using page_bytes_memcpy_in[of p q 0 bs m] assms by simp

lemma page_bytes_memcpy [simp]:
  "p < 2 ^ 20 \<Longrightarrow> q < 2 ^ 20 \<Longrightarrow>
   page_bytes (memcpy m (page_addr p) (page_addr s) PAGE_SIZE) q =
     (if q = p then page_bytes m s else page_bytes m q)"
  by (simp add: memcpy_def page_bytes_fill flip: page_bytes_def)

lemma page_bytes_memset [simp]:
  "p < 2 ^ 20 \<Longrightarrow> q < 2 ^ 20 \<Longrightarrow>
   page_bytes (memset m (page_addr p) v PAGE_SIZE) q =
     (if q = p then replicate PAGE_SIZE v else page_bytes m q)"
  by (simp add: memset_def page_bytes_fill)

section \<open>Words in pages\<close>

lemma load32_page:
  assumes "k + 4 \<le> PAGE_SIZE"
  shows "load32 m (page_addr p + of_nat k) = get32 (page_bytes m p) k"
  using assms by (simp add: load32_def get32_def nth_page_bytes ac_simps)

lemma page_bytes_store32:
  assumes "p < 2 ^ 20" "q < 2 ^ 20" "k + 4 \<le> PAGE_SIZE"
  shows "page_bytes (store32 m (page_addr p + of_nat k) w) q =
    (if q = p then put32 (page_bytes m p) k w else page_bytes m q)"
proof -
  have "put32 bs k w = take k bs @ bytes32 w @ drop (k + 4) bs" if "length bs = PAGE_SIZE" for bs
    using that assms(3)
    by (intro nth_equalityI) (auto simp: put32_def bytes32_def nth_list_update nth_append nth_Cons'
        min_def split: if_splits)
  then show ?thesis using assms page_bytes_memcpy_in[of p q k "bytes32 w" m]
    by (simp add: store32_def)
qed

end
