(* ===== verification/Cstring.thy ===== *)
theory Cstring
  imports Prelude
begin

text \<open>
  NUL-terminated strings in byte arrays, and the functions of the C library on them that the
  sources call: \<open>strlen\<close>, \<open>strncpy\<close>, \<open>strcat\<close>, and the decimal conversion of \<open>printf\<close>.
  RISC-V \<open>char\<close> is unsigned, so a byte is its own value.
\<close>

definition str :: "string \<Rightarrow> u8 list" where
  "str s = map of_char s"

text \<open>The string at the start of an array, up to its first NUL.\<close>

definition cstr :: "u8 list \<Rightarrow> u8 list" where
  "cstr bs = takeWhile (\<lambda>c. c \<noteq> 0) bs"

definition strlen :: "u8 list \<Rightarrow> nat" where
  "strlen bs = length (cstr bs)"

text \<open>\<open>strncpy(dst, src, n)\<close> pads with NULs up to \<open>n\<close> bytes and truncates there.\<close>

definition strncpy :: "u8 list \<Rightarrow> u8 list \<Rightarrow> nat \<Rightarrow> u8 list" where
  "strncpy dst src n = take n (cstr src @ replicate n 0) @ drop n dst"

text \<open>\<open>strcat(dst, src)\<close> writes the string and its NUL; \<open>None\<close> when it leaves the array.\<close>

definition strcat :: "u8 list \<Rightarrow> u8 list \<Rightarrow> u8 list option" where
  "strcat dst src =
     (let k = strlen dst; s = cstr src in
      if k + length s < length dst
      then Some (take k dst @ s @ [0] @ drop (k + length s + 1) dst) else None)"

text \<open>Decimal digits, as \<open>%d\<close> prints a number that is not negative; \<open>%4d\<close> pads on the left.\<close>

fun dec :: "nat \<Rightarrow> u8 list" where
  "dec n = (if n < 10 then [of_nat (48 + n)] else dec (n div 10) @ [of_nat (48 + n mod 10)])"

declare dec.simps [simp del]

definition pad_left :: "nat \<Rightarrow> u8 list \<Rightarrow> u8 list" where
  "pad_left w s = replicate (w - length s) 32 @ s"

lemma length_str [simp]: "length (str s) = length s"
  by (simp add: str_def)

lemma cstr_pad [simp]: "0 \<notin> set s \<Longrightarrow> cstr (s @ 0 # r) = s"
  by (induction s) (auto simp: cstr_def)

lemma cstr_id [simp]: "0 \<notin> set s \<Longrightarrow> cstr s = s"
  by (auto simp: cstr_def takeWhile_eq_all_conv)

lemma zero_notin_cstr: "0 \<notin> set (cstr s)"
  by (auto simp: cstr_def dest: set_takeWhileD)

lemma cstr_padded [simp]: "0 \<notin> set s \<Longrightarrow> cstr (s @ replicate n 0) = s"
  by (cases n) simp_all

lemma length_strncpy [simp]: "n \<le> length dst \<Longrightarrow> length (strncpy dst src n) = length dst"
  by (simp add: strncpy_def)

text \<open>Appending to a string that is padded with NULs up to the end of its array.\<close>

lemma strcat_padded:
  assumes "0 \<notin> set s" "0 \<notin> set t" "length t < n"
  shows "strcat (s @ replicate n 0) t = Some ((s @ t) @ replicate (n - length t) 0)"
proof -
  have "n - length t = Suc (n - Suc (length t))" using assms(3) by simp
  then show ?thesis using assms by (simp add: strcat_def strlen_def Let_def)
qed

lemma dec_digits: "set (dec n) \<subseteq> {48..57}"
proof (induction n rule: dec.induct)
  case (1 n)
  have d: "(of_nat (48 + k) :: u8) \<in> {48..57}" if "k < 10" for k
    using that by (simp add: word_le_nat_alt unat_word_ariths unat_of_nat take_bit_nat_eq_self)
  show ?case using 1 d[of n] d[of "n mod 10"] by (subst dec.simps) auto
qed

lemma zero_notin_dec [simp]: "0 \<notin> set (dec n)" "0 \<notin> set (pad_left w (dec n))"
  using dec_digits[of n] by (auto simp: pad_left_def)

end
