(* ===== verification/Udp.thy ===== *)
theory Udp
  imports Machine Cstring
begin

text \<open>
  apps/user/udp_demo.c: one UDP packet in an Ethernet frame, with the IP and UDP checksums and
  the CRC. The message is an argument; the program sends \<open>HELLO_MSG\<close>. The structs are packed,
  so each is the concatenation of its fields in memory order. The transmit buffer is memory of the
  Ethernet controller, with what it held before as an argument. A register of the controller is read
  in one place, the wait for its ready bit, and that bit is an argument: the value of the
  register at each read. The line printed on QEMU, where nothing is sent, is left out.
\<close>

section \<open>Fields\<close>

definition bytes16 :: "u16 \<Rightarrow> u8 list" where
  "bytes16 w = [ucast w, ucast (drop_bit 8 w)]"

definition bswap16 :: "u16 \<Rightarrow> u16" where
  "bswap16 w = push_bit 8 w OR drop_bit 8 w"

definition bswap32 :: "u32 \<Rightarrow> u32" where
  "bswap32 w = le32 (byte_of 3 w) (byte_of 2 w) (byte_of 1 w) (byte_of 0 w)"

definition HELLO_MSG :: "u8 list" where
  "HELLO_MSG = str ''Hello from egos-2000!'' @ [10, 13, 0]"

definition IPTOINT :: "u32 \<Rightarrow> u32 \<Rightarrow> u32 \<Rightarrow> u32 \<Rightarrow> u32" where
  "IPTOINT a b c d = push_bit 24 a OR push_bit 16 b OR push_bit 8 c OR d"

definition LOCAL_MAC :: "u8 list" where "LOCAL_MAC = [0x10, 0xe2, 0xd5, 0x00, 0x00, 0x00]"
definition DEST_MAC :: "u8 list" where "DEST_MAC = [0x98, 0x48, 0x27, 0x51, 0x53, 0x1e]"
definition local_ip :: u32 where "local_ip = IPTOINT 192 168 1 50"
definition local_udp_port :: u32 where "local_udp_port = 8001"
definition dest_ip :: u32 where "dest_ip = IPTOINT 192 168 0 212"
definition dest_udp_port :: u32 where "dest_udp_port = 8002"

record ethernet_header =
  destmac :: "u8 list"
  srcmac :: "u8 list"
  ethertype :: u16

record ip_header =
  version :: u8
  diff_services :: u8
  total_length :: u16
  identification :: u16
  fragment_offset :: u16
  ttl :: u8
  proto :: u8
  ip_checksum :: u16
  src_ip :: u32
  dst_ip :: u32

record udp_header =
  src_port :: u16
  dst_port :: u16
  udp_length :: u16
  udp_checksum :: u16

record ethernet_frame =
  eth :: ethernet_header
  ip :: ip_header
  udp :: udp_header
  payload :: "u8 list"

record checksum_fields =
  cf_src_ip :: u32
  cf_dst_ip :: u32
  cf_zero :: u8
  cf_proto :: u8
  cf_length :: u16

definition ethernet_header_bytes :: "ethernet_header \<Rightarrow> u8 list" where
  "ethernet_header_bytes h = destmac h @ srcmac h @ bytes16 (ethertype h)"

definition ip_header_bytes :: "ip_header \<Rightarrow> u8 list" where
  "ip_header_bytes h =
     [version h, diff_services h] @ bytes16 (total_length h) @ bytes16 (identification h) @
     bytes16 (fragment_offset h) @ [ttl h, proto h] @ bytes16 (ip_checksum h) @
     bytes32 (src_ip h) @ bytes32 (dst_ip h)"

definition udp_header_bytes :: "udp_header \<Rightarrow> u8 list" where
  "udp_header_bytes h =
     bytes16 (src_port h) @ bytes16 (dst_port h) @ bytes16 (udp_length h) @ bytes16 (udp_checksum h)"

definition ethernet_frame_bytes :: "ethernet_frame \<Rightarrow> u8 list" where
  "ethernet_frame_bytes f =
     ethernet_header_bytes (eth f) @ ip_header_bytes (ip f) @ udp_header_bytes (udp f) @ payload f"

definition checksum_fields_bytes :: "checksum_fields \<Rightarrow> u8 list" where
  "checksum_fields_bytes c =
     bytes32 (cf_src_ip c) @ bytes32 (cf_dst_ip c) @ [cf_zero c, cf_proto c] @ bytes16 (cf_length c)"

section \<open>Checksum and CRC\<close>

definition crc_step :: "u32 \<Rightarrow> u32" where
  "crc_step crc = (let mask = - (crc AND 1) in drop_bit 1 crc XOR (0xEDB88320 AND mask))"

definition crc_byte :: "u32 \<Rightarrow> u8 \<Rightarrow> u32" where
  "crc_byte crc byte = (crc_step ^^ 8) (crc XOR ucast byte)"

definition crc32 :: "u8 list \<Rightarrow> u32" where
  "crc32 message = NOT (foldl crc_byte 0xFFFFFFFF message)"

definition checksum_add :: "u32 \<Rightarrow> u8 list \<Rightarrow> u32" where
  "checksum_add r ptr =
     fold (\<lambda>i r. r + (push_bit 8 (ucast (ptr ! (2 * i))) OR ucast (ptr ! (2 * i + 1))))
       [0 ..< length ptr div 2] r"

text \<open>\<open>while (r >> 16) r = (r & 0xffff) + (r >> 16)\<close>\<close>

function fold_carries :: "u32 \<Rightarrow> u32" where
  "fold_carries r = (if drop_bit 16 r \<noteq> 0 then fold_carries ((r AND 0xffff) + drop_bit 16 r) else r)"
  by pat_completeness auto

lemma unat_carry:
  fixes r :: u32
  shows "unat (drop_bit 16 r) = unat r div 65536" "unat (r AND 0xffff) = unat r mod 65536"
    "unat ((r AND 0xffff) + drop_bit 16 r) = unat r mod 65536 + unat r div 65536"
proof -
  have lt: "unat r < 2 ^ LENGTH(32)" by (rule unsigned_less)
  show d: "unat (drop_bit 16 r) = unat r div 65536"
    unfolding unsigned_drop_bit_eq using lt by (simp add: drop_bit_eq_div take_bit_eq_mod)
  have "r AND 0xffff = take_bit 16 r" by (simp add: take_bit_eq_mask mask_eq_exp_minus_1)
  then show m: "unat (r AND 0xffff) = unat r mod 65536"
    by (simp add: take_bit_eq_mod unat_mod)
  have "unat r div 65536 < 65536" using lt by (simp add: less_mult_imp_div_less)
  moreover have "unat r mod 65536 < 65536" by simp
  ultimately show "unat ((r AND 0xffff) + drop_bit 16 r) = unat r mod 65536 + unat r div 65536"
    by (subst unat_add_lem[THEN iffD1]) (simp_all add: d m)
qed

termination fold_carries
proof (relation "measure unat")
  fix r :: u32
  assume "drop_bit 16 r \<noteq> 0"
  then have "unat r div 65536 \<noteq> 0" using unat_carry(1)[of r] by (metis unat_eq_zero)
  then have "unat r mod 65536 + unat r div 65536 < unat r"
    using div_mult_mod_eq[of "unat r" 65536] by linarith
  then show "((r AND 0xffff) + drop_bit 16 r, r) \<in> measure unat" by (simp add: unat_carry(3))
qed simp

declare fold_carries.simps [simp del]

definition checksum :: "u32 \<Rightarrow> u8 list \<Rightarrow> bool \<Rightarrow> u16" where
  "checksum r ptr complete =
     (let r = fold_carries (checksum_add r ptr) in
      ucast (if complete then (let r = NOT r AND 0xffff in if r = 0 then 0xffff else r) else r))"

section \<open>The frame\<close>

definition udp_frame :: "u8 list \<Rightarrow> ethernet_frame" where
  "udp_frame msg =
     \<lparr>eth = \<lparr>destmac = DEST_MAC, srcmac = LOCAL_MAC, ethertype = bswap16 0x0800\<rparr>,
      ip = \<lparr>version = 0x45, diff_services = 0, total_length = bswap16 (of_nat (20 + 8 + length msg)),
            identification = bswap16 0, fragment_offset = bswap16 0x4000, ttl = 64, proto = 0x11,
            ip_checksum = 0, src_ip = bswap32 local_ip, dst_ip = bswap32 dest_ip\<rparr>,
      udp = \<lparr>src_port = bswap16 (ucast local_udp_port), dst_port = bswap16 (ucast dest_udp_port),
             udp_length = bswap16 (of_nat (8 + length msg)), udp_checksum = 0\<rparr>,
      payload = msg\<rparr>"

definition with_ip_checksum :: "ethernet_frame \<Rightarrow> ethernet_frame" where
  "with_ip_checksum f = f\<lparr>ip := (ip f)\<lparr>ip_checksum := bswap16 (checksum 0 (ip_header_bytes (ip f)) True)\<rparr>\<rparr>"

definition udp_pseudo_header :: "ethernet_frame \<Rightarrow> checksum_fields" where
  "udp_pseudo_header f =
     \<lparr>cf_src_ip = src_ip (ip f), cf_dst_ip = dst_ip (ip f), cf_zero = 0, cf_proto = proto (ip f),
      cf_length = udp_length (udp f)\<rparr>"

definition with_udp_checksum :: "ethernet_frame \<Rightarrow> ethernet_frame" where
  "with_udp_checksum f =
     (let r = ucast (checksum 0 (checksum_fields_bytes (udp_pseudo_header f)) False) in
      f\<lparr>udp := (udp f)\<lparr>udp_checksum := bswap16 (checksum r (udp_header_bytes (udp f) @ payload f) True)\<rparr>\<rparr>)"

definition eth_frame :: "u8 list \<Rightarrow> ethernet_frame" where
  "eth_frame msg = with_udp_checksum (with_ip_checksum (udp_frame msg))"

section \<open>Sending\<close>

abbreviation ETHMAC_CSR_START_WRITE :: u32 where "ETHMAC_CSR_START_WRITE \<equiv> 0x18"
abbreviation ETHMAC_CSR_READY :: u32 where "ETHMAC_CSR_READY \<equiv> 0x1C"
abbreviation ETHMAC_CSR_SLOT_WRITE :: u32 where "ETHMAC_CSR_SLOT_WRITE \<equiv> 0x24"
abbreviation ETHMAC_CSR_SLOT_LEN_WRITE :: u32 where "ETHMAC_CSR_SLOT_LEN_WRITE \<equiv> 0x28"

text \<open>The wait for the controller, from its \<open>t\<close>-th read on; \<open>None\<close> when it is never ready.\<close>

partial_function (option) wait_ready :: "(nat \<Rightarrow> u32) \<Rightarrow> nat \<Rightarrow> nat option" where
  "wait_ready ready t = (if ready t \<noteq> 0 then Some t else wait_ready ready (t + 1))"

text \<open>
  What the program leaves behind: the memory, and the writes to the controller in order. The frame
  is copied to the transmit buffer, the CRC is computed over the buffer from its byte 8 on, and put
  behind the frame byte by byte.
\<close>

record eth_device =
  tx_memory :: mem
  csr_writes :: "(u32 \<times> u32) list"

definition udp_main :: "platform \<Rightarrow> (nat \<Rightarrow> u32) \<Rightarrow> mem \<Rightarrow> u8 list \<Rightarrow> eth_device res" where
  "udp_main plat ready m msg =
     (if odd (length msg) then Inl (FATAL ''Please send a message with even length'')
      else let frame = ethernet_frame_bytes (eth_frame msg) in
        if plat = QEMU then Inr \<lparr>tx_memory = m, csr_writes = []\<rparr>
        else
          let m = memcpy_in m ETHMAC_TX_BUFFER frame;
              txlen = length frame;
              crc = crc32 (memcpy_out m (ETHMAC_TX_BUFFER + 8) (txlen - 8));
              m = memcpy_in m (ETHMAC_TX_BUFFER + of_nat txlen) (bytes32 crc);
              txlen = txlen + 4 in
          case wait_ready ready 0 of
            None \<Rightarrow> Inl Diverge
          | Some _ \<Rightarrow> Inr \<lparr>tx_memory = m,
               csr_writes = [(ETHMAC_CSR_SLOT_WRITE, 0), (ETHMAC_CSR_SLOT_LEN_WRITE, of_nat txlen),
                             (ETHMAC_CSR_START_WRITE, 1)]\<rparr>)"

end
