(* ===== verification/Udp_Correct.thy ===== *)
theory Udp_Correct
  imports Udp
begin

text \<open>
  The CRC is the bit-serial CRC of the Ethernet standard and detects every error burst of up to 32
  bits.
\<close>

section \<open>The CRC as a shift register\<close>

text \<open>The register takes the bits of the message one by one, least significant first.\<close>

definition crc_bit :: "u32 \<Rightarrow> bool \<Rightarrow> u32" where
  "crc_bit crc b = (if bit crc 0 \<noteq> b then drop_bit 1 crc XOR 0xEDB88320 else drop_bit 1 crc)"

definition byte_bits :: "u8 \<Rightarrow> bool list" where
  "byte_bits byte = map (bit byte) [0 ..< 8]"

lemma crc_step_if: "crc_step x = (if bit x 0 then drop_bit 1 x XOR 0xEDB88320 else drop_bit 1 x)"
proof -
  have "x AND 1 = of_bool (bit x 0)" by (simp add: and_one_eq bit_0 mod_2_eq_odd)
  then show ?thesis by (simp add: crc_step_def Let_def)
qed

lemma crc_step_xor: "crc_step (x XOR y) = crc_step x XOR crc_step y"
  by (simp add: crc_step_if bit_simps drop_bit_xor ac_simps)

lemma crc_steps_xor: "(crc_step ^^ n) (x XOR y) = (crc_step ^^ n) x XOR (crc_step ^^ n) y"
  by (induction n) (simp_all add: crc_step_xor)

lemma crc_step_of_bool: "crc_step (r XOR of_bool b) = crc_bit r b"
proof -
  have "drop_bit 1 (r XOR of_bool b) = drop_bit 1 r" by (cases b) (simp_all add: drop_bit_xor)
  then show ?thesis by (cases b) (simp_all add: crc_step_if crc_bit_def bit_simps)
qed

lemma crc_steps_push: "n < 32 \<Longrightarrow> (crc_step ^^ n) (push_bit n (of_bool b)) = of_bool b"
proof (induction n)
  case (Suc n)
  have "crc_step (push_bit (Suc n) (of_bool b)) = push_bit n (of_bool b)"
  proof -
    have "\<not> bit (push_bit (Suc n) (of_bool b) :: u32) 0" by (simp add: bit_simps)
    moreover have "drop_bit 1 (push_bit (Suc n) (of_bool b) :: u32) = push_bit n (of_bool b)"
      using Suc.prems by (intro bit_word_eqI) (auto simp: bit_simps)
    ultimately show ?thesis by (simp add: crc_step_if)
  qed
  then show ?case using Suc by (simp add: funpow_Suc_right del: funpow.simps)
qed simp

lemma crc_steps_bits: "n \<le> 32 \<Longrightarrow> (crc_step ^^ n) (r XOR take_bit n w) = foldl crc_bit r (map (bit w) [0 ..< n])"
proof (induction n)
  case (Suc n)
  have t: "take_bit (Suc n) w = take_bit n w XOR push_bit n (of_bool (bit w n))"
    by (rule bit_word_eqI) (auto simp: bit_simps less_Suc_eq)
  have "(crc_step ^^ Suc n) (r XOR take_bit (Suc n) w) =
      crc_step ((crc_step ^^ n) (r XOR take_bit n w) XOR (crc_step ^^ n) (push_bit n (of_bool (bit w n))))"
    unfolding t by (simp flip: crc_steps_xor add: xor.assoc)
  also have "\<dots> = crc_bit (foldl crc_bit r (map (bit w) [0 ..< n])) (bit w n)"
    using Suc by (simp add: crc_steps_push crc_step_of_bool)
  finally show ?case by simp
qed simp

lemma crc_byte_bits: "crc_byte r b = foldl crc_bit r (byte_bits b)"
proof -
  have "take_bit 8 (ucast b :: u32) = ucast b" by (rule bit_word_eqI) (auto simp: bit_simps dest: bit_imp_le_length)
  moreover have "map (bit (ucast b :: u32)) [0 ..< 8] = byte_bits b" by (simp add: byte_bits_def bit_simps)
  ultimately show ?thesis using crc_steps_bits[of 8 r "ucast b"] by (simp add: crc_byte_def)
qed

lemma crc_bytes_bits: "foldl crc_byte r bs = foldl crc_bit r (concat (map byte_bits bs))"
  by (induction bs arbitrary: r) (simp_all add: crc_byte_bits)

lemma crc_word: "foldl crc_byte r (bytes32 w) = (crc_step ^^ 32) (r XOR w)"
proof -
  have b: "byte_bits (byte_of i w) = map (bit w) [8 * i ..< 8 * i + 8]" if "i < 4" for i
    using that by (simp add: byte_bits_def bit_byte_of list_eq_iff_nth_eq)
  have "[0 ..< 32] = [8 * 0 ..< 8 * 0 + 8] @ [8 * 1 ..< 8 * 1 + 8] @ [8 * 2 ..< 8 * 2 + 8] @ [8 * 3 ..< 8 * 3 + 8 :: nat]"
    by code_simp
  then have "map (bit w) [0 ..< 32] = concat (map byte_bits (bytes32 w))"
    using b[of 0] b[of 1] b[of 2] b[of 3] by (simp add: bytes32_def)
  moreover have "take_bit 32 w = w" by (rule bit_word_eqI) (simp add: bit_simps)
  ultimately show ?thesis using crc_steps_bits[of 32 r w] by (simp add: crc_bytes_bits)
qed

text \<open>C32: crc32, which xors whole bytes into the register and shifts eight times with a mask, is
  the bit-serial CRC-32 of the Ethernet standard.\<close>

theorem crc32_bit_serial: "crc32 message = NOT (foldl crc_bit 0xFFFFFFFF (concat (map byte_bits message)))"
  by (simp add: crc32_def crc_bytes_bits)

lemma crc_step_inj: "crc_step x = crc_step y \<Longrightarrow> x = y"
proof (rule bit_word_eqI)
  fix n
  assume e: "crc_step x = crc_step y" and n: "n < LENGTH(32)"
  have b: "bit (crc_step z) k = (bit z (Suc k) \<noteq> (bit z 0 \<and> bit (0xEDB88320 :: u32) k))" for z k
    by (simp add: crc_step_if bit_simps)
  have "bit z 0 = bit (crc_step z) 31" for z :: u32
    using bit_imp_le_length[of z 32] by (auto simp: b)
  then have z: "bit x 0 = bit y 0" using e by simp
  show "bit x n = bit y n"
  proof (cases n)
    case (Suc k)
    then show ?thesis using arg_cong[OF e, of "\<lambda>v. bit v k"] z by (simp add: b) blast
  qed (use z in simp)
qed

lemma crc_steps_inj: "(crc_step ^^ n) x = (crc_step ^^ n) y \<Longrightarrow> x = y"
  by (induction n) (auto dest: crc_step_inj)

lemma xor_cancel: "x XOR z = y XOR z \<longleftrightarrow> x = y" "z XOR x = z XOR y \<longleftrightarrow> x = y" for x y z :: u32
proof -
  have e: "(v XOR z) XOR z = v" for v :: u32 by (simp only: xor.assoc xor_self_eq xor.right_neutral)
  show r: "x XOR z = y XOR z \<longleftrightarrow> x = y" by (metis e)
  show "z XOR x = z XOR y \<longleftrightarrow> x = y" unfolding xor.commute[of z] by (rule r)
qed

lemma crc_bits_inj: "foldl crc_bit x bs = foldl crc_bit y bs \<Longrightarrow> x = y"
proof (induction bs arbitrary: x y)
  case (Cons b bs)
  have "crc_bit x b = crc_bit y b" by (rule Cons.IH) (use Cons.prems in simp)
  then have "x XOR of_bool b = y XOR of_bool b" unfolding crc_step_of_bool[symmetric] by (rule crc_step_inj)
  then show ?case by (simp only: xor_cancel)
qed simp

text \<open>From one state of the register, two different sequences of at most 32 bits lead to different states.\<close>

lemma crc_window_inj:
  assumes "foldl crc_bit r bs = foldl crc_bit r cs" "length cs = length bs" "length bs \<le> 32"
  shows "bs = cs"
proof -
  define u v where "u = (horner_sum of_bool 2 bs :: u32)" and "v = (horner_sum of_bool 2 cs :: u32)"
  have bits: "map (bit u) [0 ..< length bs] = bs" "map (bit v) [0 ..< length bs] = cs"
    using assms(2,3) by (auto simp: u_def v_def bit_horner_sum_bit_word_iff intro!: nth_equalityI)
  have "(crc_step ^^ length bs) (r XOR take_bit (length bs) u) = (crc_step ^^ length bs) (r XOR take_bit (length bs) v)"
    using assms(1,3) by (simp only: crc_steps_bits bits)
  then have "r XOR take_bit (length bs) u = r XOR take_bit (length bs) v" by (rule crc_steps_inj)
  then have t: "take_bit (length bs) u = take_bit (length bs) v" by (simp only: xor_cancel)
  have "bit u i = bit v i" if "i < length bs" for i
    using arg_cong[OF t, of "\<lambda>w. bit w i"] that by (simp add: bit_take_bit_iff)
  then have "map (bit u) [0 ..< length bs] = map (bit v) [0 ..< length bs]" by simp
  then show ?thesis by (simp only: bits)
qed

text \<open>The bits of a message in the order in which they are sent.\<close>

lemma length_bits: "length (concat (map byte_bits msg)) = 8 * length msg"
  by (induction msg) (simp_all add: byte_bits_def)

lemma nth_bits: "i < 8 * length msg \<Longrightarrow> concat (map byte_bits msg) ! i = bit (msg ! (i div 8)) (i mod 8)"
proof (induction msg arbitrary: i)
  case (Cons b msg)
  show ?case
  proof (cases "i < 8")
    case False
    then obtain j where "i = 8 + j" using le_Suc_ex by (metis not_less)
    then show ?thesis using Cons by (simp add: byte_bits_def nth_append div_add_self1)
  qed (simp add: byte_bits_def nth_append)
qed simp

lemma bits_inj: "concat (map byte_bits msg) = concat (map byte_bits msg') \<Longrightarrow> msg = msg'"
proof (rule nth_equalityI)
  assume e: "concat (map byte_bits msg) = concat (map byte_bits msg')"
  show l: "length msg = length msg'" using arg_cong[OF e, of length] by (simp add: length_bits)
  fix k assume k: "k < length msg"
  show "msg ! k = msg' ! k"
  proof (rule bit_word_eqI)
    fix j assume "j < LENGTH(8)"
    then have "j < 8" "8 * k + j < 8 * length msg" using k by simp_all
    then show "bit (msg ! k) j = bit (msg' ! k) j"
      using nth_bits[of "8 * k + j" msg] nth_bits[of "8 * k + j" msg'] e l by simp
  qed
qed

lemma crc_burst:
  assumes "foldl crc_bit r bs = foldl crc_bit r cs" "length cs = length bs"
    and d: "\<And>i. i < length bs \<Longrightarrow> bs ! i \<noteq> cs ! i \<Longrightarrow> s \<le> i \<and> i < s + 32"
  shows "bs = cs"
proof -
  let ?m = "\<lambda>xs. take 32 (drop s xs)"
  have split: "xs = take s xs @ ?m xs @ drop (s + 32) xs" for xs :: "bool list"
    by (metis append_take_drop_id drop_drop add.commute)
  have a: "take s cs = take s bs" by (rule nth_equalityI) (use assms(2) d in fastforce)+
  have z: "drop (s + 32) cs = drop (s + 32) bs"
  proof (rule nth_equalityI)
    fix i assume "i < length (drop (s + 32) cs)"
    then have "s + 32 + i < length bs" using assms(2) by (simp add: less_diff_conv add.commute)
    then show "drop (s + 32) cs ! i = drop (s + 32) bs ! i" using d[of "s + 32 + i"] assms(2) by auto
  qed (simp add: assms(2))
  let ?r = "foldl crc_bit r (take s bs)"
  have "foldl crc_bit (foldl crc_bit ?r (?m bs)) (drop (s + 32) bs) = foldl crc_bit (foldl crc_bit ?r (?m cs)) (drop (s + 32) bs)"
    using assms(1) a z by (metis split foldl_append)
  then have "foldl crc_bit ?r (?m bs) = foldl crc_bit ?r (?m cs)" by (rule crc_bits_inj)
  then have "?m bs = ?m cs" by (rule crc_window_inj) (simp_all add: assms(2))
  then show ?thesis using a z split by metis
qed

lemma crc_step_numeral: "crc_step (numeral n) = (if even (numeral n :: u32) then drop_bit 1 (numeral n) else drop_bit 1 (numeral n) XOR 0xEDB88320)"
  by (simp add: crc_step_if bit_0)

lemma crc_residue: "(crc_step ^^ 32) (- 1) = 0xDEBB20E3"
proof -
  have f8: "(f ^^ 8) x = f (f (f (f (f (f (f (f x)))))))" for f and x :: u32 by (simp add: numeral_eq_Suc)
  have s0: "(crc_step ^^ 8) 0xFFFFFFFF = 0x2DFD1072" by (simp add: f8 crc_step_numeral)
  have s1: "(crc_step ^^ 8) 0x2DFD1072 = 0xBE26ED00" by (simp add: f8 crc_step_numeral)
  have s2: "(crc_step ^^ 8) 0xBE26ED00 = 0xBE26ED" by (simp add: f8 crc_step_numeral)
  have s3: "(crc_step ^^ 8) 0xBE26ED = 0xDEBB20E3" by (simp add: f8 crc_step_numeral)
  have "(crc_step ^^ 32) x = (crc_step ^^ 8) ((crc_step ^^ 8) ((crc_step ^^ 8) ((crc_step ^^ 8) x)))" for x
    unfolding funpow_add[THEN fun_cong, unfolded o_apply, symmetric] by simp
  moreover have "(- 1 :: u32) = 0xFFFFFFFF" by simp
  ultimately show ?thesis by (simp only: s0 s1 s2 s3)
qed

text \<open>C33: A receiver notices every error burst of up to 32 bits. Number the bits of a message in the
  order in which they are sent, the least significant bit of a byte first. Two different messages of
  the same length that differ only within some 32 consecutive bits, at any position and not only at a
  byte boundary, have different CRCs. And the CRC over a message followed by its own CRC is the
  constant that receivers test for.\<close>

theorem crc32_detects_burst:
  assumes "length msg' = length msg" "msg \<noteq> msg'"
    and "\<forall>i < 8 * length msg. bit (msg ! (i div 8)) (i mod 8) \<noteq> bit (msg' ! (i div 8)) (i mod 8) \<longrightarrow> s \<le> i \<and> i < s + 32"
  shows "crc32 msg \<noteq> crc32 msg' \<and> crc32 (msg @ bytes32 (crc32 msg)) = 0x2144DF1C"
proof
  show "crc32 msg \<noteq> crc32 msg'"
  proof
    assume "crc32 msg = crc32 msg'"
    then have "foldl crc_bit 0xFFFFFFFF (concat (map byte_bits msg)) = foldl crc_bit 0xFFFFFFFF (concat (map byte_bits msg'))"
      by (simp add: crc32_def crc_bytes_bits)
    then have "concat (map byte_bits msg) = concat (map byte_bits msg')"
      by (rule crc_burst[where s = s]) (use assms(1,3) in \<open>simp_all add: length_bits nth_bits\<close>)
    then show False using assms(2) bits_inj by blast
  qed
  have "r XOR NOT r = - 1" for r :: u32 by (rule bit_word_eqI) (simp add: bit_simps)
  then show "crc32 (msg @ bytes32 (crc32 msg)) = 0x2144DF1C"
    by (simp add: crc32_def crc_word crc_residue)
qed

text \<open>Bit 7 of the first byte and bit 0 of the fifth: 26 bits over five bytes.\<close>

theorem crc32_detects_burst_witness:
  "crc32 [0x80, 7, 7, 7, 1, 9] \<noteq> crc32 [0, 7, 7, 7, 0, 9]"
proof -
  have "7 \<le> i \<and> i < 7 + 32"
    if i: "i < 48" "bit ([0x80, 7, 7, 7, 1, 9 :: u8] ! (i div 8)) (i mod 8) \<noteq> bit ([0, 7, 7, 7, 0, 9 :: u8] ! (i div 8)) (i mod 8)" for i
  proof -
    have "\<forall>i \<in> set [0 ..< 48]. bit ([0x80, 7, 7, 7, 1, 9 :: u8] ! (i div 8)) (i mod 8) \<noteq> bit ([0, 7, 7, 7, 0, 9 :: u8] ! (i div 8)) (i mod 8) \<longrightarrow> 7 \<le> i \<and> i < 7 + 32"
      by code_simp
    then show ?thesis using i by (simp only: atLeast_upt[symmetric] lessThan_iff) simp
  qed
  then show ?thesis using crc32_detects_burst[of "[0, 7, 7, 7, 0, 9]" "[0x80, 7, 7, 7, 1, 9]" 7] by simp
qed

end
