(* ===== verification/Mmu.thy ===== *)
theory Mmu
  imports Machine
begin

text \<open>
  earth/cpu_mmu.c, first half: the allocator of memory pages, and the software TLB, which
  gives each process its own pages at the same addresses by copying them in and out of the
  user address space at a switch. The state is \<open>page_info_table\<close>, the static \<open>curr_vm_pid\<close>
  of \<open>soft_tlb_switch\<close>, and memory.
\<close>

section \<open>State\<close>

abbreviation APPS_PAGES_CNT :: nat where
  "APPS_PAGES_CNT \<equiv> 2048"

record page_info =
  use :: i32
  pi_pid :: i32
  vpage_no :: u32

text \<open>
  \<open>pt_root\<close>, \<open>pt_leaf\<close> (\<open>root\<close> and \<open>leaf\<close> in the source) and \<open>pid_to_pagetable_base\<close>
  belong to the page tables of Pagetable; \<open>satp\<close>, \<open>pmpaddr0\<close> and \<open>pmpcfg0\<close> are CSRs.
\<close>

record mmu_state =
  page_info_table :: "page_info list"
  curr_vm_pid :: i32
  memory :: mem
  pt_root :: addr
  pt_leaf :: addr
  pid_to_pagetable_base :: "addr list"
  satp :: u32
  pmpaddr0 :: u32
  pmpcfg0 :: u32
  platform :: platform
  translation :: translation

definition PAGE_NO_TO_ADDR :: "u32 \<Rightarrow> addr" where
  "PAGE_NO_TO_ADDR x = x * 4096"

definition PAGE_ID_TO_ADDR :: "u32 \<Rightarrow> addr" where
  "PAGE_ID_TO_ADDR x = APPS_PAGES_BASE + x * 4096"

section \<open>Operations\<close>

definition mmu_alloc :: "mmu_state \<Rightarrow> (u32 \<times> mmu_state) res" where
  "mmu_alloc st =
     (case find (\<lambda>i. use (page_info_table st ! i) = 0) [0 ..< APPS_PAGES_CNT] of
        Some i \<Rightarrow> Inr (of_nat i, st\<lparr>page_info_table :=
          (page_info_table st)[i := (page_info_table st ! i)\<lparr>use := 1\<rparr>]\<rparr>)
      | None \<Rightarrow> Inl (FATAL ''mmu_alloc: no more free memory''))"

definition free_page :: page_info where
  "free_page = \<lparr>use = 0, pi_pid = 0, vpage_no = 0\<rparr>"

definition mmu_free :: "i32 \<Rightarrow> mmu_state \<Rightarrow> mmu_state" where
  "mmu_free pid st = st\<lparr>page_info_table :=
     map (\<lambda>p. if use p \<noteq> 0 \<and> pi_pid p = pid then free_page else p) (page_info_table st)\<rparr>"

definition soft_tlb_map :: "i32 \<Rightarrow> u32 \<Rightarrow> u32 \<Rightarrow> mmu_state \<Rightarrow> mmu_state res" where
  "soft_tlb_map pid vpage ppage_id st =
     (if unat ppage_id < APPS_PAGES_CNT then
        Inr (st\<lparr>page_info_table := (page_info_table st)[unat ppage_id :=
          (page_info_table st ! unat ppage_id)\<lparr>pi_pid := pid, vpage_no := vpage\<rparr>]\<rparr>)
      else Inl (Undef ''page_info_table''))"

text \<open>The two loops of \<open>soft_tlb_switch\<close>.\<close>

definition unmap_loop :: "page_info list \<Rightarrow> i32 \<Rightarrow> mem \<Rightarrow> mem" where
  "unmap_loop tbl pid m = fold (\<lambda>i m.
     if use (tbl ! i) \<noteq> 0 \<and> pi_pid (tbl ! i) = pid
     then memcpy m (PAGE_ID_TO_ADDR (of_nat i)) (PAGE_NO_TO_ADDR (vpage_no (tbl ! i))) PAGE_SIZE
     else m) [0 ..< APPS_PAGES_CNT] m"

definition map_loop :: "page_info list \<Rightarrow> i32 \<Rightarrow> mem \<Rightarrow> mem" where
  "map_loop tbl pid m = fold (\<lambda>i m.
     if use (tbl ! i) \<noteq> 0 \<and> pi_pid (tbl ! i) = pid
     then memcpy m (PAGE_NO_TO_ADDR (vpage_no (tbl ! i))) (PAGE_ID_TO_ADDR (of_nat i)) PAGE_SIZE
     else m) [0 ..< APPS_PAGES_CNT] m"

definition soft_tlb_switch :: "i32 \<Rightarrow> mmu_state \<Rightarrow> mmu_state" where
  "soft_tlb_switch pid st =
     (if pid = curr_vm_pid st then st
      else
        let m = unmap_loop (page_info_table st) (curr_vm_pid st) (memory st);
            m = map_loop (page_info_table st) pid m in
        st\<lparr>memory := m, curr_vm_pid := pid\<rparr>)"

definition soft_tlb_translate :: "i32 \<Rightarrow> addr \<Rightarrow> mmu_state \<Rightarrow> addr \<times> mmu_state" where
  "soft_tlb_translate pid vaddr st = (vaddr, soft_tlb_switch pid st)"

text \<open>
  The page table variants of the three functions end in the same calls. The interface
  \<open>earth\<close> has one set or the other, by the translation chosen at boot.
\<close>

definition page_table_map :: "i32 \<Rightarrow> u32 \<Rightarrow> u32 \<Rightarrow> mmu_state \<Rightarrow> mmu_state res" where
  "page_table_map pid vpage ppage_id st =
     (if 256 \<le>s pid then Inl (FATAL ''page_table_map: pid too large'')
      else soft_tlb_map pid vpage ppage_id st)"

definition page_table_switch :: "i32 \<Rightarrow> mmu_state \<Rightarrow> mmu_state" where
  "page_table_switch pid st = soft_tlb_switch pid st"

definition page_table_translate :: "i32 \<Rightarrow> addr \<Rightarrow> mmu_state \<Rightarrow> addr \<times> mmu_state" where
  "page_table_translate pid vaddr st = soft_tlb_translate pid vaddr st"

definition mmu_map :: "i32 \<Rightarrow> u32 \<Rightarrow> u32 \<Rightarrow> mmu_state \<Rightarrow> mmu_state res" where
  "mmu_map pid vpage ppage_id st =
     (if translation st = PAGE_TABLE then page_table_map pid vpage ppage_id st
      else soft_tlb_map pid vpage ppage_id st)"

definition mmu_switch :: "i32 \<Rightarrow> mmu_state \<Rightarrow> mmu_state" where
  "mmu_switch pid st =
     (if translation st = PAGE_TABLE then page_table_switch pid st else soft_tlb_switch pid st)"

definition mmu_translate :: "i32 \<Rightarrow> addr \<Rightarrow> mmu_state \<Rightarrow> addr \<times> mmu_state" where
  "mmu_translate pid vaddr st =
     (if translation st = PAGE_TABLE then page_table_translate pid vaddr st
      else soft_tlb_translate pid vaddr st)"

lemma mmu_switch_eq [simp]: "mmu_switch pid st = soft_tlb_switch pid st"
  by (simp add: mmu_switch_def page_table_switch_def)

lemma mmu_translate_eq [simp]: "mmu_translate pid vaddr st = (vaddr, soft_tlb_switch pid st)"
  by (simp add: mmu_translate_def page_table_translate_def soft_tlb_translate_def)

section \<open>What a process sees\<close>

text \<open>Page number of page \<open>i\<close> of \<open>page_info_table\<close>; the pages user programs live in.\<close>

definition frame_page :: "nat \<Rightarrow> nat" where
  "frame_page i = 0x80800 + i"

definition user_page :: "u32 \<Rightarrow> bool" where
  "user_page v \<longleftrightarrow> 0x80400 \<le> unat v \<and> unat v < 0x80800"

text \<open>
  \<open>frame_of st pid v\<close> is the page of memory behind virtual page \<open>v\<close> of a process, and \<open>view\<close>
  its contents: in place for the process that is mapped, in the page otherwise.
\<close>

definition frame_of :: "mmu_state \<Rightarrow> i32 \<Rightarrow> u32 \<Rightarrow> nat option" where
  "frame_of st pid v = find (\<lambda>i. let p = page_info_table st ! i in
     use p \<noteq> 0 \<and> pi_pid p = pid \<and> vpage_no p = v) [0 ..< APPS_PAGES_CNT]"

definition view :: "mmu_state \<Rightarrow> i32 \<Rightarrow> u32 \<Rightarrow> u8 list option" where
  "view st pid v = map_option (\<lambda>i. page_bytes (memory st)
     (if curr_vm_pid st = pid then unat v else frame_page i)) (frame_of st pid v)"

text \<open>
  Process 0 does not exist: pages allocated and not yet mapped have \<open>pid\<close> 0, and so have the
  page tables. A page mapped for a process is a user page, and no two are the same; a page
  that is not in use belongs to nobody.
\<close>

definition mapped :: "page_info \<Rightarrow> bool" where
  "mapped p \<longleftrightarrow> use p \<noteq> 0 \<and> pi_pid p \<noteq> 0"

definition vm_wf :: "mmu_state \<Rightarrow> bool" where
  "vm_wf st \<longleftrightarrow>
     (let tbl = page_info_table st in
      length tbl = APPS_PAGES_CNT \<and> curr_vm_pid st \<noteq> 0 \<and>
      (\<forall>i < APPS_PAGES_CNT. use (tbl ! i) = 0 \<longrightarrow> pi_pid (tbl ! i) = 0) \<and>
      (\<forall>i < APPS_PAGES_CNT. mapped (tbl ! i) \<longrightarrow> user_page (vpage_no (tbl ! i)) \<and>
        (\<forall>j < APPS_PAGES_CNT. mapped (tbl ! j) \<and> pi_pid (tbl ! j) = pi_pid (tbl ! i) \<and>
           vpage_no (tbl ! j) = vpage_no (tbl ! i) \<longrightarrow> i = j)))"

lemma PAGE_NO_TO_ADDR_page: "PAGE_NO_TO_ADDR v = page_addr (unat v)"
  by (simp add: PAGE_NO_TO_ADDR_def page_addr_def)

lemma PAGE_ID_TO_ADDR_page: "PAGE_ID_TO_ADDR (of_nat i) = page_addr (frame_page i)"
  by (simp add: PAGE_ID_TO_ADDR_def page_addr_def frame_page_def distrib_right)

lemma frame_page_less: "i < APPS_PAGES_CNT \<Longrightarrow> frame_page i < 2 ^ 20"
  by (simp add: frame_page_def)

lemma user_page_less: "user_page v \<Longrightarrow> unat v < 2 ^ 20 \<and> unat v \<noteq> frame_page i"
  by (auto simp: user_page_def frame_page_def)

lemma frame_page_eq [simp]: "frame_page i = frame_page j \<longleftrightarrow> i = j"
  by (simp add: frame_page_def)

section \<open>Copying pages\<close>

definition copy_pages :: "(nat \<Rightarrow> bool) \<Rightarrow> (nat \<Rightarrow> nat) \<Rightarrow> (nat \<Rightarrow> nat) \<Rightarrow> nat list \<Rightarrow> mem \<Rightarrow> mem" where
  "copy_pages P f g xs m =
     fold (\<lambda>i m. if P i then memcpy m (page_addr (f i)) (page_addr (g i)) PAGE_SIZE else m) xs m"

lemma copy_pages_Cons:
  "copy_pages P f g (x # xs) m = copy_pages P f g xs
     (if P x then memcpy m (page_addr (f x)) (page_addr (g x)) PAGE_SIZE else m)"
  by (simp add: copy_pages_def)

text \<open>A loop of page copies whose targets are distinct and are not sources.\<close>

lemma copy_pages_other:
  assumes "\<And>i. i \<in> set xs \<Longrightarrow> P i \<Longrightarrow> f i < 2 ^ 20 \<and> f i \<noteq> q" "q < 2 ^ 20"
  shows "page_bytes (copy_pages P f g xs m) q = page_bytes m q"
  using assms
proof (induction xs arbitrary: m)
  case (Cons x xs)
  let ?m = "if P x then memcpy m (page_addr (f x)) (page_addr (g x)) PAGE_SIZE else m"
  have "page_bytes ?m q = page_bytes m q" using Cons.prems by auto
  with Cons show ?case by (simp add: copy_pages_Cons)
qed (simp add: copy_pages_def)

lemma copy_pages_target:
  assumes "distinct xs" "i \<in> set xs" "P i"
    and "\<And>i. i \<in> set xs \<Longrightarrow> P i \<Longrightarrow> f i < 2 ^ 20 \<and> g i < 2 ^ 20"
    and "\<And>i j. i \<in> set xs \<Longrightarrow> j \<in> set xs \<Longrightarrow> P i \<Longrightarrow> P j \<Longrightarrow> f i \<noteq> g j"
    and "\<And>i j. i \<in> set xs \<Longrightarrow> j \<in> set xs \<Longrightarrow> P i \<Longrightarrow> P j \<Longrightarrow> f i = f j \<Longrightarrow> i = j"
  shows "page_bytes (copy_pages P f g xs m) (f i) = page_bytes m (g i)"
  using assms
proof (induction xs arbitrary: m)
  case (Cons x xs)
  let ?m = "if P x then memcpy m (page_addr (f x)) (page_addr (g x)) PAGE_SIZE else m"
  show ?case
  proof (cases "i = x")
    case True
    have "f j \<noteq> f i" if "j \<in> set xs" "P j" for j
      using Cons.prems(1,3) Cons.prems(6)[of j i] that True by auto
    then have "page_bytes (copy_pages P f g xs ?m) (f i) = page_bytes ?m (f i)"
      using Cons.prems(2-4) by (intro copy_pages_other) auto
    with True Cons.prems(2-4) show ?thesis by (simp add: copy_pages_Cons)
  next
    case False
    then have "page_bytes (copy_pages P f g xs ?m) (f i) = page_bytes ?m (g i)"
      using Cons.prems by (intro Cons.IH) auto
    moreover have "page_bytes ?m (g i) = page_bytes m (g i)"
      using Cons.prems(2-4) Cons.prems(5)[of x i] by auto
    ultimately show ?thesis by (simp add: copy_pages_Cons)
  qed
qed simp

lemma unmap_loop_pages:
  "unmap_loop tbl pid m = copy_pages (\<lambda>i. use (tbl ! i) \<noteq> 0 \<and> pi_pid (tbl ! i) = pid)
     frame_page (\<lambda>i. unat (vpage_no (tbl ! i))) [0 ..< APPS_PAGES_CNT] m"
  by (simp only: unmap_loop_def copy_pages_def PAGE_ID_TO_ADDR_page PAGE_NO_TO_ADDR_page)

lemma map_loop_pages:
  "map_loop tbl pid m = copy_pages (\<lambda>i. use (tbl ! i) \<noteq> 0 \<and> pi_pid (tbl ! i) = pid)
     (\<lambda>i. unat (vpage_no (tbl ! i))) frame_page [0 ..< APPS_PAGES_CNT] m"
  by (simp only: map_loop_def copy_pages_def PAGE_ID_TO_ADDR_page PAGE_NO_TO_ADDR_page)

section \<open>Switching\<close>

lemma frame_ofD:
  assumes "frame_of st pid v = Some i"
  shows "i < APPS_PAGES_CNT" "use (page_info_table st ! i) \<noteq> 0" "pi_pid (page_info_table st ! i) = pid"
    "vpage_no (page_info_table st ! i) = v"
  using assms by (auto simp: frame_of_def find_Some_iff Let_def)

lemma vm_wfD:
  assumes "vm_wf st" "i < APPS_PAGES_CNT" "use (page_info_table st ! i) \<noteq> 0"
    "pi_pid (page_info_table st ! i) = pid" "pid \<noteq> 0"
  shows "user_page (vpage_no (page_info_table st ! i))"
    "j < APPS_PAGES_CNT \<Longrightarrow> use (page_info_table st ! j) \<noteq> 0 \<Longrightarrow> pi_pid (page_info_table st ! j) = pid \<Longrightarrow>
     vpage_no (page_info_table st ! j) = vpage_no (page_info_table st ! i) \<Longrightarrow> i = j"
  using assms by (auto simp: vm_wf_def Let_def mapped_def)

text \<open>After the first loop every page of the old process is in its own frame.\<close>

lemma unmap_loop_correct:
  assumes wf: "vm_wf st" and pid: "curr_vm_pid st = pid"
  defines "m' \<equiv> unmap_loop (page_info_table st) pid (memory st)"
  shows "i < APPS_PAGES_CNT \<Longrightarrow> use (page_info_table st ! i) \<noteq> 0 \<Longrightarrow> pi_pid (page_info_table st ! i) = pid \<Longrightarrow>
      page_bytes m' (frame_page i) = page_bytes (memory st) (unat (vpage_no (page_info_table st ! i)))"
    "i < APPS_PAGES_CNT \<Longrightarrow> \<not> (use (page_info_table st ! i) \<noteq> 0 \<and> pi_pid (page_info_table st ! i) = pid) \<Longrightarrow>
      page_bytes m' (frame_page i) = page_bytes (memory st) (frame_page i)"
proof -
  have nz: "pid \<noteq> 0" using wf pid by (auto simp: vm_wf_def Let_def)
  note wfD = vm_wfD(1)[OF wf _ _ _ nz]
  show "page_bytes m' (frame_page i) = page_bytes (memory st) (unat (vpage_no (page_info_table st ! i)))"
    if "i < APPS_PAGES_CNT" "use (page_info_table st ! i) \<noteq> 0" "pi_pid (page_info_table st ! i) = pid"
    unfolding m'_def unmap_loop_pages using that wfD user_page_less frame_page_less
    by (intro copy_pages_target) (auto, metis user_page_less)
  show "page_bytes m' (frame_page i) = page_bytes (memory st) (frame_page i)"
    if "i < APPS_PAGES_CNT" "\<not> (use (page_info_table st ! i) \<noteq> 0 \<and> pi_pid (page_info_table st ! i) = pid)"
    unfolding m'_def unmap_loop_pages using that frame_page_less
    by (intro copy_pages_other) auto
qed

text \<open>After the second loop every page of the new process is in place, and no frame changed.\<close>

lemma map_loop_correct:
  assumes wf: "vm_wf st" and nz: "pid \<noteq> 0"
  shows "i < APPS_PAGES_CNT \<Longrightarrow> use (page_info_table st ! i) \<noteq> 0 \<Longrightarrow> pi_pid (page_info_table st ! i) = pid \<Longrightarrow>
      page_bytes (map_loop (page_info_table st) pid m) (unat (vpage_no (page_info_table st ! i))) = page_bytes m (frame_page i)"
    "i < APPS_PAGES_CNT \<Longrightarrow> page_bytes (map_loop (page_info_table st) pid m) (frame_page i) = page_bytes m (frame_page i)"
proof -
  note wfD = vm_wfD[OF wf _ _ _ nz]
  have inj: "i = j" if "unat (vpage_no (page_info_table st ! i)) = unat (vpage_no (page_info_table st ! j))"
    "i < APPS_PAGES_CNT" "use (page_info_table st ! i) \<noteq> 0" "pi_pid (page_info_table st ! i) = pid"
    "j < APPS_PAGES_CNT" "use (page_info_table st ! j) \<noteq> 0" "pi_pid (page_info_table st ! j) = pid" for i j
    using wfD(2)[of i j] that by (simp add: word_unat_eq_iff)
  show "page_bytes (map_loop (page_info_table st) pid m) (unat (vpage_no (page_info_table st ! i))) = page_bytes m (frame_page i)"
    if "i < APPS_PAGES_CNT" "use (page_info_table st ! i) \<noteq> 0" "pi_pid (page_info_table st ! i) = pid"
    unfolding map_loop_pages using that wfD(1) user_page_less frame_page_less inj
    by (intro copy_pages_target) auto
  show "page_bytes (map_loop (page_info_table st) pid m) (frame_page i) = page_bytes m (frame_page i)" if "i < APPS_PAGES_CNT"
    unfolding map_loop_pages using that wfD(1) user_page_less frame_page_less
    by (intro copy_pages_other) auto
qed

lemma soft_tlb_switch_wf:
  assumes "vm_wf st" "pid \<noteq> 0"
  shows "vm_wf (soft_tlb_switch pid st)" "curr_vm_pid (soft_tlb_switch pid st) = pid"
    "page_info_table (soft_tlb_switch pid st) = page_info_table st"
  using assms by (auto simp: vm_wf_def soft_tlb_switch_def Let_def)

lemma soft_tlb_switch_view:
  assumes wf: "vm_wf st" and nz: "pid \<noteq> 0" and q: "q \<noteq> 0"
  shows "view (soft_tlb_switch pid st) q v = view st q v"
proof (cases "pid = curr_vm_pid st \<or> frame_of st q v = None")
  case True
  then show ?thesis
    using soft_tlb_switch_wf(3)[OF wf nz] by (auto simp: soft_tlb_switch_def view_def frame_of_def)
next
  case False
  then obtain i where f: "frame_of st q v = Some i" and ne: "pid \<noteq> curr_vm_pid st" by auto
  let ?st = "soft_tlb_switch pid st"
  let ?m1 = "unmap_loop (page_info_table st) (curr_vm_pid st) (memory st)"
  note i = frame_ofD[OF f]
  note un = unmap_loop_correct[OF wf refl, of i] and mp = map_loop_correct[OF wf nz, of i ?m1]
  have m: "memory ?st = map_loop (page_info_table st) pid ?m1" "curr_vm_pid ?st = pid"
    using ne by (simp_all add: soft_tlb_switch_def Let_def)
  have f': "frame_of ?st q v = Some i"
    using f soft_tlb_switch_wf(3)[OF wf nz] by (simp add: frame_of_def)
  show ?thesis
    using i un mp ne unfolding view_def f f' m by (cases "q = pid"; cases "q = curr_vm_pid st") auto
qed

section \<open>Allocating, mapping and freeing\<close>

definition frame_free :: "mmu_state \<Rightarrow> nat \<Rightarrow> bool" where
  "frame_free st i \<longleftrightarrow> use (page_info_table st ! i) = 0"

text \<open>A page taken by \<open>mmu_alloc\<close> and not yet given to a process.\<close>

definition frame_taken :: "mmu_state \<Rightarrow> nat \<Rightarrow> bool" where
  "frame_taken st i \<longleftrightarrow> i < APPS_PAGES_CNT \<and> use (page_info_table st ! i) \<noteq> 0 \<and>
     pi_pid (page_info_table st ! i) = 0"

lemma mmu_alloc_cases:
  obtains (full) "mmu_alloc st = Inl (FATAL ''mmu_alloc: no more free memory'')"
      "\<And>i. i < APPS_PAGES_CNT \<Longrightarrow> \<not> frame_free st i"
  | (page) i where "i < APPS_PAGES_CNT" "frame_free st i" "\<And>j. j < i \<Longrightarrow> \<not> frame_free st j"
      "mmu_alloc st = Inr (of_nat i, st\<lparr>page_info_table :=
          (page_info_table st)[i := (page_info_table st ! i)\<lparr>use := 1\<rparr>]\<rparr>)"
proof (cases "find (\<lambda>i. use (page_info_table st ! i) = 0) [0 ..< APPS_PAGES_CNT]")
  case None
  moreover from None have "\<And>i. i < APPS_PAGES_CNT \<Longrightarrow> \<not> frame_free st i"
    by (simp add: find_None_iff frame_free_def)
  ultimately show thesis using full by (simp add: mmu_alloc_def)
next
  case (Some i)
  moreover from Some have "i < APPS_PAGES_CNT" "frame_free st i" "\<And>j. j < i \<Longrightarrow> \<not> frame_free st j"
    by (auto simp: find_Some_iff frame_free_def)
  ultimately show thesis using page[of i] by (simp add: mmu_alloc_def)
qed

text \<open>Changing a table entry that is not mapped before or after changes no view.\<close>

lemma frame_of_upd_unmapped:
  assumes "\<not> mapped (page_info_table st ! i)" "\<not> mapped e" "pid \<noteq> 0"
  shows "frame_of (st\<lparr>page_info_table := (page_info_table st)[i := e]\<rparr>) pid v = frame_of st pid v"
proof -
  have "(let p = (page_info_table st)[i := e] ! j in use p \<noteq> 0 \<and> pi_pid p = pid \<and> vpage_no p = v) =
      (let p = page_info_table st ! j in use p \<noteq> 0 \<and> pi_pid p = pid \<and> vpage_no p = v)" for j
    using assms by (cases "i < length (page_info_table st)"; cases "j = i")
      (auto simp: mapped_def Let_def list_update_beyond)
  then show ?thesis by (simp add: frame_of_def)
qed

lemma vm_wf_upd_unmapped:
  assumes "vm_wf st" "\<not> mapped e" "use e = 0 \<longrightarrow> pi_pid e = 0"
  shows "vm_wf (st\<lparr>page_info_table := (page_info_table st)[i := e]\<rparr>)"
proof (cases "i < APPS_PAGES_CNT")
  case True
  then show ?thesis using assms
    by (auto simp: vm_wf_def Let_def nth_list_update)
next
  case False
  then show ?thesis using assms by (simp add: vm_wf_def Let_def list_update_beyond)
qed

lemma mmu_alloc_correct:
  assumes wf: "vm_wf st" and a: "mmu_alloc st = Inr (pg, st')"
  shows "vm_wf st'" "frame_taken st' (unat pg)" "frame_free st (unat pg)" "unat pg < APPS_PAGES_CNT"
    "\<And>q v. q \<noteq> 0 \<Longrightarrow> view st' q v = view st q v"
    "memory st' = memory st" "curr_vm_pid st' = curr_vm_pid st" "translation st' = translation st"
    "\<And>j. j \<noteq> unat pg \<Longrightarrow> page_info_table st' ! j = page_info_table st ! j"
proof -
  obtain i where i: "i < APPS_PAGES_CNT" "frame_free st i" "pg = of_nat i"
    "st' = st\<lparr>page_info_table := (page_info_table st)[i := (page_info_table st ! i)\<lparr>use := 1\<rparr>]\<rparr>"
    using a by (cases st rule: mmu_alloc_cases) auto
  have u: "unat pg = i" unfolding i(3) using i(1) by (intro unat_of_nat_u32) simp
  have z: "pi_pid (page_info_table st ! i) = 0" "length (page_info_table st) = APPS_PAGES_CNT"
    using wf i by (auto simp: vm_wf_def Let_def frame_free_def)
  have nm: "\<not> mapped (page_info_table st ! i)" "\<not> mapped ((page_info_table st ! i)\<lparr>use := 1\<rparr>)"
    using i(2) z(1) by (auto simp: mapped_def frame_free_def)
  show "vm_wf st'" unfolding i(4) by (rule vm_wf_upd_unmapped[OF wf nm(2)]) simp
  show "view st' q v = view st q v" if "q \<noteq> 0" for q v
    using frame_of_upd_unmapped[OF nm that, of v] by (simp add: view_def i(4))
  show "frame_taken st' (unat pg)" "frame_free st (unat pg)" "unat pg < APPS_PAGES_CNT"
    "memory st' = memory st" "curr_vm_pid st' = curr_vm_pid st" "translation st' = translation st"
    "\<And>j. j \<noteq> unat pg \<Longrightarrow> page_info_table st' ! j = page_info_table st ! j"
    using i z u by (auto simp: frame_taken_def)
qed

lemma frame_of_alloc:
  assumes "vm_wf st" "mmu_alloc st = Inr (pg, st')" "q \<noteq> 0"
  shows "frame_of st' q v = frame_of st q v"
proof (cases st rule: mmu_alloc_cases)
  case full
  then show ?thesis using assms(2) by simp
next
  case (page i)
  have "pi_pid (page_info_table st ! i) = 0"
    using assms(1) page(1,2) by (auto simp: vm_wf_def Let_def frame_free_def)
  then show ?thesis
    using assms(2,3) page(4) frame_of_upd_unmapped[of st i "(page_info_table st ! i)\<lparr>use := 1\<rparr>" q v]
    by (auto simp: mapped_def)
qed

lemma soft_tlb_map_correct:
  assumes wf: "vm_wf st" and pg: "frame_taken st (unat pg)" and pid: "pid \<noteq> 0" and v: "user_page v"
    and fresh: "frame_of st pid v = None"
  obtains st' where "soft_tlb_map pid v pg st = Inr st'" "vm_wf st'" "frame_of st' pid v = Some (unat pg)"
    "\<And>q w. q \<noteq> 0 \<Longrightarrow> (q, w) \<noteq> (pid, v) \<Longrightarrow> frame_of st' q w = frame_of st q w"
    "memory st' = memory st" "curr_vm_pid st' = curr_vm_pid st" "translation st' = translation st"
    "\<And>j. j \<noteq> unat pg \<Longrightarrow> page_info_table st' ! j = page_info_table st ! j"
proof -
  let ?i = "unat pg"
  define e where "e = (page_info_table st ! ?i)\<lparr>pi_pid := pid, vpage_no := v\<rparr>"
  define st' where "st' = st\<lparr>page_info_table := (page_info_table st)[?i := e]\<rparr>"
  have i: "?i < APPS_PAGES_CNT" "length (page_info_table st) = APPS_PAGES_CNT"
    using wf pg by (auto simp: vm_wf_def Let_def frame_taken_def)
  have t: "page_info_table st' ! j = (if j = ?i then e else page_info_table st ! j)" for j
    using i by (simp add: st'_def)
  have e: "use e \<noteq> 0" "pi_pid e = pid" "vpage_no e = v" using pg by (auto simp: e_def frame_taken_def)
  have no: "\<not> (use p \<noteq> 0 \<and> pi_pid p = pid \<and> vpage_no p = v)"
    if "j < APPS_PAGES_CNT" "p = page_info_table st ! j" for j p
    using fresh that by (auto simp: frame_of_def find_None_iff Let_def)
  have "vm_wf st'"
    unfolding vm_wf_def Let_def
  proof (intro conjI allI impI)
    show "length (page_info_table st') = APPS_PAGES_CNT" "curr_vm_pid st' \<noteq> 0"
      using wf by (auto simp: st'_def vm_wf_def Let_def)
  next
    fix j
    assume "j < APPS_PAGES_CNT" "use (page_info_table st' ! j) = 0"
    then show "pi_pid (page_info_table st' ! j) = 0"
      using wf e t by (auto simp: vm_wf_def Let_def split: if_splits)
  next
    fix j
    assume "j < APPS_PAGES_CNT" "mapped (page_info_table st' ! j)"
    then show "user_page (vpage_no (page_info_table st' ! j))"
      using wf e t v by (auto simp: vm_wf_def Let_def split: if_splits)
  next
    fix j k
    assume "j < APPS_PAGES_CNT" "mapped (page_info_table st' ! j)" "k < APPS_PAGES_CNT"
      "mapped (page_info_table st' ! k) \<and> pi_pid (page_info_table st' ! k) = pi_pid (page_info_table st' ! j) \<and>
       vpage_no (page_info_table st' ! k) = vpage_no (page_info_table st' ! j)"
    then show "j = k"
      using wf e t no[of j] no[of k] by (auto simp: vm_wf_def Let_def mapped_def split: if_splits)
  qed
  moreover have "frame_of st' pid v = Some ?i"
  proof -
    have "\<not> (use (page_info_table st' ! j) \<noteq> 0 \<and> pi_pid (page_info_table st' ! j) = pid \<and>
        vpage_no (page_info_table st' ! j) = v)" if "j < ?i" for j
      using that t[of j] no[of j] i(1) by simp
    then show ?thesis
      using i t[of ?i] e by (simp add: frame_of_def find_Some_iff Let_def) (rule exI[of _ ?i], simp)
  qed
  moreover have "frame_of st' q w = frame_of st q w" if "q \<noteq> 0" "(q, w) \<noteq> (pid, v)" for q w
  proof -
    have "(let p = page_info_table st' ! j in use p \<noteq> 0 \<and> pi_pid p = q \<and> vpage_no p = w) =
      (let p = page_info_table st ! j in use p \<noteq> 0 \<and> pi_pid p = q \<and> vpage_no p = w)" for j
      using that t e pg by (auto simp: Let_def frame_taken_def)
    then show ?thesis by (simp add: frame_of_def)
  qed
  moreover have "soft_tlb_map pid v pg st = Inr st'"
    using i by (simp add: soft_tlb_map_def st'_def e_def)
  ultimately show thesis
    using t by (intro that[of st']) (auto simp: st'_def)
qed

lemma frame_of_mmu_free:
  assumes "length (page_info_table st) = APPS_PAGES_CNT" "q \<noteq> 0"
  shows "frame_of (mmu_free pid st) q v = (if q = pid then None else frame_of st q v)"
proof -
  have "(let p = page_info_table (mmu_free pid st) ! j in use p \<noteq> 0 \<and> pi_pid p = q \<and> vpage_no p = v) =
      (q \<noteq> pid \<and> (let p = page_info_table st ! j in use p \<noteq> 0 \<and> pi_pid p = q \<and> vpage_no p = v))"
    if "j < APPS_PAGES_CNT" for j
    using that assms by (auto simp: mmu_free_def Let_def free_page_def)
  then show ?thesis
    unfolding frame_of_def by (cases "q = pid") (simp_all add: find_None_iff, intro find_cong, auto)
qed

lemma mmu_free_correct:
  assumes "vm_wf st"
  shows "vm_wf (mmu_free pid st)" "q \<noteq> 0 \<Longrightarrow> view (mmu_free pid st) q v = (if q = pid then None else view st q v)"
    "memory (mmu_free pid st) = memory st" "curr_vm_pid (mmu_free pid st) = curr_vm_pid st"
    "translation (mmu_free pid st) = translation st"
proof -
  show s: "memory (mmu_free pid st) = memory st" "curr_vm_pid (mmu_free pid st) = curr_vm_pid st"
    "translation (mmu_free pid st) = translation st"
    by (simp_all add: mmu_free_def)
  have len: "length (page_info_table st) = APPS_PAGES_CNT" using assms by (simp add: vm_wf_def Let_def)
  then have t: "page_info_table (mmu_free pid st) ! j = (if use (page_info_table st ! j) \<noteq> 0 \<and>
      pi_pid (page_info_table st ! j) = pid then free_page else page_info_table st ! j)"
    if "j < APPS_PAGES_CNT" for j
    using that by (simp add: mmu_free_def)
  have nm: "\<not> mapped free_page" by (simp add: mapped_def free_page_def)
  show "vm_wf (mmu_free pid st)"
    using assms len t nm by (auto simp: vm_wf_def Let_def s free_page_def mmu_free_def)
  show "view (mmu_free pid st) q v = (if q = pid then None else view st q v)" if "q \<noteq> 0"
    using frame_of_mmu_free[OF len that] by (simp add: view_def s)
qed

section \<open>Writing memory\<close>

text \<open>The running process stores only to user pages: nobody else's view changes.\<close>

lemma user_write_view:
  assumes "vm_wf st" "q \<noteq> 0" "q \<noteq> curr_vm_pid st"
    and "\<And>i. i < APPS_PAGES_CNT \<Longrightarrow> page_bytes m (frame_page i) = page_bytes (memory st) (frame_page i)"
  shows "view (st\<lparr>memory := m\<rparr>) q v = view st q v"
proof (cases "frame_of st q v")
  case (Some i)
  then have "frame_of (st\<lparr>memory := m\<rparr>) q v = Some i" by (simp add: frame_of_def)
  with Some assms frame_ofD(1)[OF Some] show ?thesis by (simp add: view_def)
qed (simp add: view_def frame_of_def)

text \<open>Two different pages of a process are different pages of memory.\<close>

lemma frame_of_inj:
  assumes "frame_of st q v = Some i" "frame_of st r w = Some i"
  shows "q = r \<and> v = w"
  using frame_ofD[OF assms(1)] frame_ofD[OF assms(2)] by simp

text \<open>Filling the frame of a process that is not mapped changes its view of that page only.\<close>

lemma frame_write_view:
  assumes wf: "vm_wf st" and f: "frame_of st pid v = Some i" and pid: "pid \<noteq> curr_vm_pid st" "pid \<noteq> 0" "q \<noteq> 0"
    and m: "\<And>p. p < 2 ^ 20 \<Longrightarrow> p \<noteq> frame_page i \<Longrightarrow> page_bytes m p = page_bytes (memory st) p"
  shows "view (st\<lparr>memory := m\<rparr>) q w =
    (if q = pid \<and> w = v then Some (page_bytes m (frame_page i)) else view st q w)"
proof (cases "frame_of st q w")
  case (Some j)
  have fj: "frame_of (st\<lparr>memory := m\<rparr>) q w = Some j" using Some by (simp add: frame_of_def)
  have u: "user_page w" using vm_wfD(1)[OF wf frame_ofD(1-3)[OF Some] pid(3)] frame_ofD(4)[OF Some] by simp
  show ?thesis
  proof (cases "q = pid \<and> w = v")
    case True
    then show ?thesis using fj Some f pid by (simp add: view_def)
  next
    case False
    then have "j \<noteq> i" using frame_of_inj[OF Some, of pid v] f by auto
    then show ?thesis using fj Some False m user_page_less[OF u] frame_page_less[OF frame_ofD(1)[OF Some]]
      by (auto simp: view_def)
  qed
next
  case None
  then show ?thesis using f by (auto simp: view_def frame_of_def)
qed

text \<open>Writing a frame that no process has changes no view.\<close>

lemma taken_write_view:
  assumes wf: "vm_wf st" and f: "frame_taken st i" and q: "q \<noteq> 0"
    and m: "\<And>p. p < 2 ^ 20 \<Longrightarrow> p \<noteq> frame_page i \<Longrightarrow> page_bytes m p = page_bytes (memory st) p"
  shows "view (st\<lparr>memory := m\<rparr>) q w = view st q w"
proof (cases "frame_of st q w")
  case (Some j)
  have fj: "frame_of (st\<lparr>memory := m\<rparr>) q w = Some j" using Some by (simp add: frame_of_def)
  have u: "user_page w" using vm_wfD(1)[OF wf frame_ofD(1-3)[OF Some] q] frame_ofD(4)[OF Some] by simp
  have "j \<noteq> i" using frame_ofD[OF Some] f q by (auto simp: frame_taken_def)
  then show ?thesis using fj Some m user_page_less[OF u] frame_page_less[OF frame_ofD(1)[OF Some]]
    by (auto simp: view_def)
qed (simp add: view_def frame_of_def)

end
