(* ===== verification/Pagetable.thy ===== *)
theory Pagetable
  imports Mmu
begin

text \<open>
  earth/cpu_mmu.c, second half: the identity map built with Sv32 page tables, and
  \<open>mmu_init\<close>, which chooses the translation. The tables live in memory pages taken from
  \<open>mmu_alloc\<close>. What they mean is given by \<open>sv32_walk\<close>, the address translation of the
  RISC-V privileged architecture for two-level tables; the theorem is that the walk over
  the tables built here returns every mapped address itself, with all user permissions.
\<close>

section \<open>Building the tables\<close>

abbreviation USER_RWX :: u32 where
  "USER_RWX \<equiv> 0xDF"

text \<open>The address of \<open>root[i]\<close> or \<open>leaf[i]\<close>: entries are 32-bit words.\<close>

definition entry_addr :: "addr \<Rightarrow> u32 \<Rightarrow> addr" where
  "entry_addr table i = table + 4 * i"

definition set_page_pid :: "u32 \<Rightarrow> i32 \<Rightarrow> mmu_state \<Rightarrow> mmu_state" where
  "set_page_pid ppage_id pid st = st\<lparr>page_info_table := (page_info_table st)[unat ppage_id :=
     (page_info_table st ! unat ppage_id)\<lparr>pi_pid := pid\<rparr>]\<rparr>"

text \<open>The leaf table behind an entry of the root: it is found there, or allocated and cleared.\<close>

definition leaf_table :: "i32 \<Rightarrow> u32 \<Rightarrow> mmu_state \<Rightarrow> mmu_state res" where
  "leaf_table pid i st =
     (let e = load32 (memory st) (entry_addr (pt_root st) i) in
      if e AND 1 \<noteq> 0 then Inr (st\<lparr>pt_leaf := push_bit 2 e AND 0xFFFFF000\<rparr>)
      else bindr (mmu_alloc st) (\<lambda>(ppage_id, st).
        let lf = PAGE_ID_TO_ADDR ppage_id;
            st = set_page_pid ppage_id pid (st\<lparr>pt_leaf := lf\<rparr>) in
        Inr (st\<lparr>memory := store32 (memset (memory st) lf 0 PAGE_SIZE)
                  (entry_addr (pt_root st) i) (drop_bit 2 lf OR 1)\<rparr>)))"

definition setup_identity_region :: "i32 \<Rightarrow> addr \<Rightarrow> nat \<Rightarrow> u32 \<Rightarrow> mmu_state \<Rightarrow> mmu_state res" where
  "setup_identity_region pid addr npages flag st =
     bindr (leaf_table pid (drop_bit 22 addr) st) (\<lambda>st.
       let v0 = drop_bit 12 addr AND 0x3FF in
       Inr (st\<lparr>memory := fold (\<lambda>i m. store32 m (entry_addr (pt_leaf st) (v0 + of_nat i))
                 (drop_bit 2 (addr + of_nat i * 4096) OR flag)) [0 ..< npages] (memory st)\<rparr>))"

text \<open>
  The regions of \<open>pagetable_identity_map\<close> in order: the loop over RAM in steps of 1024 pages,
  then the devices of the platform.
\<close>

definition identity_regions :: "platform \<Rightarrow> (addr \<times> nat) list" where
  "identity_regions p =
     map (\<lambda>i. (RAM_START + of_nat i * 0x400000, 1024)) [0 ..< 4] @
     [(CLINT_BASE p, 16), (UART_BASE p, 1), (SPI_BASE p, 1)] @
     (if p = ARTY
      then [(BOARD_FLASH_ROM, 1024), (ETHMAC_CSR_BASE, 1), (ETHMAC_TX_BUFFER, 1), (ETHMAC_RX_BUFFER, 1)]
      else [])"

definition pagetable_identity_map :: "i32 \<Rightarrow> mmu_state \<Rightarrow> mmu_state res" where
  "pagetable_identity_map pid st =
     bindr (mmu_alloc st) (\<lambda>(ppage_id, st).
       let rt = PAGE_ID_TO_ADDR ppage_id;
           st = set_page_pid ppage_id pid (st\<lparr>pt_root := rt\<rparr>);
           st = st\<lparr>pid_to_pagetable_base := (pid_to_pagetable_base st)[unat pid := rt],
                   memory := memset (memory st) rt 0 PAGE_SIZE\<rparr> in
       for_each (identity_regions (platform st))
         (\<lambda>(addr, npages). setup_identity_region pid addr npages USER_RWX) st)"

text \<open>
  \<open>mmu_init\<close> sets up the memory protection, reads characters from the terminal until one of them is
  \<open>0\<close> or \<open>1\<close>, and builds the page tables if they are chosen; \<open>input\<close> is what is typed. With no such
  character it waits forever. The dialogue itself is in theory Boot.
\<close>

fun mmu_choice :: "u8 list \<Rightarrow> translation option" where
  "mmu_choice [] = None"
| "mmu_choice (c # cs) =
     (if c = 48 then Some PAGE_TABLE else if c = 49 then Some SOFT_TLB else mmu_choice cs)"

definition pmp_init :: "mmu_state \<Rightarrow> mmu_state" where
  "pmp_init st = st\<lparr>pmpaddr0 := 0x40000000, pmpcfg0 := 0xF\<rparr>"

definition mmu_setup :: "mmu_state \<Rightarrow> mmu_state res" where
  "mmu_setup st =
     (if translation st = PAGE_TABLE then
        bindr (pagetable_identity_map 0 st) (\<lambda>st.
          Inr (st\<lparr>satp := drop_bit 12 (pt_root st) OR push_bit 31 1\<rparr>))
      else Inr st)"

definition mmu_init :: "u8 list \<Rightarrow> mmu_state \<Rightarrow> mmu_state res" where
  "mmu_init input st =
     (let st = pmp_init st in
      case mmu_choice input of
        None \<Rightarrow> Inl Diverge
      | Some t \<Rightarrow> mmu_setup (st\<lparr>translation := t\<rparr>))"

lemmas mmu_init_defs = mmu_init_def mmu_setup_def pmp_init_def

section \<open>Sv32 address translation\<close>

text \<open>
  A page table entry has the valid bit 0, the permissions R, W, X in bits 1 to 3, and the
  physical page number from bit 10 on. An entry without permissions points to the next level.
  The result is the physical address and the low eight bits of the leaf entry.
\<close>

definition sv32_walk :: "mem \<Rightarrow> addr \<Rightarrow> addr \<Rightarrow> (addr \<times> u32) option" where
  "sv32_walk m table va =
     (let pte1 = load32 m (entry_addr table (drop_bit 22 va)) in
      if pte1 AND 1 = 0 then None
      else if pte1 AND 0xE \<noteq> 0
      then Some (push_bit 22 (drop_bit 20 pte1) OR (va AND 0x3FFFFF), pte1 AND 0xFF)
      else
        let pte0 = load32 m (entry_addr (push_bit 12 (drop_bit 10 pte1)) (drop_bit 12 va AND 0x3FF)) in
        if pte0 AND 1 = 0 \<or> pte0 AND 0xE = 0 then None
        else Some (push_bit 12 (drop_bit 10 pte0) OR (va AND 0xFFF), pte0 AND 0xFF))"

section \<open>Entries\<close>

text \<open>Entry \<open>i\<close> of the table in page \<open>p\<close>.\<close>

definition pte :: "mem \<Rightarrow> nat \<Rightarrow> nat \<Rightarrow> u32" where
  "pte m p i = get32 (page_bytes m p) (4 * i)"

definition vpn1 :: "addr \<Rightarrow> nat" where "vpn1 va = unat va div 2 ^ 22"
definition vpn0 :: "addr \<Rightarrow> nat" where "vpn0 va = unat va div 2 ^ 12 mod 1024"

lemma vpn_less: "vpn1 va < 1024" "vpn0 va < 1024"
  using unsigned_less[of va, where 'a = nat] by (simp_all add: vpn1_def vpn0_def)

lemma eq_of_nat_unat: "unat x = n \<Longrightarrow> x = of_nat n" for x :: u32
  by auto

lemma and_masks:
  "x AND 0x3FF = take_bit 10 x" "x AND 0xFFF = take_bit 12 x" "x AND 0xFF = take_bit 8 x"
  "x AND 1 = take_bit 1 x" "x AND 0xFFFFF000 = push_bit 12 (drop_bit 12 x)" for x :: u32
proof -
  show "x AND 0x3FF = take_bit 10 x" "x AND 0xFFF = take_bit 12 x" "x AND 0xFF = take_bit 8 x"
    "x AND 1 = take_bit 1 x"
    by (simp_all add: take_bit_eq_mask mask_eq_exp_minus_1)
  have eq: "(0xFFFFF000 :: u32) = NOT (mask 12)" by (simp add: mask_eq_exp_minus_1)
  show "x AND 0xFFFFF000 = push_bit 12 (drop_bit 12 x)"
    unfolding eq by (rule bit_word_eqI) (auto simp: bit_simps)
qed

lemma vpn_bits:
  "drop_bit 22 va = of_nat (vpn1 va)" "drop_bit 12 va AND 0x3FF = of_nat (vpn0 va)" for va :: addr
proof -
  have "unat (drop_bit 22 va) = vpn1 va"
    by (simp add: vpn1_def unat_drop_bit_eq) (simp add: drop_bit_eq_div)
  then show "drop_bit 22 va = of_nat (vpn1 va)" by (rule eq_of_nat_unat)
  have "unat (take_bit 10 (drop_bit 12 va)) = vpn0 va"
    by (simp add: vpn0_def unsigned_take_bit_eq unat_drop_bit_eq) (simp add: drop_bit_eq_div take_bit_eq_mod)
  then show "drop_bit 12 va AND 0x3FF = of_nat (vpn0 va)" unfolding and_masks by (rule eq_of_nat_unat)
qed

lemma load_entry:
  assumes "i < 1024"
  shows "load32 m (entry_addr (page_addr p) (of_nat i)) = pte m p i"
proof -
  have "entry_addr (page_addr p) (of_nat i) = page_addr p + of_nat (4 * i)" by (simp add: entry_addr_def)
  then show ?thesis using load32_page[of "4 * i" m p] assms by (simp add: pte_def)
qed

lemma pte_store:
  assumes "i < 1024" "j < 1024" "p < 2 ^ 20" "q < 2 ^ 20"
  shows "pte (store32 m (entry_addr (page_addr p) (of_nat i)) w) q j = (if p = q \<and> i = j then w else pte m q j)"
proof -
  have "entry_addr (page_addr p) (of_nat i) = page_addr p + of_nat (4 * i)" by (simp add: entry_addr_def)
  moreover have "get32 (put32 (page_bytes m p) (4 * i) w) (4 * j) =
      (if i = j then w else get32 (page_bytes m p) (4 * j))"
    using assms by (cases i j rule: linorder_cases) (simp_all add: get32_put32_other)
  ultimately show ?thesis
    using assms page_bytes_store32[of p q "4 * i" m w] by (auto simp: pte_def)
qed

lemma pte_memset:
  assumes "i < 1024" "p < 2 ^ 20" "q < 2 ^ 20"
  shows "pte (memset m (page_addr p) 0 PAGE_SIZE) q i = (if q = p then 0 else pte m q i)"
  using assms by (simp add: pte_def)

lemma page_addr_push: "page_addr p = push_bit 12 (of_nat p)"
  by (simp add: page_addr_def push_bit_eq_mult)

text \<open>An entry of the root that points to the table in page \<open>q\<close>, and an identity entry for the
  page of address \<open>a\<close>.\<close>

definition table_entry :: "nat \<Rightarrow> u32" where
  "table_entry q = drop_bit 2 (page_addr q) OR 1"

lemma table_entry:
  assumes "q < 2 ^ 20"
  shows "table_entry q AND 1 \<noteq> 0" "table_entry q AND 0xE = 0"
    "push_bit 12 (drop_bit 10 (table_entry q)) = page_addr q"
    "push_bit 2 (table_entry q) AND 0xFFFFF000 = page_addr q"
proof -
  have e: "(0xE :: u32) = push_bit 1 (mask 3)" by (simp add: mask_eq_exp_minus_1)
  have bit: "bit (table_entry q) n = (n < 30 \<and> 10 \<le> n \<and> bit (of_nat q :: u32) (n - 10) \<or> n = 0)" for n
    by (auto simp: table_entry_def page_addr_push bit_simps)
  have "bit (table_entry q AND 1) 0" using bit[of 0] by (simp add: bit_simps)
  then show "table_entry q AND 1 \<noteq> 0" by auto
  show "table_entry q AND 0xE = 0"
    unfolding e
    by (rule bit_word_eqI, simp only: bit_and_iff bit_push_bit_iff bit_mask_iff bit) auto
  have high: "n < 20" if "bit (of_nat q :: u32) n" for n
  proof (rule ccontr)
    assume "\<not> n < 20"
    then have "(2::nat) ^ 20 \<le> 2 ^ n" by (intro power_increasing) simp_all
    then have "q div 2 ^ n = 0" using assms by simp
    moreover have "bit q n" using that by (simp add: bit_simps)
    ultimately show False by (simp add: bit_iff_odd)
  qed
  show "push_bit 12 (drop_bit 10 (table_entry q)) = page_addr q"
    unfolding page_addr_push
    by (rule bit_word_eqI) (use high in \<open>auto simp: bit bit_simps\<close>)
  show "push_bit 2 (table_entry q) AND 0xFFFFF000 = page_addr q"
    unfolding page_addr_push and_masks
    by (rule bit_word_eqI) (use high in \<open>auto simp: bit bit_simps\<close>)
qed

definition identity_entry :: "addr \<Rightarrow> u32" where
  "identity_entry a = drop_bit 2 a OR USER_RWX"

lemma identity_entry:
  assumes "take_bit 10 a = 0"
  shows "identity_entry a AND 0xFF = USER_RWX" "identity_entry a AND 1 \<noteq> 0" "identity_entry a AND 0xE \<noteq> 0"
    "drop_bit 10 (identity_entry a) = drop_bit 12 a"
proof -
  have "take_bit 8 (drop_bit 2 a) = drop_bit 2 (take_bit 10 a)"
    by (rule bit_word_eqI) (auto simp: bit_simps)
  then have "take_bit 8 (identity_entry a) = take_bit 8 USER_RWX"
    using assms by (simp add: identity_entry_def)
  then show f: "identity_entry a AND 0xFF = USER_RWX" unfolding and_masks by simp
  have "identity_entry a AND 1 = (identity_entry a AND 0xFF) AND 1"
    "identity_entry a AND 0xE = (identity_entry a AND 0xFF) AND 0xE"
    by (simp_all add: and.assoc)
  then show "identity_entry a AND 1 \<noteq> 0" "identity_entry a AND 0xE \<noteq> 0" unfolding f by simp_all
  have "drop_bit 10 USER_RWX = 0" by simp
  moreover have "drop_bit 10 (drop_bit 2 a) = drop_bit 12 a" by (simp add: drop_bit_drop_bit)
  ultimately show "drop_bit 10 (identity_entry a) = drop_bit 12 a"
    by (simp only: identity_entry_def drop_bit_or) simp
qed

section \<open>Tables and regions\<close>

text \<open>
  The tables of a state: the root is in page \<open>r\<close> of \<open>page_info_table\<close>, and \<open>L\<close> gives the page of
  the leaf table behind each entry of the root that is set. The page is in use and not shared.
\<close>

definition tables :: "mmu_state \<Rightarrow> nat \<Rightarrow> (nat \<Rightarrow> nat option) \<Rightarrow> bool" where
  "tables st r L \<longleftrightarrow>
     r < APPS_PAGES_CNT \<and> pt_root st = page_addr (frame_page r) \<and> \<not> frame_free st r \<and>
     (\<forall>v < 1024. pte (memory st) (frame_page r) v =
        (case L v of None \<Rightarrow> 0 | Some q \<Rightarrow> table_entry (frame_page q))) \<and>
     (\<forall>v < 1024. \<forall>q. L v = Some q \<longrightarrow> q < APPS_PAGES_CNT \<and> q \<noteq> r \<and> \<not> frame_free st q \<and>
        (\<forall>w < 1024. L w = Some q \<longrightarrow> w = v))"

text \<open>\<open>mmu_alloc\<close> hands out pages in order: the first \<open>k\<close> are in use.\<close>

definition alloc_mark :: "mmu_state \<Rightarrow> nat \<Rightarrow> bool" where
  "alloc_mark st k \<longleftrightarrow> length (page_info_table st) = APPS_PAGES_CNT \<and>
     (\<forall>i < APPS_PAGES_CNT. frame_free st i \<longleftrightarrow> k \<le> i)"

lemma mmu_alloc_mark:
  assumes "alloc_mark st k" "k < APPS_PAGES_CNT"
  shows "mmu_alloc st = Inr (of_nat k, st\<lparr>page_info_table :=
    (page_info_table st)[k := (page_info_table st ! k)\<lparr>use := 1\<rparr>]\<rparr>)"
proof (cases st rule: mmu_alloc_cases)
  case full
  then show ?thesis using assms by (auto simp: alloc_mark_def)
next
  case (page i)
  have "i = k" using page(1-3) assms unfolding alloc_mark_def by (metis le_neq_implies_less le_refl)
  then show ?thesis using page(4) by simp
qed

lemma walk_tables:
  assumes "tables st r L"
  shows "sv32_walk (memory st) (pt_root st) va =
    (case L (vpn1 va) of None \<Rightarrow> None
     | Some q \<Rightarrow> (let e = pte (memory st) (frame_page q) (vpn0 va) in
         if e AND 1 = 0 \<or> e AND 0xE = 0 then None
         else Some (push_bit 12 (drop_bit 10 e) OR take_bit 12 va, e AND 0xFF)))"
proof -
  have e1: "load32 (memory st) (entry_addr (pt_root st) (drop_bit 22 va)) =
      (case L (vpn1 va) of None \<Rightarrow> 0 | Some q \<Rightarrow> table_entry (frame_page q))"
    using assms vpn_less(1)[of va] unfolding tables_def vpn_bits by (simp add: load_entry)
  show ?thesis
  proof (cases "L (vpn1 va)")
    case None
    then show ?thesis using e1 by (simp add: sv32_walk_def Let_def)
  next
    case (Some q)
    have q: "frame_page q < 2 ^ 20"
      using assms vpn_less(1)[of va] Some by (intro frame_page_less) (auto simp: tables_def)
    show ?thesis
      using Some e1 table_entry[OF q] vpn_less(2)[of va]
      unfolding sv32_walk_def vpn_bits by (simp add: Let_def load_entry and_masks)
  qed
qed

definition in_region :: "addr \<Rightarrow> nat \<Rightarrow> addr \<Rightarrow> bool" where
  "in_region a n va \<longleftrightarrow> unat a div PAGE_SIZE \<le> unat va div PAGE_SIZE \<and>
     unat va div PAGE_SIZE < unat a div PAGE_SIZE + n"

lemma page_no_vpn: "unat x div PAGE_SIZE = 1024 * vpn1 x + vpn0 x"
  unfolding vpn1_def vpn0_def by (simp add: div_mult2_eq[of _ 4096 1024, simplified] mult.commute)

lemma in_region_vpn:
  assumes "vpn0 a + n \<le> 1024"
  shows "in_region a n va \<longleftrightarrow> vpn1 va = vpn1 a \<and> vpn0 a \<le> vpn0 va \<and> vpn0 va < vpn0 a + n"
  unfolding in_region_def page_no_vpn using assms vpn_less[of va] vpn_less[of a]
  by (cases "vpn1 va" "vpn1 a" rule: linorder_cases) auto

lemma take_bit_10_zero: "take_bit 10 a = 0 \<longleftrightarrow> unat a mod 1024 = 0" for a :: u32
proof -
  have "unat (take_bit 10 a) = take_bit 10 (unat a)" by (simp only: unsigned_take_bit_eq)
  then have "unat (take_bit 10 a) = unat a mod 1024" by (simp only: take_bit_eq_mod) simp
  then show ?thesis by (metis unat_eq_zero)
qed

lemma region_page:
  assumes "in_region a n va" "take_bit 10 a = 0"
    and b: "b = a + of_nat (unat va div PAGE_SIZE - unat a div PAGE_SIZE) * 4096"
  shows "drop_bit 12 b = drop_bit 12 va" "take_bit 10 b = 0"
proof -
  let ?i = "unat va div PAGE_SIZE - unat a div PAGE_SIZE"
  have le: "unat a div PAGE_SIZE \<le> unat va div PAGE_SIZE" using assms(1) by (simp add: in_region_def)
  have lt: "unat va div PAGE_SIZE < 2 ^ 20" by (rule page_no_less)
  have "unat a + ?i * PAGE_SIZE < 2 ^ 32" using le lt by simp
  moreover have "b = of_nat (unat a + ?i * PAGE_SIZE)" by (simp add: b)
  ultimately have u: "unat b = unat a + ?i * PAGE_SIZE" by (metis unat_of_nat_u32)
  then have "unat b div PAGE_SIZE = unat va div PAGE_SIZE" using le by simp
  then have "unat (drop_bit 12 b) = unat (drop_bit 12 va)"
    by (simp add: unat_drop_bit_eq) (simp add: drop_bit_eq_div)
  then show "drop_bit 12 b = drop_bit 12 va" by (simp add: word_unat_eq_iff)
  have "unat a mod 1024 = 0" using assms(2) by (simp only: take_bit_10_zero)
  then have "1024 dvd unat a" by (simp only: mod_eq_0_iff_dvd)
  moreover have "1024 dvd ?i * PAGE_SIZE" by (rule dvd_mult) simp
  ultimately have "unat b mod 1024 = 0" unfolding u mod_eq_0_iff_dvd by (rule dvd_add)
  then show "take_bit 10 b = 0" by (simp only: take_bit_10_zero)
qed

lemma or_take_bit: "push_bit 12 (drop_bit 12 va) OR take_bit 12 va = va" for va :: u32
  by (rule bit_word_eqI) (auto simp: bit_simps)

text \<open>The loop that fills a leaf table.\<close>

lemma fill_leaf:
  assumes "v + n \<le> 1024" "p < 2 ^ 20" "q < 2 ^ 20" "j < 1024"
  shows "pte (fold (\<lambda>i m. store32 m (entry_addr (page_addr p) (of_nat v + of_nat i)) (f i)) [0 ..< n] m) q j =
    (if q = p \<and> v \<le> j \<and> j < v + n then f (j - v) else pte m q j)"
  using assms(1)
proof (induction n)
  case (Suc n)
  have e: "of_nat v + of_nat n = (of_nat (v + n) :: u32)" by simp
  show ?case
    using Suc assms pte_store[of "v + n" j p q _ "f n"] unfolding e
    by (auto simp: e simp del: of_nat_add)
qed auto

text \<open>
  The state after \<open>leaf_table\<close>: the table is in page \<open>q\<close>, all tables that were there keep
  their place and entries, and a new one is empty.
\<close>

definition leaf_ready :: "mmu_state \<Rightarrow> nat \<Rightarrow> (nat \<Rightarrow> nat option) \<Rightarrow> nat \<Rightarrow> mmu_state \<Rightarrow>
    (nat \<Rightarrow> nat option) \<Rightarrow> nat \<Rightarrow> bool" where
  "leaf_ready st r L v st1 L1 q \<longleftrightarrow>
     tables st1 r L1 \<and> L1 v = Some q \<and> pt_root st1 = pt_root st \<and>
     pt_leaf st1 = page_addr (frame_page q) \<and> platform st1 = platform st \<and>
     translation st1 = translation st \<and> (\<forall>w < 1024. w \<noteq> v \<longrightarrow> L1 w = L w) \<and>
     (\<forall>w < 1024. \<forall>q'. L w = Some q' \<longrightarrow> L1 w = Some q' \<and>
        (\<forall>j < 1024. pte (memory st1) (frame_page q') j = pte (memory st) (frame_page q') j)) \<and>
     (L v = None \<longrightarrow> (\<forall>j < 1024. pte (memory st1) (frame_page q) j = 0))"

lemma tables_frame:
  assumes "tables st r L" "pt_root st' = pt_root st" "\<And>i. frame_free st' i = frame_free st i"
    and "\<And>w. w < 1024 \<Longrightarrow> pte (memory st') (frame_page r) w = pte (memory st) (frame_page r) w"
  shows "tables st' r L"
  using assms(1) unfolding tables_def assms(2,3) by (intro conjI) (metis assms(4) | blast)+

lemma root_entry:
  assumes "tables st r L" "v < 1024"
  shows "load32 (memory st) (entry_addr (pt_root st) (of_nat v)) =
      (case L v of None \<Rightarrow> 0 | Some q \<Rightarrow> table_entry (frame_page q))"
  using assms by (simp add: tables_def load_entry)

lemma leaf_table_found:
  assumes tb: "tables st r L" and mk: "alloc_mark st k" and v: "v < 1024" and q: "L v = Some q"
  obtains st1 where "leaf_table pid (of_nat v) st = Inr st1" "leaf_ready st r L v st1 L q" "alloc_mark st1 k"
proof -
  define st1 where "st1 = st\<lparr>pt_leaf := page_addr (frame_page q)\<rparr>"
  have q': "q < APPS_PAGES_CNT" using tb v q by (auto simp: tables_def)
  have same: "frame_free st1 i = frame_free st i" "memory st1 = memory st" "pt_root st1 = pt_root st"
    "page_info_table st1 = page_info_table st" for i
    by (simp_all add: st1_def frame_free_def)
  have "tables st1 r L" by (rule tables_frame[OF tb same(3,1)]) (simp add: same)
  moreover have "alloc_mark st1 k" using mk unfolding alloc_mark_def same .
  moreover have "leaf_table pid (of_nat v) st = Inr st1"
    using root_entry[OF tb v] q table_entry[OF frame_page_less[OF q']]
    by (simp add: leaf_table_def st1_def)
  ultimately show thesis using q by (intro that[of st1]) (simp_all add: leaf_ready_def st1_def)
qed

lemma leaf_table_new:
  assumes tb: "tables st r L" and mk: "alloc_mark st k" "k < APPS_PAGES_CNT" and v: "v < 1024" and L: "L v = None"
  obtains st1 where "leaf_table pid (of_nat v) st = Inr st1"
    "leaf_ready st r L v st1 (L(v := Some k)) k" "alloc_mark st1 (Suc k)"
proof -
  let ?P = frame_page
  define m1 where "m1 = memset (memory st) (page_addr (?P k)) 0 PAGE_SIZE"
  define st1 where "st1 = (set_page_pid (of_nat k) pid (st\<lparr>page_info_table :=
      (page_info_table st)[k := (page_info_table st ! k)\<lparr>use := 1\<rparr>], pt_leaf := page_addr (?P k)\<rparr>))
    \<lparr>memory := store32 m1 (entry_addr (pt_root st) (of_nat v)) (table_entry (?P k))\<rparr>"
  have fields: "memory st1 = store32 m1 (entry_addr (pt_root st) (of_nat v)) (table_entry (?P k))"
    "pt_root st1 = pt_root st" "pt_leaf st1 = page_addr (?P k)" "platform st1 = platform st"
    "translation st1 = translation st"
    by (simp_all add: st1_def set_page_pid_def)
  have uk: "unat (of_nat k :: u32) = k" using mk(2) by (intro unat_of_nat_u32) simp
  have len: "length (page_info_table st) = APPS_PAGES_CNT" using mk(1) by (simp add: alloc_mark_def)
  have free: "frame_free st1 i = (i \<noteq> k \<and> frame_free st i)" for i
    using mk(2) len by (cases "i = k") (simp_all add: st1_def frame_free_def set_page_pid_def uk)
  have fk: "frame_free st k" using mk by (simp add: alloc_mark_def)
  have rt: "pt_root st = page_addr (?P r)" "r < APPS_PAGES_CNT" "r \<noteq> k" using tb fk by (auto simp: tables_def)
  have LD: "q < APPS_PAGES_CNT" "q \<noteq> r" "q \<noteq> k" "\<not> frame_free st q" "w' < 1024 \<Longrightarrow> L w' = Some q \<Longrightarrow> w' = w"
    if "w < 1024" "L w = Some q" for w w' q
    using tb that fk unfolding tables_def by blast+
  have pte1: "pte (memory st1) (?P i) j = (if i = r \<and> j = v then table_entry (?P k)
      else if i = k then 0 else pte (memory st) (?P i) j)" if i: "i < APPS_PAGES_CNT" and j: "j < 1024" for i j
    using rt(3) pte_store[OF v j frame_page_less[OF rt(2)] frame_page_less[OF i], of m1 "table_entry (?P k)"]
      pte_memset[OF j frame_page_less[OF mk(2)] frame_page_less[OF i], of "memory st"]
    unfolding fields rt(1) m1_def by auto
  have "tables st1 r (L(v := Some k))"
    unfolding tables_def fields
  proof (intro conjI allI impI)
    show "r < APPS_PAGES_CNT" "pt_root st = page_addr (?P r)" "\<not> frame_free st1 r"
      using rt tb free by (simp_all add: tables_def)
  next
    fix w :: nat assume w: "w < 1024"
    then show "pte (store32 m1 (entry_addr (pt_root st) (of_nat v)) (table_entry (?P k))) (?P r) w
        = (case (L(v := Some k)) w of None \<Rightarrow> 0 | Some q \<Rightarrow> table_entry (?P q))"
      using pte1[OF rt(2) w] rt(3) tb unfolding fields by (simp add: tables_def)
  next
    fix w q w' :: nat assume w: "w < 1024" "(L(v := Some k)) w = Some q"
    have q: "w = v \<and> q = k \<or> w \<noteq> v \<and> L w = Some q" using w(2) by (simp split: if_splits)
    show "q < APPS_PAGES_CNT" "q \<noteq> r" using q LD(1,2)[OF w(1), of q] mk(2) rt(3) by metis+
    show "\<not> frame_free st1 q" using q LD(4)[OF w(1), of q] free by metis
    assume w': "w' < 1024" "(L(v := Some k)) w' = Some q"
    have q': "w' = v \<and> q = k \<or> w' \<noteq> v \<and> L w' = Some q" using w'(2) by (simp split: if_splits)
    show "w' = w" using q q' LD(3)[OF w(1), of q] LD(3)[OF w'(1), of q] LD(5)[OF w(1) _ w'(1), of q] by metis
  qed
  moreover have "alloc_mark st1 (Suc k)"
    using mk(1) free len by (auto simp: alloc_mark_def st1_def set_page_pid_def)
  moreover have "pte (memory st1) (?P q) j = pte (memory st) (?P q) j"
    if "w < 1024" "L w = Some q" "j < 1024" for w q j
    using LD[OF that(1,2)] pte1[OF _ that(3), of q] by simp
  moreover have "leaf_table pid (of_nat v) st = Inr st1"
    using root_entry[OF tb v] L mmu_alloc_mark[OF mk]
    by (simp add: leaf_table_def Let_def st1_def m1_def set_page_pid_def PAGE_ID_TO_ADDR_page table_entry_def)
  ultimately show thesis using L pte1[OF mk(2)] rt(3)
    by (intro that[of st1]) (auto simp: leaf_ready_def fields)
qed

text \<open>One region: afterwards the walk maps its addresses to themselves, and all others as before.\<close>

text \<open>The state after the entries of a region have been written into the leaf table in frame \<open>q\<close>.\<close>

definition region_filled :: "addr \<Rightarrow> nat \<Rightarrow> mmu_state \<Rightarrow> mmu_state" where
  "region_filled a n st1 =
     st1\<lparr>memory := fold (\<lambda>i m. store32 m (entry_addr (pt_leaf st1) (of_nat (vpn0 a) + of_nat i))
       (identity_entry (a + of_nat i * 4096))) [0 ..< n] (memory st1)\<rparr>"

lemma region_tables:
  assumes rd: "leaf_ready st r L (vpn1 a) st1 L1 q" and a: "vpn0 a + n \<le> 1024"
  shows "i < APPS_PAGES_CNT \<Longrightarrow> j < 1024 \<Longrightarrow> pte (memory (region_filled a n st1)) (frame_page i) j =
      (if i = q \<and> vpn0 a \<le> j \<and> j < vpn0 a + n then identity_entry (a + of_nat (j - vpn0 a) * 4096)
       else pte (memory st1) (frame_page i) j)"
    "tables (region_filled a n st1) r L1" "q < APPS_PAGES_CNT" "L1 (vpn1 a) = Some q"
proof -
  let ?st = "region_filled a n st1"
  have st1: "tables st1 r L1" "L1 (vpn1 a) = Some q" "pt_leaf st1 = page_addr (frame_page q)"
    using rd unfolding leaf_ready_def by (blast, blast, blast)
  have q: "q < APPS_PAGES_CNT" "q \<noteq> r" and r: "r < APPS_PAGES_CNT"
    using st1(1,2) vpn_less(1)[of a] unfolding tables_def by blast+
  show p: "pte (memory ?st) (frame_page i) j = (if i = q \<and> vpn0 a \<le> j \<and> j < vpn0 a + n
      then identity_entry (a + of_nat (j - vpn0 a) * 4096) else pte (memory st1) (frame_page i) j)"
    if "i < APPS_PAGES_CNT" "j < 1024" for i j
    using fill_leaf[OF a frame_page_less[OF q(1)] frame_page_less[OF that(1)] that(2)]
    by (simp add: region_filled_def st1(3))
  have same: "frame_free ?st i = frame_free st1 i" "pt_root ?st = pt_root st1" for i
    by (simp_all add: region_filled_def frame_free_def)
  have pr: "pte (memory ?st) (frame_page r) w = pte (memory st1) (frame_page r) w" if "w < 1024" for w
    using p[OF r that] q(2) by simp
  show "tables ?st r L1" by (rule tables_frame[OF st1(1) same(2,1) pr])
  show "q < APPS_PAGES_CNT" "L1 (vpn1 a) = Some q" by (rule q(1), rule st1(2))
qed

lemma region_walk_inside:
  assumes rd: "leaf_ready st r L (vpn1 a) st1 L1 q" and a: "vpn0 a + n \<le> 1024" "take_bit 10 a = 0"
    and va: "in_region a n va"
  shows "sv32_walk (memory (region_filled a n st1)) (pt_root (region_filled a n st1)) va = Some (va, USER_RWX)"
proof -
  note rt = region_tables[OF rd a(1)]
  have v: "vpn1 va = vpn1 a" "vpn0 a \<le> vpn0 va" "vpn0 va < vpn0 a + n"
    using va in_region_vpn[OF a(1)] by auto
  have i: "unat va div PAGE_SIZE - unat a div PAGE_SIZE = vpn0 va - vpn0 a"
    using v(1) by (simp add: page_no_vpn)
  let ?b = "a + of_nat (vpn0 va - vpn0 a) * 4096"
  have b: "drop_bit 12 ?b = drop_bit 12 va" "take_bit 10 ?b = 0"
    using region_page[OF va a(2), of ?b] unfolding i by simp_all
  have e: "pte (memory (region_filled a n st1)) (frame_page q) (vpn0 va) = identity_entry ?b"
    using rt(1)[OF rt(3) vpn_less(2)] v(2,3) by simp
  show ?thesis
    unfolding walk_tables[OF rt(2)] v(1)
    by (simp add: rt(4) e identity_entry[OF b(2)] b(1) or_take_bit)
qed

lemma region_walk_outside:
  assumes tb: "tables st r L" and rd: "leaf_ready st r L (vpn1 a) st1 L1 q" and a: "vpn0 a + n \<le> 1024"
    and va: "\<not> in_region a n va"
  shows "sv32_walk (memory (region_filled a n st1)) (pt_root (region_filled a n st1)) va =
    sv32_walk (memory st) (pt_root st) va"
proof -
  let ?P = frame_page and ?w0 = "vpn0 va" and ?w1 = "vpn1 va" and ?m = "memory (region_filled a n st1)"
  note rt = region_tables[OF rd a]
  have st1: "tables st1 r L1" "\<And>w. w < 1024 \<Longrightarrow> w \<noteq> vpn1 a \<Longrightarrow> L1 w = L w"
    "\<And>w q' j. w < 1024 \<Longrightarrow> L w = Some q' \<Longrightarrow> j < 1024 \<Longrightarrow> pte (memory st1) (?P q') j = pte (memory st) (?P q') j"
    "\<And>j. L (vpn1 a) = None \<Longrightarrow> j < 1024 \<Longrightarrow> pte (memory st1) (?P q) j = 0"
    using rd unfolding leaf_ready_def by (blast, blast, blast, blast)
  have w: "?w0 < 1024" "?w1 < 1024" by (rule vpn_less)+
  have nr: "\<not> (?w1 = vpn1 a \<and> vpn0 a \<le> ?w0 \<and> ?w0 < vpn0 a + n)" using va in_region_vpn[OF a] by simp
  consider (fresh) "L ?w1 = None" "?w1 = vpn1 a" | (none) "L ?w1 = None" "?w1 \<noteq> vpn1 a" | (leaf) q' where "L ?w1 = Some q'"
    by fastforce
  then show ?thesis
  proof cases
    case fresh
    then have "pte ?m (?P q) ?w0 = 0" using rt(1)[OF rt(3) w(1)] nr st1(4)[OF _ w(1)] by auto
    with fresh show ?thesis unfolding walk_tables[OF rt(2)] walk_tables[OF tb] by (simp add: rt(4))
  next
    case none
    then show ?thesis unfolding walk_tables[OF rt(2)] walk_tables[OF tb] using st1(2)[OF w(2)] by simp
  next
    case leaf
    have q': "q' < APPS_PAGES_CNT" using tb w(2) leaf unfolding tables_def by blast
    have L1: "L1 ?w1 = Some q'" using rd w(2) leaf unfolding leaf_ready_def by blast
    have "?w1 = vpn1 a" if "q' = q"
      using st1(1) w(2) vpn_less(1)[of a] L1 rt(4) that unfolding tables_def by blast
    then have "pte ?m (?P q') ?w0 = pte (memory st) (?P q') ?w0"
      using rt(1)[OF q' w(1)] nr st1(3)[OF w(2) leaf w(1)] by auto
    with leaf L1 show ?thesis unfolding walk_tables[OF rt(2)] walk_tables[OF tb] by simp
  qed
qed

lemma setup_identity_region_correct:
  assumes tb: "tables st r L" and mk: "alloc_mark st k" "k < APPS_PAGES_CNT"
    and a: "vpn0 a + n \<le> 1024" "take_bit 10 a = 0"
  obtains st' L' k' where "setup_identity_region pid a n USER_RWX st = Inr st'" "tables st' r L'"
    "alloc_mark st' k'" "k' \<le> Suc k" "platform st' = platform st" "translation st' = translation st"
    "\<And>va. sv32_walk (memory st') (pt_root st') va =
       (if in_region a n va then Some (va, USER_RWX) else sv32_walk (memory st) (pt_root st) va)"
proof -
  obtain st1 L1 q k' where st1: "leaf_table pid (of_nat (vpn1 a)) st = Inr st1"
    "leaf_ready st r L (vpn1 a) st1 L1 q" "alloc_mark st1 k'" "k' \<le> Suc k"
  proof (cases "L (vpn1 a)")
    case None
    from leaf_table_new[OF tb mk vpn_less(1) this] show thesis by (metis that order_refl)
  next
    case (Some q)
    from leaf_table_found[OF tb mk(1) vpn_less(1) this] show thesis by (metis that le_SucI order_refl)
  qed
  define st' where "st' = region_filled a n st1"
  note w = region_tables(2)[OF st1(2) a(1)] region_walk_inside[OF st1(2) a] region_walk_outside[OF tb st1(2) a(1)]
  have "setup_identity_region pid a n USER_RWX st = Inr st'"
    using st1(1) unfolding setup_identity_region_def vpn_bits by (simp add: st'_def region_filled_def identity_entry_def)
  moreover have "page_info_table st' = page_info_table st1" "frame_free st' i = frame_free st1 i" for i
    by (simp_all add: st'_def region_filled_def frame_free_def)
  then have "alloc_mark st' k'" using st1(3) unfolding alloc_mark_def by metis
  moreover have "platform st' = platform st" "translation st' = translation st"
    using st1(2) unfolding leaf_ready_def by (simp_all add: st'_def region_filled_def)
  ultimately show thesis using that[of st' L1 k'] w st1(4) by (simp add: st'_def)
qed

text \<open>A list of regions, each inside the 4MB that one leaf table covers.\<close>

definition region_ok :: "addr \<times> nat \<Rightarrow> bool" where
  "region_ok = (\<lambda>(a, n). vpn0 a + n \<le> 1024 \<and> take_bit 10 a = 0)"

lemma setup_regions_correct:
  assumes "tables st r L" "alloc_mark st k" "k + length rs \<le> APPS_PAGES_CNT" "list_all region_ok rs"
  shows "\<exists>st' L' k'. for_each rs (\<lambda>(a, n). setup_identity_region pid a n USER_RWX) st = Inr st' \<and>
     tables st' r L' \<and> alloc_mark st' k' \<and> k' \<le> k + length rs \<and>
     platform st' = platform st \<and> translation st' = translation st \<and>
     (\<forall>va. sv32_walk (memory st') (pt_root st') va =
       (if \<exists>(a, n) \<in> set rs. in_region a n va then Some (va, USER_RWX)
        else sv32_walk (memory st) (pt_root st) va))"
  using assms
proof (induction rs arbitrary: st L k)
  case Nil
  then show ?case by auto
next
  case (Cons x rs)
  obtain a n where x: "x = (a, n)" by (cases x)
  have a: "vpn0 a + n \<le> 1024" "take_bit 10 a = 0" using Cons.prems(4) x by (auto simp: region_ok_def)
  have k: "k < APPS_PAGES_CNT" using Cons.prems(3) by simp
  obtain st1 L1 k1 where s1: "setup_identity_region pid a n USER_RWX st = Inr st1" "tables st1 r L1"
    "alloc_mark st1 k1" "k1 \<le> Suc k" "platform st1 = platform st" "translation st1 = translation st"
    "\<And>va. sv32_walk (memory st1) (pt_root st1) va =
       (if in_region a n va then Some (va, USER_RWX) else sv32_walk (memory st) (pt_root st) va)"
    using setup_identity_region_correct[OF Cons.prems(1,2) k a] by blast
  have "k1 + length rs \<le> APPS_PAGES_CNT" using s1(4) Cons.prems(3) by simp
  then obtain st' L' k' where s': "for_each rs (\<lambda>(a, n). setup_identity_region pid a n USER_RWX) st1 = Inr st'"
    "tables st' r L'" "alloc_mark st' k'" "k' \<le> k1 + length rs" "platform st' = platform st1"
    "translation st' = translation st1"
    "\<And>va. sv32_walk (memory st') (pt_root st') va =
       (if \<exists>(a, n) \<in> set rs. in_region a n va then Some (va, USER_RWX)
        else sv32_walk (memory st1) (pt_root st1) va)"
    using Cons.IH[OF s1(2,3)] Cons.prems(4) by auto
  have "sv32_walk (memory st') (pt_root st') va =
       (if \<exists>(a, n) \<in> set (x # rs). in_region a n va then Some (va, USER_RWX)
        else sv32_walk (memory st) (pt_root st) va)" for va
    unfolding s'(7) s1(7) x by simp
  moreover have "for_each (x # rs) (\<lambda>(a, n). setup_identity_region pid a n USER_RWX) st = Inr st'"
    using s1(1) s'(1) by (simp add: x)
  moreover have "k' \<le> k + length (x # rs)" using s'(4) s1(4) by simp
  ultimately show ?case using s'(2,3,5,6) s1(5,6) by (intro exI[of _ st'] exI[of _ L'] exI[of _ k']) auto
qed

lemma region_ok_identity: "list_all region_ok (identity_regions p)"
  by (cases p) (simp_all add: identity_regions_def region_ok_def vpn0_def CLINT_BASE_def UART_BASE_def SPI_BASE_def upt_rec)

lemma length_identity_regions: "length (identity_regions p) \<le> 11"
  by (simp add: identity_regions_def)

text \<open>The state of the MMU at boot: nothing allocated.\<close>

definition mmu_fresh :: "mmu_state \<Rightarrow> bool" where
  "mmu_fresh st \<longleftrightarrow> page_info_table st = replicate APPS_PAGES_CNT free_page \<and> curr_vm_pid st = - 1"

lemma mmu_fresh_mark: "mmu_fresh st \<Longrightarrow> alloc_mark st 0"
  by (simp add: mmu_fresh_def alloc_mark_def frame_free_def free_page_def)

lemma pagetable_identity_map_walk:
  assumes "mmu_fresh st"
  shows "\<exists>st'. pagetable_identity_map pid st = Inr st' \<and> platform st' = platform st \<and>
     translation st' = translation st \<and> pt_root st' = page_addr (frame_page 0) \<and>
     (\<forall>va. sv32_walk (memory st') (pt_root st') va =
       (if \<exists>(a, n) \<in> set (identity_regions (platform st)). in_region a n va
        then Some (va, USER_RWX) else None)) \<and> (\<exists>k \<le> 12. alloc_mark st' k)"
proof -
  let ?rt = "page_addr (frame_page 0)"
  define st0 where "st0 = (set_page_pid 0 pid (st\<lparr>page_info_table :=
      (page_info_table st)[0 := (page_info_table st ! 0)\<lparr>use := 1\<rparr>], pt_root := ?rt\<rparr>))
    \<lparr>pid_to_pagetable_base := (pid_to_pagetable_base st)[unat pid := ?rt],
     memory := memset (memory st) ?rt 0 PAGE_SIZE\<rparr>"
  have f: "platform st0 = platform st" "translation st0 = translation st" "pt_root st0 = ?rt"
    "memory st0 = memset (memory st) ?rt 0 PAGE_SIZE"
    by (simp_all add: st0_def set_page_pid_def)
  have len: "length (page_info_table st) = APPS_PAGES_CNT" using assms by (simp add: mmu_fresh_def)
  have free: "frame_free st0 i = (0 < i)" if "i < APPS_PAGES_CNT" for i
    using assms that by (cases i) (simp_all add: st0_def frame_free_def set_page_pid_def mmu_fresh_def free_page_def)
  have "alloc_mark st0 1" using free len by (auto simp: alloc_mark_def st0_def set_page_pid_def)
  moreover have tb: "tables st0 0 (\<lambda>_. None)"
    unfolding tables_def f using free[of 0] pte_memset[of _ "frame_page 0" "frame_page 0"]
    by (simp add: frame_page_def)
  ultimately obtain st' L k where s: "for_each (identity_regions (platform st))
      (\<lambda>(a, n). setup_identity_region pid a n USER_RWX) st0 = Inr st'" "tables st' 0 L"
    "platform st' = platform st" "translation st' = translation st"
    "\<And>va. sv32_walk (memory st') (pt_root st') va =
       (if \<exists>(a, n) \<in> set (identity_regions (platform st)). in_region a n va then Some (va, USER_RWX)
        else sv32_walk (memory st0) (pt_root st0) va)" "alloc_mark st' k" "k \<le> 1 + length (identity_regions (platform st))"
    using setup_regions_correct[of st0 0 "\<lambda>_. None" 1 "identity_regions (platform st)" pid]
      region_ok_identity length_identity_regions[of "platform st"] f by auto
  have "PAGE_ID_TO_ADDR 0 = ?rt" using PAGE_ID_TO_ADDR_page[of 0] by simp
  then have "pagetable_identity_map pid st = Inr st'"
    using s(1) mmu_alloc_mark[OF mmu_fresh_mark[OF assms]]
    by (simp add: pagetable_identity_map_def Let_def st0_def set_page_pid_def)
  moreover have "pt_root st' = ?rt" using s(2) unfolding tables_def by blast
  moreover have "k \<le> 12" using s(7) length_identity_regions[of "platform st"] by simp
  ultimately show ?thesis using s(3-6) walk_tables[OF tb] by auto
qed

text \<open>The identity map gives every page it allocates to process 0.\<close>

definition boot_pages :: "mmu_state \<Rightarrow> bool" where
  "boot_pages st \<longleftrightarrow> length (page_info_table st) = APPS_PAGES_CNT \<and> curr_vm_pid st = - 1 \<and>
     (\<forall>i < APPS_PAGES_CNT. pi_pid (page_info_table st ! i) = 0)"

lemma boot_pages_upd:
  assumes "boot_pages st" "pi_pid e = 0"
  shows "boot_pages (st\<lparr>page_info_table := (page_info_table st)[i := e]\<rparr>)"
  using assms by (cases "i < APPS_PAGES_CNT") (auto simp: boot_pages_def nth_list_update list_update_beyond)

lemma boot_pages_alloc:
  assumes "boot_pages st" "mmu_alloc st = Inr (pg, st')"
  shows "boot_pages (set_page_pid pg 0 st')" "boot_pages st'"
proof -
  show "boot_pages st'"
    using assms by (cases st rule: mmu_alloc_cases) (auto intro!: boot_pages_upd, auto simp: boot_pages_def)
  then show "boot_pages (set_page_pid pg 0 st')"
    unfolding set_page_pid_def by (intro boot_pages_upd) simp_all
qed

lemma boot_pages_other [simp]:
  "boot_pages (st\<lparr>memory := m\<rparr>) = boot_pages st" "boot_pages (st\<lparr>pt_leaf := a\<rparr>) = boot_pages st"
  "boot_pages (st\<lparr>pt_root := a\<rparr>) = boot_pages st" "boot_pages (st\<lparr>satp := w\<rparr>) = boot_pages st"
  "boot_pages (st\<lparr>pid_to_pagetable_base := bs\<rparr>) = boot_pages st"
  "boot_pages (st\<lparr>translation := tr\<rparr>) = boot_pages st"
  "boot_pages (st\<lparr>pmpaddr0 := w\<rparr>) = boot_pages st" "boot_pages (st\<lparr>pmpcfg0 := w\<rparr>) = boot_pages st"
  by (simp_all add: boot_pages_def)

lemma set_page_pid_other [simp]:
  "set_page_pid pg pid (st\<lparr>pt_leaf := a\<rparr>) = (set_page_pid pg pid st)\<lparr>pt_leaf := a\<rparr>"
  "set_page_pid pg pid (st\<lparr>pt_root := a\<rparr>) = (set_page_pid pg pid st)\<lparr>pt_root := a\<rparr>"
  by (simp_all add: set_page_pid_def)

lemma setup_identity_region_pages:
  assumes "setup_identity_region 0 a n f st = Inr st'" "boot_pages st"
  shows "boot_pages st'"
  using assms boot_pages_alloc(1)
  by (auto simp: setup_identity_region_def leaf_table_def Let_def bindr_eq_Inr split: if_splits)

lemma pagetable_identity_map_pages:
  assumes "pagetable_identity_map 0 st = Inr st'" "boot_pages st"
  shows "boot_pages st'"
proof -
  obtain pg st0 where a: "mmu_alloc st = Inr (pg, st0)"
    and m: "for_each (identity_regions (platform (set_page_pid pg 0 st0))) (\<lambda>(a, n). setup_identity_region 0 a n USER_RWX)
      ((set_page_pid pg 0 st0)\<lparr>pt_root := PAGE_ID_TO_ADDR pg, pid_to_pagetable_base :=
        (pid_to_pagetable_base (set_page_pid pg 0 st0))[0 := PAGE_ID_TO_ADDR pg],
        memory := memset (memory (set_page_pid pg 0 st0)) (PAGE_ID_TO_ADDR pg) 0 PAGE_SIZE\<rparr>) = Inr st'"
    using assms(1) by (auto simp: pagetable_identity_map_def Let_def bindr_eq_Inr)
  show ?thesis
    by (rule for_each_preserves[where P = boot_pages, OF m])
      (use boot_pages_alloc(1)[OF assms(2) a] setup_identity_region_pages in auto)
qed

lemma mmu_init_pages:
  assumes f: "mmu_fresh st" and i: "mmu_init input st = Inr st'"
  shows "boot_pages st'"
proof -
  have "boot_pages st" using f by (simp add: mmu_fresh_def boot_pages_def free_page_def)
  then show ?thesis
    using i by (auto simp: mmu_init_defs Let_def bindr_eq_Inr split: option.splits if_splits
      dest!: pagetable_identity_map_pages)
qed

lemma mmu_init_wf:
  assumes f: "mmu_fresh st" and i: "mmu_init input st = Inr st'"
  shows "vm_wf st'"
  using mmu_init_pages[OF assms] by (simp add: boot_pages_def vm_wf_def Let_def mapped_def)

end
