(* ===== verification/Memory.thy ===== *)
theory Memory
  imports Pagetable
begin

text \<open>
  What earth/cpu_mmu.c promises to the kernel: processes do not see each other's memory,
  pages are handed out once and come back, and the page tables built at boot map every
  region of the board to itself.
\<close>

section \<open>An example\<close>

text \<open>Processes 1 and 2, each with a page at the start of the user addresses and one for system calls.\<close>

definition two_processes :: mmu_state where
  "two_processes =
     \<lparr>page_info_table = (replicate APPS_PAGES_CNT free_page)
        [0 := \<lparr>use = 1, pi_pid = 1, vpage_no = 0x80400\<rparr>, 1 := \<lparr>use = 1, pi_pid = 2, vpage_no = 0x80400\<rparr>,
         2 := \<lparr>use = 1, pi_pid = 1, vpage_no = 0x80601\<rparr>, 3 := \<lparr>use = 1, pi_pid = 2, vpage_no = 0x80601\<rparr>],
      curr_vm_pid = - 1, memory = (\<lambda>a. 7), pt_root = 0, pt_leaf = 0,
      pid_to_pagetable_base = replicate 256 0, satp = 0, pmpaddr0 = 0, pmpcfg0 = 0,
      platform = QEMU, translation = SOFT_TLB\<rparr>"

definition boot_mmu :: mmu_state where
  "boot_mmu =
     \<lparr>page_info_table = replicate APPS_PAGES_CNT free_page, curr_vm_pid = - 1, memory = (\<lambda>a. 7),
      pt_root = 0, pt_leaf = 0, pid_to_pagetable_base = replicate 256 0, satp = 0, pmpaddr0 = 0,
      pmpcfg0 = 0, platform = ARTY, translation = SOFT_TLB\<rparr>"

lemma two_processes_table:
  "length (page_info_table two_processes) = APPS_PAGES_CNT"
  "i < APPS_PAGES_CNT \<Longrightarrow> page_info_table two_processes ! i =
     (if i = 0 then \<lparr>use = 1, pi_pid = 1, vpage_no = 0x80400\<rparr>
      else if i = 1 then \<lparr>use = 1, pi_pid = 2, vpage_no = 0x80400\<rparr>
      else if i = 2 then \<lparr>use = 1, pi_pid = 1, vpage_no = 0x80601\<rparr>
      else if i = 3 then \<lparr>use = 1, pi_pid = 2, vpage_no = 0x80601\<rparr> else free_page)"
  unfolding two_processes_def mmu_state.select_convs by (simp_all add: nth_list_update)

lemma vm_wf_two_processes: "vm_wf two_processes"
proof -
  have "curr_vm_pid two_processes \<noteq> 0" by (simp add: two_processes_def)
  then show ?thesis
    unfolding vm_wf_def Let_def
    by (auto simp: two_processes_table mapped_def free_page_def user_page_def split: if_splits)
qed

lemma two_processes_frames:
  "frame_of two_processes 1 0x80400 = Some 0" "frame_of two_processes 2 0x80400 = Some 1"
  "frame_of two_processes 1 0x80401 = None" "frame_of two_processes 2 0x80601 = Some 3"
proof -
  show "frame_of two_processes 1 0x80400 = Some 0"
    unfolding frame_of_def find_Some_iff Let_def
    by (rule exI[of _ 0]) (simp add: two_processes_table)
  show "frame_of two_processes 2 0x80400 = Some 1"
    unfolding frame_of_def find_Some_iff Let_def
    by (rule exI[of _ 1]) (simp add: two_processes_table)
  show "frame_of two_processes 2 0x80601 = Some 3"
    unfolding frame_of_def find_Some_iff Let_def
    by (rule exI[of _ 3]) (auto simp: two_processes_table)
  show "frame_of two_processes 1 0x80401 = None"
    unfolding frame_of_def find_None_iff Let_def
    by (simp add: two_processes_table free_page_def)
qed

lemma mmu_fresh_boot: "mmu_fresh boot_mmu"
  by (simp add: mmu_fresh_def boot_mmu_def)

section \<open>Isolation\<close>

text \<open>C3: Whatever process p stores in the user pages while it is mapped, a switch to another
  process q brings back the memory q had before p ran, and keeps what p stored as the memory
  of p.\<close>

theorem mmu_switch_isolation:
  assumes "vm_wf st" "p \<noteq> 0" "q \<noteq> 0" "p \<noteq> q"
    and "\<forall>i < APPS_PAGES_CNT. page_bytes m (frame_page i) = page_bytes (memory (mmu_switch p st)) (frame_page i)"
  shows "let st' = mmu_switch q ((mmu_switch p st)\<lparr>memory := m\<rparr>) in
     vm_wf st' \<and> curr_vm_pid st' = q \<and> view st' q v = view st q v \<and>
     view st' p v = map_option (\<lambda>_. page_bytes m (unat v)) (frame_of st p v)"
proof -
  let ?s = "mmu_switch p st"
  let ?s' = "?s\<lparr>memory := m\<rparr>"
  note s = soft_tlb_switch_wf[OF assms(1,2)]
  have wf: "vm_wf ?s'" using s(1) by (simp add: vm_wf_def Let_def)
  have c: "curr_vm_pid ?s' = p" "frame_of ?s' p v = frame_of st p v" using s by (simp_all add: frame_of_def)
  have "view ?s' q v = view st q v"
    using user_write_view[OF s(1) assms(3)] assms(4,5) s(2) soft_tlb_switch_view[OF assms(1,2,3)] by auto
  moreover have "view ?s' p v = map_option (\<lambda>_. page_bytes m (unat v)) (frame_of st p v)"
    using c by (simp add: view_def)
  ultimately show ?thesis
    using soft_tlb_switch_wf[OF wf assms(3)] soft_tlb_switch_view[OF wf assms(3)] assms(2,3)
    by (simp add: Let_def)
qed

theorem mmu_switch_isolation_witness:
  "let st' = mmu_switch 2 (mmu_switch 1 two_processes) in
   vm_wf st' \<and> view st' 2 0x80400 = view two_processes 2 0x80400"
  using mmu_switch_isolation[OF vm_wf_two_processes, of 1 2 "memory (mmu_switch 1 two_processes)" "0x80400"]
  by (simp add: Let_def)

section \<open>Pages\<close>

text \<open>C20: A page that the allocator returned was free. Mapping it as a page that the process does
  not have yet succeeds (with page tables, for pids below 256), gives the process that page and
  changes the memory of no other page of any process.\<close>

theorem mmu_map_alloc:
  assumes "vm_wf st" "mmu_alloc st = Inr (pg, st1)" "pid \<noteq> 0" "user_page v" "frame_of st pid v = None"
    and "translation st = PAGE_TABLE \<longrightarrow> pid <s 256"
  shows "\<exists>st2. mmu_map pid v pg st1 = Inr st2 \<and> frame_free st (unat pg) \<and> vm_wf st2 \<and>
     frame_of st2 pid v = Some (unat pg) \<and>
     (\<forall>q w. q \<noteq> 0 \<longrightarrow> (q, w) \<noteq> (pid, v) \<longrightarrow> view st2 q w = view st q w)"
proof -
  note a = mmu_alloc_correct[OF assms(1,2)]
  have fr: "frame_of st1 q w = frame_of st q w" if "q \<noteq> 0" for q w
    using frame_of_alloc[OF assms(1,2) that] .
  obtain st2 where m: "soft_tlb_map pid v pg st1 = Inr st2" "vm_wf st2" "frame_of st2 pid v = Some (unat pg)"
    "\<And>q w. q \<noteq> 0 \<Longrightarrow> (q, w) \<noteq> (pid, v) \<Longrightarrow> frame_of st2 q w = frame_of st1 q w"
    "memory st2 = memory st1" "curr_vm_pid st2 = curr_vm_pid st1"
    using soft_tlb_map_correct[OF a(1,2) assms(3,4)] assms(5) fr[OF assms(3)] by metis
  have "mmu_map pid v pg st1 = Inr st2"
    using m(1) assms(6) a(8) by (auto simp: mmu_map_def page_table_map_def)
  moreover have "view st2 q w = view st q w" if "q \<noteq> 0" "(q, w) \<noteq> (pid, v)" for q w
    using m(4)[OF that] fr[OF that(1)] m(5,6) a(6,7) by (simp add: view_def)
  ultimately show ?thesis using m(2,3) a(3) by blast
qed

theorem mmu_map_alloc_witness:
  "\<exists>pg st1 st2. mmu_alloc two_processes = Inr (pg, st1) \<and> mmu_map 1 0x80401 pg st1 = Inr st2 \<and>
     vm_wf st2 \<and> frame_of st2 1 0x80401 = Some (unat pg) \<and>
     view st2 2 0x80400 = view two_processes 2 0x80400"
proof -
  obtain pg st1 where a: "mmu_alloc two_processes = Inr (pg, st1)"
  proof (cases two_processes rule: mmu_alloc_cases)
    case full
    from full(2)[of 4] show thesis by (simp add: frame_free_def two_processes_table free_page_def)
  qed simp
  have "user_page 0x80401" "translation two_processes = SOFT_TLB"
    by (simp_all add: user_page_def two_processes_def)
  with mmu_map_alloc[OF vm_wf_two_processes a, of 1 "0x80401"] two_processes_frames(3) a show ?thesis by auto
qed

text \<open>C21: Freeing a process gives back exactly its pages and takes its memory away; the memory of
  every other process stays, and if the process had a page the next allocation succeeds.\<close>

theorem mmu_free_returns_pages:
  assumes "vm_wf st" "pid \<noteq> 0"
  shows "vm_wf (mmu_free pid st) \<and>
     (\<forall>i < APPS_PAGES_CNT. frame_free (mmu_free pid st) i \<longleftrightarrow>
        frame_free st i \<or> pi_pid (page_info_table st ! i) = pid) \<and>
     (\<forall>q v. q \<noteq> 0 \<longrightarrow> view (mmu_free pid st) q v = (if q = pid then None else view st q v)) \<and>
     (\<forall>v. frame_of st pid v \<noteq> None \<longrightarrow> (\<exists>pg st'. mmu_alloc (mmu_free pid st) = Inr (pg, st')))"
proof -
  have len: "length (page_info_table st) = APPS_PAGES_CNT" using assms(1) by (simp add: vm_wf_def Let_def)
  have ff: "frame_free (mmu_free pid st) i \<longleftrightarrow> frame_free st i \<or> pi_pid (page_info_table st ! i) = pid"
    if "i < APPS_PAGES_CNT" for i
    using that len by (auto simp: frame_free_def mmu_free_def free_page_def)
  have "\<exists>pg st'. mmu_alloc (mmu_free pid st) = Inr (pg, st')" if had: "frame_of st pid v \<noteq> None" for v
  proof -
    obtain i where "frame_of st pid v = Some i" using had by blast
    then have "i < APPS_PAGES_CNT" "frame_free (mmu_free pid st) i" using ff frame_ofD by blast+
    then show ?thesis by (cases "mmu_free pid st" rule: mmu_alloc_cases) auto
  qed
  then show ?thesis using mmu_free_correct(1,2)[OF assms(1)] ff by blast
qed

theorem mmu_free_returns_pages_witness:
  "vm_wf (mmu_free 1 two_processes) \<and> view (mmu_free 1 two_processes) 1 0x80400 = None \<and>
   view (mmu_free 1 two_processes) 2 0x80400 = view two_processes 2 0x80400 \<and>
   (\<exists>pg st'. mmu_alloc (mmu_free 1 two_processes) = Inr (pg, st'))"
  using mmu_free_returns_pages[OF vm_wf_two_processes, of 1] two_processes_frames(1) by auto

section \<open>Boot\<close>

text \<open>C22: When page tables are chosen at boot, mmu_init ends with satp in Sv32 mode and the
  tables it points to translate an address to itself, readable, writable and executable in user
  mode, exactly when the address is in one of the regions of the platform; every other address
  faults. The allocator starts well-formed.\<close>

theorem mmu_init_identity_map:
  assumes "mmu_fresh st" "mmu_choice input = Some PAGE_TABLE"
  shows "\<exists>st'. mmu_init input st = Inr st' \<and> vm_wf st' \<and> bit (satp st') 31 \<and>
     (\<forall>va. sv32_walk (memory st') (push_bit 12 (take_bit 22 (satp st'))) va =
       (if \<exists>(a, n) \<in> set (identity_regions (platform st)). in_region a n va
        then Some (va, USER_RWX) else None))"
proof -
  let ?st = "st\<lparr>pmpaddr0 := 0x40000000, pmpcfg0 := 0xF, translation := PAGE_TABLE\<rparr>"
  have "mmu_fresh ?st" using assms(1) by (simp add: mmu_fresh_def)
  then obtain st1 where s: "pagetable_identity_map 0 ?st = Inr st1" "pt_root st1 = page_addr (frame_page 0)"
    "\<And>va. sv32_walk (memory st1) (pt_root st1) va =
       (if \<exists>(a, n) \<in> set (identity_regions (platform st)). in_region a n va then Some (va, USER_RWX) else None)"
    using pagetable_identity_map_walk[of ?st 0] by auto
  have i: "mmu_init input st = Inr (st1\<lparr>satp := drop_bit 12 (pt_root st1) OR push_bit 31 1\<rparr>)"
    using s(1) assms(2) by (simp add: mmu_init_defs Let_def)
  have r: "pt_root st1 = 0x80800000" unfolding s(2) by (simp add: page_addr_def frame_page_def)
  have p: "push_bit 12 (take_bit 22 (drop_bit 12 (pt_root st1) OR push_bit 31 1)) = pt_root st1"
    unfolding r by simp
  show ?thesis
    using i mmu_init_wf[OF assms(1) i] s(3) p by (auto simp: bit_or_iff bit_push_bit_iff)
qed

theorem mmu_init_identity_map_witness:
  "\<exists>st'. mmu_init [13, 48] boot_mmu = Inr st' \<and> vm_wf st' \<and>
     sv32_walk (memory st') (push_bit 12 (take_bit 22 (satp st'))) 0x80400123 = Some (0x80400123, USER_RWX)"
proof -
  have "\<exists>(a, n) \<in> set (identity_regions (platform boot_mmu)). in_region a n 0x80400123"
    by (simp add: identity_regions_def boot_mmu_def in_region_def upt_rec)
  with mmu_init_identity_map[OF mmu_fresh_boot, of "[13, 48]"] show ?thesis by fastforce
qed

end
