(* ===== verification/Intr.thy ===== *)
theory Intr
  imports Machine
begin

text \<open>
  earth/cpu_intr.c: the timer. The clock \<open>mtime\<close> is a 64-bit register read as two words while
  it keeps counting: \<open>clock n\<close> is its value at the n-th access. \<open>mtimecmp\<close> is one 64-bit
  register per core, written as two words; the core is interrupted when the clock reaches it.
\<close>

section \<open>Operations\<close>

definition QUANTUM :: "platform \<Rightarrow> u64" where
  "QUANTUM p = (if p = QEMU then 100000 else 50000000)"

partial_function (option) mtime_get :: "(nat \<Rightarrow> u64) \<Rightarrow> nat \<Rightarrow> (u64 \<times> nat) option" where
  [code]: "mtime_get clock n =
     (let high = ucast (drop_bit 32 (clock n)) :: u32;
          low = ucast (clock (n + 1)) :: u32 in
      if (ucast (drop_bit 32 (clock (n + 2))) :: u32) \<noteq> high then mtime_get clock (n + 3)
      else Some (push_bit 32 (ucast high) OR ucast low, n + 3))"

datatype half = Low | High

fun write_half :: "half \<times> u32 \<Rightarrow> u64 \<Rightarrow> u64" where
  "write_half (Low, w) t = push_bit 32 (drop_bit 32 t) OR ucast w"
| "write_half (High, w) t = push_bit 32 (ucast w) OR take_bit 32 t"

definition mtimecmp_writes :: "u64 \<Rightarrow> (half \<times> u32) list" where
  "mtimecmp_writes time = [(High, 0xFFFFFFFF), (Low, ucast time), (High, ucast (drop_bit 32 time))]"

definition mtimecmp_set :: "u64 \<Rightarrow> nat \<Rightarrow> (nat \<Rightarrow> u64) \<Rightarrow> nat \<Rightarrow> u64" where
  "mtimecmp_set time core_id cmp = cmp(core_id := fold write_half (mtimecmp_writes time) (cmp core_id))"

text \<open>\<open>now\<close> is what \<open>mtime_get\<close> returned.\<close>

definition timer_reset :: "platform \<Rightarrow> u64 \<Rightarrow> nat \<Rightarrow> (nat \<Rightarrow> u64) \<Rightarrow> nat \<Rightarrow> u64" where
  "timer_reset p now core_id = mtimecmp_set (now + QUANTUM p) core_id"

section \<open>Two words of a 64-bit register\<close>

lemma two_words:
  fixes t :: u64
  shows "push_bit 32 (ucast (ucast (drop_bit 32 t) :: u32)) OR ucast (ucast t :: u32) = t"
  by (rule bit_word_eqI) (auto simp: bit_simps)

lemma unat_two_words:
  fixes h l :: u32
  shows "unat (push_bit 32 (ucast h) OR ucast l :: u64) = unat h * 2 ^ 32 + unat l"
proof -
  have "push_bit 32 (ucast h) OR ucast l = push_bit 32 (ucast h) + (ucast l :: u64)"
    by (rule disjunctive_add [symmetric]) (auto simp: bit_simps dest: bit_imp_le_length)
  moreover have "unat (push_bit 32 (ucast h) :: u64) = unat h * 2 ^ 32"
    using unsigned_less[of h, where 'a = nat]
    by (simp add: push_bit_eq_mult unat_word_ariths unsigned_ucast_eq take_bit_nat_eq_self)
  ultimately show ?thesis
    using unsigned_less[of h, where 'a = nat] unsigned_less[of l, where 'a = nat]
    by (simp add: unat_word_ariths unsigned_ucast_eq take_bit_nat_eq_self)
qed

lemma unat_halves:
  fixes t :: u64
  shows "unat (ucast (drop_bit 32 t) :: u32) = unat t div 2 ^ 32" "unat (ucast t :: u32) = unat t mod 2 ^ 32"
  "unat (drop_bit 32 t) = unat t div 2 ^ 32"
proof -
  show d: "unat (drop_bit 32 t) = unat t div 2 ^ 32"
    unfolding unsigned_drop_bit_eq using unsigned_less[of t, where 'a = nat]
    by (simp add: drop_bit_eq_div take_bit_eq_mod)
  have "unat t div 2 ^ 32 < 2 ^ 32" using unsigned_less[of t, where 'a = nat] by simp
  then show "unat (ucast (drop_bit 32 t) :: u32) = unat t div 2 ^ 32" "unat (ucast t :: u32) = unat t mod 2 ^ 32"
    unfolding unsigned_ucast_eq d by (simp_all add: take_bit_eq_mod)
qed

lemma mtimecmp_set_eq: "mtimecmp_set time core_id cmp = cmp(core_id := time)"
proof -
  have "fold write_half (mtimecmp_writes time) t = time" for t
    unfolding mtimecmp_writes_def
    by simp (rule bit_word_eqI, auto simp: bit_simps)
  then show ?thesis by (simp add: mtimecmp_set_def)
qed

lemma le_top_word:
  fixes n K B :: nat
  assumes "n < Suc K * B"
  shows "n \<le> K * B + n mod B"
proof -
  have "n div B \<le> K" using less_mult_imp_div_less[OF assms] by simp
  then have "n div B * B + n mod B \<le> K * B + n mod B" by (intro add_mono mult_le_mono1 order_refl)
  then show ?thesis unfolding div_mult_mod_eq .
qed

section \<open>Setting the timer\<close>

text \<open>C29: Setting mtimecmp ends with the new time, and at no moment between its three word writes
  does the register hold a time earlier than both the old and the new one, so that the update
  itself never raises an interrupt.\<close>

theorem mtimecmp_set_no_early_interrupt:
  "mtimecmp_set time core_id cmp core_id = time \<and>
   (\<forall>k. min (cmp core_id) time \<le> fold write_half (take k (mtimecmp_writes time)) (cmp core_id))"
proof -
  let ?t = "cmp core_id"
  have h: "unat (write_half (High, w) t) = unat w * 2 ^ 32 + unat t mod 2 ^ 32" for w t
  proof -
    have "write_half (High, w) t = push_bit 32 (ucast w) OR ucast (ucast t :: u32)"
      by simp (rule bit_word_eqI, auto simp: bit_simps)
    then show ?thesis by (simp only: unat_two_words unat_halves)
  qed
  have w: "unat (write_half (High, 0xFFFFFFFF) t) = 0xFFFFFFFF * 2 ^ 32 + unat t mod 2 ^ 32" for t
    unfolding h by simp
  have l: "unat (write_half (Low, w) t) = unat t div 2 ^ 32 * 2 ^ 32 + unat w" for w t
  proof -
    have "write_half (Low, w) t = push_bit 32 (ucast (ucast (drop_bit 32 t) :: u32)) OR ucast w"
      by simp (rule bit_word_eqI, auto simp: bit_simps)
    then show ?thesis by (simp only: unat_two_words unat_halves(1))
  qed
  have b: "unat t \<le> 0xFFFFFFFF * 2 ^ 32 + unat t mod 2 ^ 32" for t :: u64
    by (rule le_top_word) (use unsigned_less[of t, where 'a = nat] in simp)
  have d: "(0xFFFFFFFF * 2 ^ 32 + x mod 2 ^ 32) div 2 ^ 32 = (0xFFFFFFFF :: nat)" for x :: nat
    by (subst div_mult_self3) simp_all
  have 1: "?t \<le> write_half (High, 0xFFFFFFFF) ?t"
    unfolding word_le_nat_alt w by (rule b)
  have 2: "time \<le> write_half (Low, ucast time) (write_half (High, 0xFFFFFFFF) ?t)"
    unfolding word_le_nat_alt l w unat_halves d by (rule b)
  have 3: "fold write_half (mtimecmp_writes time) ?t = time"
    using fun_cong[OF mtimecmp_set_eq, of time core_id cmp core_id] by (simp add: mtimecmp_set_def)
  have "min ?t time \<le> fold write_half (take k (mtimecmp_writes time)) ?t" for k
  proof -
    consider "k = 0" | "k = 1" | "k = 2" | "3 \<le> k" by linarith
    then show ?thesis
    proof cases
      case 4
      then have "take k (mtimecmp_writes time) = mtimecmp_writes time" by (simp add: mtimecmp_writes_def)
      with 3 show ?thesis by simp
    qed (use 1 2 in \<open>auto simp: mtimecmp_writes_def numeral_2_eq_2 intro: min.coboundedI1 min.coboundedI2 simp del: write_half.simps\<close>)
  qed
  then show ?thesis by (simp add: mtimecmp_set_eq)
qed

section \<open>Reading the clock\<close>

lemma mtime_get_round:
  assumes "mono clock" "drop_bit 32 (clock (n + 2)) = drop_bit 32 (clock n)"
  shows "mtime_get clock n = Some (clock (n + 1), n + 3)"
proof -
  have le: "unat (clock n) \<le> unat (clock (n + 1))" "unat (clock (n + 1)) \<le> unat (clock (n + 2))"
    using assms(1) by (simp_all add: mono_def word_le_nat_alt [symmetric])
  have "unat (clock (n + 2)) div 2 ^ 32 = unat (clock n) div 2 ^ 32"
    using arg_cong[OF assms(2), of unat] unfolding unat_halves .
  then have "unat (clock (n + 1)) div 2 ^ 32 = unat (clock n) div 2 ^ 32"
    using div_le_mono[OF le(1), of "2 ^ 32"] div_le_mono[OF le(2), of "2 ^ 32"] by simp
  then have h: "(ucast (drop_bit 32 (clock n)) :: u32) = ucast (drop_bit 32 (clock (n + 1)))"
    unfolding word_unat_eq_iff unat_halves(1,3) by simp
  show ?thesis
    by (subst mtime_get.simps) (use assms(2) in \<open>simp add: Let_def h two_words\<close>)
qed

lemma mtime_get_retry:
  assumes "drop_bit 32 (clock (n + 2)) \<noteq> drop_bit 32 (clock n)"
  shows "mtime_get clock n = mtime_get clock (n + 3)"
proof -
  have "(ucast (drop_bit 32 (clock (n + 2))) :: u32) \<noteq> ucast (drop_bit 32 (clock n))"
    using assms unfolding word_unat_eq_iff unat_halves(1,3) .
  then show ?thesis by (subst mtime_get.simps) (simp add: Let_def)
qed

text \<open>C30: On a clock that only goes forward and advances by less than 2^32 ticks over six reads,
  reading the time ends after at most two rounds, and the value is one the clock really had
  during the call: it is never torn between two readings.\<close>

theorem mtime_get_not_torn:
  assumes "mono clock" "unat (clock (n + 5)) < unat (clock n) + 2 ^ 32"
  shows "\<exists>k n'. n < k \<and> k < n + 5 \<and> n' \<le> n + 6 \<and> mtime_get clock n = Some (clock k, n')"
proof (cases "drop_bit 32 (clock (n + 2)) = drop_bit 32 (clock n)")
  case True
  from mtime_get_round[OF assms(1) this] show ?thesis by (intro exI[of _ "n + 1"] exI[of _ "n + 3"]) simp
next
  case False
  have le: "unat (clock n) \<le> unat (clock (n + 2))" "unat (clock (n + 2)) \<le> unat (clock (n + 3))"
    "unat (clock (n + 3)) \<le> unat (clock (n + 5))"
    using assms(1) by (simp_all add: mono_def word_le_nat_alt [symmetric])
  have ne: "unat (clock (n + 2)) div 2 ^ 32 \<noteq> unat (clock n) div 2 ^ 32"
    using False unfolding word_unat_eq_iff unat_halves(1,3) .
  have "unat (clock n) div 2 ^ 32 < unat (clock (n + 2)) div 2 ^ 32"
    using div_le_mono[OF le(1), of "2 ^ 32"] ne by simp
  moreover have "unat (clock (n + 5)) div 2 ^ 32 \<le> unat (clock n) div 2 ^ 32 + 1"
    using div_le_mono[of "unat (clock (n + 5))" "unat (clock n) + 2 ^ 32" "2 ^ 32"] assms(2) by simp
  ultimately have "unat (clock (n + 5)) div 2 ^ 32 = unat (clock (n + 3)) div 2 ^ 32"
    using div_le_mono[OF le(2), of "2 ^ 32"] div_le_mono[OF le(3), of "2 ^ 32"] by linarith
  then have "drop_bit 32 (clock ((n + 3) + 2)) = drop_bit 32 (clock (n + 3))"
    unfolding word_unat_eq_iff unat_halves(1,3) by (simp add: add.commute)
  then have "mtime_get clock n = Some (clock (n + 4), n + 6)"
    using mtime_get_round[OF assms(1), of "n + 3"] mtime_get_retry[of clock n] False by (simp add: add.commute)
  then show ?thesis by (intro exI[of _ "n + 4"] exI[of _ "n + 6"]) simp
qed

theorem mtime_get_not_torn_witness:
  "let clock = (\<lambda>k. if k < 2 then 0xFFFFFFFF else 0x100000000 :: u64) in
   \<exists>k n'. 0 < k \<and> k < 5 \<and> n' \<le> 6 \<and> mtime_get clock 0 = Some (clock k, n')"
proof -
  let ?c = "\<lambda>k :: nat. if k < 2 then 0xFFFFFFFF else 0x100000000 :: u64"
  have "mono ?c" by (auto simp: mono_def)
  with mtime_get_not_torn[of ?c 0] show ?thesis by (simp add: Let_def)
qed

end
