(* ===== verification/Process.thy ===== *)
theory Process
  imports Memory Intr
begin

text \<open>
  grass/process.h, grass/process.c and library/syscall/syscall.h: the process control blocks
  and the operations on them. A \<open>struct syscall\<close> is copied between the kernel and a page of
  the process as 1040 bytes.
\<close>

section \<open>System call structures\<close>

abbreviation GPID_ALL :: i32 where "GPID_ALL \<equiv> - 1"
abbreviation GPID_PROCESS :: i32 where "GPID_PROCESS \<equiv> 1"
abbreviation GPID_TERMINAL :: i32 where "GPID_TERMINAL \<equiv> 2"
abbreviation GPID_FILE :: i32 where "GPID_FILE \<equiv> 3"
abbreviation GPID_SHELL :: i32 where "GPID_SHELL \<equiv> 4"
abbreviation GPID_USER_START :: i32 where "GPID_USER_START \<equiv> 5"

abbreviation CMD_NARGS :: nat where "CMD_NARGS \<equiv> 16"
abbreviation CMD_ARG_LEN :: nat where "CMD_ARG_LEN \<equiv> 32"

abbreviation SYS_RECV :: u32 where "SYS_RECV \<equiv> 1"
abbreviation SYS_SEND :: u32 where "SYS_SEND \<equiv> 2"
abbreviation SYSCALL_MSG_LEN :: nat where "SYSCALL_MSG_LEN \<equiv> 1024"
abbreviation SYSCALL_SIZE :: nat where "SYSCALL_SIZE \<equiv> 1040"

datatype syscall_status = PENDING | DONE

text \<open>The type is the word in memory: a process may put anything there.\<close>

record syscall =
  sc_type :: u32
  sc_sender :: i32
  sc_receiver :: i32
  content :: "u8 list"
  sc_status :: syscall_status

definition syscall_bytes :: "syscall \<Rightarrow> u8 list" where
  "syscall_bytes sc = bytes32 (sc_type sc) @ bytes32 (sc_sender sc) @ bytes32 (sc_receiver sc) @
     content sc @ bytes32 (case sc_status sc of PENDING \<Rightarrow> 0 | DONE \<Rightarrow> 1)"

text \<open>The kernel sets the status of a structure it reads to \<open>PENDING\<close>.\<close>

definition pending_syscall :: "u8 list \<Rightarrow> syscall" where
  "pending_syscall bs = \<lparr>sc_type = get32 bs 0, sc_sender = get32 bs 4, sc_receiver = get32 bs 8,
     content = take SYSCALL_MSG_LEN (drop 12 bs), sc_status = PENDING\<rparr>"

section \<open>Process control blocks\<close>

datatype proc_status =
  PROC_UNUSED | PROC_LOADING | PROC_READY | PROC_RUNNING | PROC_RUNNABLE | PROC_PENDING_SYSCALL

abbreviation MAX_NPROCESS :: nat where "MAX_NPROCESS \<equiv> 16"
abbreviation SAVED_REGISTER_NUM :: nat where "SAVED_REGISTER_NUM \<equiv> 32"

record process =
  pid :: i32
  syscall :: syscall
  status :: proc_status
  mepc :: u32
  saved_registers :: "u32 list"

text \<open>
  The kernel's variables: \<open>core_to_proc_idx\<close> and \<open>proc_set\<close> of grass/kernel.c, the static
  \<open>curr_pid\<close> of \<open>proc_alloc\<close> as \<open>last_pid\<close>, and the state of the earth layer they use.
\<close>

record kernel =
  core_in_kernel :: nat
  core_to_proc_idx :: "nat list"
  proc_set :: "process list"
  last_pid :: u32
  mmu :: mmu_state
  mtimecmp :: "nat \<Rightarrow> u64"

section \<open>Operations\<close>

definition proc_set_status :: "i32 \<Rightarrow> proc_status \<Rightarrow> kernel \<Rightarrow> kernel" where
  "proc_set_status p s st = st\<lparr>proc_set :=
     map (\<lambda>proc. if pid proc = p then proc\<lparr>status := s\<rparr> else proc) (take MAX_NPROCESS (proc_set st)) @
     drop MAX_NPROCESS (proc_set st)\<rparr>"

definition proc_set_ready :: "i32 \<Rightarrow> kernel \<Rightarrow> kernel" where
  "proc_set_ready p = proc_set_status p PROC_READY"

definition proc_set_running :: "i32 \<Rightarrow> kernel \<Rightarrow> kernel" where
  "proc_set_running p = proc_set_status p PROC_RUNNING"

definition proc_set_runnable :: "i32 \<Rightarrow> kernel \<Rightarrow> kernel" where
  "proc_set_runnable p = proc_set_status p PROC_RUNNABLE"

definition proc_set_pending :: "i32 \<Rightarrow> kernel \<Rightarrow> kernel" where
  "proc_set_pending p = proc_set_status p PROC_PENDING_SYSCALL"

definition proc_alloc :: "kernel \<Rightarrow> (i32 \<times> kernel) res" where
  "proc_alloc st =
     (case find (\<lambda>i. status (proc_set st ! i) = PROC_UNUSED) [0 ..< MAX_NPROCESS] of
        Some i \<Rightarrow>
          let p = last_pid st + 1 in
          Inr (p, st\<lparr>last_pid := p, proc_set := (proc_set st)[i :=
            (proc_set st ! i)\<lparr>pid := p, status := PROC_LOADING\<rparr>]\<rparr>)
      | None \<Rightarrow> Inl (FATAL ''proc_alloc: reach the limit of %d processes''))"

definition proc_free_slot :: "nat \<Rightarrow> kernel \<Rightarrow> kernel" where
  "proc_free_slot i st =
     (if GPID_USER_START \<le>s pid (proc_set st ! i) \<and> status (proc_set st ! i) \<noteq> PROC_UNUSED then
        st\<lparr>mmu := mmu_free (pid (proc_set st ! i)) (mmu st),
           proc_set := (proc_set st)[i := (proc_set st ! i)\<lparr>status := PROC_UNUSED\<rparr>]\<rparr>
      else st)"

definition proc_free :: "i32 \<Rightarrow> kernel \<Rightarrow> kernel" where
  "proc_free p st =
     (if p \<noteq> GPID_ALL then proc_set_status p PROC_UNUSED (st\<lparr>mmu := mmu_free p (mmu st)\<rparr>)
      else fold proc_free_slot [0 ..< MAX_NPROCESS] st)"

end
