(* ===== verification/Kernel.thy ===== *)
theory Kernel
  imports Process
begin

text \<open>
  grass/kernel.c and grass/kernel.s: the two trap handlers, the round-robin scheduler, message
  passing between processes, and the assembly that saves and restores the registers. The
  registers are saved below \<open>EGOS_STACK_TOP\<close>, outside the user pages and the frames.
\<close>

section \<open>Variables\<close>

definition curr_proc_idx :: "kernel \<Rightarrow> nat" where
  "curr_proc_idx st = core_to_proc_idx st ! core_in_kernel st"

definition curr_proc :: "kernel \<Rightarrow> process" where
  "curr_proc st = proc_set st ! curr_proc_idx st"

definition set_curr_proc_idx :: "nat \<Rightarrow> kernel \<Rightarrow> kernel" where
  "set_curr_proc_idx i st = st\<lparr>core_to_proc_idx := (core_to_proc_idx st)[core_in_kernel st := i]\<rparr>"

definition update_proc :: "nat \<Rightarrow> (process \<Rightarrow> process) \<Rightarrow> kernel \<Rightarrow> kernel" where
  "update_proc i f st = st\<lparr>proc_set := (proc_set st)[i := f (proc_set st ! i)]\<rparr>"

definition core_set_idle :: "nat \<Rightarrow> kernel \<Rightarrow> kernel" where
  "core_set_idle core st = st\<lparr>core_to_proc_idx := (core_to_proc_idx st)[core := MAX_NPROCESS]\<rparr>"

abbreviation SAVED_REGISTER_ADDR :: addr where
  "SAVED_REGISTER_ADDR \<equiv> 0x803FFF80"

definition load_words :: "mem \<Rightarrow> addr \<Rightarrow> nat \<Rightarrow> u32 list" where
  "load_words m a n = map (\<lambda>i. load32 m (a + of_nat (4 * i))) [0 ..< n]"

definition store_words :: "mem \<Rightarrow> addr \<Rightarrow> u32 list \<Rightarrow> mem" where
  "store_words m a ws = memcpy_in m a (concat (map bytes32 ws))"

section \<open>Message passing\<close>

definition proc_try_send :: "nat \<Rightarrow> kernel \<Rightarrow> kernel res" where
  "proc_try_send sender st =
     (let s = proc_set st ! sender in
      case find (\<lambda>i. pid (proc_set st ! i) = sc_receiver (syscall s) \<and>
                     status (proc_set st ! i) \<noteq> PROC_UNUSED) [0 ..< MAX_NPROCESS] of
        None \<Rightarrow> Inl (FATAL ''proc_try_send: unknown receiver pid=%d'')
      | Some dst \<Rightarrow>
          let d = syscall (proc_set st ! dst) in
          if \<not> (sc_type d = SYS_RECV \<and> sc_status d = PENDING) then Inr st
          else if \<not> (sc_sender d = GPID_ALL \<or> sc_sender d = pid s) then Inr st
          else Inr (update_proc dst (\<lambda>p. p\<lparr>syscall := (syscall p)\<lparr>sc_status := DONE, sc_sender := pid s,
                 content := content (syscall s)\<rparr>\<rparr>) st))"

definition proc_try_recv :: "nat \<Rightarrow> kernel \<Rightarrow> kernel res" where
  "proc_try_recv receiver st =
     (let r = proc_set st ! receiver in
      if sc_status (syscall r) = PENDING then Inr st
      else
        let (syscall_paddr, m) = mmu_translate (pid r) SYSCALL_ARG (mmu st);
            m = m\<lparr>memory := memcpy_in (memory m) syscall_paddr (syscall_bytes (syscall r))\<rparr> in
        Inr (proc_set_runnable (sc_sender (syscall r)) (proc_set_runnable (pid r) (st\<lparr>mmu := m\<rparr>))))"

definition proc_try_syscall :: "nat \<Rightarrow> kernel \<Rightarrow> kernel res" where
  "proc_try_syscall i st =
     (let ty = sc_type (syscall (proc_set st ! i)) in
      if ty = SYS_RECV then proc_try_recv i st
      else if ty = SYS_SEND then proc_try_send i st
      else Inl (FATAL ''proc_try_syscall: unknown syscall type=%d''))"

section \<open>The scheduler\<close>

fun yield_loop :: "nat list \<Rightarrow> kernel \<Rightarrow> (nat \<times> kernel) res" where
  "yield_loop [] st = Inr (MAX_NPROCESS, st)"
| "yield_loop (i # is) st =
     (let p = (curr_proc_idx st + i) mod MAX_NPROCESS in
      bindr (if status (proc_set st ! p) = PROC_PENDING_SYSCALL then proc_try_syscall p st else Inr st) (\<lambda>st.
        if status (proc_set st ! p) = PROC_READY \<or> status (proc_set st ! p) = PROC_RUNNABLE
        then Inr (p, st) else yield_loop is st))"

text \<open>\<open>now\<close> is the time that \<open>earth->timer_reset\<close> reads from the clock.\<close>

definition switch_to :: "u64 \<Rightarrow> nat \<Rightarrow> kernel \<Rightarrow> kernel" where
  "switch_to now next_idx st =
     (let st = set_curr_proc_idx next_idx st;
          st = st\<lparr>mmu := mmu_switch (pid (curr_proc st)) (mmu st)\<rparr>;
          st = (if status (curr_proc st) = PROC_READY
                then update_proc (curr_proc_idx st) (\<lambda>p. p\<lparr>saved_registers :=
                       (saved_registers p)[0 := APPS_ARG, 1 := APPS_ARG + 4], mepc := APPS_ENTRY\<rparr>) st
                else st);
          st = proc_set_running (pid (curr_proc st)) st in
      st\<lparr>mtimecmp := timer_reset (platform (mmu st)) now (core_in_kernel st) (mtimecmp st)\<rparr>)"

definition proc_yield :: "u64 \<Rightarrow> kernel \<Rightarrow> kernel res" where
  "proc_yield now st =
     (let st = (if status (curr_proc st) = PROC_RUNNING
                then proc_set_runnable (pid (curr_proc st)) st else st) in
      bindr (yield_loop [1 ..< MAX_NPROCESS + 1] st) (\<lambda>(next_idx, st).
        if next_idx < MAX_NPROCESS then Inr (switch_to now next_idx st)
        else Inl (FATAL ''proc_yield: no process to run on core %d'')))"

section \<open>The trap handlers\<close>

definition excp_entry :: "u64 \<Rightarrow> u32 \<Rightarrow> kernel \<Rightarrow> kernel res" where
  "excp_entry now n st =
     (if 8 \<le> n \<and> n \<le> 11 then
        let (syscall_paddr, m) = mmu_translate (pid (curr_proc st)) SYSCALL_ARG (mmu st);
            sc = pending_syscall (memcpy_out (memory m) syscall_paddr SYSCALL_SIZE);
            st = update_proc (curr_proc_idx st) (\<lambda>p. p\<lparr>syscall := sc\<rparr>) (st\<lparr>mmu := m\<rparr>);
            st = proc_set_pending (pid (curr_proc st)) st;
            st = update_proc (curr_proc_idx st) (\<lambda>p. p\<lparr>mepc := mepc p + 4\<rparr>) st in
        bindr (proc_try_syscall (curr_proc_idx st) st) (proc_yield now)
      else Inl (FATAL ''excp_entry: kernel got exception %d''))"

definition intr_entry :: "u64 \<Rightarrow> u32 \<Rightarrow> kernel \<Rightarrow> kernel res" where
  "intr_entry now n st =
     (if n \<noteq> 7 then Inl (FATAL ''excp_entry: kernel got interrupt %d'') else proc_yield now st)"

text \<open>The CSRs a trap reads, and the time.\<close>

record trap =
  mhartid :: nat
  trap_mepc :: u32
  mcause :: u32
  mtime :: u64

definition save_context :: "trap \<Rightarrow> kernel \<Rightarrow> kernel" where
  "save_context t st =
     (let st = st\<lparr>core_in_kernel := mhartid t\<rparr> in
      update_proc (curr_proc_idx st) (\<lambda>p. p\<lparr>mepc := trap_mepc t,
        saved_registers := load_words (memory (mmu st)) SAVED_REGISTER_ADDR SAVED_REGISTER_NUM\<rparr>) st)"

definition restore_context :: "kernel \<Rightarrow> u32 \<times> kernel" where
  "restore_context st = (mepc (curr_proc st), st\<lparr>mmu := (mmu st)\<lparr>memory :=
     store_words (memory (mmu st)) SAVED_REGISTER_ADDR (saved_registers (curr_proc st))\<rparr>\<rparr>)"

definition kernel_entry :: "trap \<Rightarrow> kernel \<Rightarrow> (u32 \<times> kernel) res" where
  "kernel_entry t st =
     (if mhartid t < length (core_to_proc_idx st) then
        bindr (if bit (mcause t) 31 then intr_entry (mtime t) (mcause t AND 0x3FF) (save_context t st)
               else excp_entry (mtime t) (mcause t) (save_context t st)) (\<lambda>st.
          Inr (restore_context st))
      else Inl (Undef ''core_to_proc_idx''))"

section \<open>Saving and restoring the registers\<close>

datatype reg = A0 | A1 | A2 | A3 | A4 | A5 | A6 | A7 | T0 | T1 | T2 | T3 | T4 | T5 | T6
  | S0 | S1 | S2 | S3 | S4 | S5 | S6 | S7 | S8 | S9 | S10 | S11 | RA | GP | TP | SP

definition trap_stores :: "(reg \<times> nat) list" where
  "trap_stores = [(A0, 0), (A1, 4), (A2, 8), (A3, 12), (A4, 16), (A5, 20), (A6, 24), (A7, 28),
     (T0, 32), (T1, 36), (T2, 40), (T3, 44), (T4, 48), (T5, 52), (T6, 56),
     (S0, 60), (S1, 64), (S2, 68), (S3, 72), (S4, 76), (S5, 80), (S6, 84), (S7, 88), (S8, 92),
     (S9, 96), (S10, 100), (S11, 104), (RA, 108), (GP, 112), (TP, 116)]"

definition trap_loads :: "(reg \<times> nat) list" where
  "trap_loads = [(A0, 0), (A1, 4), (A2, 8), (A3, 12), (A4, 16), (A5, 20), (A6, 24), (A7, 28),
     (T0, 32), (T1, 36), (T2, 40), (T3, 44), (T4, 48), (T5, 52), (T6, 56),
     (S0, 60), (S1, 64), (S2, 68), (S3, 72), (S4, 76), (S5, 80), (S6, 84), (S7, 88), (S8, 92),
     (S9, 96), (S10, 100), (S11, 104), (RA, 108), (GP, 112), (TP, 116)]"

text \<open>
  On the way in, \<open>mscratch\<close> keeps the old \<open>sp\<close>, the stores use the new one, and the old \<open>sp\<close>
  goes through \<open>t0\<close> into the last slot. On the way out \<open>sp\<close> is loaded last.
\<close>

definition trap_save :: "(reg \<Rightarrow> u32) \<Rightarrow> mem \<Rightarrow> mem" where
  "trap_save r m =
     (let mscratch = r SP; r = r(SP := 0x80400000 - 128);
          m = fold (\<lambda>(x, off) m. store32 m (r SP + of_nat off) (r x)) trap_stores m;
          r = r(T0 := mscratch) in
      store32 m (r SP + 120) (r T0))"

definition trap_restore :: "mem \<Rightarrow> (reg \<Rightarrow> u32) \<Rightarrow> reg \<Rightarrow> u32" where
  "trap_restore m r =
     (let r = fold (\<lambda>(x, off) r. r(x := load32 m (r SP + of_nat off))) trap_loads r in
      r(SP := load32 m (r SP + 120)))"

text \<open>
  A trap: the registers and the program counter of the process go in, those of the process
  that runs next come out. \<open>kernel_entry\<close> is a C function: it returns with \<open>sp\<close> as it was and
  the other registers as \<open>clobber\<close>.
\<close>

definition trap_entry :: "(reg \<Rightarrow> u32) \<Rightarrow> trap \<Rightarrow> (reg \<Rightarrow> u32) \<Rightarrow> kernel \<Rightarrow> ((reg \<Rightarrow> u32) \<times> u32 \<times> kernel) res" where
  "trap_entry clobber t r st =
     bindr (kernel_entry t (st\<lparr>mmu := (mmu st)\<lparr>memory := trap_save r (memory (mmu st))\<rparr>\<rparr>)) (\<lambda>(pc, st).
       Inr (trap_restore (memory (mmu st)) (clobber(SP := SAVED_REGISTER_ADDR)), pc, st))"

end
