(* ===== verification/Kernel_Inv.thy ===== *)
theory Kernel_Inv
  imports Kernel
begin

text \<open>
  The invariant of grass/kernel.c and that message passing keeps it: process ids are unique,
  a message marked as delivered belongs to a sender that is still blocked on it, and memory
  management is well-formed.
\<close>

section \<open>Memory\<close>

text \<open>Pages of the kernel: neither user pages nor frames.\<close>

definition kernel_page :: "nat \<Rightarrow> bool" where
  "kernel_page p \<longleftrightarrow> p < 0x80400"

lemma soft_tlb_switch_kernel_page:
  assumes wf: "vm_wf st" and nz: "p \<noteq> 0" and k: "kernel_page k"
  shows "page_bytes (memory (soft_tlb_switch p st)) k = page_bytes (memory st) k"
proof -
  have lt: "k < 2 ^ 20" using k by (simp add: kernel_page_def)
  have un: "page_bytes (unmap_loop (page_info_table st) q m) k = page_bytes m k" for q m
    unfolding unmap_loop_pages using k lt
    by (intro copy_pages_other) (auto simp: frame_page_def kernel_page_def)
  have "page_bytes (map_loop (page_info_table st) p m) k = page_bytes m k" for m
    unfolding map_loop_pages
  proof (rule copy_pages_other)
    fix i
    assume "i \<in> set [0 ..< APPS_PAGES_CNT]" "use (page_info_table st ! i) \<noteq> 0 \<and> pi_pid (page_info_table st ! i) = p"
    then have "user_page (vpage_no (page_info_table st ! i))" using vm_wfD(1)[OF wf _ _ _ nz] by auto
    then show "unat (vpage_no (page_info_table st ! i)) < 2 ^ 20 \<and> unat (vpage_no (page_info_table st ! i)) \<noteq> k"
      using k by (auto simp: user_page_def kernel_page_def)
  qed (rule lt)
  with un show ?thesis by (simp add: soft_tlb_switch_def Let_def)
qed

lemma soft_tlb_switch_same [simp]:
  "platform (soft_tlb_switch p st) = platform st" "translation (soft_tlb_switch p st) = translation st"
  by (simp_all add: soft_tlb_switch_def Let_def)

abbreviation SYSCALL_PAGE :: u32 where "SYSCALL_PAGE \<equiv> 0x80601"

lemma SYSCALL_ARG_page: "SYSCALL_ARG = page_addr (unat SYSCALL_PAGE) + of_nat 0"
  by (simp add: page_addr_def)

text \<open>Writing the system call page of the process that is mapped.\<close>

lemma syscall_write:
  assumes wf: "vm_wf st" and bs: "length bs \<le> PAGE_SIZE" and q: "q \<noteq> 0"
  defines "st' \<equiv> st\<lparr>memory := memcpy_in (memory st) SYSCALL_ARG bs\<rparr>"
  shows "vm_wf st'" "(q, w) \<noteq> (curr_vm_pid st, SYSCALL_PAGE) \<Longrightarrow> view st' q w = view st q w"
    "kernel_page k \<Longrightarrow> page_bytes (memory st') k = page_bytes (memory st) k"
    "view st' (curr_vm_pid st) SYSCALL_PAGE =
       map_option (\<lambda>old. bs @ drop (length bs) old) (view st (curr_vm_pid st) SYSCALL_PAGE)"
proof -
  have m: "page_bytes (memory st') p = (if p = unat SYSCALL_PAGE then bs @ drop (length bs) (page_bytes (memory st) p)
      else page_bytes (memory st) p)" if "p < 2 ^ 20" for p
    using page_bytes_memcpy_in[of "unat SYSCALL_PAGE" p 0 bs "memory st"] that bs
    unfolding st'_def SYSCALL_ARG_page by simp
  have f: "frame_of st' r v = frame_of st r v" for r v by (simp add: st'_def frame_of_def)
  show "vm_wf st'" using wf by (simp add: st'_def vm_wf_def Let_def)
  show "page_bytes (memory st') k = page_bytes (memory st) k" if "kernel_page k"
    using m[of k] that by (auto simp: kernel_page_def)
  show "view st' (curr_vm_pid st) SYSCALL_PAGE =
       map_option (\<lambda>old. bs @ drop (length bs) old) (view st (curr_vm_pid st) SYSCALL_PAGE)"
    using m[of "unat SYSCALL_PAGE"] f by (simp add: view_def st'_def option.map_comp o_def)
  show "view st' q w = view st q w" if ne: "(q, w) \<noteq> (curr_vm_pid st, SYSCALL_PAGE)"
  proof (cases "frame_of st q w")
    case (Some i)
    have u: "user_page w" using vm_wfD(1)[OF wf frame_ofD(1-3)[OF Some] q] frame_ofD(4)[OF Some] by simp
    have "w \<noteq> SYSCALL_PAGE \<Longrightarrow> unat w \<noteq> unat SYSCALL_PAGE" by (simp only: word_unat_eq_iff) simp
    then have "page_bytes (memory st') (if curr_vm_pid st = q then unat w else frame_page i) =
        page_bytes (memory st) (if curr_vm_pid st = q then unat w else frame_page i)"
      using m[of "frame_page i"] m[of "unat w"] ne user_page_less[OF u] frame_page_less[OF frame_ofD(1)[OF Some]]
      by (auto simp: frame_page_def)
    then show ?thesis using Some f by (simp add: view_def st'_def)
  qed (simp add: view_def f)
qed

section \<open>Process control blocks\<close>

lemma nth_proc_set_status:
  assumes "length (proc_set st) = MAX_NPROCESS + 1"
  shows "i < MAX_NPROCESS \<Longrightarrow> proc_set (proc_set_status p s st) ! i =
      (if pid (proc_set st ! i) = p then (proc_set st ! i)\<lparr>status := s\<rparr> else proc_set st ! i)"
    "length (proc_set (proc_set_status p s st)) = MAX_NPROCESS + 1"
  using assms by (auto simp: proc_set_status_def nth_append)

lemma proc_set_status_same [simp]:
  "core_in_kernel (proc_set_status p s st) = core_in_kernel st"
  "core_to_proc_idx (proc_set_status p s st) = core_to_proc_idx st"
  "last_pid (proc_set_status p s st) = last_pid st" "mmu (proc_set_status p s st) = mmu st"
  "mtimecmp (proc_set_status p s st) = mtimecmp st"
  "curr_proc_idx (proc_set_status p s st) = curr_proc_idx st"
  by (simp_all add: proc_set_status_def curr_proc_idx_def)

lemma update_proc_same [simp]:
  "core_in_kernel (update_proc i f st) = core_in_kernel st"
  "core_to_proc_idx (update_proc i f st) = core_to_proc_idx st"
  "last_pid (update_proc i f st) = last_pid st" "mmu (update_proc i f st) = mmu st"
  "mtimecmp (update_proc i f st) = mtimecmp st" "curr_proc_idx (update_proc i f st) = curr_proc_idx st"
  "length (proc_set (update_proc i f st)) = length (proc_set st)"
  by (simp_all add: update_proc_def curr_proc_idx_def)

lemma nth_update_proc:
  "i < length (proc_set st) \<Longrightarrow> proc_set (update_proc k f st) ! i = (if i = k then f (proc_set st ! i) else proc_set st ! i)"
  by (simp add: update_proc_def)

section \<open>The invariant\<close>

text \<open>Slots \<open>i\<close> are the ones in use: the last one is the place holder of idle cores.\<close>

definition procs_wf :: "kernel \<Rightarrow> bool" where
  "procs_wf st \<longleftrightarrow> length (proc_set st) = MAX_NPROCESS + 1 \<and>
     (\<forall>i < MAX_NPROCESS. let p = proc_set st ! i in
        (status p \<noteq> PROC_UNUSED \<longrightarrow> pid p \<noteq> 0) \<and> pid p \<le> last_pid st \<and>
        length (saved_registers p) = SAVED_REGISTER_NUM \<and>
        (\<forall>j < MAX_NPROCESS. pid (proc_set st ! j) = pid p \<and> pid p \<noteq> 0 \<longrightarrow> i = j))"

text \<open>A message has been put into the control block of a receiver that is still blocked.\<close>

definition delivered :: "process \<Rightarrow> bool" where
  "delivered p \<longleftrightarrow> status p = PROC_PENDING_SYSCALL \<and> sc_type (syscall p) = SYS_RECV \<and> sc_status (syscall p) = DONE"

text \<open>The sender of such a message is blocked on it, or has been killed.\<close>

definition sender_of :: "process \<Rightarrow> process \<Rightarrow> bool" where
  "sender_of r s \<longleftrightarrow> sc_type (syscall s) = SYS_SEND \<and> sc_receiver (syscall s) = pid r \<and>
     content (syscall s) = content (syscall r) \<and> status s \<in> {PROC_PENDING_SYSCALL, PROC_UNUSED}"

definition ipc_wf :: "kernel \<Rightarrow> bool" where
  "ipc_wf st \<longleftrightarrow> (\<forall>i < MAX_NPROCESS. let r = proc_set st ! i in delivered r \<longrightarrow>
     sc_sender (syscall r) \<noteq> 0 \<and> sc_sender (syscall r) \<le> last_pid st \<and>
     (\<forall>j < MAX_NPROCESS. pid (proc_set st ! j) = sc_sender (syscall r) \<longrightarrow> sender_of r (proc_set st ! j)))"

text \<open>A blocked process has made one of the two system calls.\<close>

definition calls_wf :: "kernel \<Rightarrow> bool" where
  "calls_wf st \<longleftrightarrow> (\<forall>i < MAX_NPROCESS. status (proc_set st ! i) = PROC_PENDING_SYSCALL \<longrightarrow>
     sc_type (syscall (proc_set st ! i)) \<in> {SYS_RECV, SYS_SEND} \<and>
     length (content (syscall (proc_set st ! i))) = SYSCALL_MSG_LEN)"

definition kwf :: "kernel \<Rightarrow> bool" where
  "kwf st \<longleftrightarrow> procs_wf st \<and> ipc_wf st \<and> calls_wf st \<and> vm_wf (mmu st)"

lemma procs_wfD:
  assumes "procs_wf st" "i < MAX_NPROCESS"
  shows "length (proc_set st) = MAX_NPROCESS + 1" "status (proc_set st ! i) \<noteq> PROC_UNUSED \<Longrightarrow> pid (proc_set st ! i) \<noteq> 0"
    "pid (proc_set st ! i) \<le> last_pid st" "length (saved_registers (proc_set st ! i)) = SAVED_REGISTER_NUM"
    "j < MAX_NPROCESS \<Longrightarrow> pid (proc_set st ! j) = pid (proc_set st ! i) \<Longrightarrow> pid (proc_set st ! i) \<noteq> 0 \<Longrightarrow> i = j"
  using assms by (auto simp: procs_wf_def Let_def)

text \<open>Setting the status of a live process changes one slot.\<close>

lemma proc_set_status_slot:
  assumes wf: "procs_wf st" and k: "k < MAX_NPROCESS" "pid (proc_set st ! k) \<noteq> 0" and i: "i < MAX_NPROCESS"
  shows "proc_set (proc_set_status (pid (proc_set st ! k)) s st) ! i =
    (if i = k then (proc_set st ! k)\<lparr>status := s\<rparr> else proc_set st ! i)"
  using nth_proc_set_status(1)[OF procs_wfD(1)[OF wf i] i] procs_wfD(5)[OF wf k(1) i] k by auto

section \<open>What message passing leaves alone\<close>

text \<open>
  \<open>keeps st st'\<close>: contexts, ids, calls and pages are as before; a process may only have been
  unblocked, and only system call pages may have been written.
\<close>

definition keeps_proc :: "process \<Rightarrow> process \<Rightarrow> bool" where
  "keeps_proc p p' \<longleftrightarrow> pid p' = pid p \<and> mepc p' = mepc p \<and> saved_registers p' = saved_registers p \<and>
     sc_type (syscall p') = sc_type (syscall p) \<and> (sc_type (syscall p) \<noteq> SYS_RECV \<longrightarrow> syscall p' = syscall p) \<and>
     (status p' = status p \<or>
      status p' = PROC_RUNNABLE \<and> status p \<in> {PROC_PENDING_SYSCALL, PROC_UNUSED} \<and> pid p \<noteq> 0)"

definition keeps_mmu :: "mmu_state \<Rightarrow> mmu_state \<Rightarrow> bool" where
  "keeps_mmu m m' \<longleftrightarrow> page_info_table m' = page_info_table m \<and> platform m' = platform m \<and>
     translation m' = translation m \<and>
     (\<forall>q w. q \<noteq> 0 \<longrightarrow> w \<noteq> SYSCALL_PAGE \<longrightarrow> view m' q w = view m q w) \<and>
     (\<forall>k. kernel_page k \<longrightarrow> page_bytes (memory m') k = page_bytes (memory m) k)"

definition keeps :: "kernel \<Rightarrow> kernel \<Rightarrow> bool" where
  "keeps st st' \<longleftrightarrow> core_in_kernel st' = core_in_kernel st \<and> core_to_proc_idx st' = core_to_proc_idx st \<and>
     last_pid st' = last_pid st \<and> mtimecmp st' = mtimecmp st \<and> length (proc_set st') = length (proc_set st) \<and>
     keeps_mmu (mmu st) (mmu st') \<and> (\<forall>i < MAX_NPROCESS. keeps_proc (proc_set st ! i) (proc_set st' ! i))"

lemma keeps_refl [simp]: "keeps st st" "keeps_proc p p" "keeps_mmu m m"
  by (simp_all add: keeps_def keeps_proc_def keeps_mmu_def)

lemma keeps_trans:
  assumes "keeps st st1" "keeps st1 st2"
  shows "keeps st st2"
proof -
  have "keeps_proc p p''" if "keeps_proc p p'" "keeps_proc p' p''" for p p' p''
    using that unfolding keeps_proc_def by auto
  moreover have "keeps_mmu (mmu st) (mmu st2)"
    using assms unfolding keeps_def keeps_mmu_def by auto
  ultimately show ?thesis using assms unfolding keeps_def by auto
qed

lemma keeps_procs_wf:
  assumes "keeps st st'" "procs_wf st"
  shows "procs_wf st'"
  unfolding procs_wf_def Let_def
proof (intro conjI allI impI)
  show "length (proc_set st') = MAX_NPROCESS + 1" using assms by (simp add: keeps_def procs_wf_def)
  fix i assume i: "i < MAX_NPROCESS"
  have k: "keeps_proc (proc_set st ! j) (proc_set st' ! j)" "last_pid st' = last_pid st" if "j < MAX_NPROCESS" for j
    using assms(1) that by (auto simp: keeps_def)
  note wf = procs_wfD[OF assms(2) i]
  show "status (proc_set st' ! i) \<noteq> PROC_UNUSED \<Longrightarrow> pid (proc_set st' ! i) \<noteq> 0"
    "pid (proc_set st' ! i) \<le> last_pid st'" "length (saved_registers (proc_set st' ! i)) = SAVED_REGISTER_NUM"
    using wf(2-4) k[OF i] by (auto simp: keeps_proc_def)
  show "i = j" if "j < MAX_NPROCESS" "pid (proc_set st' ! j) = pid (proc_set st' ! i) \<and> pid (proc_set st' ! i) \<noteq> 0" for j
    using wf(5)[OF that(1)] k[OF i] k[OF that(1)] that(2) by (simp add: keeps_proc_def)
qed

section \<open>Sending\<close>

text \<open>Every sender that is blocked waits for a process that exists.\<close>

definition receiver_alive :: "kernel \<Rightarrow> process \<Rightarrow> bool" where
  "receiver_alive st s \<longleftrightarrow> (\<exists>j < MAX_NPROCESS. pid (proc_set st ! j) = sc_receiver (syscall s) \<and>
     status (proc_set st ! j) \<noteq> PROC_UNUSED)"

definition waits_for :: "process \<Rightarrow> process \<Rightarrow> bool" where
  "waits_for d s \<longleftrightarrow> sc_type (syscall d) = SYS_RECV \<and> sc_status (syscall d) = PENDING \<and>
     (sc_sender (syscall d) = GPID_ALL \<or> sc_sender (syscall d) = pid s)"

definition put_message :: "process \<Rightarrow> process \<Rightarrow> process" where
  "put_message s p = p\<lparr>syscall := (syscall p)\<lparr>sc_status := DONE, sc_sender := pid s, content := content (syscall s)\<rparr>\<rparr>"

lemma proc_try_send_cases:
  assumes "procs_wf st"
  obtains (dead) "\<not> receiver_alive st (proc_set st ! i)"
      "proc_try_send i st = Inl (FATAL ''proc_try_send: unknown receiver pid=%d'')"
  | (alive) j where "j < MAX_NPROCESS" "pid (proc_set st ! j) = sc_receiver (syscall (proc_set st ! i))"
      "status (proc_set st ! j) \<noteq> PROC_UNUSED"
      "proc_try_send i st = Inr (if waits_for (proc_set st ! j) (proc_set st ! i)
         then update_proc j (put_message (proc_set st ! i)) st else st)"
proof (cases "find (\<lambda>j. pid (proc_set st ! j) = sc_receiver (syscall (proc_set st ! i)) \<and>
    status (proc_set st ! j) \<noteq> PROC_UNUSED) [0 ..< MAX_NPROCESS]")
  case None
  then have "proc_try_send i st = Inl (FATAL ''proc_try_send: unknown receiver pid=%d'')"
    by (simp add: proc_try_send_def Let_def)
  moreover have "\<not> receiver_alive st (proc_set st ! i)" using None by (auto simp: find_None_iff receiver_alive_def)
  ultimately show thesis using dead by blast
next
  case (Some j)
  then have j: "j < MAX_NPROCESS" "pid (proc_set st ! j) = sc_receiver (syscall (proc_set st ! i))"
    "status (proc_set st ! j) \<noteq> PROC_UNUSED"
    by (auto simp: find_Some_iff)
  have "proc_try_send i st = Inr (if waits_for (proc_set st ! j) (proc_set st ! i)
         then update_proc j (put_message (proc_set st ! i)) st else st)"
    using Some by (simp add: proc_try_send_def Let_def waits_for_def put_message_def[abs_def])
  with alive j show thesis by blast
qed

lemma put_message_same [simp]:
  "pid (put_message s p) = pid p" "status (put_message s p) = status p" "mepc (put_message s p) = mepc p"
  "saved_registers (put_message s p) = saved_registers p" "sc_type (syscall (put_message s p)) = sc_type (syscall p)"
  "sc_receiver (syscall (put_message s p)) = sc_receiver (syscall p)" "sc_status (syscall (put_message s p)) = DONE"
  "sc_sender (syscall (put_message s p)) = pid s" "content (syscall (put_message s p)) = content (syscall s)"
  by (simp_all add: put_message_def)

lemma put_message_kwf:
  assumes wf: "kwf st" and i: "i < MAX_NPROCESS" "status (proc_set st ! i) = PROC_PENDING_SYSCALL"
      "sc_type (syscall (proc_set st ! i)) = SYS_SEND"
    and j: "j < MAX_NPROCESS" "pid (proc_set st ! j) = sc_receiver (syscall (proc_set st ! i))"
      "sc_type (syscall (proc_set st ! j)) = SYS_RECV"
  defines "st' \<equiv> update_proc j (put_message (proc_set st ! i)) st"
  shows "kwf st'" "keeps st st'"
proof -
  have pw: "procs_wf st" using wf by (simp add: kwf_def)
  have n: "proc_set st' ! k = (if k = j then put_message (proc_set st ! i) (proc_set st ! k) else proc_set st ! k)"
    if "k < MAX_NPROCESS" for k
    using that procs_wfD(1)[OF pw that] by (simp add: st'_def nth_update_proc)
  have ij: "i \<noteq> j" using i(3) j(3) by auto
  have pid: "pid (proc_set st ! i) \<noteq> 0" "pid (proc_set st ! i) \<le> last_pid st"
    using procs_wfD(2,3)[OF pw i(1)] i(2) by simp_all
  show ks: "keeps st st'"
    using n j(3) by (auto simp: keeps_def keeps_proc_def st'_def)
  have "ipc_wf st'"
    unfolding ipc_wf_def Let_def
  proof (intro allI impI)
    fix k assume k: "k < MAX_NPROCESS" and d: "delivered (proc_set st' ! k)"
    let ?r = "proc_set st' ! k"
    show "sc_sender (syscall ?r) \<noteq> 0 \<and> sc_sender (syscall ?r) \<le> last_pid st' \<and>
      (\<forall>l < MAX_NPROCESS. pid (proc_set st' ! l) = sc_sender (syscall ?r) \<longrightarrow> sender_of ?r (proc_set st' ! l))"
    proof (cases "k = j")
      case True
      have "pid (proc_set st ! l) \<noteq> pid (proc_set st ! i)" if "l < MAX_NPROCESS" "l \<noteq> i" for l
        using procs_wfD(5)[OF pw i(1) that(1)] that(2) pid(1) by auto
      then show ?thesis using n True j pid i ij by (auto simp: st'_def sender_of_def)
    next
      case False
      then have r: "?r = proc_set st ! k" using n k by simp
      have old: "sc_sender (syscall ?r) \<noteq> 0" "sc_sender (syscall ?r) \<le> last_pid st"
        "\<And>l. l < MAX_NPROCESS \<Longrightarrow> pid (proc_set st ! l) = sc_sender (syscall ?r) \<Longrightarrow> sender_of ?r (proc_set st ! l)"
        using wf k d r by (auto simp: kwf_def ipc_wf_def Let_def)
      have "sender_of ?r (proc_set st' ! l)" if "l < MAX_NPROCESS" "pid (proc_set st' ! l) = sc_sender (syscall ?r)" for l
        using old(3)[OF that(1)] that n[OF that(1)] j(3) by (auto simp: sender_of_def split: if_splits)
      with old show ?thesis by (simp add: st'_def)
    qed
  qed
  moreover have "calls_wf st'"
    using wf n i by (auto simp: kwf_def calls_wf_def)
  ultimately show "kwf st'"
    using wf keeps_procs_wf[OF ks pw] by (simp add: kwf_def st'_def)
qed

section \<open>Receiving\<close>

lemma length_syscall_bytes: "length (syscall_bytes sc) = 16 + length (content sc)"
  by (simp add: syscall_bytes_def)

text \<open>The state after a message has been taken.\<close>

definition message_taken :: "nat \<Rightarrow> kernel \<Rightarrow> kernel" where
  "message_taken i st =
     (let r = proc_set st ! i; m = soft_tlb_switch (pid r) (mmu st) in
      proc_set_runnable (sc_sender (syscall r)) (proc_set_runnable (pid r)
        (st\<lparr>mmu := m\<lparr>memory := memcpy_in (memory m) SYSCALL_ARG (syscall_bytes (syscall r))\<rparr>\<rparr>)))"

lemma proc_try_recv_eq:
  "proc_try_recv i st = Inr (if sc_status (syscall (proc_set st ! i)) = PENDING then st else message_taken i st)"
  by (simp add: proc_try_recv_def message_taken_def Let_def)

lemma nth_message_taken:
  assumes "procs_wf st" "i < MAX_NPROCESS" "pid (proc_set st ! i) \<noteq> 0" "k < MAX_NPROCESS"
  shows "proc_set (message_taken i st) ! k =
    (if k = i \<or> pid (proc_set st ! k) = sc_sender (syscall (proc_set st ! i))
     then (proc_set st ! k)\<lparr>status := PROC_RUNNABLE\<rparr> else proc_set st ! k)"
    "length (proc_set (message_taken i st)) = MAX_NPROCESS + 1"
proof -
  have l: "length (proc_set st) = MAX_NPROCESS + 1" using assms(1) by (simp add: procs_wf_def)
  have "k = i" if "pid (proc_set st ! k) = pid (proc_set st ! i)"
    using procs_wfD(5)[OF assms(1,2,4) that assms(3)] by simp
  then show "proc_set (message_taken i st) ! k =
    (if k = i \<or> pid (proc_set st ! k) = sc_sender (syscall (proc_set st ! i))
     then (proc_set st ! k)\<lparr>status := PROC_RUNNABLE\<rparr> else proc_set st ! k)"
    unfolding message_taken_def Let_def proc_set_runnable_def
    using l assms(4) by (subst nth_proc_set_status(1); (subst nth_proc_set_status(1))?) (auto simp: nth_proc_set_status)
  show "length (proc_set (message_taken i st)) = MAX_NPROCESS + 1"
    unfolding message_taken_def Let_def proc_set_runnable_def using l by (simp add: nth_proc_set_status(2))
qed

lemma message_taken_mmu:
  assumes wf: "vm_wf (mmu st)" and r: "pid (proc_set st ! i) \<noteq> 0"
    and bs: "length (content (syscall (proc_set st ! i))) = SYSCALL_MSG_LEN"
  shows "vm_wf (mmu (message_taken i st))" "keeps_mmu (mmu st) (mmu (message_taken i st))"
    "q \<noteq> 0 \<Longrightarrow> q \<noteq> pid (proc_set st ! i) \<Longrightarrow> view (mmu (message_taken i st)) q w = view (mmu st) q w"
    "view (mmu (message_taken i st)) (pid (proc_set st ! i)) SYSCALL_PAGE =
       map_option (\<lambda>old. syscall_bytes (syscall (proc_set st ! i)) @ drop SYSCALL_SIZE old)
         (view (mmu st) (pid (proc_set st ! i)) SYSCALL_PAGE)"
proof -
  let ?m = "soft_tlb_switch (pid (proc_set st ! i)) (mmu st)"
  have m: "mmu (message_taken i st) = ?m\<lparr>memory := memcpy_in (memory ?m) SYSCALL_ARG (syscall_bytes (syscall (proc_set st ! i)))\<rparr>"
    by (simp add: message_taken_def Let_def proc_set_runnable_def)
  have len: "length (syscall_bytes (syscall (proc_set st ! i))) = SYSCALL_SIZE"
    using bs by (simp add: length_syscall_bytes)
  then have le: "length (syscall_bytes (syscall (proc_set st ! i))) \<le> PAGE_SIZE" by simp
  note s = soft_tlb_switch_wf[OF wf r] soft_tlb_switch_view[OF wf r] soft_tlb_switch_kernel_page[OF wf r]
  note w = syscall_write[OF s(1) le]
  show "vm_wf (mmu (message_taken i st))" unfolding m by (rule w(1)[of 1]) simp
  show v: "view (mmu (message_taken i st)) q w = view (mmu st) q w" if "q \<noteq> 0" "q \<noteq> pid (proc_set st ! i)" for q w
    unfolding m using w(2)[OF that(1)] that s(2,4) by simp
  have "view (mmu (message_taken i st)) q w = view (mmu st) q w" if "q \<noteq> 0" "w \<noteq> SYSCALL_PAGE" for q w
    unfolding m using w(2)[OF that(1)] that s(2,4) by simp
  then show "keeps_mmu (mmu st) (mmu (message_taken i st))"
    using w(3)[of 1] s(3,5) by (auto simp: keeps_mmu_def m)
  show "view (mmu (message_taken i st)) (pid (proc_set st ! i)) SYSCALL_PAGE =
       map_option (\<lambda>old. syscall_bytes (syscall (proc_set st ! i)) @ drop SYSCALL_SIZE old)
         (view (mmu st) (pid (proc_set st ! i)) SYSCALL_PAGE)"
    using w(4)[of 1] r unfolding m s(2) len by (simp add: s(4))
qed

lemma message_taken_kwf:
  assumes wf: "kwf st" and i: "i < MAX_NPROCESS" "delivered (proc_set st ! i)"
  shows "kwf (message_taken i st)" "keeps st (message_taken i st)"
proof -
  let ?r = "proc_set st ! i" and ?st = "message_taken i st"
  have pw: "procs_wf st" and vw: "vm_wf (mmu st)" using wf by (simp_all add: kwf_def)
  have st: "status ?r = PROC_PENDING_SYSCALL" "sc_type (syscall ?r) = SYS_RECV" using i(2) by (simp_all add: delivered_def)
  have nz: "pid ?r \<noteq> 0" using procs_wfD(2)[OF pw i(1)] st by simp
  have c: "length (content (syscall ?r)) = SYSCALL_MSG_LEN" using wf i(1) st by (auto simp: kwf_def calls_wf_def)
  have ip: "sc_sender (syscall ?r) \<noteq> 0"
    "\<And>k. k < MAX_NPROCESS \<Longrightarrow> pid (proc_set st ! k) = sc_sender (syscall ?r) \<Longrightarrow> sender_of ?r (proc_set st ! k)"
    using wf i by (auto simp: kwf_def ipc_wf_def Let_def)
  note n = nth_message_taken[OF pw i(1) nz]
  have kp: "keeps_proc (proc_set st ! k) (proc_set ?st ! k)" if k: "k < MAX_NPROCESS" for k
    using n(1)[OF k] ip(1) ip(2)[OF k] st nz by (auto simp: keeps_proc_def sender_of_def)
  show ks: "keeps st ?st"
    using kp n(2)[OF i(1)] procs_wfD(1)[OF pw i(1)] message_taken_mmu(2)[OF vw nz c]
    by (simp add: keeps_def) (simp add: message_taken_def Let_def proc_set_runnable_def)
  have "ipc_wf ?st"
    unfolding ipc_wf_def Let_def
  proof (intro allI impI)
    fix k assume k: "k < MAX_NPROCESS" and d: "delivered (proc_set ?st ! k)"
    have ki: "k \<noteq> i" "pid (proc_set st ! k) \<noteq> sc_sender (syscall ?r)" and r: "proc_set ?st ! k = proc_set st ! k"
      using n(1)[OF k] d by (auto simp: delivered_def split: if_splits)
    then have old: "sc_sender (syscall (proc_set st ! k)) \<noteq> 0" "sc_sender (syscall (proc_set st ! k)) \<le> last_pid st"
      "\<And>l. l < MAX_NPROCESS \<Longrightarrow> pid (proc_set st ! l) = sc_sender (syscall (proc_set st ! k)) \<Longrightarrow> sender_of (proc_set st ! k) (proc_set st ! l)"
      using wf k d by (auto simp: kwf_def ipc_wf_def Let_def)
    have "sender_of (proc_set st ! k) (proc_set ?st ! l)"
      if l: "l < MAX_NPROCESS" "pid (proc_set ?st ! l) = sc_sender (syscall (proc_set st ! k))" for l
    proof -
      have s: "sender_of (proc_set st ! k) (proc_set st ! l)" using old(3)[OF l(1)] l n(1)[OF l(1)] by (auto split: if_splits)
      have "l \<noteq> i" using s st(2) by (auto simp: sender_of_def)
      moreover have "pid (proc_set st ! l) \<noteq> sc_sender (syscall ?r)"
        using ip(2)[OF l(1)] s procs_wfD(5)[OF pw i(1) k] nz ki(1) by (auto simp: sender_of_def)
      ultimately show ?thesis using s n(1)[OF l(1)] by simp
    qed
    with old r show "sc_sender (syscall (proc_set ?st ! k)) \<noteq> 0 \<and> sc_sender (syscall (proc_set ?st ! k)) \<le> last_pid ?st \<and>
      (\<forall>l < MAX_NPROCESS. pid (proc_set ?st ! l) = sc_sender (syscall (proc_set ?st ! k)) \<longrightarrow>
        sender_of (proc_set ?st ! k) (proc_set ?st ! l))"
      using ks by (simp add: keeps_def)
  qed
  moreover have "calls_wf ?st" using wf n(1) by (auto simp: kwf_def calls_wf_def)
  ultimately show "kwf ?st" using keeps_procs_wf[OF ks pw] message_taken_mmu(1)[OF vw nz c] by (simp add: kwf_def)
qed

section \<open>System calls\<close>

text \<open>What a pending call does: nothing, deliver, or take a message.\<close>

lemma proc_try_syscall_cases:
  assumes wf: "kwf st" and i: "i < MAX_NPROCESS" "status (proc_set st ! i) = PROC_PENDING_SYSCALL"
  obtains (dead) "sc_type (syscall (proc_set st ! i)) = SYS_SEND" "\<not> receiver_alive st (proc_set st ! i)"
      "proc_try_syscall i st = Inl (FATAL ''proc_try_send: unknown receiver pid=%d'')"
  | (blocked) "proc_try_syscall i st = Inr st"
  | (send) j where "j < MAX_NPROCESS" "sc_type (syscall (proc_set st ! i)) = SYS_SEND"
      "pid (proc_set st ! j) = sc_receiver (syscall (proc_set st ! i))"
      "status (proc_set st ! j) \<noteq> PROC_UNUSED" "waits_for (proc_set st ! j) (proc_set st ! i)"
      "proc_try_syscall i st = Inr (update_proc j (put_message (proc_set st ! i)) st)"
  | (recv) "delivered (proc_set st ! i)" "proc_try_syscall i st = Inr (message_taken i st)"
proof -
  have ty: "sc_type (syscall (proc_set st ! i)) \<in> {SYS_RECV, SYS_SEND}" "procs_wf st"
    using wf i by (auto simp: kwf_def calls_wf_def)
  show thesis
  proof (cases "sc_type (syscall (proc_set st ! i)) = SYS_RECV")
    case True
    then show thesis
      using i(2) recv blocked
      by (cases "sc_status (syscall (proc_set st ! i))") (simp_all add: proc_try_syscall_def proc_try_recv_eq delivered_def)
  next
    case False
    with ty(1) have s: "sc_type (syscall (proc_set st ! i)) = SYS_SEND" by simp
    then have "proc_try_syscall i st = proc_try_send i st" by (simp add: proc_try_syscall_def)
    then show thesis
      by (cases rule: proc_try_send_cases[OF ty(2), of i]) (use s dead blocked send in \<open>auto split: if_splits\<close>)
  qed
qed

lemma proc_try_syscall_correct:
  assumes wf: "kwf st" and i: "i < MAX_NPROCESS" "status (proc_set st ! i) = PROC_PENDING_SYSCALL"
    and st': "proc_try_syscall i st = Inr st'"
  shows "kwf st' \<and> keeps st st'"
  using wf i
proof (cases rule: proc_try_syscall_cases)
  case (send j)
  then show ?thesis using put_message_kwf[OF wf i send(2,1,3)] st' by (auto simp: waits_for_def)
next
  case recv
  then show ?thesis using message_taken_kwf[OF wf i(1)] st' by auto
qed (use st' wf in auto)

end
