(* ===== verification/Sched.thy ===== *)
theory Sched
  imports Kernel_Inv
begin

text \<open>
  The round-robin scheduler of grass/kernel.c (\<open>proc_yield\<close>): what it chooses, what it leaves
  alone, and when it fails.
\<close>

section \<open>Changing one slot\<close>

lemma slot_update:
  assumes pw: "procs_wf st" and iw: "ipc_wf st" and k: "k < MAX_NPROCESS"
    "status (proc_set st ! k) \<notin> {PROC_PENDING_SYSCALL, PROC_UNUSED}"
    and st': "length (proc_set st') = length (proc_set st)" "last_pid st' = last_pid st"
    "\<And>i. i < MAX_NPROCESS \<Longrightarrow> proc_set st' ! i = (if i = k then p else proc_set st ! i)"
    and p: "pid p = pid (proc_set st ! k)" "length (saved_registers p) = SAVED_REGISTER_NUM" "\<not> delivered p"
  shows "procs_wf st'" "ipc_wf st'"
proof -
  show "procs_wf st'"
    using pw k st' p unfolding procs_wf_def Let_def by (auto split: if_splits)
  show "ipc_wf st'"
    unfolding ipc_wf_def Let_def
  proof (intro allI impI)
    fix i assume i: "i < MAX_NPROCESS" and d: "delivered (proc_set st' ! i)"
    let ?r = "proc_set st ! i"
    have r: "proc_set st' ! i = ?r" using st'(3)[OF i] d p(3) by (auto split: if_splits)
    then have old: "sc_sender (syscall ?r) \<noteq> 0" "sc_sender (syscall ?r) \<le> last_pid st"
      "\<And>l. l < MAX_NPROCESS \<Longrightarrow> pid (proc_set st ! l) = sc_sender (syscall ?r) \<Longrightarrow> sender_of ?r (proc_set st ! l)"
      using iw i d by (auto simp: ipc_wf_def Let_def)
    have "sender_of ?r (proc_set st' ! l)"
      if l: "l < MAX_NPROCESS" "pid (proc_set st' ! l) = sc_sender (syscall ?r)" for l
    proof -
      have s: "sender_of ?r (proc_set st ! l)" using old(3)[OF l(1)] l st'(3)[OF l(1)] p(1) by (auto split: if_splits)
      then have "l \<noteq> k" using k(2) by (auto simp: sender_of_def)
      with s st'(3)[OF l(1)] show ?thesis by simp
    qed
    with old r st'(2) show "sc_sender (syscall (proc_set st' ! i)) \<noteq> 0 \<and>
      sc_sender (syscall (proc_set st' ! i)) \<le> last_pid st' \<and>
      (\<forall>l < MAX_NPROCESS. pid (proc_set st' ! l) = sc_sender (syscall (proc_set st' ! i)) \<longrightarrow>
        sender_of (proc_set st' ! i) (proc_set st' ! l))"
      by simp
  qed
qed

lemma slot_update_kwf:
  assumes wf: "kwf st" and k: "k < MAX_NPROCESS" "status (proc_set st ! k) \<notin> {PROC_PENDING_SYSCALL, PROC_UNUSED}"
    and st': "length (proc_set st') = length (proc_set st)" "last_pid st' = last_pid st" "vm_wf (mmu st')"
    "\<And>i. i < MAX_NPROCESS \<Longrightarrow> proc_set st' ! i = (if i = k then p else proc_set st ! i)"
    and p: "pid p = pid (proc_set st ! k)" "length (saved_registers p) = SAVED_REGISTER_NUM"
      "status p \<noteq> PROC_PENDING_SYSCALL"
  shows "kwf st'"
proof -
  have "\<not> delivered p" using p(3) by (simp add: delivered_def)
  then have "procs_wf st'" "ipc_wf st'"
    using slot_update[OF _ _ k st'(1,2,4) p(1,2)] wf by (simp_all add: kwf_def)
  moreover have "calls_wf st'" using wf st'(4) p(3) by (auto simp: kwf_def calls_wf_def)
  ultimately show ?thesis using st'(3) by (simp add: kwf_def)
qed

section \<open>The loop\<close>

definition slot :: "kernel \<Rightarrow> nat \<Rightarrow> nat" where
  "slot st i = (curr_proc_idx st + i) mod MAX_NPROCESS"

definition schedulable :: "kernel \<Rightarrow> nat \<Rightarrow> bool" where
  "schedulable st i \<longleftrightarrow> status (proc_set st ! i) \<in> {PROC_READY, PROC_RUNNABLE}"

definition senders_alive :: "kernel \<Rightarrow> bool" where
  "senders_alive st \<longleftrightarrow> (\<forall>i < MAX_NPROCESS. status (proc_set st ! i) = PROC_PENDING_SYSCALL \<and>
     sc_type (syscall (proc_set st ! i)) = SYS_SEND \<longrightarrow> receiver_alive st (proc_set st ! i))"

lemma slot_less [simp]: "slot st i < MAX_NPROCESS"
  by (simp add: slot_def)

lemma keeps_slot: "keeps st st' \<Longrightarrow> slot st' i = slot st i" "keeps st st' \<Longrightarrow> curr_proc_idx st' = curr_proc_idx st"
  by (simp_all add: keeps_def slot_def curr_proc_idx_def)

lemma keeps_schedulable:
  assumes "keeps st st'" "i < MAX_NPROCESS"
  shows "schedulable st i \<Longrightarrow> status (proc_set st' ! i) = status (proc_set st ! i)"
    "status (proc_set st' ! i) = PROC_READY \<longleftrightarrow> status (proc_set st ! i) = PROC_READY"
    "status (proc_set st' ! i) = PROC_RUNNING \<longleftrightarrow> status (proc_set st ! i) = PROC_RUNNING"
  using assms by (auto simp: keeps_def keeps_proc_def schedulable_def)

lemma keeps_senders_alive:
  assumes "keeps st st'" "senders_alive st"
  shows "senders_alive st'"
  unfolding senders_alive_def
proof (intro allI impI)
  have k: "keeps_proc (proc_set st ! i) (proc_set st' ! i)" if "i < MAX_NPROCESS" for i
    using assms(1) that by (simp add: keeps_def)
  fix i assume i: "i < MAX_NPROCESS" and p: "status (proc_set st' ! i) = PROC_PENDING_SYSCALL \<and>
     sc_type (syscall (proc_set st' ! i)) = SYS_SEND"
  then have "receiver_alive st (proc_set st ! i)" and eq: "syscall (proc_set st' ! i) = syscall (proc_set st ! i)"
    using k[OF i] assms(2) by (auto simp: keeps_proc_def senders_alive_def)
  then obtain j where j: "j < MAX_NPROCESS" "pid (proc_set st ! j) = sc_receiver (syscall (proc_set st ! i))"
     "status (proc_set st ! j) \<noteq> PROC_UNUSED" by (auto simp: receiver_alive_def)
  with k[OF j(1)] eq show "receiver_alive st' (proc_set st' ! i)"
    unfolding receiver_alive_def by (intro exI[of _ j]) (auto simp: keeps_proc_def)
qed

text \<open>One round of the loop, whether the process is blocked or not.\<close>

lemma yield_step:
  assumes wf: "kwf st" and i: "i < MAX_NPROCESS"
    and st': "(if status (proc_set st ! i) = PROC_PENDING_SYSCALL then proc_try_syscall i st else Inr st) = Inr st'"
  shows "kwf st' \<and> keeps st st'"
  using proc_try_syscall_correct[OF wf i] st' wf by (auto split: if_splits)

lemma yield_loop_correct:
  assumes "kwf st" "yield_loop is st = Inr (n, st')"
  shows "kwf st' \<and> keeps st st' \<and>
    (\<exists>ys zs. is = ys @ zs \<and> (\<forall>i \<in> set ys. \<not> schedulable st (slot st i)) \<and>
       (case zs of [] \<Rightarrow> n = MAX_NPROCESS | i # _ \<Rightarrow> n = slot st i \<and> schedulable st' n))"
  using assms
proof (induction "is" arbitrary: st)
  case Nil
  then show ?case by (intro conjI exI[of _ "[]"]) auto
next
  case (Cons i "is")
  obtain st1 where st1: "(if status (proc_set st ! slot st i) = PROC_PENDING_SYSCALL
      then proc_try_syscall (slot st i) st else Inr st) = Inr st1"
    "(if schedulable st1 (slot st i) then Inr (slot st i, st1) else yield_loop is st1) = Inr (n, st')"
    using Cons.prems(2) unfolding yield_loop.simps Let_def slot_def [symmetric]
    by (auto simp: schedulable_def elim!: bindr_InrE)
  have s: "kwf st1" "keeps st st1" using yield_step[OF Cons.prems(1) slot_less st1(1)] by simp_all
  show ?case
  proof (cases "schedulable st1 (slot st i)")
    case True
    then show ?thesis using s st1(2) by (intro conjI exI[of _ "[]"] exI[of _ "i # is"]) auto
  next
    case False
    obtain ys zs where r: "kwf st'" "keeps st1 st'" "is = ys @ zs" "\<forall>i \<in> set ys. \<not> schedulable st1 (slot st1 i)"
      "case zs of [] \<Rightarrow> n = MAX_NPROCESS | i # _ \<Rightarrow> n = slot st1 i \<and> schedulable st' n"
      using Cons.IH[OF s(1)] st1(2) False by auto
    have "\<not> schedulable st (slot st j)" if "j \<in> set (i # ys)" for j
      using that False r(4) keeps_schedulable(1)[OF s(2) slot_less, of st j] keeps_slot(1)[OF s(2)]
      by (auto simp: schedulable_def)
    moreover have "case zs of [] \<Rightarrow> n = MAX_NPROCESS | i # _ \<Rightarrow> n = slot st i \<and> schedulable st' n"
      using r(5) keeps_slot(1)[OF s(2)] by (auto split: list.splits)
    ultimately show ?thesis using r(1-3) keeps_trans[OF s(2) r(2)]
      by (intro conjI exI[of _ "i # ys"] exI[of _ zs]) auto
  qed
qed

lemma yield_loop_error:
  assumes "kwf st" "yield_loop is st = Inl e"
  shows "e = FATAL ''proc_try_send: unknown receiver pid=%d'' \<and> \<not> senders_alive st"
  using assms
proof (induction "is" arbitrary: st)
  case (Cons i "is")
  let ?i = "slot st i"
  let ?s = "if status (proc_set st ! ?i) = PROC_PENDING_SYSCALL then proc_try_syscall ?i st else Inr st"
  show ?case
  proof (cases ?s)
    case (Inl e')
    then have p: "status (proc_set st ! ?i) = PROC_PENDING_SYSCALL" "proc_try_syscall ?i st = Inl e'"
      by (auto split: if_splits)
    have "e' = e" using Cons.prems(2) p by (simp add: slot_def [symmetric] Let_def)
    with Cons.prems(1) slot_less p(1) show ?thesis
      by (cases rule: proc_try_syscall_cases) (use p in \<open>auto simp: senders_alive_def intro!: exI[of _ ?i]\<close>)
  next
    case (Inr st1)
    have s: "kwf st1" "keeps st st1" using yield_step[OF Cons.prems(1) slot_less Inr] by simp_all
    have "yield_loop is st1 = Inl e"
      using Cons.prems(2) Inr by (auto simp: slot_def [symmetric] Let_def bindr_def split: if_splits)
    then show ?thesis using Cons.IH[OF s(1)] keeps_senders_alive[OF s(2)] by blast
  qed
qed simp

section \<open>Switching\<close>

definition initial_context :: "process \<Rightarrow> process" where
  "initial_context p = p\<lparr>saved_registers := (saved_registers p)[0 := APPS_ARG, 1 := APPS_ARG + 4], mepc := APPS_ENTRY\<rparr>"

lemma initial_context_same [simp]:
  "pid (initial_context p) = pid p" "status (initial_context p) = status p" "syscall (initial_context p) = syscall p"
  "length (saved_registers (initial_context p)) = length (saved_registers p)"
  by (simp_all add: initial_context_def)

definition core_ok :: "kernel \<Rightarrow> bool" where
  "core_ok st \<longleftrightarrow> core_in_kernel st < length (core_to_proc_idx st) \<and> curr_proc_idx st < MAX_NPROCESS"

lemma switch_to_correct:
  fixes now :: u64
  assumes wf: "kwf st" and c: "core_ok st" and n: "n < MAX_NPROCESS" "schedulable st n"
  defines "st' \<equiv> switch_to now n st"
  shows "kwf st'" "core_ok st'" "curr_proc_idx st' = n" "core_in_kernel st' = core_in_kernel st"
    "length (core_to_proc_idx st') = length (core_to_proc_idx st)"
    "mmu st' = soft_tlb_switch (pid (proc_set st ! n)) (mmu st)"
    "mtimecmp st' = (mtimecmp st)(core_in_kernel st := now + QUANTUM (platform (mmu st)))" "last_pid st' = last_pid st"
    "i < MAX_NPROCESS \<Longrightarrow> proc_set st' ! i = (if i = n then
       (if status (proc_set st ! n) = PROC_READY then initial_context (proc_set st ! n) else proc_set st ! n)
         \<lparr>status := PROC_RUNNING\<rparr> else proc_set st ! i)"
proof -
  let ?p = "if status (proc_set st ! n) = PROC_READY then initial_context (proc_set st ! n) else proc_set st ! n"
  have pw: "procs_wf st" and vw: "vm_wf (mmu st)" using wf by (simp_all add: kwf_def)
  have len: "length (proc_set st) = MAX_NPROCESS + 1" using pw by (simp add: procs_wf_def)
  have nz: "pid (proc_set st ! n) \<noteq> 0" using procs_wfD(2)[OF pw n(1)] n(2) by (auto simp: schedulable_def)
  define s1 where "s1 = (set_curr_proc_idx n st)\<lparr>mmu := mmu_switch (pid (proc_set st ! n)) (mmu (set_curr_proc_idx n st))\<rparr>"
  have s1: "curr_proc_idx s1 = n" "proc_set s1 = proc_set st" "curr_proc s1 = proc_set st ! n"
    "curr_proc_idx (set_curr_proc_idx n st) = n" "curr_proc (set_curr_proc_idx n st) = proc_set st ! n"
    using c by (simp_all add: s1_def curr_proc_idx_def curr_proc_def set_curr_proc_idx_def core_ok_def)
  define s2 where "s2 = (if status (proc_set st ! n) = PROC_READY then update_proc n initial_context s1 else s1)"
  have s2: "proc_set s2 ! i = (if i = n then ?p else proc_set st ! i)" if "i < MAX_NPROCESS" for i
    using that len by (simp add: s2_def nth_update_proc s1)
  have s2': "length (proc_set s2) = MAX_NPROCESS + 1" "curr_proc_idx s2 = n" "last_pid s2 = last_pid st"
    "core_in_kernel s2 = core_in_kernel st" "core_to_proc_idx s2 = (core_to_proc_idx st)[core_in_kernel st := n]"
    "mmu s2 = soft_tlb_switch (pid (proc_set st ! n)) (mmu st)" "mtimecmp s2 = mtimecmp st"
    using len s1 by (auto simp: s2_def s1_def set_curr_proc_idx_def)
  have cp: "curr_proc s2 = ?p" using s2[OF n(1)] s2'(2) by (simp add: curr_proc_def)
  have pd: "pid ?p = pid (proc_set st ! n)" by simp
  have st': "st' = (proc_set_running (pid (proc_set st ! n)) s2)
      \<lparr>mtimecmp := (mtimecmp st)(core_in_kernel st := now + QUANTUM (platform (mmu st)))\<rparr>"
    unfolding st'_def switch_to_def Let_def s1(3,4,5) initial_context_def [symmetric] s1_def [symmetric] s1(1)
      s2_def [symmetric] cp pd
    by (simp add: timer_reset_def mtimecmp_set_eq proc_set_running_def s2')
  show ps: "proc_set st' ! i = (if i = n then ?p\<lparr>status := PROC_RUNNING\<rparr> else proc_set st ! i)" if i: "i < MAX_NPROCESS" for i
    using nth_proc_set_status(1)[OF s2'(1) i, of "pid (proc_set st ! n)" PROC_RUNNING] s2[OF i]
      procs_wfD(5)[OF pw n(1) i _ nz]
    by (auto simp: st' proc_set_running_def)
  show m: "mmu st' = soft_tlb_switch (pid (proc_set st ! n)) (mmu st)" and lp: "last_pid st' = last_pid st"
    and "core_in_kernel st' = core_in_kernel st"
    "length (core_to_proc_idx st') = length (core_to_proc_idx st)"
    "mtimecmp st' = (mtimecmp st)(core_in_kernel st := now + QUANTUM (platform (mmu st)))"
    by (simp_all add: st' proc_set_running_def s2')
  show "curr_proc_idx st' = n" "core_ok st'"
    using c n(1) s2' by (simp_all add: st' proc_set_running_def curr_proc_idx_def core_ok_def)
  have len': "length (proc_set st') = length (proc_set st)"
    using len nth_proc_set_status(2)[OF s2'(1)] by (simp add: st' proc_set_running_def)
  show "kwf st'"
    by (rule slot_update_kwf[OF wf n(1) _ len' lp _ ps])
      (use n procs_wfD(4)[OF pw n(1)] soft_tlb_switch_wf(1)[OF vw nz] m in \<open>auto simp: schedulable_def\<close>)
qed

section \<open>Yielding\<close>

text \<open>Only the current process may be marked as running.\<close>

definition only_current_runs :: "kernel \<Rightarrow> bool" where
  "only_current_runs st \<longleftrightarrow> (\<forall>i < MAX_NPROCESS. status (proc_set st ! i) = PROC_RUNNING \<longrightarrow> i = curr_proc_idx st)"

text \<open>The state of \<open>proc_yield\<close> when it starts to look for a process.\<close>

definition preempted :: "kernel \<Rightarrow> kernel" where
  "preempted st = (if status (curr_proc st) = PROC_RUNNING then proc_set_runnable (pid (curr_proc st)) st else st)"

lemma preempted_correct:
  assumes wf: "kwf st" and c: "core_ok st" and o: "only_current_runs st"
  shows "kwf (preempted st)" "core_ok (preempted st)" "curr_proc_idx (preempted st) = curr_proc_idx st"
    "core_to_proc_idx (preempted st) = core_to_proc_idx st" "core_in_kernel (preempted st) = core_in_kernel st"
    "mmu (preempted st) = mmu st" "mtimecmp (preempted st) = mtimecmp st" "last_pid (preempted st) = last_pid st"
    "i < MAX_NPROCESS \<Longrightarrow> proc_set (preempted st) ! i = (if status (proc_set st ! i) = PROC_RUNNING
       then (proc_set st ! i)\<lparr>status := PROC_RUNNABLE\<rparr> else proc_set st ! i)"
proof -
  have pw: "procs_wf st" and cl: "curr_proc_idx st < MAX_NPROCESS" using wf c by (simp_all add: kwf_def core_ok_def)
  show same: "curr_proc_idx (preempted st) = curr_proc_idx st" "core_to_proc_idx (preempted st) = core_to_proc_idx st"
    "core_in_kernel (preempted st) = core_in_kernel st" "mmu (preempted st) = mmu st" "mtimecmp (preempted st) = mtimecmp st"
    "last_pid (preempted st) = last_pid st"
    by (simp_all add: preempted_def proc_set_runnable_def)
  show "core_ok (preempted st)" using c same by (simp add: core_ok_def)
  have nz: "status (curr_proc st) = PROC_RUNNING \<Longrightarrow> pid (proc_set st ! curr_proc_idx st) \<noteq> 0"
    using procs_wfD(2)[OF pw cl] by (simp add: curr_proc_def)
  show ps: "proc_set (preempted st) ! i = (if status (proc_set st ! i) = PROC_RUNNING
       then (proc_set st ! i)\<lparr>status := PROC_RUNNABLE\<rparr> else proc_set st ! i)" if i: "i < MAX_NPROCESS" for i
  proof (cases "status (curr_proc st) = PROC_RUNNING")
    case True
    then have "status (proc_set st ! i) = PROC_RUNNING \<longleftrightarrow> i = curr_proc_idx st"
      using o i unfolding only_current_runs_def curr_proc_def by blast
    with True proc_set_status_slot[OF pw cl nz i] show ?thesis
      by (simp add: preempted_def proc_set_runnable_def curr_proc_def)
  next
    case False
    then have "status (proc_set st ! i) \<noteq> PROC_RUNNING"
      using o i unfolding only_current_runs_def curr_proc_def by blast
    with False show ?thesis by (simp add: preempted_def)
  qed
  have len: "length (proc_set (preempted st)) = length (proc_set st)"
    using nth_proc_set_status(2)[of st] procs_wfD(1)[OF pw cl] by (simp add: preempted_def proc_set_runnable_def)
  show "kwf (preempted st)"
  proof (cases "status (curr_proc st) = PROC_RUNNING")
    case True
    show ?thesis
    proof (rule slot_update_kwf[OF wf cl _ len same(6), where p = "(curr_proc st)\<lparr>status := PROC_RUNNABLE\<rparr>"])
      fix i assume i: "i < MAX_NPROCESS"
      have "status (proc_set st ! i) = PROC_RUNNING \<longleftrightarrow> i = curr_proc_idx st"
        using True o i unfolding only_current_runs_def curr_proc_def by blast
      with ps[OF i] show "proc_set (preempted st) ! i = (if i = curr_proc_idx st
          then (curr_proc st)\<lparr>status := PROC_RUNNABLE\<rparr> else proc_set st ! i)"
        by (simp add: curr_proc_def)
    qed (use True wf same(4) procs_wfD(4)[OF pw cl] in \<open>simp_all add: curr_proc_def kwf_def\<close>)
  qed (use wf in \<open>simp add: preempted_def\<close>)
qed

lemma proc_yield_preempted:
  "proc_yield now st = bindr (yield_loop [1 ..< MAX_NPROCESS + 1] (preempted st)) (\<lambda>(n, st).
     if n < MAX_NPROCESS then Inr (switch_to now n st)
     else Inl (FATAL ''proc_yield: no process to run on core %d''))"
  by (simp add: proc_yield_def preempted_def)

text \<open>
  The next process is the first one after the current one, in the order of the slots, that is
  ready or runnable; processes that were passed over were blocked.
\<close>

lemma proc_yield_correct:
  fixes now :: u64
  assumes wf: "kwf st" and c: "core_ok st" and o: "only_current_runs st" and y: "proc_yield now st = Inr st'"
  obtains st1 d where "keeps (preempted st) st1" "kwf st1" "1 \<le> d" "d \<le> MAX_NPROCESS" "schedulable st1 (slot st d)"
    "st' = switch_to now (slot st d) st1" "core_ok st1"
    "\<And>d'. 1 \<le> d' \<Longrightarrow> d' < d \<Longrightarrow> \<not> schedulable (preempted st) (slot st d')"
proof -
  note pre = preempted_correct[OF wf c o]
  have sl: "slot (preempted st) = slot st" by (rule ext) (simp add: slot_def pre(3))
  obtain n st1 where l: "yield_loop [1 ..< MAX_NPROCESS + 1] (preempted st) = Inr (n, st1)" "n < MAX_NPROCESS"
    "st' = switch_to now n st1"
    using y unfolding proc_yield_preempted by (auto elim!: bindr_InrE split: if_splits)
  obtain ys zs where r: "kwf st1" "keeps (preempted st) st1" "[1 ..< MAX_NPROCESS + 1] = ys @ zs"
    "\<forall>i \<in> set ys. \<not> schedulable (preempted st) (slot st i)"
    "case zs of [] \<Rightarrow> n = MAX_NPROCESS | i # _ \<Rightarrow> n = slot st i \<and> schedulable st1 n"
    using yield_loop_correct[OF pre(1) l(1)] unfolding sl by blast
  obtain d zs' where zs: "zs = d # zs'" "n = slot st d" "schedulable st1 n" using r(5) l(2) by (cases zs) auto
  have d: "d = Suc (length ys)" "ys = [1 ..< d]" "length ys < MAX_NPROCESS"
  proof -
    show len: "length ys < MAX_NPROCESS" using arg_cong[OF r(3), of length] zs(1) by simp
    show dd: "d = Suc (length ys)"
      using arg_cong[OF r(3), of "\<lambda>xs. xs ! length ys"] zs(1) len by simp
    show "ys = [1 ..< d]"
      using arg_cong[OF r(3), of "take (length ys)"] len dd by simp
  qed
  have c1: "core_ok st1" using pre(2) r(2) keeps_slot(2)[OF r(2)] by (simp add: core_ok_def keeps_def)
  have "1 \<le> d" "d \<le> MAX_NPROCESS" using d(1,3) by simp_all
  moreover have "\<not> schedulable (preempted st) (slot st d')" if "1 \<le> d'" "d' < d" for d'
    using r(4) that unfolding d(2) by simp
  moreover have "schedulable st1 (slot st d)" "st' = switch_to now (slot st d) st1" using zs(2,3) l(3) by simp_all
  ultimately show thesis using that r(1,2) c1 by blast
qed

end
