(* ===== verification/Trap.thy ===== *)
theory Trap
  imports Sched
begin

text \<open>
  A whole pass through the kernel (\<open>kernel_entry\<close>): the invariant between two traps, and what
  happens to contexts and memory.
\<close>

section \<open>The invariant between traps\<close>

definition kinv :: "kernel \<Rightarrow> bool" where
  "kinv st \<longleftrightarrow> kwf st \<and> core_ok st \<and> only_current_runs st \<and> status (curr_proc st) = PROC_RUNNING \<and>
     curr_vm_pid (mmu st) = pid (curr_proc st)"

section \<open>Words in kernel memory\<close>

lemma nth_concat_bytes32:
  "i < length ws \<Longrightarrow> k < 4 \<Longrightarrow> concat (map bytes32 ws) ! (4 * i + k) = bytes32 (ws ! i) ! k"
proof (induction ws arbitrary: i)
  case (Cons w ws)
  then show ?case by (cases i) (simp_all add: nth_append)
qed simp

lemma length_concat_bytes32: "length (concat (map bytes32 ws)) = 4 * length ws"
  by (induction ws) simp_all

lemma load_store_words:
  assumes "length ws \<le> 32"
  shows "load_words (store_words m a ws) a (length ws) = ws"
proof (rule nth_equalityI)
  show "length (load_words (store_words m a ws) a (length ws)) = length ws" by (simp add: load_words_def)
  fix i assume "i < length (load_words (store_words m a ws) a (length ws))"
  then have i: "i < length ws" by (simp add: load_words_def)
  let ?bs = "concat (map bytes32 ws)"
  have b: "memcpy_in m a ?bs (a + of_nat (4 * i) + of_nat k) = bytes32 (ws ! i) ! k" if "k < 4" for k
  proof -
    have "unat (a + of_nat (4 * i) + of_nat k - a) = 4 * i + k"
    proof -
      have "a + of_nat (4 * i) + of_nat k - a = of_nat (4 * i + k)" by simp
      moreover have "4 * i + k < 2 ^ 32" using i that assms by simp
      ultimately show ?thesis by (metis unat_of_nat_u32)
    qed
    then show ?thesis using nth_concat_bytes32[OF i that] i that
      by (simp add: memcpy_in_def length_concat_bytes32 del: of_nat_mult)
  qed
  have "load32 (memcpy_in m a ?bs) (a + of_nat (4 * i)) = ws ! i"
    using b[of 0] b[of 1] b[of 2] b[of 3] by (simp add: load32_def bytes32_def add.assoc del: of_nat_mult)
  then show "load_words (store_words m a ws) a (length ws) ! i = ws ! i"
    using i by (simp add: load_words_def store_words_def)
qed

abbreviation SAVED_PAGE :: nat where "SAVED_PAGE \<equiv> 0x803FF"

lemma SAVED_REGISTER_ADDR_page: "SAVED_REGISTER_ADDR = page_addr SAVED_PAGE + of_nat 0xF80"
  by (simp add: page_addr_def)

lemma kernel_page_SAVED [simp]: "kernel_page SAVED_PAGE"
  by (simp add: kernel_page_def)

lemma load_words_page:
  "load_words m SAVED_REGISTER_ADDR SAVED_REGISTER_NUM =
     map (\<lambda>i. get32 (page_bytes m SAVED_PAGE) (0xF80 + 4 * i)) [0 ..< SAVED_REGISTER_NUM]"
  unfolding load_words_def SAVED_REGISTER_ADDR_page
proof (rule map_cong[OF refl])
  fix i assume "i \<in> set [0 ..< SAVED_REGISTER_NUM]"
  then have i: "0xF80 + 4 * i + 4 \<le> PAGE_SIZE" by simp
  have "page_addr SAVED_PAGE + of_nat 0xF80 + of_nat (4 * i) = page_addr SAVED_PAGE + of_nat (0xF80 + 4 * i)"
    by (simp only: of_nat_add add.assoc)
  then show "load32 m (page_addr SAVED_PAGE + of_nat 0xF80 + of_nat (4 * i)) =
    get32 (page_bytes m SAVED_PAGE) (0xF80 + 4 * i)"
    unfolding load32_page[OF i, symmetric] by (simp add: add.assoc)
qed

lemma page_bytes_store_words:
  assumes "length ws = SAVED_REGISTER_NUM" "q < 2 ^ 20" "q \<noteq> SAVED_PAGE"
  shows "page_bytes (store_words m SAVED_REGISTER_ADDR ws) q = page_bytes m q"
  unfolding store_words_def SAVED_REGISTER_ADDR_page
  using page_bytes_memcpy_in[of SAVED_PAGE q "0xF80" "concat (map bytes32 ws)" m] assms
  by (simp add: length_concat_bytes32)

text \<open>Writing the pages of the kernel changes no process's memory.\<close>

lemma kernel_write_view:
  assumes wf: "vm_wf st" and q: "q \<noteq> 0"
    and m: "\<And>p. p < 2 ^ 20 \<Longrightarrow> \<not> kernel_page p \<Longrightarrow> page_bytes m p = page_bytes (memory st) p"
  shows "view (st\<lparr>memory := m\<rparr>) q w = view st q w"
proof (cases "frame_of st q w")
  case (Some i)
  have u: "user_page w" using vm_wfD(1)[OF wf frame_ofD(1-3)[OF Some] q] frame_ofD(4)[OF Some] by simp
  have "frame_of (st\<lparr>memory := m\<rparr>) q w = Some i" using Some by (simp add: frame_of_def)
  then show ?thesis
    using m[of "unat w"] m[of "frame_page i"] u frame_page_less[OF frame_ofD(1)[OF Some]] Some
    by (auto simp: view_def user_page_def kernel_page_def frame_page_def)
qed (simp add: view_def frame_of_def)

section \<open>From the trap to the scheduler\<close>

definition proc_context :: "process \<Rightarrow> u32 \<times> u32 list" where
  "proc_context p = (mepc p, saved_registers p)"

definition is_ecall :: "trap \<Rightarrow> bool" where
  "is_ecall t \<longleftrightarrow> \<not> bit (mcause t) 31"

text \<open>The context of the process that was trapped; after a system call it resumes behind the call.\<close>

definition trapped_context :: "trap \<Rightarrow> kernel \<Rightarrow> u32 \<times> u32 list" where
  "trapped_context t st = (if is_ecall t then trap_mepc t + 4 else trap_mepc t,
     load_words (memory (mmu st)) SAVED_REGISTER_ADDR SAVED_REGISTER_NUM)"

definition at_yield :: "trap \<Rightarrow> kernel \<Rightarrow> kernel \<Rightarrow> bool" where
  "at_yield t st s \<longleftrightarrow> kwf s \<and> core_ok s \<and> only_current_runs s \<and> keeps_mmu (mmu st) (mmu s) \<and>
     core_in_kernel s = core_in_kernel st \<and> core_to_proc_idx s = core_to_proc_idx st \<and>
     mtimecmp s = mtimecmp st \<and> last_pid s = last_pid st \<and>
     status (curr_proc s) \<in> (if is_ecall t then {PROC_PENDING_SYSCALL, PROC_RUNNABLE} else {PROC_RUNNING}) \<and>
     (\<forall>i < MAX_NPROCESS. pid (proc_set s ! i) = pid (proc_set st ! i) \<and>
        proc_context (proc_set s ! i) = (if i = curr_proc_idx st then trapped_context t st else proc_context (proc_set st ! i)) \<and>
        (i \<noteq> curr_proc_idx st \<longrightarrow> keeps_proc (proc_set st ! i) (proc_set s ! i)))"

lemma save_context_correct:
  assumes inv: "kinv st" and h: "mhartid t = core_in_kernel st"
  shows "kinv (save_context t st)" "curr_proc_idx (save_context t st) = curr_proc_idx st"
    "mmu (save_context t st) = mmu st" "core_in_kernel (save_context t st) = core_in_kernel st"
    "core_to_proc_idx (save_context t st) = core_to_proc_idx st" "mtimecmp (save_context t st) = mtimecmp st"
    "last_pid (save_context t st) = last_pid st"
    "i < MAX_NPROCESS \<Longrightarrow> proc_set (save_context t st) ! i = (if i = curr_proc_idx st then (proc_set st ! i)\<lparr>mepc := trap_mepc t,
        saved_registers := load_words (memory (mmu st)) SAVED_REGISTER_ADDR SAVED_REGISTER_NUM\<rparr> else proc_set st ! i)"
proof -
  have wf: "kwf st" "procs_wf st" and c: "curr_proc_idx st < MAX_NPROCESS" "core_ok st" "only_current_runs st"
    "status (proc_set st ! curr_proc_idx st) = PROC_RUNNING"
    using inv by (auto simp: kinv_def kwf_def core_ok_def curr_proc_def)
  have len: "length (proc_set st) = MAX_NPROCESS + 1" using procs_wfD(1)[OF wf(2) c(1)] .
  have ci: "curr_proc_idx (st\<lparr>core_in_kernel := mhartid t\<rparr>) = curr_proc_idx st" by (simp add: h curr_proc_idx_def)
  show same: "curr_proc_idx (save_context t st) = curr_proc_idx st"
    "mmu (save_context t st) = mmu st" "core_in_kernel (save_context t st) = core_in_kernel st"
    "core_to_proc_idx (save_context t st) = core_to_proc_idx st" "mtimecmp (save_context t st) = mtimecmp st"
    "last_pid (save_context t st) = last_pid st"
    by (simp_all add: save_context_def Let_def ci h)
  show ps: "proc_set (save_context t st) ! i = (if i = curr_proc_idx st then (proc_set st ! i)\<lparr>mepc := trap_mepc t,
      saved_registers := load_words (memory (mmu st)) SAVED_REGISTER_ADDR SAVED_REGISTER_NUM\<rparr> else proc_set st ! i)"
    if "i < MAX_NPROCESS" for i
    using that len by (simp add: save_context_def Let_def ci nth_update_proc)
  have len': "length (proc_set (save_context t st)) = length (proc_set st)" by (simp add: save_context_def Let_def)
  have "kwf (save_context t st)"
    by (rule slot_update_kwf[OF wf(1) c(1) _ len' same(6), where p = "(curr_proc st)\<lparr>mepc := trap_mepc t,
      saved_registers := load_words (memory (mmu st)) SAVED_REGISTER_ADDR SAVED_REGISTER_NUM\<rparr>"])
      (use c(4) ps wf(1) same(2) in \<open>simp_all add: curr_proc_def kwf_def load_words_def\<close>)
  moreover have "only_current_runs (save_context t st)"
    unfolding only_current_runs_def same(1)
  proof (intro allI impI)
    fix i assume i: "i < MAX_NPROCESS" "status (proc_set (save_context t st) ! i) = PROC_RUNNING"
    then have "status (proc_set st ! i) = PROC_RUNNING" using ps[OF i(1)] by (simp split: if_splits)
    then show "i = curr_proc_idx st" using c(3) i(1) unfolding only_current_runs_def by blast
  qed
  ultimately show "kinv (save_context t st)"
    using inv c ps[OF c(1)] same by (simp add: kinv_def core_ok_def curr_proc_def)
qed

text \<open>The state in which a system call is first tried.\<close>

definition ecall_syscall :: "kernel \<Rightarrow> syscall" where
  "ecall_syscall st = pending_syscall (memcpy_out (memory (mmu st)) SYSCALL_ARG SYSCALL_SIZE)"

definition ecall_proc :: "kernel \<Rightarrow> process" where
  "ecall_proc st = (curr_proc st)\<lparr>syscall := ecall_syscall st, status := PROC_PENDING_SYSCALL, mepc := mepc (curr_proc st) + 4\<rparr>"

lemma pending_syscall_same [simp]:
  "sc_status (pending_syscall bs) = PENDING" "length bs = SYSCALL_SIZE \<Longrightarrow> length (content (pending_syscall bs)) = SYSCALL_MSG_LEN"
  by (simp_all add: pending_syscall_def)

lemma excp_entry_state:
  assumes inv: "kinv st"
  obtains s1 where "\<And>now n. excp_entry now n st = (if 8 \<le> n \<and> n \<le> 11
      then bindr (proc_try_syscall (curr_proc_idx st) s1) (proc_yield now)
      else Inl (FATAL ''excp_entry: kernel got exception %d''))"
    "curr_proc_idx s1 = curr_proc_idx st" "mmu s1 = mmu st" "core_in_kernel s1 = core_in_kernel st"
    "core_to_proc_idx s1 = core_to_proc_idx st" "mtimecmp s1 = mtimecmp st" "last_pid s1 = last_pid st"
    "length (proc_set s1) = length (proc_set st)"
    "\<And>i. i < MAX_NPROCESS \<Longrightarrow> proc_set s1 ! i = (if i = curr_proc_idx st then ecall_proc st else proc_set st ! i)"
proof -
  let ?c = "curr_proc_idx st"
  have pw: "procs_wf st" and c: "?c < MAX_NPROCESS" using inv by (auto simp: kinv_def kwf_def core_ok_def)
  have len: "length (proc_set st) = MAX_NPROCESS + 1" using procs_wfD(1)[OF pw c] .
  have nz: "pid (proc_set st ! ?c) \<noteq> 0" using procs_wfD(2)[OF pw c] inv by (simp add: kinv_def curr_proc_def)
  have m: "soft_tlb_switch (pid (curr_proc st)) (mmu st) = mmu st"
    using inv by (simp add: kinv_def soft_tlb_switch_def)
  define s' where "s' = update_proc ?c (\<lambda>p. p\<lparr>syscall := ecall_syscall st\<rparr>) st"
  have s': "proc_set s' ! i = (if i = ?c then (proc_set st ! i)\<lparr>syscall := ecall_syscall st\<rparr> else proc_set st ! i)"
    if "i < MAX_NPROCESS" for i using that len by (simp add: s'_def nth_update_proc)
  have l': "length (proc_set s') = MAX_NPROCESS + 1" "curr_proc_idx s' = ?c" using len by (simp_all add: s'_def)
  define s2 where "s2 = proc_set_pending (pid (curr_proc st)) s'"
  have cp: "pid (curr_proc s') = pid (curr_proc st)" using s'[OF c] l'(2) by (simp add: curr_proc_def)
  have uq: "pid (proc_set s' ! i) = pid (proc_set st ! ?c) \<longleftrightarrow> i = ?c" if i: "i < MAX_NPROCESS" for i
    using s'[OF i] procs_wfD(5)[OF pw c i _ nz] by auto
  have s2: "proc_set s2 ! i = (if i = ?c then (proc_set st ! ?c)\<lparr>syscall := ecall_syscall st, status := PROC_PENDING_SYSCALL\<rparr>
      else proc_set st ! i)" if i: "i < MAX_NPROCESS" for i
    using nth_proc_set_status(1)[OF l'(1) i, of "pid (curr_proc st)"] s'[OF i] uq[OF i]
    by (cases "i = ?c") (simp_all add: s2_def proc_set_pending_def curr_proc_def)
  have l2: "length (proc_set s2) = MAX_NPROCESS + 1" "curr_proc_idx s2 = ?c"
    using l' by (simp_all add: s2_def proc_set_pending_def nth_proc_set_status(2))
  define s1 where "s1 = update_proc ?c (\<lambda>p. p\<lparr>mepc := mepc p + 4\<rparr>) s2"
  have "excp_entry now n st = (if 8 \<le> n \<and> n \<le> 11
      then bindr (proc_try_syscall ?c s1) (proc_yield now) else Inl (FATAL ''excp_entry: kernel got exception %d''))" for now n
    unfolding excp_entry_def mmu_translate_eq m Let_def prod.case ecall_syscall_def [symmetric]
    using s'_def cp l'(2) l2(2) by (simp add: s1_def s2_def)
  moreover have "proc_set s1 ! i = (if i = ?c then ecall_proc st else proc_set st ! i)" if "i < MAX_NPROCESS" for i
    using that l2(1) s2 by (simp add: s1_def nth_update_proc ecall_proc_def curr_proc_def)
  moreover have "curr_proc_idx s1 = curr_proc_idx st" "mmu s1 = mmu st" "core_in_kernel s1 = core_in_kernel st"
    "core_to_proc_idx s1 = core_to_proc_idx st" "mtimecmp s1 = mtimecmp st" "last_pid s1 = last_pid st"
    "length (proc_set s1) = length (proc_set st)"
    using l2 len by (simp_all add: s1_def) (simp_all add: s2_def s'_def proc_set_pending_def)
  ultimately show thesis using that by blast
qed

lemma ecall_at_yield:
  assumes inv: "kinv st" and e: "excp_entry now n st = r"
  shows "(\<exists>msg. r = Inl (FATAL msg)) \<or> (\<exists>s. r = proc_yield now s \<and> kwf s \<and> core_ok s \<and> only_current_runs s \<and>
     keeps_mmu (mmu st) (mmu s) \<and> core_in_kernel s = core_in_kernel st \<and> core_to_proc_idx s = core_to_proc_idx st \<and>
     mtimecmp s = mtimecmp st \<and> last_pid s = last_pid st \<and>
     status (curr_proc s) \<in> {PROC_PENDING_SYSCALL, PROC_RUNNABLE} \<and>
     (\<forall>i < MAX_NPROCESS. keeps_proc (if i = curr_proc_idx st then ecall_proc st else proc_set st ! i) (proc_set s ! i)))"
proof -
  let ?c = "curr_proc_idx st"
  obtain s1 where ex: "\<And>now n. excp_entry now n st = (if 8 \<le> n \<and> n \<le> 11
      then bindr (proc_try_syscall ?c s1) (proc_yield now) else Inl (FATAL ''excp_entry: kernel got exception %d''))"
    and s1: "curr_proc_idx s1 = ?c" "mmu s1 = mmu st" "core_in_kernel s1 = core_in_kernel st"
    "core_to_proc_idx s1 = core_to_proc_idx st" "mtimecmp s1 = mtimecmp st" "last_pid s1 = last_pid st"
    "length (proc_set s1) = length (proc_set st)"
    and ps: "\<And>i. i < MAX_NPROCESS \<Longrightarrow> proc_set s1 ! i = (if i = ?c then ecall_proc st else proc_set st ! i)"
    using excp_entry_state[OF inv] by blast
  have wf: "procs_wf st" "ipc_wf st" "calls_wf st" "vm_wf (mmu st)" and c: "?c < MAX_NPROCESS"
    and run: "status (proc_set st ! ?c) = PROC_RUNNING"
    using inv by (auto simp: kinv_def kwf_def core_ok_def curr_proc_def)
  have p: "pid (ecall_proc st) = pid (proc_set st ! ?c)" "length (saved_registers (ecall_proc st)) = SAVED_REGISTER_NUM"
    "\<not> delivered (ecall_proc st)" "status (ecall_proc st) = PROC_PENDING_SYSCALL"
    using procs_wfD(4)[OF wf(1) c] by (simp_all add: ecall_proc_def curr_proc_def delivered_def ecall_syscall_def)
  have w1: "procs_wf s1" "ipc_wf s1" using slot_update[OF wf(1,2) c _ s1(7,6) ps p(1-3)] run by simp_all
  show ?thesis
  proof (cases "8 \<le> n \<and> n \<le> 11 \<and> sc_type (syscall (ecall_proc st)) \<in> {SYS_RECV, SYS_SEND}")
    case False
    then show ?thesis using e ps[OF c] unfolding ex by (auto simp: proc_try_syscall_def)
  next
    case True
    have "calls_wf s1" using wf(3) ps True unfolding calls_wf_def by (simp add: ecall_proc_def ecall_syscall_def)
    then have k1: "kwf s1" using w1 wf(4) s1(2) by (simp add: kwf_def)
    have st1: "status (proc_set s1 ! ?c) = PROC_PENDING_SYSCALL" using ps[OF c] p(4) by simp
    show ?thesis
    proof (cases "proc_try_syscall ?c s1")
      case (Inl f)
      from k1 c st1 have "\<exists>msg. f = FATAL msg" by (cases rule: proc_try_syscall_cases) (use Inl in auto)
      moreover have "r = Inl f" using e True Inl unfolding ex by simp
      ultimately show ?thesis by blast
    next
      case (Inr s)
      have s: "kwf s" "keeps s1 s" using proc_try_syscall_correct[OF k1 c st1 Inr] by simp_all
      have nr: "status (proc_set s1 ! i) \<noteq> PROC_RUNNING" if "i < MAX_NPROCESS" for i
        using that inv ps[OF that] p(4) by (auto simp: kinv_def only_current_runs_def)
      have "core_ok s" using inv keeps_slot(2)[OF s(2)] s(2) s1 by (simp add: kinv_def core_ok_def keeps_def)
      moreover have "only_current_runs s" using keeps_schedulable(3)[OF s(2)] nr by (simp add: only_current_runs_def)
      moreover have "status (curr_proc s) \<in> {PROC_PENDING_SYSCALL, PROC_RUNNABLE}"
        using s(2) c st1 keeps_slot(2)[OF s(2)] s1(1) by (auto simp: keeps_def keeps_proc_def curr_proc_def)
      moreover have "r = proc_yield now s" using e True Inr unfolding ex by simp
      moreover have "keeps_proc (if i = ?c then ecall_proc st else proc_set st ! i) (proc_set s ! i)"
        if "i < MAX_NPROCESS" for i
        using s(2) that unfolding ps[OF that, symmetric] keeps_def by blast
      ultimately show ?thesis using s s1 by (intro disjI2 exI[of _ s]) (simp add: keeps_def)
    qed
  qed
qed

lemma kernel_entry_at_yield:
  assumes inv: "kinv st" and h: "mhartid t = core_in_kernel st"
  shows "(\<exists>msg. kernel_entry t st = Inl (FATAL msg)) \<or>
    (\<exists>s. kernel_entry t st = bindr (proc_yield (mtime t) s) (\<lambda>s. Inr (restore_context s)) \<and> at_yield t st s)"
proof -
  let ?s = "save_context t st" and ?c = "curr_proc_idx st"
  note sc = save_context_correct[OF inv h]
  have lt: "mhartid t < length (core_to_proc_idx st)" and c: "?c < MAX_NPROCESS" using inv h by (auto simp: kinv_def core_ok_def)
  have cs: "curr_proc ?s = (proc_set st ! ?c)\<lparr>mepc := trap_mepc t,
      saved_registers := load_words (memory (mmu st)) SAVED_REGISTER_ADDR SAVED_REGISTER_NUM\<rparr>"
    using sc(8)[OF c] sc(2) by (simp add: curr_proc_def)
  show ?thesis
  proof (cases "is_ecall t")
    case False
    then have b: "bit (mcause t) 31" by (simp add: is_ecall_def)
    have "at_yield t st ?s"
      unfolding at_yield_def
      using sc False by (auto simp: kinv_def trapped_context_def proc_context_def)
    then show ?thesis using b lt by (auto simp: kernel_entry_def intr_entry_def)
  next
    case True
    then have b: "\<not> bit (mcause t) 31" by (simp add: is_ecall_def)
    have k: "kernel_entry t st = bindr (excp_entry (mtime t) (mcause t) ?s) (\<lambda>s. Inr (restore_context s))"
      using b lt by (simp add: kernel_entry_def)
    from ecall_at_yield[OF sc(1) refl, of "mtime t" "mcause t"] show ?thesis
    proof (elim disjE exE conjE, goal_cases)
      case (1 msg)
      then show ?case using k by simp
    next
      case (2 s)
      have "pid (proc_set s ! i) = pid (proc_set st ! i) \<and>
        proc_context (proc_set s ! i) = (if i = ?c then trapped_context t st else proc_context (proc_set st ! i)) \<and>
        (i \<noteq> ?c \<longrightarrow> keeps_proc (proc_set st ! i) (proc_set s ! i))" if i: "i < MAX_NPROCESS" for i
        using 2(11) i sc(8)[OF i] True cs unfolding sc(2)
        by (auto simp: keeps_proc_def proc_context_def trapped_context_def ecall_proc_def split: if_splits)
      then have "at_yield t st s" using 2 True unfolding at_yield_def by (simp add: sc)
      then show ?case using k 2(1) by auto
    qed
  qed
qed

section \<open>The whole pass\<close>

definition start_context :: "u32 \<times> u32 list \<Rightarrow> u32 \<times> u32 list" where
  "start_context x = (APPS_ENTRY, (snd x)[0 := APPS_ARG, 1 := APPS_ARG + 4])"

lemma proc_context_initial [simp]:
  "proc_context (initial_context p) = start_context (proc_context p)"
  "proc_context (p\<lparr>status := s\<rparr>) = proc_context p"
  by (simp_all add: proc_context_def initial_context_def start_context_def)

lemma restore_context_correct:
  assumes wf: "kwf st" and c: "core_ok st"
  defines "st' \<equiv> snd (restore_context st)"
  shows "fst (restore_context st) = mepc (curr_proc st)"
    "load_words (memory (mmu st')) SAVED_REGISTER_ADDR SAVED_REGISTER_NUM = saved_registers (curr_proc st)"
    "kwf st'" "proc_set st' = proc_set st" "curr_proc st' = curr_proc st" "curr_proc_idx st' = curr_proc_idx st"
    "core_in_kernel st' = core_in_kernel st" "core_to_proc_idx st' = core_to_proc_idx st" "last_pid st' = last_pid st"
    "curr_vm_pid (mmu st') = curr_vm_pid (mmu st)" "mtimecmp st' = mtimecmp st"
    "page_info_table (mmu st') = page_info_table (mmu st)"
    "q \<noteq> 0 \<Longrightarrow> view (mmu st') q w = view (mmu st) q w"
proof -
  have l: "length (saved_registers (curr_proc st)) = SAVED_REGISTER_NUM"
    using wf c procs_wfD(4) by (simp add: kwf_def core_ok_def curr_proc_def)
  show "fst (restore_context st) = mepc (curr_proc st)" "proc_set st' = proc_set st"
    "curr_proc st' = curr_proc st" "curr_proc_idx st' = curr_proc_idx st"
    "core_in_kernel st' = core_in_kernel st" "core_to_proc_idx st' = core_to_proc_idx st" "last_pid st' = last_pid st"
    "curr_vm_pid (mmu st') = curr_vm_pid (mmu st)" "mtimecmp st' = mtimecmp st"
    "page_info_table (mmu st') = page_info_table (mmu st)"
    by (simp_all add: st'_def restore_context_def curr_proc_def curr_proc_idx_def)
  show "load_words (memory (mmu st')) SAVED_REGISTER_ADDR SAVED_REGISTER_NUM = saved_registers (curr_proc st)"
    using load_store_words[of "saved_registers (curr_proc st)"] l by (simp add: st'_def restore_context_def)
  show "kwf st'"
    using wf by (simp add: st'_def restore_context_def kwf_def procs_wf_def ipc_wf_def calls_wf_def vm_wf_def Let_def)
  show "view (mmu st') q w = view (mmu st) q w" if "q \<noteq> 0"
  proof -
    have "page_bytes (store_words (memory (mmu st)) SAVED_REGISTER_ADDR (saved_registers (curr_proc st))) p =
      page_bytes (memory (mmu st)) p" if "p < 2 ^ 20" "\<not> kernel_page p" for p
      using page_bytes_store_words[OF l that(1)] that(2) by (auto simp: kernel_page_def)
    then show ?thesis
      using kernel_write_view[of "mmu st" q] wf that by (simp add: st'_def restore_context_def kwf_def)
  qed
qed

text \<open>The state at the yield: only the interrupted process has changed, and only its saved context and its status.\<close>

lemma at_yieldD:
  assumes "at_yield t st s"
  shows "kwf s" "core_ok s" "only_current_runs s" "keeps_mmu (mmu st) (mmu s)" "core_in_kernel s = core_in_kernel st"
    "core_to_proc_idx s = core_to_proc_idx st" "mtimecmp s = mtimecmp st" "curr_proc_idx s = curr_proc_idx st"
    "\<And>i. i < MAX_NPROCESS \<Longrightarrow> pid (proc_set s ! i) = pid (proc_set st ! i)"
    "\<And>i. i < MAX_NPROCESS \<Longrightarrow> proc_context (proc_set s ! i) =
      (if i = curr_proc_idx st then trapped_context t st else proc_context (proc_set st ! i))"
    "\<And>i. i < MAX_NPROCESS \<Longrightarrow> i \<noteq> curr_proc_idx st \<Longrightarrow> keeps_proc (proc_set st ! i) (proc_set s ! i)"
    "status (proc_set s ! curr_proc_idx st) \<noteq> PROC_READY"
  using assms unfolding at_yield_def by (auto simp: curr_proc_idx_def curr_proc_def split: if_splits)

text \<open>A process after the scan of the scheduler, against the same process before the trap.\<close>

lemma scanned_proc:
  assumes inv: "kinv st" and y: "at_yield t st s" and k: "keeps (preempted s) s1" and i: "i < MAX_NPROCESS"
  shows "status (proc_set s1 ! i) = PROC_READY \<longleftrightarrow> i \<noteq> curr_proc_idx st \<and> status (proc_set st ! i) = PROC_READY"
    "status (proc_set s1 ! i) \<noteq> PROC_RUNNING"
    "schedulable st i \<Longrightarrow> schedulable (preempted s) i"
    "schedulable st i \<Longrightarrow> schedulable s1 i"
    "proc_context (proc_set s1 ! i) = proc_context (proc_set s ! i)"
    "pid (proc_set s1 ! i) = pid (proc_set st ! i)"
proof -
  let ?c = "curr_proc_idx st"
  note s = at_yieldD[OF y]
  note pre = preempted_correct[OF s(1-3)]
  have kp: "keeps_proc (proc_set (preempted s) ! i) (proc_set s1 ! i)" using k i by (simp add: keeps_def)
  show "status (proc_set s1 ! i) = PROC_READY \<longleftrightarrow> i \<noteq> ?c \<and> status (proc_set st ! i) = PROC_READY"
    using keeps_schedulable(2)[OF k i] pre(9)[OF i] s(11)[OF i] s(12)
    by (cases "i = ?c") (auto simp: keeps_proc_def)
  show "status (proc_set s1 ! i) \<noteq> PROC_RUNNING" using keeps_schedulable(3)[OF k i] pre(9)[OF i] by auto
  show p: "schedulable (preempted s) i" if "schedulable st i"
  proof -
    have "i \<noteq> ?c" using that inv by (auto simp: schedulable_def kinv_def curr_proc_def)
    then show ?thesis using s(11)[OF i] pre(9)[OF i] that by (auto simp: schedulable_def keeps_proc_def)
  qed
  show "schedulable s1 i" if "schedulable st i"
    using p[OF that] keeps_schedulable(1)[OF k i] by (simp add: schedulable_def)
  show "proc_context (proc_set s1 ! i) = proc_context (proc_set s ! i)"
    using kp pre(9)[OF i] by (auto simp: keeps_proc_def proc_context_def)
  have "pid (proc_set s1 ! i) = pid (proc_set (preempted s) ! i)" using kp unfolding keeps_proc_def by blast
  then show "pid (proc_set s1 ! i) = pid (proc_set st ! i)" unfolding pre(9)[OF i] using s(9)[OF i] by simp
qed

lemma kernel_entry_correct:
  assumes inv: "kinv st" and h: "mhartid t = core_in_kernel st" and k: "kernel_entry t st = Inr (pc, st')"
  obtains d where "1 \<le> d" "d \<le> MAX_NPROCESS" "curr_proc_idx st' = slot st d" "kinv st'"
    "core_in_kernel st' = core_in_kernel st"
    "\<And>d'. 1 \<le> d' \<Longrightarrow> d' < d \<Longrightarrow> \<not> schedulable st (slot st d')"
    "(pc, load_words (memory (mmu st')) SAVED_REGISTER_ADDR SAVED_REGISTER_NUM) = proc_context (curr_proc st')"
    "\<And>i. i < MAX_NPROCESS \<Longrightarrow> proc_context (proc_set st' ! i) =
       (if i = curr_proc_idx st then trapped_context t st
        else if i = curr_proc_idx st' \<and> status (proc_set st ! i) = PROC_READY
        then start_context (proc_context (proc_set st ! i)) else proc_context (proc_set st ! i))"
    "\<And>i. i < MAX_NPROCESS \<Longrightarrow> pid (proc_set st' ! i) = pid (proc_set st ! i)"
    "\<And>i. i < MAX_NPROCESS \<Longrightarrow> schedulable st i \<Longrightarrow> i \<noteq> curr_proc_idx st' \<Longrightarrow> schedulable st' i"
    "\<And>q w. q \<noteq> 0 \<Longrightarrow> w \<noteq> SYSCALL_PAGE \<Longrightarrow> view (mmu st') q w = view (mmu st) q w"
    "page_info_table (mmu st') = page_info_table (mmu st)"
    "mtimecmp st' = (mtimecmp st)(core_in_kernel st := mtime t + QUANTUM (platform (mmu st)))"
proof -
  let ?c = "curr_proc_idx st"
  obtain s s3 where y: "at_yield t st s" "proc_yield (mtime t) s = Inr s3" "restore_context s3 = (pc, st')"
  proof -
    obtain s where a: "kernel_entry t st = bindr (proc_yield (mtime t) s) (\<lambda>s. Inr (restore_context s))" "at_yield t st s"
      using kernel_entry_at_yield[OF inv h] k by auto
    from bindr_InrE[OF trans[OF a(1) [symmetric] k]] show thesis using a(2) that by auto
  qed
  note s = at_yieldD[OF y(1)]
  note pre = preempted_correct[OF s(1-3)]
  obtain s1 d where d: "keeps (preempted s) s1" "kwf s1" "1 \<le> d" "d \<le> MAX_NPROCESS" "schedulable s1 (slot s d)"
    "s3 = switch_to (mtime t) (slot s d) s1" "core_ok s1"
    "\<And>d'. 1 \<le> d' \<Longrightarrow> d' < d \<Longrightarrow> \<not> schedulable (preempted s) (slot s d')"
    using proc_yield_correct[OF s(1-3) y(2)] by blast
  have sl: "slot s i = slot st i" for i by (simp add: slot_def s(8))
  note sw = switch_to_correct[OF d(2,7) slot_less d(5), where now = "mtime t", folded d(6)]
  note rs = restore_context_correct[OF sw(1,2), unfolded y(3) snd_conv fst_conv]
  note sp = scanned_proc[OF inv y(1) d(1)]
  have nz: "pid (proc_set s1 ! slot s d) \<noteq> 0" "vm_wf (mmu s1)"
    using d(2,5) procs_wfD(2)[OF _ slot_less] by (auto simp: kwf_def schedulable_def)
  have running: "status (proc_set st' ! i) = PROC_RUNNING \<longleftrightarrow> i = slot s d" if i: "i < MAX_NPROCESS" for i
    using sw(9)[OF i] rs(4) sp(2)[OF i] by auto
  have pn: "pid (proc_set st' ! slot s d) = pid (proc_set s1 ! slot s d)" using sw(9)[OF slot_less] rs(4) by simp
  show thesis
  proof (rule that[OF d(3,4)])
    show idx: "curr_proc_idx st' = slot st d" using sw(3) rs(6) sl by simp
    show "kinv st'"
      using rs(3-8,10) sw(2,3,6) running running[OF slot_less] pn soft_tlb_switch_wf(2)[OF nz(2,1)]
      by (simp add: kinv_def core_ok_def only_current_runs_def curr_proc_def)
    show "core_in_kernel st' = core_in_kernel st" using rs(7) sw(4) d(1) pre(5) s(5) by (simp add: keeps_def)
    show "\<not> schedulable st (slot st d')" if "1 \<le> d'" "d' < d" for d' using d(8)[OF that] sp(3)[OF slot_less] sl by auto
    show "(pc, load_words (memory (mmu st')) SAVED_REGISTER_ADDR SAVED_REGISTER_NUM) = proc_context (curr_proc st')"
      using rs(1,2,5) by (simp add: proc_context_def)
    show "proc_context (proc_set st' ! i) =
       (if i = ?c then trapped_context t st
        else if i = curr_proc_idx st' \<and> status (proc_set st ! i) = PROC_READY
        then start_context (proc_context (proc_set st ! i)) else proc_context (proc_set st ! i))" if i: "i < MAX_NPROCESS" for i
      using sp(1)[OF i] sp(5)[OF i] s(10)[OF i] unfolding rs(4) idx sw(9)[OF i] sl
      by (cases "i = slot st d"; cases "i = ?c") simp_all
    show "pid (proc_set st' ! i) = pid (proc_set st ! i)" if i: "i < MAX_NPROCESS" for i
      using sp(6)[OF i] unfolding rs(4) sw(9)[OF i] by (cases "i = slot s d") simp_all
    show "schedulable st' i" if i: "i < MAX_NPROCESS" "schedulable st i" "i \<noteq> curr_proc_idx st'" for i
      using sw(9)[OF i(1)] sp(4)[OF i(1,2)] rs(4) i(3) idx sl by (simp add: schedulable_def)
    show "view (mmu st') q w = view (mmu st) q w" if q: "q \<noteq> 0" "w \<noteq> SYSCALL_PAGE" for q w
      using rs(13)[OF q(1)] sw(6) soft_tlb_switch_view[OF nz(2,1) q(1)] d(1) s(4) pre(6) q
      by (simp add: keeps_def keeps_mmu_def)
    show "page_info_table (mmu st') = page_info_table (mmu st)"
      using rs(12) sw(6) soft_tlb_switch_wf(3)[OF nz(2,1)] d(1) pre(6) s(4) by (simp add: keeps_def keeps_mmu_def)
    show "mtimecmp st' = (mtimecmp st)(core_in_kernel st := mtime t + QUANTUM (platform (mmu st)))"
      using rs(11) sw(7) d(1) pre(5-7) s(4,5,7) by (simp add: keeps_def keeps_mmu_def)
  qed
qed

end
