(* ===== verification/Regs.thy ===== *)
theory Regs
  imports Trap
begin

text \<open>
  grass/kernel.s: the registers that \<open>trap_entry\<close> saves are the ones it restores, so a process
  that is interrupted continues with the registers it had.
\<close>

section \<open>Slots of the saved registers\<close>

definition saved_order :: "reg list" where
  "saved_order = [A0, A1, A2, A3, A4, A5, A6, A7, T0, T1, T2, T3, T4, T5, T6,
     S0, S1, S2, S3, S4, S5, S6, S7, S8, S9, S10, S11, RA, GP, TP, SP]"

definition reg_index :: "reg \<Rightarrow> nat" where
  "reg_index x = length (takeWhile (\<lambda>y. y \<noteq> x) saved_order)"

definition regs_of :: "process \<Rightarrow> reg \<Rightarrow> u32" where
  "regs_of p x = saved_registers p ! reg_index x"

lemma reg_index_less: "reg_index x < SAVED_REGISTER_NUM"
  by (cases x) (simp_all add: reg_index_def saved_order_def)

lemma reg_index_inj: "reg_index x = reg_index y \<longleftrightarrow> x = y"
proof -
  have "saved_order ! reg_index z = z" for z
    by (cases z) (simp_all add: reg_index_def saved_order_def)
  then show ?thesis by metis
qed

section \<open>Saving\<close>

lemma load_store_saved:
  assumes "4 dvd a" "a < 128" "4 dvd b" "b < 128"
  shows "load32 (store32 m (SAVED_REGISTER_ADDR + of_nat a) w) (SAVED_REGISTER_ADDR + of_nat b) =
    (if a = b then w else load32 m (SAVED_REGISTER_ADDR + of_nat b))"
proof -
  have ad: "SAVED_REGISTER_ADDR + of_nat k = page_addr SAVED_PAGE + of_nat (0xF80 + k)" for k
    unfolding SAVED_REGISTER_ADDR_page by (simp only: of_nat_add add.assoc)
  obtain i j where ij: "a = 4 * i" "b = 4 * j" using assms(1,3) by (auto elim!: dvdE)
  have g: "0xF80 + a + 4 \<le> PAGE_SIZE" "0xF80 + b + 4 \<le> PAGE_SIZE" using assms ij by simp_all
  have p: "SAVED_PAGE < 2 ^ 20" by simp
  have "a = b \<or> a + 4 \<le> b \<or> b + 4 \<le> a" using ij by presburger
  then show ?thesis
    unfolding ad load32_page[OF g(2)] page_bytes_store32[OF p p g(1)] using g
    by (auto simp: get32_def put32_def nth_list_update)
qed

lemma page_bytes_store_saved:
  assumes "a < 125" "q < 2 ^ 20" "q \<noteq> SAVED_PAGE"
  shows "page_bytes (store32 m (SAVED_REGISTER_ADDR + of_nat a) w) q = page_bytes m q"
proof -
  have ad: "SAVED_REGISTER_ADDR + of_nat a = page_addr SAVED_PAGE + of_nat (0xF80 + a)"
    unfolding SAVED_REGISTER_ADDR_page by (simp only: of_nat_add add.assoc)
  show ?thesis unfolding ad using page_bytes_store32[of SAVED_PAGE q "0xF80 + a" m w] assms by simp
qed

definition stores :: "(reg \<Rightarrow> u32) \<Rightarrow> (reg \<times> nat) list \<Rightarrow> mem \<Rightarrow> mem" where
  "stores r L m = fold (\<lambda>(x, off) m. store32 m (SAVED_REGISTER_ADDR + of_nat off) (r x)) L m"

lemma load_stores:
  assumes "distinct (map snd L)" "\<forall>(x, off) \<in> set L. 4 dvd off \<and> off < 125" "4 dvd b" "b < 125"
  shows "load32 (stores r L m) (SAVED_REGISTER_ADDR + of_nat b) =
    (case find (\<lambda>(x, off). off = b) L of Some (x, off) \<Rightarrow> r x | None \<Rightarrow> load32 m (SAVED_REGISTER_ADDR + of_nat b))"
  using assms(1,2)
proof (induction L arbitrary: m)
  case (Cons y L)
  obtain x off where y: "y = (x, off)" by (cases y)
  have o: "4 dvd off" "off < 128" "off \<notin> snd ` set L" "b < 128" using Cons.prems y assms(4) by auto
  have n: "find (\<lambda>(x, off'). off' = off) L = None" using o(3) by (force simp: find_None_iff)
  have "load32 (stores r (y # L) m) (SAVED_REGISTER_ADDR + of_nat b) =
      (case find (\<lambda>(x, off). off = b) L of Some (x, off) \<Rightarrow> r x
       | None \<Rightarrow> load32 (store32 m (SAVED_REGISTER_ADDR + of_nat off) (r x)) (SAVED_REGISTER_ADDR + of_nat b))"
    using Cons by (simp add: y stores_def)
  then show ?case unfolding load_store_saved[OF o(1,2) assms(3) o(4)]
    using n by (cases "off = b") (auto simp: y split: option.split)
qed (simp add: stores_def)

lemma page_bytes_stores:
  assumes "\<forall>(x, off) \<in> set L. off < 125" "q < 2 ^ 20" "q \<noteq> SAVED_PAGE"
  shows "page_bytes (stores r L m) q = page_bytes m q"
  using assms(1)
proof (induction L arbitrary: m)
  case (Cons y L)
  then show ?case using page_bytes_store_saved[OF _ assms(2,3)] by (cases y) (simp add: stores_def)
qed (simp add: stores_def)

lemma trap_save_eq:
  "trap_save r m = store32 (stores r trap_stores m) (SAVED_REGISTER_ADDR + of_nat 120) (r SP)"
  by (simp add: trap_save_def trap_stores_def stores_def)

lemma trap_save_correct:
  "load_words (trap_save r m) SAVED_REGISTER_ADDR SAVED_REGISTER_NUM ! reg_index x = r x"
  "q < 2 ^ 20 \<Longrightarrow> q \<noteq> SAVED_PAGE \<Longrightarrow> page_bytes (trap_save r m) q = page_bytes m q"
proof -
  have w: "distinct (map snd trap_stores)" "\<forall>(x, off) \<in> set trap_stores. 4 dvd off \<and> off < 125"
    by (simp_all add: trap_stores_def)
  let ?k = "4 * reg_index x"
  have k: "4 dvd ?k" "?k < 125" "?k < 128" by (cases x; simp add: reg_index_def saved_order_def)+
  have f: "(if 120 = ?k then r SP else case find (\<lambda>(x, off). off = ?k) trap_stores of
      Some (y, off) \<Rightarrow> r y | None \<Rightarrow> z) = r x" for z
    by (cases x) (simp_all add: reg_index_def saved_order_def trap_stores_def)
  have "load32 (trap_save r m) (SAVED_REGISTER_ADDR + of_nat ?k) = r x"
  proof -
    have d: "4 dvd (120 :: nat)" "(120 :: nat) < 128" by simp_all
    show ?thesis unfolding trap_save_eq load_store_saved[OF d k(1,3)] load_stores[OF w k(1,2)] by (rule f)
  qed
  then show "load_words (trap_save r m) SAVED_REGISTER_ADDR SAVED_REGISTER_NUM ! reg_index x = r x"
    using reg_index_less[of x] by (simp add: load_words_def)
  show "page_bytes (trap_save r m) q = page_bytes m q" if "q < 2 ^ 20" "q \<noteq> SAVED_PAGE"
  proof -
    have "page_bytes (stores r trap_stores m) q = page_bytes m q"
      by (rule page_bytes_stores[OF _ that]) (use w(2) in auto)
    then show ?thesis unfolding trap_save_eq using page_bytes_store_saved[OF _ that, of 120] by simp
  qed
qed

section \<open>Restoring\<close>

lemma fold_loads:
  assumes "distinct (map fst L)" "SP \<notin> fst ` set L"
  shows "fold (\<lambda>(x, off) r. r(x := load32 m (r SP + of_nat off))) L r x =
    (case map_of L x of Some off \<Rightarrow> load32 m (r SP + of_nat off) | None \<Rightarrow> r x)"
  using assms
proof (induction L arbitrary: r)
  case (Cons y L)
  obtain z off where y: "y = (z, off)" by (cases y)
  have "z \<noteq> SP" "z \<notin> fst ` set L" using Cons.prems y by auto
  then have "map_of L z = None" by (simp add: map_of_eq_None_iff)
  then show ?case using Cons \<open>z \<noteq> SP\<close> by (auto simp: y split: option.split)
qed simp

lemma trap_restore_correct:
  "trap_restore m (r(SP := SAVED_REGISTER_ADDR)) x =
    load_words m SAVED_REGISTER_ADDR SAVED_REGISTER_NUM ! reg_index x"
proof -
  have w: "distinct (map fst trap_loads)" "SP \<notin> fst ` set trap_loads" by (simp_all add: trap_loads_def)
  note f = fold_loads[OF w, of m "r(SP := SAVED_REGISTER_ADDR)"]
  have "map_of trap_loads SP = None" by (simp add: trap_loads_def)
  then have "trap_restore m (r(SP := SAVED_REGISTER_ADDR)) x =
    (if x = SP then load32 m (SAVED_REGISTER_ADDR + of_nat 120)
     else case map_of trap_loads x of Some off \<Rightarrow> load32 m (SAVED_REGISTER_ADDR + of_nat off) | None \<Rightarrow> r x)"
    unfolding trap_restore_def Let_def f by (auto simp: f split: option.split)
  also have "\<dots> = load32 m (SAVED_REGISTER_ADDR + of_nat (4 * reg_index x))"
    by (cases x) (simp_all add: reg_index_def saved_order_def trap_loads_def)
  finally show ?thesis using reg_index_less[of x] by (simp add: load_words_def)
qed

end
