(* ===== verification/Kernel_Spec.thy ===== *)
theory Kernel_Spec
  imports Regs
begin

text \<open>
  What the kernel promises: the properties of traps, of the scheduler and of message passing,
  over whole passes through \<open>trap_entry\<close> of grass/kernel.s and \<open>kernel_entry\<close> of grass/kernel.c.
\<close>

section \<open>Helpers\<close>

lemma kinv_memory [simp]: "kinv (st\<lparr>mmu := (mmu st)\<lparr>memory := m\<rparr>\<rparr>) = kinv st"
  by (simp add: kinv_def kwf_def procs_wf_def ipc_wf_def calls_wf_def vm_wf_def Let_def
      core_ok_def only_current_runs_def curr_proc_def curr_proc_idx_def)

lemma trap_entry_state:
  assumes inv: "kinv st" and e: "trap_entry clobber t r st = Inr (r', pc, st')"
  obtains st0 where "kinv st0" "kernel_entry t st0 = Inr (pc, st')" "proc_set st0 = proc_set st"
    "curr_proc_idx st0 = curr_proc_idx st" "core_in_kernel st0 = core_in_kernel st"
    "trapped_context t st0 = (if is_ecall t then trap_mepc t + 4 else trap_mepc t,
       load_words (memory (mmu st0)) SAVED_REGISTER_ADDR SAVED_REGISTER_NUM)"
    "\<And>x. load_words (memory (mmu st0)) SAVED_REGISTER_ADDR SAVED_REGISTER_NUM ! reg_index x = r x"
    "\<And>x. r' x = load_words (memory (mmu st')) SAVED_REGISTER_ADDR SAVED_REGISTER_NUM ! reg_index x"
    "\<And>q w. q \<noteq> 0 \<Longrightarrow> view (mmu st0) q w = view (mmu st) q w" "page_info_table (mmu st0) = page_info_table (mmu st)"
    "platform (mmu st0) = platform (mmu st)" "mtimecmp st0 = mtimecmp st"
proof -
  define st0 where "st0 = st\<lparr>mmu := (mmu st)\<lparr>memory := trap_save r (memory (mmu st))\<rparr>\<rparr>"
  have vw: "vm_wf (mmu st)" using inv by (simp add: kinv_def kwf_def)
  have "kinv st0" using inv by (simp add: st0_def)
  moreover have "kernel_entry t st0 = Inr (pc, st')" "r' = trap_restore (memory (mmu st')) (clobber(SP := SAVED_REGISTER_ADDR))"
    using e by (auto simp: trap_entry_def st0_def elim!: bindr_InrE)
  moreover have "view (mmu st0) q w = view (mmu st) q w" if "q \<noteq> 0" for q w
  proof -
    have "page_bytes (trap_save r (memory (mmu st))) p = page_bytes (memory (mmu st)) p" if "p < 2 ^ 20" "\<not> kernel_page p" for p
      using trap_save_correct(2)[OF that(1)] that(2) by (auto simp: kernel_page_def)
    then show ?thesis using kernel_write_view[OF vw that] by (simp add: st0_def)
  qed
  ultimately show thesis
    using that[of st0] trap_save_correct(1) trap_restore_correct
    by (simp add: st0_def curr_proc_idx_def trapped_context_def)
qed

lemma start_context_regs:
  assumes "length ws = SAVED_REGISTER_NUM"
  shows "snd (start_context (pc, ws)) ! reg_index x =
    (if x = A0 then APPS_ARG else if x = A1 then APPS_ARG + 4 else ws ! reg_index x)"
proof -
  have "reg_index A0 = 0" "reg_index A1 = 1" by (simp_all add: reg_index_def saved_order_def)
  then show ?thesis
    using assms reg_index_less[of x] reg_index_inj[of x A0] reg_index_inj[of x A1]
    by (auto simp: start_context_def nth_list_update)
qed

lemma trap_kernel_entry:
  assumes "kernel_entry t (st\<lparr>mmu := (mmu st)\<lparr>memory := trap_save r (memory (mmu st))\<rparr>\<rparr>) = Inr (pc, st')"
  shows "trap_entry clobber t r st = Inr (trap_restore (memory (mmu st')) (clobber(SP := SAVED_REGISTER_ADDR)), pc, st')"
  using assms by (simp add: trap_entry_def)

text \<open>A timer interrupt always finds a process, at the latest the interrupted one.\<close>

lemma timer_returns:
  assumes inv: "kinv st" and h: "mhartid t = core_in_kernel st"
    and mc: "bit (mcause t) 31" "mcause t AND 0x3FF = 7" and sa: "senders_alive st"
  shows "\<exists>pc st'. kernel_entry t st = Inr (pc, st')"
proof -
  let ?s = "save_context t st"
  note sc = save_context_correct[OF inv h]
  have s: "kwf ?s" "core_ok ?s" "only_current_runs ?s" "status (curr_proc ?s) = PROC_RUNNING"
    using sc(1) by (simp_all add: kinv_def)
  note pre = preempted_correct[OF s(1-3)]
  have c: "curr_proc_idx st < MAX_NPROCESS" and run: "status (proc_set st ! curr_proc_idx st) = PROC_RUNNING"
    using inv by (simp_all add: kinv_def core_ok_def curr_proc_def)
  have p: "syscall (proc_set (preempted ?s) ! i) = syscall (proc_set st ! i) \<and> pid (proc_set (preempted ?s) ! i) = pid (proc_set st ! i) \<and>
      status (proc_set (preempted ?s) ! i) = (if status (proc_set st ! i) = PROC_RUNNING then PROC_RUNNABLE else status (proc_set st ! i))"
    if "i < MAX_NPROCESS" for i
    using pre(9)[OF that] sc(8)[OF that] by (cases "i = curr_proc_idx st") simp_all
  have "receiver_alive (preempted ?s) (proc_set (preempted ?s) ! i)"
    if i: "i < MAX_NPROCESS" "receiver_alive st (proc_set st ! i)" for i
  proof -
    obtain j where "j < MAX_NPROCESS" "pid (proc_set st ! j) = sc_receiver (syscall (proc_set st ! i))"
      "status (proc_set st ! j) \<noteq> PROC_UNUSED" using i(2) by (auto simp: receiver_alive_def)
    with p[OF i(1)] p[of j] show ?thesis unfolding receiver_alive_def by (intro exI[of _ j]) simp
  qed
  then have "senders_alive (preempted ?s)"
    using sa p unfolding senders_alive_def by (simp split: if_splits)
  then obtain n s1 where y: "yield_loop [1 ..< MAX_NPROCESS + 1] (preempted ?s) = Inr (n, s1)"
    using yield_loop_error[OF pre(1)] by (cases "yield_loop [1 ..< MAX_NPROCESS + 1] (preempted ?s)") auto
  obtain ys zs where z: "[1 ..< MAX_NPROCESS + 1] = ys @ zs" "\<forall>i \<in> set ys. \<not> schedulable (preempted ?s) (slot (preempted ?s) i)"
    "case zs of [] \<Rightarrow> n = MAX_NPROCESS | i # _ \<Rightarrow> n = slot (preempted ?s) i \<and> schedulable s1 n"
    using yield_loop_correct[OF pre(1) y] by blast
  have "slot (preempted ?s) MAX_NPROCESS = curr_proc_idx st" using c by (simp add: slot_def pre(3) sc(2))
  moreover have "schedulable (preempted ?s) (curr_proc_idx st)" using p[OF c] run by (simp add: schedulable_def)
  ultimately have "MAX_NPROCESS \<notin> set ys" using z(2) by auto
  moreover have "MAX_NPROCESS \<in> set (ys @ zs)" unfolding z(1) [symmetric] by simp
  ultimately have "zs \<noteq> []" by auto
  then have "n < MAX_NPROCESS" using z(3) by (cases zs) auto
  then have "proc_yield (mtime t) ?s = Inr (switch_to (mtime t) n s1)" using y by (simp add: proc_yield_preempted)
  moreover have "mhartid t < length (core_to_proc_idx st)" using inv h by (simp add: kinv_def core_ok_def)
  ultimately show ?thesis using mc by (simp add: kernel_entry_def intr_entry_def restore_context_def)
qed

text \<open>A timer interrupt blocks nobody and ends nobody.\<close>

lemma senders_alive_mono:
  assumes "senders_alive st"
    and "\<And>i. i < MAX_NPROCESS \<Longrightarrow> pid (proc_set st' ! i) = pid (proc_set st ! i)"
    and "\<And>i. i < MAX_NPROCESS \<Longrightarrow> status (proc_set st ! i) \<noteq> PROC_UNUSED \<Longrightarrow> status (proc_set st' ! i) \<noteq> PROC_UNUSED"
    and "\<And>i. i < MAX_NPROCESS \<Longrightarrow> status (proc_set st' ! i) = PROC_PENDING_SYSCALL \<Longrightarrow>
      status (proc_set st ! i) = PROC_PENDING_SYSCALL \<and> sc_type (syscall (proc_set st' ! i)) = sc_type (syscall (proc_set st ! i)) \<and>
      (sc_type (syscall (proc_set st ! i)) = SYS_SEND \<longrightarrow> syscall (proc_set st' ! i) = syscall (proc_set st ! i))"
  shows "senders_alive st'"
  unfolding senders_alive_def
proof (intro allI impI)
  fix i assume i: "i < MAX_NPROCESS" and p: "status (proc_set st' ! i) = PROC_PENDING_SYSCALL \<and> sc_type (syscall (proc_set st' ! i)) = SYS_SEND"
  then have "receiver_alive st (proc_set st ! i)" and eq: "syscall (proc_set st' ! i) = syscall (proc_set st ! i)"
    using assms(1) assms(4)[OF i] by (auto simp: senders_alive_def)
  then obtain j where "j < MAX_NPROCESS" "pid (proc_set st ! j) = sc_receiver (syscall (proc_set st ! i))"
    "status (proc_set st ! j) \<noteq> PROC_UNUSED" by (auto simp: receiver_alive_def)
  with assms(2,3) eq show "receiver_alive st' (proc_set st' ! i)" unfolding receiver_alive_def by (intro exI[of _ j]) simp
qed

lemma timer_senders_alive:
  assumes inv: "kinv st" and h: "mhartid t = core_in_kernel st" and k: "kernel_entry t st = Inr (pc, st')"
    and sa: "senders_alive st" and ti: "\<not> is_ecall t"
  shows "senders_alive st'"
proof -
  let ?s = "save_context t st"
  note sc = save_context_correct[OF inv h]
  have s: "kwf ?s" "core_ok ?s" "only_current_runs ?s" "status (curr_proc ?s) = PROC_RUNNING"
    using sc(1) by (simp_all add: kinv_def)
  note pre = preempted_correct[OF s(1-3)]
  obtain s3 where y: "proc_yield (mtime t) ?s = Inr s3" "restore_context s3 = (pc, st')"
    using k ti by (auto simp: kernel_entry_def intr_entry_def is_ecall_def split: if_splits elim!: bindr_InrE)
  obtain s1 d where d: "keeps (preempted ?s) s1" "kwf s1" "schedulable s1 (slot ?s d)"
    "s3 = switch_to (mtime t) (slot ?s d) s1" "core_ok s1"
    using proc_yield_correct[OF s(1-3) y(1)] by blast
  note sw = switch_to_correct(9)[OF d(2,5) slot_less d(3), where now = "mtime t", folded d(4)]
  have "senders_alive (preempted ?s)"
    using sa by (rule senders_alive_mono) (use pre(9) sc(8) in \<open>auto split: if_splits\<close>)
  then have "senders_alive s1" by (rule keeps_senders_alive[OF d(1)])
  then have "senders_alive s3"
    by (rule senders_alive_mono) (use sw in \<open>auto split: if_splits\<close>)
  moreover have "proc_set st' = proc_set s3" using y(2) by (auto simp: restore_context_def)
  ultimately show ?thesis by (simp add: senders_alive_def receiver_alive_def)
qed

section \<open>An example\<close>

text \<open>Process 1 runs, process 2 can run, and process 3 waits for a message from anybody.\<close>

definition no_call :: syscall where
  "no_call = \<lparr>sc_type = 0, sc_sender = 0, sc_receiver = 0, content = replicate SYSCALL_MSG_LEN 0, sc_status = PENDING\<rparr>"

definition no_process :: process where
  "no_process = \<lparr>pid = 0, syscall = no_call, status = PROC_UNUSED, mepc = 0, saved_registers = replicate SAVED_REGISTER_NUM 0\<rparr>"

definition three_processes :: kernel where
  "three_processes = \<lparr>core_in_kernel = 1, core_to_proc_idx = replicate 5 0,
     proc_set = (replicate (MAX_NPROCESS + 1) no_process)
       [0 := no_process\<lparr>pid := 1, status := PROC_RUNNING\<rparr>,
        1 := no_process\<lparr>pid := 2, status := PROC_RUNNABLE, mepc := 0x80400100\<rparr>,
        2 := no_process\<lparr>pid := 3, status := PROC_PENDING_SYSCALL, syscall := no_call\<lparr>sc_type := SYS_RECV, sc_sender := GPID_ALL\<rparr>\<rparr>],
     last_pid = 3, mmu = soft_tlb_switch 1 two_processes, mtimecmp = (\<lambda>_. 0)\<rparr>"

lemma three_processes_nth:
  assumes "i < MAX_NPROCESS"
  shows "proc_set three_processes ! i =
    (if i = 0 then no_process\<lparr>pid := 1, status := PROC_RUNNING\<rparr>
     else if i = 1 then no_process\<lparr>pid := 2, status := PROC_RUNNABLE, mepc := 0x80400100\<rparr>
     else if i = 2 then no_process\<lparr>pid := 3, status := PROC_PENDING_SYSCALL, syscall := no_call\<lparr>sc_type := SYS_RECV, sc_sender := GPID_ALL\<rparr>\<rparr>
     else no_process)"
  unfolding three_processes_def kernel.select_convs using assms by (simp add: nth_list_update)

lemma three_processes_same:
  "curr_proc_idx three_processes = 0" "core_in_kernel three_processes = 1" "length (core_to_proc_idx three_processes) = 5"
  "length (proc_set three_processes) = MAX_NPROCESS + 1" "last_pid three_processes = 3"
  "mmu three_processes = soft_tlb_switch 1 two_processes" "curr_proc three_processes = no_process\<lparr>pid := 1, status := PROC_RUNNING\<rparr>"
  by (simp_all add: three_processes_def curr_proc_idx_def curr_proc_def)

lemma no_process_same: "pid no_process = 0" "status no_process = PROC_UNUSED" "length (saved_registers no_process) = SAVED_REGISTER_NUM"
  "syscall no_process = no_call" "length (content no_call) = SYSCALL_MSG_LEN" "sc_status no_call = PENDING"
  by (simp_all add: no_process_def no_call_def)

lemma kinv_three_processes: "kinv three_processes"
proof -
  have "procs_wf three_processes"
    unfolding procs_wf_def Let_def
    by (auto simp: three_processes_same three_processes_nth no_process_same)
  moreover have "ipc_wf three_processes"
    unfolding ipc_wf_def Let_def
    by (auto simp: three_processes_nth no_process_same delivered_def split: if_splits)
  moreover have "calls_wf three_processes"
    unfolding calls_wf_def by (auto simp: three_processes_nth no_process_same)
  moreover have "only_current_runs three_processes"
    unfolding only_current_runs_def
    by (auto simp: three_processes_same three_processes_nth no_process_same split: if_splits)
  ultimately show ?thesis
    using soft_tlb_switch_wf(1,2)[OF vm_wf_two_processes, of 1]
    by (simp add: kinv_def kwf_def core_ok_def three_processes_same no_process_same)
qed

lemma senders_alive_three: "senders_alive three_processes"
  by (auto simp: senders_alive_def three_processes_nth no_process_same split: if_splits)

definition timer_trap :: trap where
  "timer_trap = \<lparr>mhartid = 1, trap_mepc = 0x80400200, mcause = 0x80000007, mtime = 1000\<rparr>"

lemma timer_trap_three:
  "\<exists>r' pc st'. trap_entry (\<lambda>_. 0) timer_trap (\<lambda>_. 5) three_processes = Inr (r', pc, st')"
proof -
  let ?st = "three_processes\<lparr>mmu := (mmu three_processes)\<lparr>memory := trap_save (\<lambda>_. 5) (memory (mmu three_processes))\<rparr>\<rparr>"
  have "kinv ?st" using kinv_three_processes by simp
  moreover have "senders_alive ?st"
    using senders_alive_three by (simp add: senders_alive_def receiver_alive_def)
  ultimately obtain pc st' where "kernel_entry timer_trap ?st = Inr (pc, st')"
    using timer_returns[of ?st timer_trap] by (auto simp: timer_trap_def three_processes_same)
  from trap_kernel_entry[OF this] show ?thesis by blast
qed

section \<open>Contexts\<close>

text \<open>C1: A process resumes where it was interrupted. After a trap the registers and program
  counter given to the CPU are those with which the chosen process was last interrupted (behind
  the ecall instruction after a system call), or the entry point with the argument page in a0 and
  a1 for a process that starts; the interrupted process keeps its own, and so does every other
  process. The kernel invariant holds again.\<close>

theorem trap_entry_resumes:
  assumes "kinv st" "mhartid t = core_in_kernel st" "trap_entry clobber t r st = Inr (r', pc, st')"
  shows "let c = curr_proc_idx st; n = curr_proc_idx st'; p = proc_set st ! n;
       resume = (if is_ecall t then trap_mepc t + 4 else trap_mepc t) in
     kinv st' \<and>
     (if n = c then r' = r \<and> pc = resume
      else (if status p = PROC_READY
            then r' = (regs_of p)(A0 := APPS_ARG, A1 := APPS_ARG + 4) \<and> pc = APPS_ENTRY
            else r' = regs_of p \<and> pc = mepc p) \<and>
           regs_of (proc_set st' ! c) = r \<and> mepc (proc_set st' ! c) = resume) \<and>
     (\<forall>i < MAX_NPROCESS. i \<noteq> c \<and> i \<noteq> n \<longrightarrow>
        regs_of (proc_set st' ! i) = regs_of (proc_set st ! i) \<and> mepc (proc_set st' ! i) = mepc (proc_set st ! i))"
proof -
  obtain st0 where s: "kinv st0" "kernel_entry t st0 = Inr (pc, st')" "proc_set st0 = proc_set st"
    "curr_proc_idx st0 = curr_proc_idx st" "core_in_kernel st0 = core_in_kernel st"
    "trapped_context t st0 = (if is_ecall t then trap_mepc t + 4 else trap_mepc t,
       load_words (memory (mmu st0)) SAVED_REGISTER_ADDR SAVED_REGISTER_NUM)"
    "\<And>x. load_words (memory (mmu st0)) SAVED_REGISTER_ADDR SAVED_REGISTER_NUM ! reg_index x = r x"
    "\<And>x. r' x = load_words (memory (mmu st')) SAVED_REGISTER_ADDR SAVED_REGISTER_NUM ! reg_index x"
    by (rule trap_entry_state[OF assms(1,3)]) blast
  have h: "mhartid t = core_in_kernel st0" using assms(2) s(5) by simp
  obtain d where k: "curr_proc_idx st' = slot st0 d" "kinv st'"
    "(pc, load_words (memory (mmu st')) SAVED_REGISTER_ADDR SAVED_REGISTER_NUM) = proc_context (curr_proc st')"
    "\<And>i. i < MAX_NPROCESS \<Longrightarrow> proc_context (proc_set st' ! i) =
       (if i = curr_proc_idx st0 then trapped_context t st0
        else if i = curr_proc_idx st' \<and> status (proc_set st0 ! i) = PROC_READY
        then start_context (proc_context (proc_set st0 ! i)) else proc_context (proc_set st0 ! i))"
    by (rule kernel_entry_correct[OF s(1) h s(2)]) blast
  let ?n = "curr_proc_idx st'"
  have n: "?n < MAX_NPROCESS" "curr_proc_idx st < MAX_NPROCESS" "length (saved_registers (proc_set st ! ?n)) = SAVED_REGISTER_NUM"
    using k(1) assms(1) procs_wfD(4)[of st ?n] by (auto simp: kinv_def core_ok_def kwf_def)
  have r': "r' = regs_of (proc_set st' ! ?n)" "pc = mepc (proc_set st' ! ?n)"
    using k(3) s(8) by (auto simp: regs_of_def proc_context_def curr_proc_def fun_eq_iff)
  note ctx = k(4)[unfolded s(3,4)]
  have new: "if status (proc_set st ! ?n) = PROC_READY
      then regs_of (proc_set st' ! ?n) = (regs_of (proc_set st ! ?n))(A0 := APPS_ARG, A1 := APPS_ARG + 4) \<and>
        mepc (proc_set st' ! ?n) = APPS_ENTRY
      else regs_of (proc_set st' ! ?n) = regs_of (proc_set st ! ?n) \<and> mepc (proc_set st' ! ?n) = mepc (proc_set st ! ?n)"
    if "?n \<noteq> curr_proc_idx st"
    using ctx[OF n(1)] that start_context_regs[OF n(3)]
    by (auto simp: regs_of_def proc_context_def start_context_def fun_eq_iff)
  have old: "regs_of (proc_set st' ! curr_proc_idx st) = r"
    "mepc (proc_set st' ! curr_proc_idx st) = (if is_ecall t then trap_mepc t + 4 else trap_mepc t)"
    using ctx[OF n(2)] s(6,7) by (auto simp: regs_of_def proc_context_def fun_eq_iff)
  have other: "regs_of (proc_set st' ! i) = regs_of (proc_set st ! i) \<and> mepc (proc_set st' ! i) = mepc (proc_set st ! i)"
    if "i < MAX_NPROCESS" "i \<noteq> curr_proc_idx st" "i \<noteq> ?n" for i
    using ctx[OF that(1)] that(2,3) by (simp add: regs_of_def [abs_def] proc_context_def)
  show ?thesis unfolding Let_def using k(2) new old other r' by (cases "?n = curr_proc_idx st") auto
qed

theorem trap_entry_resumes_witness:
  "\<exists>r' pc st'. trap_entry (\<lambda>_. 0) timer_trap (\<lambda>_. 5) three_processes = Inr (r', pc, st') \<and> kinv st'"
proof -
  obtain r' pc st' where e: "trap_entry (\<lambda>_. 0) timer_trap (\<lambda>_. 5) three_processes = Inr (r', pc, st')"
    using timer_trap_three by blast
  have "mhartid timer_trap = core_in_kernel three_processes" by (simp add: timer_trap_def three_processes_same)
  from trap_entry_resumes[OF kinv_three_processes this e] e show ?thesis by (auto simp: Let_def)
qed

text \<open>C23: A trap changes the memory of no process, the page that system calls are passed in apart,
  and gives no page to anybody.\<close>

theorem trap_entry_isolation:
  assumes "kinv st" "mhartid t = core_in_kernel st" "trap_entry clobber t r st = Inr (r', pc, st')" "q \<noteq> 0" "w \<noteq> SYSCALL_PAGE"
  shows "view (mmu st') q w = view (mmu st) q w \<and> page_info_table (mmu st') = page_info_table (mmu st)"
proof -
  obtain st0 where s: "kinv st0" "kernel_entry t st0 = Inr (pc, st')" "core_in_kernel st0 = core_in_kernel st"
    "\<And>q w. q \<noteq> 0 \<Longrightarrow> view (mmu st0) q w = view (mmu st) q w" "page_info_table (mmu st0) = page_info_table (mmu st)"
    by (rule trap_entry_state[OF assms(1,3)]) blast
  have h: "mhartid t = core_in_kernel st0" using assms(2) s(3) by simp
  show ?thesis
    by (rule kernel_entry_correct[OF s(1) h s(2)]) (use s(4,5) assms(4,5) in simp)
qed

theorem trap_entry_isolation_witness:
  "\<exists>r' pc st'. trap_entry (\<lambda>_. 0) timer_trap (\<lambda>_. 5) three_processes = Inr (r', pc, st') \<and>
     view (mmu st') 2 0x80400 = view (mmu three_processes) 2 0x80400"
proof -
  obtain r' pc st' where e: "trap_entry (\<lambda>_. 0) timer_trap (\<lambda>_. 5) three_processes = Inr (r', pc, st')"
    using timer_trap_three by blast
  have "mhartid timer_trap = core_in_kernel three_processes" by (simp add: timer_trap_def three_processes_same)
  from trap_entry_isolation[OF kinv_three_processes this e, of 2 "0x80400"] e show ?thesis by auto
qed

text \<open>C13: Whatever the trap, the kernel either stops with one of its error messages or returns to
  a process with the invariant restored: process ids are unique, exactly the current process is
  marked as running and its memory is the one that is mapped, and delivered messages belong to
  senders that wait for them.\<close>

theorem kernel_entry_invariant:
  assumes "kinv st" "mhartid t = core_in_kernel st"
  shows "case kernel_entry t st of Inl f \<Rightarrow> (\<exists>msg. f = FATAL msg) | Inr (pc, st') \<Rightarrow> kinv st'"
proof (cases "kernel_entry t st")
  case (Inr x)
  obtain pc st' where x: "x = (pc, st')" by (cases x)
  have "kinv st'" by (rule kernel_entry_correct[OF assms Inr[unfolded x]]) blast
  then show ?thesis by (simp add: Inr x)
next
  case (Inl f)
  from kernel_entry_at_yield[OF assms] show ?thesis
  proof (elim disjE exE conjE)
    fix s assume k: "kernel_entry t st = bindr (proc_yield (mtime t) s) (\<lambda>s. Inr (restore_context s))" and a: "at_yield t st s"
    have s: "kwf s" "core_ok s" "only_current_runs s" using a by (auto simp: at_yield_def)
    have "proc_yield (mtime t) s = Inl f" using k Inl by (cases "proc_yield (mtime t) s") simp_all
    then have "\<exists>msg. f = FATAL msg"
      using yield_loop_error[OF preempted_correct(1)[OF s]]
      by (cases "yield_loop [1 ..< MAX_NPROCESS + 1] (preempted s)") (auto simp: proc_yield_preempted split: if_splits)
    then show ?thesis by (simp add: Inl)
  qed (simp add: Inl)
qed

theorem kernel_entry_invariant_witness:
  "case kernel_entry timer_trap three_processes of Inl f \<Rightarrow> (\<exists>msg. f = FATAL msg) | Inr (pc, st') \<Rightarrow> kinv st'"
  using kernel_entry_invariant[OF kinv_three_processes, of timer_trap] by (simp add: timer_trap_def three_processes_same)

section \<open>Scheduling\<close>

text \<open>C24: A timer interrupt always returns to a process, as long as no blocked sender waits for a
  process that does not exist, and the timer of the core is set to one quantum after the time it
  was read.\<close>

theorem timer_interrupt_returns:
  assumes "kinv st" "mhartid t = core_in_kernel st" "bit (mcause t) 31" "mcause t AND 0x3FF = 7" "senders_alive st"
  shows "\<exists>pc st'. kernel_entry t st = Inr (pc, st') \<and>
     mtimecmp st' (mhartid t) = mtime t + QUANTUM (platform (mmu st))"
proof -
  obtain pc st' where k: "kernel_entry t st = Inr (pc, st')" using timer_returns[OF assms] by blast
  have "mtimecmp st' (mhartid t) = mtime t + QUANTUM (platform (mmu st))"
    by (rule kernel_entry_correct[OF assms(1,2) k]) (use assms(2) in simp)
  with k show ?thesis by blast
qed

theorem timer_interrupt_returns_witness:
  "\<exists>pc st'. kernel_entry timer_trap three_processes = Inr (pc, st')"
  using timer_interrupt_returns[OF kinv_three_processes, of timer_trap] senders_alive_three
  by (auto simp: timer_trap_def three_processes_same)

text \<open>One turn of a process: it computes, writing only user pages, and traps.\<close>

inductive user_step :: "kernel \<Rightarrow> kernel \<Rightarrow> bool" where
  "(\<And>p. p < 2 ^ 20 \<Longrightarrow> p < 0x80400 \<or> 0x80800 \<le> p \<Longrightarrow> page_bytes m p = page_bytes (memory (mmu st)) p) \<Longrightarrow>
   user_step st (st\<lparr>mmu := (mmu st)\<lparr>memory := m\<rparr>\<rparr>)"

inductive turn :: "kernel \<Rightarrow> kernel \<Rightarrow> bool" where
  "user_step st st1 \<Longrightarrow> mhartid t = core_in_kernel st1 \<Longrightarrow> trap_entry clobber t r st1 = Inr (r', pc, st') \<Longrightarrow> turn st st'"

inductive_cases user_stepE: "user_step st st'"
inductive_cases turnE: "turn st st'"

lemma user_step_kinv:
  assumes "user_step st st'" "kinv st"
  shows "kinv st'" "proc_set st' = proc_set st" "curr_proc_idx st' = curr_proc_idx st"
  using assms by (auto elim!: user_stepE simp: curr_proc_idx_def)

lemma turn_schedules:
  assumes t: "turn st st'" and inv: "kinv st" and i: "i < MAX_NPROCESS" "schedulable st i"
    and d: "i = slot st d" "1 \<le> d" "d \<le> MAX_NPROCESS"
  shows "kinv st' \<and> (curr_proc_idx st' = i \<or> schedulable st' i \<and> (\<exists>d'. i = slot st' d' \<and> 1 \<le> d' \<and> d' < d))"
  using t
proof (cases rule: turn.cases)
  case (1 st1 t clobber r r' pc)
  note u = user_step_kinv[OF 1(1) inv]
  obtain st0 where s: "kinv st0" "kernel_entry t st0 = Inr (pc, st')" "proc_set st0 = proc_set st1"
    "curr_proc_idx st0 = curr_proc_idx st1" "core_in_kernel st0 = core_in_kernel st1"
    by (rule trap_entry_state[OF u(1) 1(3)]) blast
  have eq: "slot st0 x = slot st x" "schedulable st0 x = schedulable st x" for x
    using s(3,4) u(2,3) by (simp_all add: slot_def schedulable_def)
  have h: "mhartid t = core_in_kernel st0" using 1(2) s(5) by simp
  obtain e where e: "1 \<le> e" "e \<le> MAX_NPROCESS" "curr_proc_idx st' = slot st e" "kinv st'"
    "\<And>d'. 1 \<le> d' \<Longrightarrow> d' < e \<Longrightarrow> \<not> schedulable st (slot st d')"
    "\<And>i. i < MAX_NPROCESS \<Longrightarrow> schedulable st i \<Longrightarrow> i \<noteq> curr_proc_idx st' \<Longrightarrow> schedulable st' i"
    using kernel_entry_correct[OF s(1) h s(2)] unfolding eq by metis
  have le: "e \<le> d" using e(5)[OF d(2)] i(2) d(1) by (metis not_le)
  show ?thesis
  proof (cases "curr_proc_idx st' = i")
    case False
    then have "e < d" using le e(3) d(1) by (metis le_neq_implies_less)
    moreover have "i = slot st' (d - e)"
    proof -
      have "slot st' (d - e) = (curr_proc_idx st + e + (d - e)) mod MAX_NPROCESS"
        unfolding slot_def e(3) by (rule mod_add_left_eq)
      then show ?thesis using d(1) le by (simp add: slot_def)
    qed
    ultimately show ?thesis using e(4) e(6)[OF i False[symmetric]] e(1) by (intro conjI disjI2 exI[of _ "d - e"]) auto
  qed (use e(4) in simp)
qed

text \<open>C5: No starvation. A process that is ready or runnable gets the CPU within the next 16
  turns, whatever the other processes do and whatever traps they take.\<close>

theorem no_starvation:
  assumes "kinv (s 0)" "i < MAX_NPROCESS" "schedulable (s 0) i" "\<forall>k < MAX_NPROCESS. turn (s k) (s (Suc k))"
  shows "\<exists>k. 1 \<le> k \<and> k \<le> MAX_NPROCESS \<and> curr_proc_idx (s k) = i \<and> kinv (s k)"
proof -
  have main: "\<exists>k. j < k \<and> k \<le> j + d \<and> curr_proc_idx (s k) = i \<and> kinv (s k)"
    if "kinv (s j)" "schedulable (s j) i" "i = slot (s j) d" "1 \<le> d" "j + d \<le> MAX_NPROCESS" for j d
    using that
  proof (induction d arbitrary: j rule: less_induct)
    case (less d)
    have t: "turn (s j) (s (Suc j))" using assms(4) less.prems(4,5) by simp
    consider "curr_proc_idx (s (Suc j)) = i" "kinv (s (Suc j))"
      | d' where "kinv (s (Suc j))" "schedulable (s (Suc j)) i" "i = slot (s (Suc j)) d'" "1 \<le> d'" "d' < d"
      using turn_schedules[OF t less.prems(1) assms(2) less.prems(2-4)] less.prems(5) by auto
    then show ?case
    proof cases
      case 1
      then show ?thesis using less.prems(4) by (intro exI[of _ "Suc j"]) simp
    next
      case 2
      then obtain k where "Suc j < k" "k \<le> Suc j + d'" "curr_proc_idx (s k) = i" "kinv (s k)"
        using less.IH[of d' "Suc j"] less.prems(5) by auto
      then show ?thesis using 2(5) by (intro exI[of _ k]) simp
    qed
  qed
  let ?c = "curr_proc_idx (s 0)"
  have c: "?c < MAX_NPROCESS" using assms(1) by (simp add: kinv_def core_ok_def)
  define d where "d = (if ?c < i then i - ?c else MAX_NPROCESS + i - ?c)"
  have d: "i = slot (s 0) d" "1 \<le> d" "0 + d \<le> MAX_NPROCESS"
    using c assms(2) by (auto simp: d_def slot_def)
  obtain k where "0 < k" "k \<le> 0 + d" "curr_proc_idx (s k) = i" "kinv (s k)" using main[OF assms(1,3) d] by blast
  then show ?thesis using d(3) by (intro exI[of _ k]) simp
qed

lemma timer_turn:
  assumes inv: "kinv st" and sa: "senders_alive st" and c: "core_in_kernel st = 1"
  shows "\<exists>st'. (kinv st' \<and> senders_alive st' \<and> core_in_kernel st' = 1) \<and> turn st st'"
proof -
  let ?st = "st\<lparr>mmu := (mmu st)\<lparr>memory := trap_save (\<lambda>_. 5) (memory (mmu st))\<rparr>\<rparr>"
  have h: "mhartid timer_trap = core_in_kernel ?st" "\<not> is_ecall timer_trap" using c by (simp_all add: timer_trap_def is_ecall_def)
  have i: "kinv ?st" "senders_alive ?st" using inv sa by (simp_all add: senders_alive_def receiver_alive_def)
  obtain pc st' where k: "kernel_entry timer_trap ?st = Inr (pc, st')"
    using timer_returns[OF i(1) h(1) _ _ i(2)] by (auto simp: timer_trap_def)
  have "kinv st' \<and> core_in_kernel st' = 1" by (rule kernel_entry_correct[OF i(1) h(1) k]) (use c in simp)
  moreover have "user_step st st" using user_step.intros[of "memory (mmu st)" st] by simp
  ultimately show ?thesis
    using timer_senders_alive[OF i(1) h(1) k i(2) h(2)] turn.intros[OF _ _ trap_kernel_entry[OF k, of "\<lambda>_. 0"]] h(1) by auto
qed

theorem no_starvation_witness:
  "\<exists>s k. s 0 = three_processes \<and> 1 \<le> k \<and> k \<le> MAX_NPROCESS \<and> curr_proc_idx (s k) = 1"
proof -
  obtain s :: "nat \<Rightarrow> kernel" where s: "s 0 = three_processes" "\<And>n. turn (s n) (s (Suc n))"
    using dependent_nat_choice[of "\<lambda>n st. (kinv st \<and> senders_alive st \<and> core_in_kernel st = 1) \<and> (n = 0 \<longrightarrow> st = three_processes)"
      "\<lambda>n. turn"] kinv_three_processes senders_alive_three three_processes_same(2) timer_turn by (metis nat.distinct(1))
  have "schedulable three_processes 1" by (simp add: schedulable_def three_processes_nth)
  with no_starvation[of s 1] s kinv_three_processes show ?thesis by auto
qed

end
