(* ===== verification/Ipc.thy ===== *)
theory Ipc
  imports Kernel_Spec
begin

text \<open>
  library/syscall/syscall.c and message passing end to end: from the bytes given to \<open>sys_send\<close>
  to the bytes that \<open>sys_recv\<close> hands to the receiver.
\<close>

section \<open>The two library functions\<close>

text \<open>
  \<open>sc\<close> is the page at \<open>SYSCALL_ARG\<close> of the running process. \<open>sys_send\<close> and \<open>sys_recv\<close> fill it
  before the \<open>ecall\<close>; \<open>sys_recv_return\<close> is what \<open>sys_recv\<close> reads from it afterwards.
\<close>

definition sys_send :: "i32 \<Rightarrow> u8 list \<Rightarrow> mem \<Rightarrow> mem" where
  "sys_send receiver msg m =
     (let m = store32 m (SYSCALL_ARG + 0) SYS_SEND;
          m = store32 m (SYSCALL_ARG + 8) receiver in
      memcpy_in m (SYSCALL_ARG + 12) msg)"

definition sys_recv :: "i32 \<Rightarrow> mem \<Rightarrow> mem" where
  "sys_recv from_pid m =
     (let m = store32 m (SYSCALL_ARG + 0) SYS_RECV in
      store32 m (SYSCALL_ARG + 4) from_pid)"

definition sys_recv_return :: "nat \<Rightarrow> mem \<Rightarrow> i32 \<times> u8 list" where
  "sys_recv_return n m = (load32 m (SYSCALL_ARG + 4), memcpy_out m (SYSCALL_ARG + 12) n)"

section \<open>The system call page\<close>

lemma SYSCALL_addr: "SYSCALL_ARG + of_nat k = page_addr (unat SYSCALL_PAGE) + of_nat k"
  by (simp add: page_addr_def)

lemma memcpy_out_page:
  assumes "k + n \<le> PAGE_SIZE"
  shows "memcpy_out m (page_addr p + of_nat k) n = take n (drop k (page_bytes m p))"
proof (rule nth_equalityI)
  show "length (memcpy_out m (page_addr p + of_nat k) n) = length (take n (drop k (page_bytes m p)))" using assms by simp
  fix i assume "i < length (memcpy_out m (page_addr p + of_nat k) n)"
  then show "memcpy_out m (page_addr p + of_nat k) n ! i = take n (drop k (page_bytes m p)) ! i"
    using assms by (simp add: memcpy_out_def nth_page_bytes add.assoc)
qed

lemma syscall_page_out: "k + n \<le> PAGE_SIZE \<Longrightarrow>
  memcpy_out m (SYSCALL_ARG + of_nat k) n = take n (drop k (page_bytes m (unat SYSCALL_PAGE)))"
  unfolding SYSCALL_addr by (rule memcpy_out_page)

lemma syscall_page_store:
  "k + 4 \<le> PAGE_SIZE \<Longrightarrow> page_bytes (store32 m (SYSCALL_ARG + of_nat k) w) (unat SYSCALL_PAGE) =
    put32 (page_bytes m (unat SYSCALL_PAGE)) k w"
  unfolding SYSCALL_addr by (subst page_bytes_store32) simp_all

lemma syscall_page_in:
  "k + length bs \<le> PAGE_SIZE \<Longrightarrow> page_bytes (memcpy_in m (SYSCALL_ARG + of_nat k) bs) (unat SYSCALL_PAGE) =
    take k (page_bytes m (unat SYSCALL_PAGE)) @ bs @ drop (k + length bs) (page_bytes m (unat SYSCALL_PAGE))"
  unfolding SYSCALL_addr by (subst page_bytes_memcpy_in) simp_all

lemma get32_take: "k + 4 \<le> n \<Longrightarrow> get32 (take n bs) k = get32 bs k"
  by (simp add: get32_def)

lemma get32_append1: "k + 4 \<le> length xs \<Longrightarrow> get32 (xs @ ys) k = get32 xs k"
  by (simp add: get32_def nth_append)

text \<open>What the kernel reads after \<open>sys_send\<close> and \<open>sys_recv\<close>.\<close>

lemma sys_send_call:
  assumes "length msg \<le> SYSCALL_MSG_LEN"
  shows "\<exists>rest sender. pending_syscall (memcpy_out (sys_send receiver msg m) SYSCALL_ARG SYSCALL_SIZE) =
    \<lparr>sc_type = SYS_SEND, sc_sender = sender, sc_receiver = receiver, content = msg @ rest, sc_status = PENDING\<rparr> \<and>
    length (msg @ rest) = SYSCALL_MSG_LEN"
proof -
  let ?p = "page_bytes m (unat SYSCALL_PAGE)"
  let ?q = "put32 (put32 ?p 0 SYS_SEND) 8 receiver"
  have q: "length ?q = PAGE_SIZE" by simp
  have pg: "page_bytes (sys_send receiver msg m) (unat SYSCALL_PAGE) = take 12 ?q @ msg @ drop (12 + length msg) ?q"
    unfolding sys_send_def Let_def
    using syscall_page_in[of 12 msg] syscall_page_store[of 8] syscall_page_store[of 0] assms by simp
  define bs where "bs = take SYSCALL_SIZE (take 12 ?q @ msg @ drop (12 + length msg) ?q)"
  have out: "memcpy_out (sys_send receiver msg m) SYSCALL_ARG SYSCALL_SIZE = bs"
    using syscall_page_out[of 0 SYSCALL_SIZE "sys_send receiver msg m"] pg by (simp add: bs_def)
  have g: "get32 bs k = get32 ?q k" if "k + 4 \<le> 12" for k
    using that q unfolding bs_def by (subst get32_take) (simp_all add: get32_append1 get32_take)
  have "get32 bs 0 = SYS_SEND" "get32 bs 8 = receiver" using g[of 0] g[of 8] by (simp_all add: get32_put32_other)
  moreover define rest where "rest = take (SYSCALL_MSG_LEN - length msg) (drop (12 + length msg) ?q)"
  have "take SYSCALL_MSG_LEN (drop 12 bs) = msg @ rest" "length (msg @ rest) = SYSCALL_MSG_LEN"
    using assms q by (simp_all add: bs_def rest_def drop_take)
  ultimately show ?thesis unfolding out pending_syscall_def by (intro exI[of _ rest] exI[of _ "get32 bs 4"]) simp
qed

lemma sys_recv_call:
  "\<exists>c receiver. pending_syscall (memcpy_out (sys_recv from_pid m) SYSCALL_ARG SYSCALL_SIZE) =
    \<lparr>sc_type = SYS_RECV, sc_sender = from_pid, sc_receiver = receiver, content = c, sc_status = PENDING\<rparr> \<and>
    length c = SYSCALL_MSG_LEN"
proof -
  let ?q = "put32 (put32 (page_bytes m (unat SYSCALL_PAGE)) 0 SYS_RECV) 4 from_pid"
  have "page_bytes (sys_recv from_pid m) (unat SYSCALL_PAGE) = ?q"
    unfolding sys_recv_def Let_def using syscall_page_store[of 4] syscall_page_store[of 0] by simp
  then have out: "memcpy_out (sys_recv from_pid m) SYSCALL_ARG SYSCALL_SIZE = take SYSCALL_SIZE ?q"
    using syscall_page_out[of 0 SYSCALL_SIZE "sys_recv from_pid m"] by simp
  show ?thesis unfolding out pending_syscall_def by (simp add: get32_take get32_put32_other)
qed

lemma sys_recv_return_bytes:
  assumes "page_bytes m (unat SYSCALL_PAGE) = syscall_bytes sc @ rest" "n \<le> length (content sc)" "length (content sc) = SYSCALL_MSG_LEN"
  shows "sys_recv_return n m = (sc_sender sc, take n (content sc))"
proof -
  have s: "get32 (syscall_bytes sc @ rest) 4 = sc_sender sc"
    by (simp add: syscall_bytes_def get32_def bytes32_def nth_append)
  have "load32 m (SYSCALL_ARG + of_nat 4) = sc_sender sc"
  proof -
    have "load32 m (page_addr (unat SYSCALL_PAGE) + of_nat 4) = get32 (page_bytes m (unat SYSCALL_PAGE)) 4"
      by (rule load32_page) simp
    then show ?thesis unfolding SYSCALL_addr using s assms(1) by simp
  qed
  moreover have "memcpy_out m (SYSCALL_ARG + of_nat 12) n = take n (drop 12 (syscall_bytes sc @ rest))"
    using syscall_page_out[of 12 n m] assms by simp
  moreover have "take n (drop 12 (syscall_bytes sc @ rest)) = take n (content sc)"
    using assms(2) by (simp add: syscall_bytes_def)
  ultimately show ?thesis by (simp add: sys_recv_return_def)
qed

section \<open>Rendezvous\<close>

lemma rendezvous:
  assumes wf: "kwf st" and i: "i < MAX_NPROCESS" "status (proc_set st ! i) = PROC_PENDING_SYSCALL"
      "sc_type (syscall (proc_set st ! i)) = SYS_SEND"
    and j: "j < MAX_NPROCESS" "status (proc_set st ! j) = PROC_PENDING_SYSCALL"
      "pid (proc_set st ! j) = sc_receiver (syscall (proc_set st ! i))" "waits_for (proc_set st ! j) (proc_set st ! i)"
  obtains st1 st2 where "proc_try_syscall i st = Inr st1" "proc_try_syscall j st1 = Inr st2" "kwf st2"
    "status (proc_set st2 ! i) = PROC_RUNNABLE" "status (proc_set st2 ! j) = PROC_RUNNABLE"
    "\<And>q w. q \<noteq> 0 \<Longrightarrow> q \<noteq> pid (proc_set st ! j) \<Longrightarrow> view (mmu st2) q w = view (mmu st) q w"
    "view (mmu st2) (pid (proc_set st ! j)) SYSCALL_PAGE = map_option
       (\<lambda>old. syscall_bytes (syscall (put_message (proc_set st ! i) (proc_set st ! j))) @ drop SYSCALL_SIZE old)
       (view (mmu st) (pid (proc_set st ! j)) SYSCALL_PAGE)"
proof -
  let ?s = "proc_set st ! i" and ?r = "proc_set st ! j"
  define st1 where "st1 = update_proc j (put_message ?s) st"
  have pw: "procs_wf st" using wf by (simp add: kwf_def)
  have nz: "pid ?s \<noteq> 0" "pid ?r \<noteq> 0" using procs_wfD(2)[OF pw] i(1,2) j(1,2) by simp_all
  have ty: "sc_type (syscall ?r) = SYS_RECV" using j(4) by (simp add: waits_for_def)
  then have ij: "i \<noteq> j" using i(3) by auto
  have t1: "proc_try_syscall i st = Inr st1"
  proof -
    have "receiver_alive st ?s" using j unfolding receiver_alive_def by (intro exI[of _ j]) simp
    then obtain k where k: "k < MAX_NPROCESS" "pid (proc_set st ! k) = sc_receiver (syscall ?s)"
      "proc_try_send i st = Inr (if waits_for (proc_set st ! k) ?s then update_proc k (put_message ?s) st else st)"
      by (cases rule: proc_try_send_cases[OF pw, of i]) auto
    have "j = k" by (rule procs_wfD(5)[OF pw j(1) k(1) _ nz(2)]) (simp add: k(2) j(3))
    then show ?thesis using k(3) i(3) j(4) by (simp add: proc_try_syscall_def st1_def)
  qed
  note k1 = put_message_kwf[OF wf i j(1,3) ty, folded st1_def]
  have ps: "proc_set st1 ! j = put_message ?s ?r" "proc_set st1 ! i = ?s" "mmu st1 = mmu st"
    using procs_wfD(1)[OF pw i(1)] i(1) j(1) ij by (simp_all add: st1_def nth_update_proc)
  have d: "delivered (proc_set st1 ! j)" using ps(1) j(2) ty by (simp add: delivered_def)
  then have t2: "proc_try_syscall j st1 = Inr (message_taken j st1)"
    by (simp add: proc_try_syscall_def proc_try_recv_eq delivered_def)
  note k2 = message_taken_kwf[OF k1(1) j(1) d]
  have pw1: "procs_wf st1" and vw: "vm_wf (mmu st1)" using k1(1) by (simp_all add: kwf_def)
  have c: "length (content (syscall (proc_set st1 ! j))) = SYSCALL_MSG_LEN"
    using wf i by (auto simp: ps(1) kwf_def calls_wf_def)
  have nz1: "pid (proc_set st1 ! j) \<noteq> 0" using ps(1) nz(2) by simp
  note mm = message_taken_mmu(3,4)[OF vw nz1 c]
  show thesis
    by (rule that[OF t1 t2 k2(1)])
      (use nth_message_taken(1)[OF pw1 j(1) nz1] i(1) j(1) ps mm ij in \<open>simp_all\<close>)
qed

text \<open>C6: A message arrives as it was sent. When a process has called sys_send with at most 1024
  bytes for another one that has called sys_recv for it or for anybody, trying the two system
  calls unblocks both; the receiver then reads the sender's id and exactly the bytes sent, and the
  memory of every other process is as before.\<close>

theorem message_round_trip:
  assumes "kwf st" "i < MAX_NPROCESS" "j < MAX_NPROCESS" "length msg \<le> SYSCALL_MSG_LEN"
    and "status (proc_set st ! i) = PROC_PENDING_SYSCALL" "status (proc_set st ! j) = PROC_PENDING_SYSCALL"
    and "syscall (proc_set st ! i) = pending_syscall (memcpy_out (sys_send (pid (proc_set st ! j)) msg mi) SYSCALL_ARG SYSCALL_SIZE)"
    and "syscall (proc_set st ! j) = pending_syscall (memcpy_out (sys_recv from_pid mj) SYSCALL_ARG SYSCALL_SIZE)"
    and "from_pid \<in> {GPID_ALL, pid (proc_set st ! i)}" "view (mmu st) (pid (proc_set st ! j)) SYSCALL_PAGE = Some old"
  shows "\<exists>st1 st2 new. proc_try_syscall i st = Inr st1 \<and> proc_try_syscall j st1 = Inr st2 \<and> kwf st2 \<and>
     status (proc_set st2 ! i) = PROC_RUNNABLE \<and> status (proc_set st2 ! j) = PROC_RUNNABLE \<and>
     view (mmu st2) (pid (proc_set st ! j)) SYSCALL_PAGE = Some new \<and>
     (\<forall>m. page_bytes m (unat SYSCALL_PAGE) = new \<longrightarrow> sys_recv_return (length msg) m = (pid (proc_set st ! i), msg)) \<and>
     (\<forall>q w. q \<noteq> 0 \<longrightarrow> q \<noteq> pid (proc_set st ! j) \<longrightarrow> view (mmu st2) q w = view (mmu st) q w)"
proof -
  let ?s = "proc_set st ! i" and ?r = "proc_set st ! j"
  obtain rest sender where s: "syscall ?s = \<lparr>sc_type = SYS_SEND, sc_sender = sender, sc_receiver = pid ?r, content = msg @ rest,
      sc_status = PENDING\<rparr>" "length (msg @ rest) = SYSCALL_MSG_LEN"
    using sys_send_call[OF assms(4), of "pid ?r" mi] assms(7) by auto
  obtain c receiver where r: "syscall ?r = \<lparr>sc_type = SYS_RECV, sc_sender = from_pid, sc_receiver = receiver, content = c,
      sc_status = PENDING\<rparr>" using sys_recv_call[of from_pid mj] assms(8) by auto
  have w: "waits_for ?r ?s" "sc_type (syscall ?s) = SYS_SEND" "pid ?r = sc_receiver (syscall ?s)"
    using s(1) r assms(9) by (auto simp: waits_for_def)
  obtain st1 st2 where t: "proc_try_syscall i st = Inr st1" "proc_try_syscall j st1 = Inr st2" "kwf st2"
    "status (proc_set st2 ! i) = PROC_RUNNABLE" "status (proc_set st2 ! j) = PROC_RUNNABLE"
    "\<And>q w. q \<noteq> 0 \<Longrightarrow> q \<noteq> pid ?r \<Longrightarrow> view (mmu st2) q w = view (mmu st) q w"
    "view (mmu st2) (pid ?r) SYSCALL_PAGE = Some (syscall_bytes (syscall (put_message ?s ?r)) @ drop SYSCALL_SIZE old)"
    using rendezvous[OF assms(1,2,5) w(2) assms(3,6) w(3,1)] assms(10) by auto
  have "sys_recv_return (length msg) m = (pid ?s, msg)"
    if "page_bytes m (unat SYSCALL_PAGE) = syscall_bytes (syscall (put_message ?s ?r)) @ drop SYSCALL_SIZE old" for m
    using sys_recv_return_bytes[OF that, of "length msg"] s assms(4) by simp
  with t show ?thesis by blast
qed

text \<open>Process 1 has sent two bytes to process 2, which waits for anybody.\<close>

definition talking :: kernel where
  "talking = \<lparr>core_in_kernel = 1, core_to_proc_idx = replicate 5 0,
     proc_set = (replicate (MAX_NPROCESS + 1) no_process)
       [0 := no_process\<lparr>pid := 1, status := PROC_PENDING_SYSCALL,
          syscall := pending_syscall (memcpy_out (sys_send 2 [104, 105] (\<lambda>_. 0)) SYSCALL_ARG SYSCALL_SIZE)\<rparr>,
        1 := no_process\<lparr>pid := 2, status := PROC_PENDING_SYSCALL,
          syscall := pending_syscall (memcpy_out (sys_recv GPID_ALL (\<lambda>_. 0)) SYSCALL_ARG SYSCALL_SIZE)\<rparr>],
     last_pid = 2, mmu = two_processes, mtimecmp = (\<lambda>_. 0)\<rparr>"

lemma talking_nth:
  assumes "i < MAX_NPROCESS"
  shows "proc_set talking ! i =
    (if i = 0 then no_process\<lparr>pid := 1, status := PROC_PENDING_SYSCALL,
       syscall := pending_syscall (memcpy_out (sys_send 2 [104, 105] (\<lambda>_. 0)) SYSCALL_ARG SYSCALL_SIZE)\<rparr>
     else if i = 1 then no_process\<lparr>pid := 2, status := PROC_PENDING_SYSCALL,
       syscall := pending_syscall (memcpy_out (sys_recv GPID_ALL (\<lambda>_. 0)) SYSCALL_ARG SYSCALL_SIZE)\<rparr>
     else no_process)"
  unfolding talking_def kernel.select_convs using assms by (simp add: nth_list_update)

lemma kwf_talking: "kwf talking"
proof -
  have len: "length (proc_set talking) = MAX_NPROCESS + 1" "last_pid talking = 2" "mmu talking = two_processes"
    by (simp_all add: talking_def)
  have "length [104, 105 :: u8] \<le> SYSCALL_MSG_LEN" by simp
  from sys_send_call[OF this, of 2 "\<lambda>_. 0"] sys_recv_call[of GPID_ALL "\<lambda>_. 0"]
  have c: "calls_wf talking" unfolding calls_wf_def by (auto simp: talking_nth no_process_same)
  have "procs_wf talking" unfolding procs_wf_def Let_def by (auto simp: len talking_nth no_process_same)
  moreover have "ipc_wf talking"
    unfolding ipc_wf_def Let_def by (auto simp: talking_nth no_process_same delivered_def split: if_splits)
  ultimately show ?thesis using c vm_wf_two_processes by (simp add: kwf_def len(3))
qed

theorem message_round_trip_witness:
  "\<exists>st1 st2 new. proc_try_syscall 0 talking = Inr st1 \<and> proc_try_syscall 1 st1 = Inr st2 \<and>
     view (mmu st2) 2 SYSCALL_PAGE = Some new \<and>
     (\<forall>m. page_bytes m (unat SYSCALL_PAGE) = new \<longrightarrow> sys_recv_return 2 m = (1, [104, 105]))"
proof -
  obtain old where "view (mmu talking) 2 SYSCALL_PAGE = Some old"
    using two_processes_frames(4) by (auto simp: talking_def view_def)
  moreover have "pid (proc_set talking ! 0) = 1" "pid (proc_set talking ! 1) = 2"
    by (simp_all add: talking_nth)
  ultimately show ?thesis
    using message_round_trip[OF kwf_talking, of 0 1 "[104, 105]" "\<lambda>_. 0" GPID_ALL "\<lambda>_. 0" old] talking_nth[of 0] talking_nth[of 1]
    by (simp add: numeral_2_eq_2 del: One_nat_def) blast
qed

end
