(* ===== verification/Prog.thy ===== *)
theory Prog
  imports Ipc
begin

text \<open>
  Programs that run as processes. A program computes on the state it can reach, sends and receives
  messages, and ends with a result or with a fault. Several processes together form a system whose
  steps are the local steps of a process and the passing of a message between two of them, which is
  what the kernel does for a sender and a receiver that wait for each other (theory Ipc).
\<close>

section \<open>Programs\<close>

datatype ('s, 'a) prog =
    Ret 'a
  | Stop fault
  | Act "'s \<Rightarrow> ('s, 'a) prog \<times> 's"
  | Sys_send i32 "u8 list" "('s, 'a) prog"
  | Sys_recv i32 "i32 \<Rightarrow> u8 list \<Rightarrow> ('s, 'a) prog"

primrec bindp :: "('s, 'a) prog \<Rightarrow> ('a \<Rightarrow> ('s, 'b) prog) \<Rightarrow> ('s, 'b) prog" where
  "bindp (Ret x) k = k x"
| "bindp (Stop e) k = Stop e"
| "bindp (Act f) k = Act (\<lambda>s. map_prod (\<lambda>c. bindp c k) id (f s))"
| "bindp (Sys_send to m c) k = Sys_send to m (bindp c k)"
| "bindp (Sys_recv from_pid h) k = Sys_recv from_pid (\<lambda>sender m. bindp (h sender m) k)"

definition act :: "('s \<Rightarrow> ('a \<times> 's) res) \<Rightarrow> ('s, 'a) prog" where
  "act f = Act (\<lambda>s. case f s of Inl e \<Rightarrow> (Stop e, s) | Inr (x, s') \<Rightarrow> (Ret x, s'))"

text \<open>A computation that needs no state.\<close>

definition of_res :: "'a res \<Rightarrow> ('s, 'a) prog" where
  "of_res r = (case r of Inl e \<Rightarrow> Stop e | Inr x \<Rightarrow> Ret x)"

definition send :: "i32 \<Rightarrow> u8 list \<Rightarrow> ('s, unit) prog" where
  "send to m = Sys_send to m (Ret ())"

definition receive :: "i32 \<Rightarrow> ('s, i32 \<times> u8 list) prog" where
  "receive from_pid = Sys_recv from_pid (\<lambda>sender m. Ret (sender, m))"

lemma bindp_Ret [simp]: "bindp c Ret = c"
proof (induction c)
  case (Act f)
  have "bindp (fst (f s)) Ret = fst (f s)" for s
    using Act[OF rangeI[of f s], of "fst (f s)"] by (cases "f s") (simp add: prod_set_simps)
  then have "map_prod (\<lambda>c. bindp c Ret) id (f s) = f s" for s by (cases "f s") (metis fst_conv id_apply map_prod_simp)
  then show ?case by simp
next
  case (Sys_recv q h)
  then have "bindp (h sender m) Ret = h sender m" for sender m by blast
  then show ?case by simp
qed simp_all

lemma bindp_assoc: "bindp (bindp c f) g = bindp c (\<lambda>x. bindp (f x) g)"
proof (induction c)
  case (Act h)
  have "bindp (bindp (fst (h s)) f) g = bindp (fst (h s)) (\<lambda>x. bindp (f x) g)" for s
    using Act[OF rangeI[of h s], of "fst (h s)"] by (cases "h s") (simp add: prod_set_simps)
  then have "map_prod (\<lambda>c. bindp c g) id (map_prod (\<lambda>c. bindp c f) id (h s)) = map_prod (\<lambda>c. bindp c (\<lambda>x. bindp (f x) g)) id (h s)" for s
    by (cases "h s") (metis fst_conv id_apply map_prod_simp)
  then show ?case by simp
next
  case (Sys_recv q h)
  then have "bindp (bindp (h sender m) f) g = bindp (h sender m) (\<lambda>x. bindp (f x) g)" for sender m by blast
  then show ?case by simp
qed simp_all

lemma bindp_send: "bindp (send to m) k = Sys_send to m (k ())"
  by (simp add: send_def)

lemma bindp_receive: "bindp (receive from_pid) k = Sys_recv from_pid (\<lambda>sender m. k (sender, m))"
  by (simp add: receive_def)

lemma bindp_act: "bindp (act f) k = Act (\<lambda>s. case f s of Inl e \<Rightarrow> (Stop e, s) | Inr (x, s') \<Rightarrow> (k x, s'))"
  by (auto simp: act_def fun_eq_iff split: sum.splits)

lemma bindp_of_res [simp]: "bindp (of_res (Inr x)) k = k x" "bindp (of_res (Inl e)) k = Stop e"
  by (simp_all add: of_res_def)

section \<open>Systems\<close>

text \<open>
  A process is what it still has to do, and what it does again when that is done: the body of the
  loop of a server. A message is padded to the 1024 bytes of the system call page with what is left
  there from before, \<open>old\<close>.
\<close>

record 's system =
  shared :: 's
  procs :: "i32 \<Rightarrow> (('s, unit) prog \<times> ('s, unit) prog) option"

definition padded :: "u8 list \<Rightarrow> u8 list \<Rightarrow> u8 list" where
  "padded old m = m @ drop (length m) old"

inductive sys_step :: "u8 list \<Rightarrow> 's system \<Rightarrow> 's system \<Rightarrow> bool" for old where
  local: "procs S p = Some (Act f, b) \<Longrightarrow> f (shared S) = (c, s) \<Longrightarrow>
    sys_step old S (S\<lparr>shared := s, procs := (procs S)(p \<mapsto> (c, b))\<rparr>)"
| again: "procs S p = Some (Ret (), b) \<Longrightarrow> sys_step old S (S\<lparr>procs := (procs S)(p \<mapsto> (b, b))\<rparr>)"
| message: "procs S p = Some (Sys_send q m c, b) \<Longrightarrow> procs S q = Some (Sys_recv from_pid h, b') \<Longrightarrow>
    p \<noteq> q \<Longrightarrow> from_pid \<in> {GPID_ALL, p} \<Longrightarrow> length m \<le> SYSCALL_MSG_LEN \<Longrightarrow>
    sys_step old S (S\<lparr>procs := (procs S)(p \<mapsto> (c, b), q \<mapsto> (h p (padded old m), b'))\<rparr>)"

abbreviation sys_steps :: "u8 list \<Rightarrow> 's system \<Rightarrow> 's system \<Rightarrow> bool" where
  "sys_steps old \<equiv> (sys_step old)\<^sup>*\<^sup>*"

definition with_proc :: "'s system \<Rightarrow> i32 \<Rightarrow> ('s, unit) prog \<times> ('s, unit) prog \<Rightarrow> 's system" where
  "with_proc S p c = S\<lparr>procs := (procs S)(p \<mapsto> c)\<rparr>"

text \<open>Process \<open>p\<close>, running \<open>c\<close> in the system \<open>S\<close>, can get to the result \<open>x\<close>, whatever it does next.\<close>

definition calls :: "u8 list \<Rightarrow> i32 \<Rightarrow> ('s, 'a) prog \<Rightarrow> 's system \<Rightarrow> 'a \<Rightarrow> 's system \<Rightarrow> bool" where
  "calls old p c S x S' \<longleftrightarrow>
     (\<forall>k b. sys_steps old (with_proc S p (bindp c k, b)) (with_proc S' p (k x, b)))"

lemma with_proc_simps [simp]:
  "procs (with_proc S p c) = (procs S)(p \<mapsto> c)" "shared (with_proc S p c) = shared S"
  "with_proc (with_proc S p c) p d = with_proc S p d"
  by (simp_all add: with_proc_def)

lemma calls_Ret: "calls old p (Ret x) S x S"
  by (simp add: calls_def)

lemma calls_bind:
  assumes "calls old p c S x T" "calls old p (f x) T y U"
  shows "calls old p (bindp c f) S y U"
  using assms unfolding calls_def bindp_assoc by (blast intro: rtranclp_trans)

lemma calls_of_res: "r = Inr x \<Longrightarrow> calls old p (of_res r) S x S"
  by (simp add: calls_def)

lemma calls_act:
  assumes "f (shared S) = Inr (x, s')"
  shows "calls old p (act f) S x (S\<lparr>shared := s'\<rparr>)"
  unfolding calls_def bindp_act
proof (intro allI r_into_rtranclp)
  fix k b
  let ?S = "with_proc S p (Act (\<lambda>s. case f s of Inl e \<Rightarrow> (Stop e, s) | Inr (x, s') \<Rightarrow> (k x, s')), b)"
  have "sys_step old ?S (?S\<lparr>shared := s', procs := (procs ?S)(p \<mapsto> (k x, b))\<rparr>)"
    by (rule sys_step.local[where b = b and f = "\<lambda>s. case f s of Inl e \<Rightarrow> (Stop e, s) | Inr (x, s') \<Rightarrow> (k x, s')"]) (simp_all add: assms)
  then show "sys_step old ?S (with_proc (S\<lparr>shared := s'\<rparr>) p (k x, b))"
    by (simp add: with_proc_def)
qed

text \<open>
  A server waits at the head of its loop. A request that it answers, and a message that it only
  takes.
\<close>

definition waiting :: "'s system \<Rightarrow> i32 \<Rightarrow> (i32 \<Rightarrow> u8 list \<Rightarrow> ('s, unit) prog) \<Rightarrow> bool" where
  "waiting S q h \<longleftrightarrow> procs S q = Some (Sys_recv GPID_ALL h, Sys_recv GPID_ALL h)"

lemma with_proc_commute: "p \<noteq> q \<Longrightarrow> with_proc (with_proc S p c) q d = with_proc (with_proc S q d) p c"
  by (simp add: with_proc_def fun_upd_twist)

lemma with_proc_same: "procs S q = Some c \<Longrightarrow> with_proc S q c = S"
  by (simp add: with_proc_def fun_upd_idem)

lemma with_proc_waiting:
  "waiting S q h \<Longrightarrow> p \<noteq> q \<Longrightarrow> with_proc (with_proc S p c) q (Sys_recv GPID_ALL h, Sys_recv GPID_ALL h) = with_proc S p c"
  by (rule with_proc_same) (simp add: waiting_def)

lemma step_message:
  assumes "procs S q = Some (Sys_recv from_pid h, b')" "p \<noteq> q" "from_pid \<in> {GPID_ALL, p}" "length m \<le> SYSCALL_MSG_LEN"
  shows "sys_step old (with_proc S p (Sys_send q m c, b)) (with_proc (with_proc S p (c, b)) q (h p (padded old m), b'))"
proof -
  let ?A = "with_proc S p (Sys_send q m c, b)"
  have "sys_step old ?A (?A\<lparr>procs := (procs ?A)(p \<mapsto> (c, b), q \<mapsto> (h p (padded old m), b'))\<rparr>)"
    by (rule sys_step.message) (use assms in auto)
  then show ?thesis by (simp add: with_proc_def)
qed

lemma step_again: "sys_step old (with_proc S p (Ret (), b)) (with_proc S p (b, b))"
  using sys_step.again[of "with_proc S p (Ret (), b)" p b old] by (simp add: with_proc_def)

lemma server_takes:
  assumes q: "waiting S q h" "waiting S' q h" "p \<noteq> q" and m: "length m \<le> SYSCALL_MSG_LEN"
    and h: "\<And>c. calls old q (h p (padded old m)) (with_proc S p c) () (with_proc S' p c)"
  shows "calls old p (send q m) S () S'"
  unfolding calls_def bindp_send
proof (intro allI)
  fix k b
  let ?srv = "Sys_recv GPID_ALL h"
  have "sys_step old (with_proc S p (Sys_send q m (k ()), b)) (with_proc (with_proc S p (k (), b)) q (h p (padded old m), ?srv))"
    by (rule step_message) (use q m in \<open>auto simp: waiting_def\<close>)
  moreover have "sys_steps old (with_proc (with_proc S p (k (), b)) q (h p (padded old m), ?srv)) (with_proc (with_proc S' p (k (), b)) q (Ret (), ?srv))"
    using h[of "(k (), b)", unfolded calls_def, rule_format, of Ret ?srv] by simp
  moreover have "sys_step old (with_proc (with_proc S' p (k (), b)) q (Ret (), ?srv)) (with_proc S' p (k (), b))"
    using step_again[of old "with_proc S' p (k (), b)" q ?srv] with_proc_waiting[OF q(2,3)] by simp
  ultimately show "sys_steps old (with_proc S p (Sys_send q m (k ()), b)) (with_proc S' p (k (), b))"
    by (meson converse_rtranclp_into_rtranclp rtranclp.rtrancl_into_rtrancl)
qed

lemma server_answers:
  fixes S :: "'s system"
  assumes q: "waiting S q h" "waiting S' q h" "p \<noteq> q" and m: "length m \<le> SYSCALL_MSG_LEN" "length r \<le> SYSCALL_MSG_LEN"
    and h: "h p (padded old m) = bindp a (send p)" "\<And>c. calls old q a (with_proc S p c) r (with_proc S' p c)"
  shows "calls old p (bindp (send q m) (\<lambda>_. receive q)) S (q, padded old r) S'"
  unfolding calls_def bindp_send bindp.simps bindp_receive
proof (intro allI)
  fix k :: "i32 \<times> u8 list \<Rightarrow> ('s, unit) prog" and b
  let ?srv = "Sys_recv GPID_ALL h" and ?rcv = "Sys_recv q (\<lambda>sender m. k (sender, m))"
  have "sys_step old (with_proc S p (Sys_send q m ?rcv, b)) (with_proc (with_proc S p (?rcv, b)) q (h p (padded old m), ?srv))"
    by (rule step_message) (use q m in \<open>auto simp: waiting_def\<close>)
  also have "sys_steps old (with_proc (with_proc S p (?rcv, b)) q (h p (padded old m), ?srv)) (with_proc (with_proc S' p (?rcv, b)) q (send p r, ?srv))"
    using h(2)[of "(?rcv, b)", unfolded calls_def, rule_format, of "send p" ?srv] by (simp add: h(1))
  also have "sys_step old (with_proc (with_proc S' p (?rcv, b)) q (send p r, ?srv))
      (with_proc (with_proc (with_proc S' p (?rcv, b)) q (Ret (), ?srv)) p (k (q, padded old r), b))"
    unfolding send_def by (rule step_message) (use q m in auto)
  also have "with_proc (with_proc (with_proc S' p (?rcv, b)) q (Ret (), ?srv)) p (k (q, padded old r), b) =
      with_proc (with_proc S' p (k (q, padded old r), b)) q (Ret (), ?srv)"
    by (simp add: with_proc_commute[OF q(3)[symmetric]])
  also have "sys_step old (with_proc (with_proc S' p (k (q, padded old r), b)) q (Ret (), ?srv)) (with_proc S' p (k (q, padded old r), b))"
    using step_again[of old "with_proc S' p (k (q, padded old r), b)" q ?srv] with_proc_waiting[OF q(2,3)] by simp
  finally show "sys_steps old (with_proc S p (Sys_send q m ?rcv, b)) (with_proc S' p (k (q, padded old r), b))" .
qed

end
