(* ===== verification/Clib.thy ===== *)
theory Clib
  imports Cstring
begin

text \<open>
  More of the C library that the applications and the servers call: comparison of strings,
  copying, and the conversions between integers and decimal or hexadecimal text.
\<close>

section \<open>Strings\<close>

definition strcmp_eq :: "u8 list \<Rightarrow> u8 list \<Rightarrow> bool" where
  "strcmp_eq a b \<longleftrightarrow> cstr a = cstr b"

text \<open>\<open>!strncmp(a, b, n)\<close>: equal up to \<open>n\<close> bytes or the first NUL.\<close>

definition strncmp_eq :: "u8 list \<Rightarrow> u8 list \<Rightarrow> nat \<Rightarrow> bool" where
  "strncmp_eq a b n \<longleftrightarrow> take n (cstr a) = take n (cstr b)"

text \<open>\<open>strcpy(dst, src)\<close>; outside the array the write is undefined.\<close>

definition strcpy :: "u8 list \<Rightarrow> u8 list \<Rightarrow> u8 list res" where
  "strcpy dst src =
     (if strlen src < length dst then Inr (cstr src @ [0] @ drop (strlen src + 1) dst)
      else Inl (Undef ''strcpy''))"

definition strcat_res :: "u8 list \<Rightarrow> u8 list \<Rightarrow> u8 list res" where
  "strcat_res dst src = (case strcat dst src of None \<Rightarrow> Inl (Undef ''strcat'') | Some d \<Rightarrow> Inr d)"

lemma cstr_append: "0 \<notin> set s \<Longrightarrow> cstr (s @ t) = s @ cstr t"
  by (induction s) (auto simp: cstr_def)

lemma cstr_take_strlen: "take (strlen bs) bs = cstr bs"
  unfolding strlen_def cstr_def by (rule takeWhile_eq_take[symmetric])

lemma strlen_le: "strlen bs \<le> length bs"
  by (simp add: strlen_def cstr_def length_takeWhile_le)

lemma strcat_res_ok:
  assumes "cstr dst = s" "length s + strlen src < length dst"
  shows "\<exists>d. strcat_res dst src = Inr d \<and> cstr d = s @ cstr src \<and> length d = length dst"
proof -
  have l: "strlen dst = length s" using assms(1) by (simp add: strlen_def)
  have t: "take (length s) dst = s" using cstr_take_strlen[of dst] l assms(1) by simp
  have z: "0 \<notin> set s" "0 \<notin> set (cstr src)" using zero_notin_cstr assms(1) by blast+
  then show ?thesis
    using assms(2) cstr_pad[of "s @ cstr src"]
    assms(1) by (simp add: strcat_res_def strcat_def l t strlen_def Let_def)
qed

lemma strcpy_ok:
  "strlen src < length dst \<Longrightarrow> \<exists>d. strcpy dst src = Inr d \<and> cstr d = cstr src \<and> length d = length dst"
  using zero_notin_cstr[of src] by (simp add: strcpy_def strlen_def)

section \<open>Numbers\<close>

fun hex :: "nat \<Rightarrow> u8 list" where
  "hex n = (let d = n mod 16; c = of_nat (if d < 10 then 48 + d else 87 + d) in
     if n < 16 then [c] else hex (n div 16) @ [c])"

declare hex.simps [simp del]

text \<open>\<open>itoa\<close>: a minus sign only in base 10; in base 16 the bits of the number.\<close>

definition itoa :: "i32 \<Rightarrow> nat \<Rightarrow> u8 list" where
  "itoa v base =
     (if base = 10 then (if v <s 0 then 45 # dec (unat (- v)) else dec (unat v)) else hex (unat v))"

definition isspace :: "u8 \<Rightarrow> bool" where
  "isspace c \<longleftrightarrow> c = 32 \<or> 9 \<le> c \<and> c \<le> 13"

definition isdigit :: "u8 \<Rightarrow> bool" where
  "isdigit c \<longleftrightarrow> 48 \<le> c \<and> c \<le> 57"

definition dec_value :: "u8 list \<Rightarrow> nat" where
  "dec_value ds = foldl (\<lambda>n d. 10 * n + (unat d - 48)) 0 ds"

text \<open>\<open>atoi\<close>: blanks, a sign, and digits; a number outside the range of \<open>int\<close> is undefined.\<close>

definition atoi :: "u8 list \<Rightarrow> i32 res" where
  "atoi bs =
     (let s = dropWhile isspace bs; neg = (s \<noteq> [] \<and> hd s = 45);
          s = (if s \<noteq> [] \<and> (hd s = 45 \<or> hd s = 43) then tl s else s);
          n = dec_value (takeWhile isdigit s) in
      if (if neg then 2 ^ 31 < n else 2 ^ 31 \<le> n) then Inl (Undef ''atoi'')
      else Inr (if neg then - of_nat n else of_nat n))"

lemma unat_of_nat_u8: "m < 256 \<Longrightarrow> unat (of_nat m :: u8) = m"
  by (simp add: unat_of_nat take_bit_nat_eq_self)

lemma zero_notin_hex [simp]: "0 \<notin> set (hex n)"
proof (induction n rule: hex.induct)
  case (1 n)
  have d: "(of_nat m :: u8) \<noteq> 0" if "0 < m" "m < 256" for m
    using that unat_of_nat_u8[of m] by auto
  have "(0 :: u8) \<noteq> of_nat (if n mod 16 < 10 then 48 + n mod 16 else 87 + n mod 16)"
    by (rule not_sym, rule d) auto
  then show ?case using 1 by (subst hex.simps) (auto simp: Let_def simp del: of_nat_add)
qed

lemma zero_notin_itoa: "0 \<notin> set (itoa v base)"
  by (simp add: itoa_def)

lemma dec_value_dec: "dec_value (dec n) = n"
proof (induction n rule: dec.induct)
  case (1 n)
  have d: "unat (of_nat (48 + k) :: u8) - 48 = k" if "k < 10" for k
    using that unat_of_nat_u8[of "48 + k"] by simp
  show ?case
  proof (cases "n < 10")
    case True
    then show ?thesis using d[of n] by (subst dec.simps) (simp add: dec_value_def)
  next
    case False
    have "dec_value (dec n) = 10 * dec_value (dec (n div 10)) + (unat (of_nat (48 + n mod 10) :: u8) - 48)"
      using False by (subst dec.simps) (simp add: dec_value_def)
    then show ?thesis using 1 False d[of "n mod 10"] by simp
  qed
qed

lemma dec_not_Nil [simp]: "dec n \<noteq> []"
  by (subst dec.simps) simp

lemma takeWhile_dec: "r = [] \<or> \<not> isdigit (hd r) \<Longrightarrow> takeWhile isdigit (dec n @ r) = dec n"
proof -
  assume r: "r = [] \<or> \<not> isdigit (hd r)"
  have "\<forall>c \<in> set (dec n). isdigit c" using dec_digits[of n] by (auto simp: isdigit_def)
  then show ?thesis using r by (cases r) (simp_all add: takeWhile_append2)
qed

lemma hd_dec: "hd (dec n) \<in> {48..57}"
  using dec_digits[of n] hd_in_set[OF dec_not_Nil, of n] by blast

text \<open>The number that \<open>%d\<close> or \<open>itoa\<close> printed is the number that \<open>atoi\<close> reads, behind blanks and before any text.\<close>

lemma atoi_dec:
  assumes r: "r = [] \<or> \<not> isdigit (hd r)" and n: "n < 2 ^ 31"
  shows "atoi (replicate k 32 @ dec n @ r) = Inr (of_nat n)"
proof -
  obtain c cs where c: "dec n = c # cs" using dec_not_Nil[of n] by (cases "dec n") auto
  then have h: "48 \<le> c" "c \<le> 57" using hd_dec[of n] by simp_all
  then have ns: "\<not> isspace c" "c \<noteq> 45" "c \<noteq> 43" by (auto simp: isspace_def word_le_nat_alt)
  have sp: "isspace 32" by (simp add: isspace_def)
  have "dropWhile isspace (replicate k 32 @ dec n @ r) = dec n @ r"
    using ns(1) sp by (induction k) (simp_all add: c)
  then show ?thesis using takeWhile_dec[OF r, of n] ns c dec_value_dec[of n] n
    by (simp add: atoi_def Let_def)
qed

end
