(* ===== verification/Print.thy ===== *)
theory Print
  imports Clib
begin

text \<open>
  library/libc/print.c: formatted printing. An argument of a variadic call is a string or an
  int; reading one that is missing or of the other kind is undefined. A buffer is the list of
  its bytes, and a write behind its end is undefined.
\<close>

section \<open>Formatting\<close>

datatype va = VStr "u8 list" | VInt i32

text \<open>The loop over the format, from its current position up to its NUL.\<close>

fun format_loop :: "u8 list \<Rightarrow> u8 list \<Rightarrow> va list \<Rightarrow> u8 list res" where
  "format_loop out [] args = Inr out"
| "format_loop out (c # fmt) args =
     (if c \<noteq> 37 then bindr (strcat_res out [c]) (\<lambda>out. format_loop out fmt args)
      else case fmt of
        [] \<Rightarrow> Inl (Undef ''format'')
      | d # fmt \<Rightarrow>
          if d = 115 then
            (case args of VStr s # args \<Rightarrow> bindr (strcat_res out s) (\<lambda>out. format_loop out fmt args)
             | _ \<Rightarrow> Inl (Undef ''va_arg''))
          else if d = 100 then
            (case args of VInt v # args \<Rightarrow> bindr (strcat_res out (itoa v 10)) (\<lambda>out. format_loop out fmt args)
             | _ \<Rightarrow> Inl (Undef ''va_arg''))
          else if d = 120 then
            (case args of VInt v # args \<Rightarrow> bindr (strcat_res out (itoa v 16)) (\<lambda>out. format_loop out fmt args)
             | _ \<Rightarrow> Inl (Undef ''va_arg''))
          else format_loop out fmt args)"

definition format_to_str :: "u8 list \<Rightarrow> u8 list \<Rightarrow> va list \<Rightarrow> u8 list res" where
  "format_to_str out fmt args = format_loop (out[0 := 0]) fmt args"

section \<open>Printing\<close>

definition log_buf :: "u8 list" where
  "log_buf = replicate 512 0"

text \<open>The macro \<open>LOG\<close>: the bytes that are given to \<open>term_write\<close>.\<close>

definition LOG :: "u8 list \<Rightarrow> u8 list \<Rightarrow> u8 list \<Rightarrow> va list \<Rightarrow> u8 list res" where
  "LOG prefix suffix fmt args =
     bindr (strcpy log_buf prefix) (\<lambda>buf.
     bindr (format_to_str (drop (length prefix) buf) fmt args) (\<lambda>out.
     bindr (strcat_res (take (length prefix) buf @ out) suffix) (\<lambda>buf.
     Inr (cstr buf))))"

definition my_printf :: "u8 list \<Rightarrow> va list \<Rightarrow> u8 list res" where
  "my_printf = LOG [] []"

definition INFO :: "u8 list \<Rightarrow> va list \<Rightarrow> u8 list res" where
  "INFO = LOG (str ''[INFO] '') [10, 13]"

definition FATAL_text :: "u8 list \<Rightarrow> va list \<Rightarrow> u8 list res" where
  "FATAL_text = LOG (27 # str ''[1;31m[FATAL] '') (27 # str ''[1;0m'' @ [10, 13])"

definition SUCCESS :: "u8 list \<Rightarrow> va list \<Rightarrow> u8 list res" where
  "SUCCESS = LOG (27 # str ''[1;32m[SUCCESS] '') (27 # str ''[1;0m'' @ [10, 13])"

definition CRITICAL :: "u8 list \<Rightarrow> va list \<Rightarrow> u8 list res" where
  "CRITICAL = LOG (27 # str ''[1;33m[CRITICAL] '') (27 # str ''[1;0m'' @ [10, 13])"

section \<open>Formats as types\<close>

text \<open>
  A format is a sequence of characters and directives; a percent sign at the end is neither. Its
  type is the list of the arguments that it reads. A directive other than \<open>%s\<close>, \<open>%d\<close> and \<open>%x\<close>
  prints nothing and reads no argument.
\<close>

datatype item = Lit u8 | Dir u8

fun items :: "u8 list \<Rightarrow> item list option" where
  "items [] = Some []"
| "items [c] = (if c = 37 then None else Some [Lit c])"
| "items (c # d # fmt) =
     (if c = 37 then map_option ((#) (Dir d)) (items fmt) else map_option ((#) (Lit c)) (items (d # fmt)))"

datatype va_type = TStr | TInt

fun va_type_of :: "va \<Rightarrow> va_type" where
  "va_type_of (VStr _) = TStr"
| "va_type_of (VInt _) = TInt"

fun item_type :: "item \<Rightarrow> va_type list" where
  "item_type (Lit c) = []"
| "item_type (Dir d) = (if d = 115 then [TStr] else if d = 100 \<or> d = 120 then [TInt] else [])"

definition fmt_type :: "u8 list \<Rightarrow> va_type list option" where
  "fmt_type fmt = map_option (\<lambda>its. concat (map item_type its)) (items fmt)"

text \<open>The text an item stands for, given the arguments it reads.\<close>

fun item_text :: "item \<Rightarrow> va list \<Rightarrow> u8 list" where
  "item_text (Lit c) args = [c]"
| "item_text (Dir d) (VStr s # args) = cstr s"
| "item_text (Dir d) (VInt v # args) = itoa v (if d = 100 then 10 else 16)"
| "item_text (Dir d) [] = []"

fun items_text :: "item list \<Rightarrow> va list \<Rightarrow> u8 list" where
  "items_text [] args = []"
| "items_text (i # is) args =
     (let n = length (item_type i) in item_text i (take n args) @ items_text is (drop n args))"

definition render :: "u8 list \<Rightarrow> va list \<Rightarrow> u8 list" where
  "render fmt args = items_text (the (items fmt)) args"

text \<open>One item of a well-typed format.\<close>

lemma format_loop_item:
  assumes "map va_type_of args = item_type i @ ts" "n = length (item_type i)" "i \<noteq> Lit 0" "i \<noteq> Lit 37"
    and "cstr out = s" "length s + length (item_text i (take n args)) < length out"
  shows "\<exists>o1. cstr o1 = s @ item_text i (take n args) \<and> length o1 = length out \<and> map va_type_of (drop n args) = ts \<and>
    format_loop out (case i of Lit c \<Rightarrow> c # fmt | Dir d \<Rightarrow> 37 # d # fmt) args = format_loop o1 fmt (drop n args)"
proof (cases i)
  case (Lit c)
  then show ?thesis using assms strcat_res_ok[of out s "[c]"] by (auto simp: strlen_def cstr_def)
next
  case (Dir d)
  consider "d = 115" | "d = 100 \<or> d = 120" | "d \<noteq> 115" "d \<noteq> 100" "d \<noteq> 120" by blast
  then show ?thesis
  proof cases
    case 1
    then obtain t as where a: "args = VStr t # as" "map va_type_of as = ts"
      using assms(1) Dir by (cases args; cases "hd args") auto
    then show ?thesis using 1 Dir assms(2,5,6) strcat_res_ok[of out s t] by (auto simp: strlen_def)
  next
    case 2
    then obtain v as where a: "args = VInt v # as" "map va_type_of as = ts"
      using assms(1) Dir by (cases args; cases "hd args") auto
    let ?t = "itoa v (if d = 100 then 10 else 16)"
    have t: "cstr ?t = ?t" using zero_notin_itoa by (rule cstr_id)
    have n: "n = 1" "item_text i (take n args) = ?t" using 2 Dir a assms(2) by auto
    then obtain o1 where o1: "strcat_res out ?t = Inr o1" "cstr o1 = s @ ?t" "length o1 = length out"
      using strcat_res_ok[OF assms(5), of ?t] assms(6) t by (auto simp: strlen_def)
    have "format_loop out (37 # d # fmt) args = format_loop o1 fmt as" using 2 a(1) o1(1) by auto
    then show ?thesis using o1(2,3) a Dir n by (intro exI[of _ o1]) simp
  next
    case 3
    then show ?thesis using Dir assms by (intro exI[of _ out]) auto
  qed
qed

lemma items_Some:
  assumes "items fmt = Some its"
  shows "fmt = concat (map (\<lambda>i. case i of Lit c \<Rightarrow> [c] | Dir d \<Rightarrow> [37, d]) its)" "Lit 37 \<notin> set its"
  using assms by (induction fmt arbitrary: its rule: items.induct) (auto split: if_splits)

lemma format_loop_typed:
  assumes "map va_type_of args = concat (map item_type its) @ more" "Lit 0 \<notin> set its" "Lit 37 \<notin> set its" "cstr out = s"
    and "length s + length (items_text its args) < length out"
  shows "\<exists>o1. format_loop out (concat (map (\<lambda>i. case i of Lit c \<Rightarrow> [c] | Dir d \<Rightarrow> [37, d]) its)) args = Inr o1 \<and>
    cstr o1 = s @ items_text its args \<and> length o1 = length out"
  using assms
proof (induction its arbitrary: args out s)
  case (Cons i its)
  let ?n = "length (item_type i)" and ?fmt = "concat (map (\<lambda>i. case i of Lit c \<Rightarrow> [c] | Dir d \<Rightarrow> [37, d]) its)"
  obtain o1 where o1: "cstr o1 = s @ item_text i (take ?n args)" "length o1 = length out"
    "map va_type_of (drop ?n args) = concat (map item_type its) @ more"
    "format_loop out (case i of Lit c \<Rightarrow> c # ?fmt | Dir d \<Rightarrow> 37 # d # ?fmt) args = format_loop o1 ?fmt (drop ?n args)"
    using format_loop_item[of args i "concat (map item_type its) @ more" ?n out s ?fmt] Cons.prems by (auto simp: Let_def)
  have "(case i of Lit c \<Rightarrow> [c] | Dir d \<Rightarrow> [37, d]) @ ?fmt = (case i of Lit c \<Rightarrow> c # ?fmt | Dir d \<Rightarrow> 37 # d # ?fmt)"
    by (cases i) simp_all
  then show ?case
    using Cons.IH[OF o1(3) _ _ o1(1)] Cons.prems(2,3,5) o1(2,4) by (simp add: Let_def)
qed simp


lemma LOG_typed:
  assumes "fmt_type fmt = Some ts" "map va_type_of args = ts @ more" "0 \<notin> set fmt" "0 \<notin> set prefix" "0 \<notin> set suffix"
    and "length prefix + length (render fmt args) + length suffix < 512"
  shows "LOG prefix suffix fmt args = Inr (prefix @ render fmt args @ suffix)"
proof -
  obtain its where its: "items fmt = Some its" "map va_type_of args = concat (map item_type its) @ more"
    using assms(1,2) by (auto simp: fmt_type_def)
  note it = items_Some[OF its(1)]
  have r: "render fmt args = items_text its args" by (simp add: render_def its)
  have z: "Lit 0 \<notin> set its" using it(1) assms(3) by (force simp: image_iff)
  let ?rest = "drop (Suc (length prefix)) log_buf"
  have c: "strcpy log_buf prefix = Inr (prefix @ 0 # ?rest)"
    using assms(4,6) by (simp add: strcpy_def strlen_def log_buf_def)
  have l: "length (items_text its args) < length (0 # ?rest)" using assms(6) by (simp add: r log_buf_def)
  obtain out where o: "format_loop (0 # ?rest) fmt args = Inr out" "cstr out = render fmt args" "length out = Suc (length ?rest)"
    using format_loop_typed[OF its(2) z it(2), of "0 # ?rest" "[]"] l
    unfolding it(1)[symmetric] by (auto simp: r cstr_def)
  have p: "cstr (prefix @ out) = prefix @ render fmt args" using o(2) assms(4) by (simp add: cstr_append)
  have "length (prefix @ render fmt args) + strlen suffix < length (prefix @ out)"
    using assms(5,6) o(3) by (simp add: strlen_def log_buf_def)
  with strcat_res_ok[OF p this] c o(1) assms(5) show ?thesis
    by (auto simp: LOG_def format_to_str_def)
qed

text \<open>C35: A call of one of the printing functions whose arguments are the ones its format asks for
  does not go wrong: if the text fits into the 512 bytes of the buffer, exactly that text is
  written to the terminal, with its prefix and suffix.\<close>

theorem printf_well_typed:
  assumes "fmt_type fmt = Some (map va_type_of args)" "0 \<notin> set fmt" "0 \<notin> set prefix" "0 \<notin> set suffix"
    and "length prefix + length (render fmt args) + length suffix < 512"
  shows "LOG prefix suffix fmt args = Inr (prefix @ render fmt args @ suffix)"
  using LOG_typed[of fmt "map va_type_of args" args "[]" prefix suffix] assms by simp

theorem printf_well_typed_witness:
  "LOG (str ''[INFO] '') [10, 13] (str ''%s-%d'') [VStr (str ''egos''), VInt 2000] = Inr (str ''[INFO] egos-2000'' @ [10, 13])"
proof -
  have "items (str ''%s-%d'') = Some [Dir 115, Lit 45, Dir 100]" by (simp add: str_def)
  moreover have "itoa 2000 10 = [50, 48, 48, 48]" by (simp add: itoa_def dec.simps word_sless_alt)
  ultimately show ?thesis
    using printf_well_typed[of "str ''%s-%d''" "[VStr (str ''egos''), VInt 2000]" "str ''[INFO] ''" "[10, 13]"]
    by (simp add: fmt_type_def render_def str_def cstr_def)
qed

lemma length_dec: "n < 10 ^ Suc k \<Longrightarrow> length (dec n) \<le> Suc k"
proof (induction k arbitrary: n)
  case (Suc k)
  then have "n div 10 < 10 ^ Suc k" by (simp add: less_mult_imp_div_less mult.commute)
  then show ?case using Suc.IH[of "n div 10"] by (subst dec.simps) simp
qed (simp add: dec.simps)

lemma length_itoa: "length (itoa v 10) \<le> 11"
proof -
  have "length (dec (unat w)) \<le> Suc 9" for w :: i32
  proof (rule length_dec)
    have "unat w < 2 ^ LENGTH(32)" by (rule unsigned_less)
    then show "unat w < 10 ^ Suc 9" by simp
  qed
  from this[of v] this[of "- v"] show ?thesis by (simp add: itoa_def)
qed

section \<open>Texts that do not fit\<close>

text \<open>The buffer has no room for the text of the next item: the write behind its end is undefined.\<close>

lemma strcat_res_overflow: "length out \<le> strlen out + strlen s \<Longrightarrow> strcat_res out s = Inl (Undef ''strcat'')"
  by (simp add: strcat_res_def strcat_def Let_def strlen_def)

lemma format_loop_item_overflow:
  assumes "map va_type_of args = item_type i @ ts" "n = length (item_type i)" "i \<noteq> Lit 0" "i \<noteq> Lit 37"
    and "cstr out = s" "length s < length out" "length out \<le> length s + length (item_text i (take n args))"
  shows "format_loop out (case i of Lit c \<Rightarrow> c # fmt | Dir d \<Rightarrow> 37 # d # fmt) args = Inl (Undef ''strcat'')"
proof (cases i)
  case (Lit c)
  have "strlen [c] = 1" using Lit assms(3) by (simp add: strlen_def cstr_def)
  then show ?thesis using Lit assms strcat_res_overflow[of out "[c]"] by (simp add: strlen_def)
next
  case (Dir d)
  consider "d = 115" | "d = 100 \<or> d = 120" | "d \<noteq> 115" "d \<noteq> 100" "d \<noteq> 120" by blast
  then show ?thesis
  proof cases
    case 1
    then obtain t as where a: "args = VStr t # as" using assms(1) Dir by (cases args; cases "hd args") auto
    then show ?thesis using 1 Dir assms(2,5,7) strcat_res_overflow[of out t] by (simp add: strlen_def)
  next
    case 2
    then obtain v as where a: "args = VInt v # as" using assms(1) Dir by (cases args; cases "hd args") auto
    let ?t = "itoa v (if d = 100 then 10 else 16)"
    have "cstr ?t = ?t" using zero_notin_itoa by (rule cstr_id)
    then have "strcat_res out ?t = Inl (Undef ''strcat'')"
      using 2 a Dir assms(2,5,7) by (intro strcat_res_overflow) (auto simp: strlen_def)
    then show ?thesis using 2 a Dir by auto
  next
    case 3
    then show ?thesis using Dir assms(2,6,7) by simp
  qed
qed

lemma format_loop_overflow:
  assumes "map va_type_of args = concat (map item_type its)" "Lit 0 \<notin> set its" "Lit 37 \<notin> set its" "cstr out = s"
    and "length s < length out" "length out \<le> length s + length (items_text its args)"
  shows "format_loop out (concat (map (\<lambda>i. case i of Lit c \<Rightarrow> [c] | Dir d \<Rightarrow> [37, d]) its)) args = Inl (Undef ''strcat'')"
  using assms
proof (induction its arbitrary: args out s)
  case (Cons i its)
  let ?n = "length (item_type i)" and ?fmt = "concat (map (\<lambda>i. case i of Lit c \<Rightarrow> [c] | Dir d \<Rightarrow> [37, d]) its)"
  let ?t = "item_text i (take ?n args)"
  have c: "(case i of Lit c \<Rightarrow> [c] | Dir d \<Rightarrow> [37, d]) @ ?fmt = (case i of Lit c \<Rightarrow> c # ?fmt | Dir d \<Rightarrow> 37 # d # ?fmt)"
    by (cases i) simp_all
  have ty: "map va_type_of args = item_type i @ concat (map item_type its)" and lit: "i \<noteq> Lit 0" "i \<noteq> Lit 37"
    using Cons.prems(1-3) by auto
  show ?case
  proof (cases "length s + length ?t < length out")
    case True
    obtain o1 where o1: "cstr o1 = s @ ?t" "length o1 = length out" "map va_type_of (drop ?n args) = concat (map item_type its)"
      "format_loop out (case i of Lit c \<Rightarrow> c # ?fmt | Dir d \<Rightarrow> 37 # d # ?fmt) args = format_loop o1 ?fmt (drop ?n args)"
      using format_loop_item[OF ty refl lit Cons.prems(4) True, of ?fmt] by blast
    have "format_loop o1 ?fmt (drop ?n args) = Inl (Undef ''strcat'')"
      by (rule Cons.IH[OF o1(3) _ _ o1(1)]) (use Cons.prems True o1(2) in \<open>simp_all add: Let_def\<close>)
    then show ?thesis using c o1(4) by simp
  next
    case False
    then have "format_loop out (case i of Lit c \<Rightarrow> c # ?fmt | Dir d \<Rightarrow> 37 # d # ?fmt) args = Inl (Undef ''strcat'')"
      using format_loop_item_overflow[OF ty refl lit Cons.prems(4,5), of ?fmt] by simp
    then show ?thesis using c by simp
  qed
qed simp

text \<open>C36: The printing functions do not check that their text fits. A call whose arguments are the ones its
  format asks for, but whose text with prefix and suffix has 512 or more characters, writes behind the
  512 bytes of the buffer on the stack, whichever part of the text is the one that is too long.\<close>

theorem printf_overruns_buffer:
  assumes "fmt_type fmt = Some (map va_type_of args)" "0 \<notin> set fmt" "0 \<notin> set prefix" "0 \<notin> set suffix"
    and "512 \<le> length prefix + length (render fmt args) + length suffix"
  shows "\<exists>what. LOG prefix suffix fmt args = Inl (Undef what)"
proof -
  obtain its where its: "items fmt = Some its" "map va_type_of args = concat (map item_type its)"
    using assms(1) by (auto simp: fmt_type_def)
  note it = items_Some[OF its(1)]
  have r: "render fmt args = items_text its args" by (simp add: render_def its)
  have z: "Lit 0 \<notin> set its" using it(1) assms(2) by (force simp: image_iff)
  let ?rest = "drop (Suc (length prefix)) log_buf"
  consider (prefix) "512 \<le> length prefix" | (body) "length prefix < 512" "512 \<le> length prefix + length (render fmt args)"
    | (suffix) "length prefix + length (render fmt args) < 512" by linarith
  then show ?thesis
  proof cases
    case prefix
    then show ?thesis using assms(3) by (simp add: LOG_def strcpy_def strlen_def log_buf_def)
  next
    case body
    have c: "strcpy log_buf prefix = Inr (prefix @ 0 # ?rest)" using assms(3) body(1) by (simp add: strcpy_def strlen_def log_buf_def)
    have l: "length (0 # ?rest) \<le> length (items_text its args)" using body by (simp add: r log_buf_def)
    have "format_loop (0 # ?rest) fmt args = Inl (Undef ''strcat'')"
      using format_loop_overflow[OF its(2) z it(2), of "0 # ?rest" "[]"] l unfolding it(1)[symmetric] by (simp add: cstr_def)
    then show ?thesis using c by (simp add: LOG_def format_to_str_def)
  next
    case suffix
    have c: "strcpy log_buf prefix = Inr (prefix @ 0 # ?rest)" using assms(3) suffix by (simp add: strcpy_def strlen_def log_buf_def)
    have l: "length (items_text its args) < length (0 # ?rest)" using suffix by (simp add: r log_buf_def)
    obtain out where o: "format_loop (0 # ?rest) fmt args = Inr out" "cstr out = render fmt args" "length out = Suc (length ?rest)"
      using format_loop_typed[of args its "[]" "0 # ?rest" "[]"] its(2) z it(2) l unfolding it(1)[symmetric] by (auto simp: r cstr_def)
    have "cstr (prefix @ out) = prefix @ render fmt args" using o(2) assms(3) by (simp add: cstr_append)
    then have "strcat_res (prefix @ out) suffix = Inl (Undef ''strcat'')"
      using assms(4,5) suffix o(3) by (intro strcat_res_overflow) (simp add: strlen_def log_buf_def)
    then show ?thesis using c o(1) by (simp add: LOG_def format_to_str_def)
  qed
qed

text \<open>The program ls in a directory whose text has 510 characters: the line end does not fit any more.\<close>

theorem printf_overruns_buffer_witness:
  "\<exists>what. LOG [] [] (str ''%s'' @ [10, 13]) [VStr (replicate 510 65)] = Inl (Undef what)"
proof -
  have "items (str ''%s'' @ [10, 13]) = Some [Dir 115, Lit 10, Lit 13]" by (simp add: str_def)
  moreover have "cstr (replicate 510 65) = replicate 510 65" by (rule cstr_id) simp
  ultimately show ?thesis
    using printf_overruns_buffer[of "str ''%s'' @ [10, 13]" "[VStr (replicate 510 65)]" "[]" "[]"]
    by (simp add: fmt_type_def render_def) (simp add: str_def)
qed

section \<open>Directives that are not known\<close>

lemma items_append:
  assumes "items f = Some is" "items g = Some js"
  shows "items (f @ g) = Some (is @ js)"
  using assms
proof (induction f arbitrary: "is" rule: items.induct)
  case (2 c)
  then show ?case by (cases g) (auto split: if_splits)
qed (auto split: if_splits)

lemma items_text_append:
  "map va_type_of as = concat (map item_type is) \<Longrightarrow> items_text (is @ js) (as @ bs) = items_text is as @ items_text js bs"
proof (induction "is" arbitrary: as)
  case (Cons i "is")
  let ?n = "length (item_type i)"
  have n: "?n \<le> length as" using arg_cong[OF Cons.prems, of length] by simp
  have "map va_type_of (drop ?n as) = concat (map item_type is)" using Cons.prems by (simp add: drop_map[symmetric])
  then show ?case using Cons.IH[of "drop ?n as"] n by (simp add: Let_def)
qed simp

text \<open>C37: A directive other than %s, %d and %x, for instance the %u of the messages of treedisk, prints nothing
  and leaves its argument where it is: the next directive that is known takes it. For any format in which
  such a directive stands behind a part \<open>f\<close> and before a part \<open>g\<close>, the arguments of \<open>f\<close> are printed in their
  places, and \<open>g\<close> is printed with the argument \<open>x\<close> that was meant for the unknown directive as its first,
  and each of its own arguments one directive too late.\<close>

theorem unknown_directive_shifts_arguments:
  assumes "fmt_type f = Some (map va_type_of as)" "fmt_type g = Some ts" "map va_type_of (x # bs) = ts @ more"
    and "d \<notin> {115, 100, 120}" "0 \<notin> set (f @ 37 # d # g)" "0 \<notin> set prefix" "0 \<notin> set suffix"
    and "length prefix + length (render f as) + length (render g (x # bs)) + length suffix < 512"
  shows "LOG prefix suffix (f @ 37 # d # g) (as @ x # bs) = Inr (prefix @ render f as @ render g (x # bs) @ suffix)"
proof -
  obtain fs gs where it: "items f = Some fs" "items g = Some gs" "map va_type_of as = concat (map item_type fs)" "ts = concat (map item_type gs)"
    using assms(1,2) by (auto simp: fmt_type_def)
  have i: "items (f @ 37 # d # g) = Some (fs @ Dir d # gs)" using items_append[OF it(1)] it(2) by simp
  have r: "render (f @ 37 # d # g) (as @ x # bs) = render f as @ render g (x # bs)"
    using items_text_append[OF it(3), of "Dir d # gs" "x # bs"] assms(4) by (simp add: render_def i it)
  have t: "fmt_type (f @ 37 # d # g) = Some (concat (map item_type fs) @ ts)" using assms(4) by (simp add: fmt_type_def i it(4))
  show ?thesis
    using LOG_typed[OF t, of "as @ x # bs" more prefix suffix] assms(3,5-8) it(3) by (simp add: r)
qed

text \<open>The progress message \<open>"%u of %d"\<close> for block 3 of 7 prints \<open>" of 3"\<close>.\<close>

theorem unknown_directive_shifts_arguments_witness:
  "LOG [] [] (str ''block '' @ 37 # 117 # str '' of %d'') [VInt 3, VInt 7] = Inr (str ''block  of 3'')"
proof -
  have "items (str ''block '') = Some (map Lit (str ''block ''))" "items (str '' of %d'') = Some [Lit 32, Lit 111, Lit 102, Lit 32, Dir 100]"
    by (simp_all add: str_def)
  moreover have "itoa 3 10 = [51]" by (simp add: itoa_def dec.simps word_sless_alt)
  ultimately show ?thesis
    using unknown_directive_shifts_arguments[of "str ''block ''" "[]" "str '' of %d''" "[TInt]" "VInt 3" "[VInt 7]" "[TInt]" 117 "[]" "[]"]
    by (simp add: fmt_type_def render_def str_def)
qed

end
