(* ===== verification/Tty.thy ===== *)
theory Tty
  imports Machine
begin

text \<open>
  earth/dev_tty.c: the serial line. A device register is read and written through the record
  \<open>mmio\<close>, which stands for the hardware: a read returns the value of the register and may change
  the device. The other components use the line through the two functions of \<open>struct earth\<close>.
\<close>

section \<open>Device registers\<close>

record 'u mmio =
  mmio_read :: "u32 \<Rightarrow> 'u \<Rightarrow> u32 \<times> 'u"
  mmio_write :: "u32 \<Rightarrow> u32 \<Rightarrow> 'u \<Rightarrow> 'u"

text \<open>\<open>while (again(REGW(base, offset)));\<close> and the last value that was read; \<open>None\<close> when it never ends.\<close>

partial_function (option) poll :: "('u \<Rightarrow> u32 \<times> 'u) \<Rightarrow> (u32 \<Rightarrow> bool) \<Rightarrow> 'u \<Rightarrow> (u32 \<times> 'u) option" where
  "poll rd again u = (let (v, u') = rd u in if again v then poll rd again u' else Some (v, u'))"

definition REGW_poll :: "'u mmio \<Rightarrow> u32 \<Rightarrow> (u32 \<Rightarrow> bool) \<Rightarrow> 'u \<Rightarrow> (u32 \<times> 'u) res" where
  "REGW_poll hw addr again u =
     (case poll (mmio_read hw addr) again u of None \<Rightarrow> Inl Diverge | Some r \<Rightarrow> Inr r)"

text \<open>A loop ends when every further round brings the device closer to ready.\<close>

lemma poll_returns:
  assumes "P u" "\<And>u v u'. P u \<Longrightarrow> rd u = (v, u') \<Longrightarrow> again v \<Longrightarrow> P u' \<and> busy u' < (busy u :: nat)"
    and "\<And>u v u'. P u \<Longrightarrow> rd u = (v, u') \<Longrightarrow> \<not> again v \<Longrightarrow> Q v u'"
  shows "\<exists>v u'. poll rd again u = Some (v, u') \<and> Q v u'"
  using assms(1)
proof (induction "busy u" arbitrary: u rule: less_induct)
  case less
  obtain v u' where r: "rd u = (v, u')" by (cases "rd u") auto
  show ?case
  proof (cases "again v")
    case True
    then show ?thesis
      using less(1)[of u'] assms(2)[OF less(2) r True] r by (subst poll.simps) simp
  next
    case False
    then show ?thesis using assms(3)[OF less(2) r False] r by (subst poll.simps) simp
  qed
qed

section \<open>The UART driver\<close>

abbreviation LITEX_UART_TXFULL :: u32 where "LITEX_UART_TXFULL \<equiv> 4"
abbreviation LITEX_UART_RXEMPTY :: u32 where "LITEX_UART_RXEMPTY \<equiv> 8"
abbreviation LITEX_UART_EVPEND :: u32 where "LITEX_UART_EVPEND \<equiv> 16"
abbreviation SIFIVE_UART_TXDATA :: u32 where "SIFIVE_UART_TXDATA \<equiv> 0"
abbreviation SIFIVE_UART_RXDATA :: u32 where "SIFIVE_UART_RXDATA \<equiv> 4"
abbreviation SIFIVE_UART_IP :: u32 where "SIFIVE_UART_IP \<equiv> 20"

definition uart_rx_empty :: "platform \<Rightarrow> 'u mmio \<Rightarrow> 'u \<Rightarrow> u32 \<times> 'u" where
  "uart_rx_empty plat hw u =
     (if plat = ARTY then mmio_read hw (UART_BASE plat + LITEX_UART_RXEMPTY) u
      else let (v, u) = mmio_read hw (UART_BASE plat + SIFIVE_UART_IP) u in (of_bool (v AND 2 = 0), u))"

definition uart_getc :: "platform \<Rightarrow> 'u mmio \<Rightarrow> 'u \<Rightarrow> (u8 \<times> 'u) res" where
  "uart_getc plat hw u =
     (if plat = ARTY then
        bindr (REGW_poll hw (UART_BASE plat + LITEX_UART_RXEMPTY) (\<lambda>v. v \<noteq> 0) u) (\<lambda>(_, u).
        let (v, u) = mmio_read hw (UART_BASE plat) u in
        Inr (ucast (v AND 0xFF), mmio_write hw (UART_BASE plat + LITEX_UART_EVPEND) 2 u))
      else
        bindr (REGW_poll hw (UART_BASE plat + SIFIVE_UART_RXDATA) (\<lambda>v. v AND push_bit 31 1 \<noteq> 0) u) (\<lambda>(ch, u).
        Inr (ucast (ch AND 0xFF), u)))"

definition uart_putc :: "platform \<Rightarrow> 'u mmio \<Rightarrow> u8 \<Rightarrow> 'u \<Rightarrow> 'u res" where
  "uart_putc plat hw c u =
     (if plat = ARTY then
        bindr (REGW_poll hw (UART_BASE plat + LITEX_UART_TXFULL) (\<lambda>v. v \<noteq> 0) u) (\<lambda>(_, u).
        Inr (mmio_write hw (UART_BASE plat + LITEX_UART_EVPEND) 1 (mmio_write hw (UART_BASE plat) (ucast c) u)))
      else
        bindr (REGW_poll hw (UART_BASE plat + SIFIVE_UART_TXDATA) (\<lambda>v. v AND push_bit 31 1 \<noteq> 0) u) (\<lambda>(_, u).
        Inr (mmio_write hw (UART_BASE plat + SIFIVE_UART_TXDATA) (ucast c) u)))"

text \<open>The functions that \<open>tty_init\<close> puts into \<open>struct earth\<close>.\<close>

record 't tty =
  tty_read_op :: "'t \<Rightarrow> (u8 \<times> 't) res"
  tty_write_op :: "u8 \<Rightarrow> 't \<Rightarrow> 't res"
  tty_input_empty_op :: "'t \<Rightarrow> u32 \<times> 't"

definition tty_init :: "platform \<Rightarrow> 'u mmio \<Rightarrow> 'u tty" where
  "tty_init plat hw =
     \<lparr>tty_read_op = uart_getc plat hw, tty_write_op = uart_putc plat hw, tty_input_empty_op = uart_rx_empty plat hw\<rparr>"

section \<open>What a serial line promises\<close>

text \<open>
  \<open>coming u\<close> are the characters that will be read, \<open>written u\<close> those that were written. Reading
  takes the next character, writing appends one, and neither disturbs the other direction.
\<close>

locale tty_device =
  fixes dev :: "'t tty" and coming :: "'t \<Rightarrow> u8 list" and written :: "'t \<Rightarrow> u8 list"
  assumes read_input: "coming u = c # cs \<Longrightarrow>
      \<exists>u'. tty_read_op dev u = Inr (c, u') \<and> coming u' = cs \<and> written u' = written u"
    and write_output: "\<exists>u'. tty_write_op dev c u = Inr u' \<and> coming u' = coming u \<and> written u' = written u @ [c]"

section \<open>The two UARTs\<close>

text \<open>
  What the driver relies on, from the descriptions of the two UARTs. \<open>rx\<close> are the characters that
  arrive, \<open>tx\<close> those that were sent, and \<open>busy\<close> bounds how often a flag can still be read
  before it changes. The LiteX UART shows the oldest character until its event is acknowledged;
  reading the SiFive UART takes the character out.
\<close>

definition litex_uart :: "'u mmio \<Rightarrow> ('u \<Rightarrow> u8 list) \<Rightarrow> ('u \<Rightarrow> u8 list) \<Rightarrow> ('u \<Rightarrow> nat) \<Rightarrow> bool" where
  "litex_uart hw rx tx busy \<longleftrightarrow>
     (\<forall>u v u'. rx u \<noteq> [] \<longrightarrow> mmio_read hw 0xF0001008 u = (v, u') \<longrightarrow>
        rx u' = rx u \<and> tx u' = tx u \<and> (v \<noteq> 0 \<longrightarrow> busy u' < busy u)) \<and>
     (\<forall>u v u'. rx u \<noteq> [] \<longrightarrow> mmio_read hw 0xF0001000 u = (v, u') \<longrightarrow>
        v AND 0xFF = ucast (hd (rx u)) \<and> rx u' = rx u \<and> tx u' = tx u) \<and>
     (\<forall>u. rx (mmio_write hw 0xF0001010 2 u) = tl (rx u) \<and> tx (mmio_write hw 0xF0001010 2 u) = tx u) \<and>
     (\<forall>u v u'. mmio_read hw 0xF0001004 u = (v, u') \<longrightarrow>
        rx u' = rx u \<and> tx u' = tx u \<and> (v \<noteq> 0 \<longrightarrow> busy u' < busy u)) \<and>
     (\<forall>u c. rx (mmio_write hw 0xF0001000 (ucast c) u) = rx u \<and> tx (mmio_write hw 0xF0001000 (ucast c) u) = tx u @ [c]) \<and>
     (\<forall>u. rx (mmio_write hw 0xF0001010 1 u) = rx u \<and> tx (mmio_write hw 0xF0001010 1 u) = tx u)"

definition sifive_uart :: "'u mmio \<Rightarrow> ('u \<Rightarrow> u8 list) \<Rightarrow> ('u \<Rightarrow> u8 list) \<Rightarrow> ('u \<Rightarrow> nat) \<Rightarrow> bool" where
  "sifive_uart hw rx tx busy \<longleftrightarrow>
     (\<forall>u v u'. rx u \<noteq> [] \<longrightarrow> mmio_read hw 0x10010004 u = (v, u') \<longrightarrow>
        tx u' = tx u \<and>
        (if v AND push_bit 31 1 \<noteq> 0 then rx u' = rx u \<and> busy u' < busy u
         else v AND 0xFF = ucast (hd (rx u)) \<and> rx u' = tl (rx u))) \<and>
     (\<forall>u v u'. mmio_read hw 0x10010000 u = (v, u') \<longrightarrow>
        rx u' = rx u \<and> tx u' = tx u \<and> (v AND push_bit 31 1 \<noteq> 0 \<longrightarrow> busy u' < busy u)) \<and>
     (\<forall>u c. rx (mmio_write hw 0x10010000 (ucast c) u) = rx u \<and> tx (mmio_write hw 0x10010000 (ucast c) u) = tx u @ [c])"

definition uart :: "platform \<Rightarrow> 'u mmio \<Rightarrow> ('u \<Rightarrow> u8 list) \<Rightarrow> ('u \<Rightarrow> u8 list) \<Rightarrow> ('u \<Rightarrow> nat) \<Rightarrow> bool" where
  "uart plat hw rx tx busy \<longleftrightarrow> (if plat = ARTY then litex_uart hw rx tx busy else sifive_uart hw rx tx busy)"

text \<open>The laws one by one.\<close>

lemmas litex_uartD =
  litex_uart_def[THEN iffD1, THEN conjunct1, rule_format]
  litex_uart_def[THEN iffD1, THEN conjunct2, THEN conjunct1, rule_format]
  litex_uart_def[THEN iffD1, THEN conjunct2, THEN conjunct2, THEN conjunct1, rule_format]
  litex_uart_def[THEN iffD1, THEN conjunct2, THEN conjunct2, THEN conjunct2, THEN conjunct1, rule_format]
  litex_uart_def[THEN iffD1, THEN conjunct2, THEN conjunct2, THEN conjunct2, THEN conjunct2, THEN conjunct1, rule_format]
  litex_uart_def[THEN iffD1, THEN conjunct2, THEN conjunct2, THEN conjunct2, THEN conjunct2, THEN conjunct2, rule_format]

lemmas sifive_uartD =
  sifive_uart_def[THEN iffD1, THEN conjunct1, rule_format]
  sifive_uart_def[THEN iffD1, THEN conjunct2, THEN conjunct1, rule_format]
  sifive_uart_def[THEN iffD1, THEN conjunct2, THEN conjunct2, rule_format]

text \<open>Waiting for a flag that changes nothing else.\<close>

lemma poll_flag:
  assumes "\<And>w v w'. rx w = rx u \<Longrightarrow> rd w = (v, w') \<Longrightarrow> rx w' = rx w \<and> tx w' = tx w \<and> (again v \<longrightarrow> busy w' < (busy w :: nat))"
  obtains v u' where "poll rd again u = Some (v, u')" "rx u' = rx u" "tx u' = tx u"
proof -
  have "\<exists>v u'. poll rd again u = Some (v, u') \<and> (rx u' = rx u \<and> tx u' = tx u)"
  proof (rule poll_returns[where P = "\<lambda>w. rx w = rx u \<and> tx w = tx u" and busy = busy])
    show "(rx w' = rx u \<and> tx w' = tx u) \<and> busy w' < busy w" if "rx w = rx u \<and> tx w = tx u" "rd w = (v, w')" "again v" for w v w'
      using assms[OF _ that(2)] that by simp
    show "rx w' = rx u \<and> tx w' = tx u" if "rx w = rx u \<and> tx w = tx u" "rd w = (v, w')" "\<not> again v" for w v w'
      using assms[OF _ that(2)] that by simp
  qed simp
  then show thesis using that by blast
qed

lemma ucast_byte [simp]: "ucast (ucast c :: u32) = c" for c :: u8
  by (rule bit_word_eqI) (simp add: bit_simps)

lemma uart_getc_correct:
  assumes "uart plat hw rx tx busy" "rx u = c # cs"
  shows "\<exists>u'. uart_getc plat hw u = Inr (c, u') \<and> rx u' = cs \<and> tx u' = tx u"
proof (cases "plat = ARTY")
  case True
  then have l: "litex_uart hw rx tx busy" using assms(1) by (simp add: uart_def)
  obtain v u1 where u1: "poll (mmio_read hw 0xF0001008) (\<lambda>v. v \<noteq> 0) u = Some (v, u1)" "rx u1 = rx u" "tx u1 = tx u"
  proof (rule poll_flag[where rx = rx and tx = tx and busy = busy])
    show "rx w' = rx w \<and> tx w' = tx w \<and> (v \<noteq> 0 \<longrightarrow> busy w' < busy w)" if "rx w = rx u" "mmio_read hw 0xF0001008 w = (v, w')" for w v w'
      using litex_uartD(1)[OF l _ that(2)] that(1) assms(2) by simp
  qed
  obtain w u2 where u2: "mmio_read hw 0xF0001000 u1 = (w, u2)" by (cases "mmio_read hw 0xF0001000 u1") auto
  have "w AND 0xFF = ucast c" "rx u2 = rx u" "tx u2 = tx u"
    using litex_uartD(2)[OF l _ u2] u1(2,3) assms(2) by simp_all
  then show ?thesis
    using True u1(1) u2 litex_uartD(3)[OF l] assms(2) by (simp add: uart_getc_def REGW_poll_def UART_BASE_def)
next
  case False
  then have l: "sifive_uart hw rx tx busy" using assms(1) by (simp add: uart_def)
  have "\<exists>v u'. poll (mmio_read hw 0x10010004) (\<lambda>v. v AND push_bit 31 1 \<noteq> 0) u = Some (v, u') \<and>
      (v AND 0xFF = ucast c \<and> rx u' = cs \<and> tx u' = tx u)"
  proof (rule poll_returns[where P = "\<lambda>w. rx w = rx u \<and> tx w = tx u" and busy = busy])
    show "(rx w' = rx u \<and> tx w' = tx u) \<and> busy w' < busy w"
      if "rx w = rx u \<and> tx w = tx u" "mmio_read hw 0x10010004 w = (v, w')" "v AND push_bit 31 1 \<noteq> 0" for w v w'
      using sifive_uartD(1)[OF l _ that(2)] that(1,3) assms(2) by (auto split: if_splits)
    show "v AND 0xFF = ucast c \<and> rx w' = cs \<and> tx w' = tx u"
      if "rx w = rx u \<and> tx w = tx u" "mmio_read hw 0x10010004 w = (v, w')" "\<not> v AND push_bit 31 1 \<noteq> 0" for w v w'
      using sifive_uartD(1)[OF l _ that(2)] that(1,3) assms(2) by (auto split: if_splits)
  qed simp
  then obtain v u' where "poll (mmio_read hw 0x10010004) (\<lambda>v. v AND push_bit 31 1 \<noteq> 0) u = Some (v, u')"
    "v AND 0xFF = ucast c" "rx u' = cs" "tx u' = tx u" by blast
  then show ?thesis
    using False by (simp add: uart_getc_def REGW_poll_def UART_BASE_def)
qed

lemma uart_putc_correct:
  assumes "uart plat hw rx tx busy"
  shows "\<exists>u'. uart_putc plat hw c u = Inr u' \<and> rx u' = rx u \<and> tx u' = tx u @ [c]"
proof (cases "plat = ARTY")
  case True
  then have l: "litex_uart hw rx tx busy" using assms by (simp add: uart_def)
  obtain v u1 where u1: "poll (mmio_read hw 0xF0001004) (\<lambda>v. v \<noteq> 0) u = Some (v, u1)" "rx u1 = rx u" "tx u1 = tx u"
    by (rule poll_flag[where rx = rx and tx = tx and busy = busy]) (rule litex_uartD(4)[OF l])
  then show ?thesis
    using True litex_uartD(5,6)[OF l] by (simp add: uart_putc_def REGW_poll_def UART_BASE_def)
next
  case False
  then have l: "sifive_uart hw rx tx busy" using assms by (simp add: uart_def)
  obtain v u1 where u1: "poll (mmio_read hw 0x10010000) (\<lambda>v. v AND push_bit 31 1 \<noteq> 0) u = Some (v, u1)" "rx u1 = rx u" "tx u1 = tx u"
    by (rule poll_flag[where rx = rx and tx = tx and busy = busy]) (rule sifive_uartD(2)[OF l])
  then show ?thesis
    using False sifive_uartD(3)[OF l] by (simp add: uart_putc_def REGW_poll_def UART_BASE_def)
qed

end
