(* ===== verification/Terminal.thy ===== *)
theory Terminal
  imports Tty Clib "HOL-Library.Sublist"
begin

text \<open>
  The terminal as the kernel processes use it: \<open>term_read\<close> and \<open>term_write\<close> of
  library/syscall/servers.c, compiled for the kernel, on the serial line of earth/dev_tty.c.
\<close>

definition term_write :: "'t tty \<Rightarrow> u8 list \<Rightarrow> 't \<Rightarrow> 't res" where
  "term_write dev s t = for_each s (tty_write_op dev) t"

text \<open>
  The loop of \<open>term_read\<close> with its index at the head of the loop. The index counts down by one for
  a backspace, and stays at the beginning of the line. \<open>None\<close> when the line never ends.
\<close>

partial_function (option) term_loop ::
  "'t tty \<Rightarrow> u32 \<Rightarrow> nat \<Rightarrow> u8 list \<Rightarrow> 't \<Rightarrow> (nat \<times> u8 list \<times> 't) res option" where
  "term_loop dev len i buf t =
     (if i < unat (len - 1) then
        (case tty_read_op dev t of
           Inl e \<Rightarrow> Some (Inl e)
         | Inr (c, t) \<Rightarrow>
             if length buf \<le> i then Some (Inl (Undef ''term_read''))
             else if c = 0x0d then
               (case term_write dev [10, 13] t of Inl e \<Rightarrow> Some (Inl e)
                | Inr t \<Rightarrow> Some (Inr (if i = 0 then 0 else i + 1, buf[i := 0], t)))
             else if c = 0x7f then
               (case (if i = 0 then Inr t else term_write dev [8, 32, 8] t) of Inl e \<Rightarrow> Some (Inl e)
                | Inr t \<Rightarrow> term_loop dev len (i - 1) (buf[i := c]) t)
             else
               (case (if c = 0 then Inr t else term_write dev [c] t) of Inl e \<Rightarrow> Some (Inl e)
                | Inr t \<Rightarrow> term_loop dev len (i + 1) (buf[i := c]) t))
      else if length buf \<le> unat (len - 1) then Some (Inl (Undef ''term_read''))
      else Some (Inr (unat len, buf[unat (len - 1) := 0], t)))"

definition term_read :: "'t tty \<Rightarrow> u8 list \<Rightarrow> u32 \<Rightarrow> 't \<Rightarrow> (nat \<times> u8 list \<times> 't) res" where
  "term_read dev buf len t = (case term_loop dev len 0 buf t of None \<Rightarrow> Inl Diverge | Some r \<Rightarrow> r)"

section \<open>Line editing\<close>

text \<open>A key appends itself to the line; a backspace takes the last one back.\<close>

definition edit :: "u8 \<Rightarrow> u8 list \<Rightarrow> u8 list" where
  "edit k line = (if k = 0x7f then butlast line else line @ [k])"

definition edited :: "u8 list \<Rightarrow> u8 list" where
  "edited keys = fold edit keys []"

lemma length_edited: "length (edited keys) \<le> length keys"
proof -
  have "length (fold edit keys line) \<le> length line + length keys" for line
  proof (induction keys arbitrary: line)
    case (Cons k keys)
    have "length (edit k line) \<le> Suc (length line)" by (cases line) (simp_all add: edit_def)
    then show ?case using Cons[of "edit k line"] by simp
  qed simp
  from this[of "[]"] show ?thesis by (simp add: edited_def)
qed

text \<open>A line of the screen: its cells and the column of the cursor.\<close>

definition put_char :: "u8 \<Rightarrow> u8 list \<times> nat \<Rightarrow> u8 list \<times> nat" where
  "put_char c = (\<lambda>(cells, col). if c = 8 then (cells, col - 1) else (take col cells @ [c] @ drop (col + 1) cells, col + 1))"

definition left_of_cursor :: "u8 list \<times> nat \<Rightarrow> u8 list" where
  "left_of_cursor = (\<lambda>(cells, col). take col cells)"

definition screen :: "u8 list \<Rightarrow> u8 list \<times> nat" where
  "screen out = fold put_char out ([], 0)"

text \<open>What is echoed for a key when the line is not or is empty.\<close>

definition echo_key :: "bool \<Rightarrow> u8 \<Rightarrow> u8 list" where
  "echo_key blank k = (if k = 0x7f then (if blank then [] else [8, 32, 8]) else [k])"

definition key_ok :: "u8 \<Rightarrow> bool" where
  "key_ok k \<longleftrightarrow> 32 \<le> k \<and> k \<le> 0x7f"

lemma screen_col: "snd (fold put_char out s) \<le> length (fst (fold put_char out s))" if "snd s \<le> length (fst s)"
  using that by (induction out arbitrary: s) (auto simp: put_char_def split: prod.splits)

lemma screen_echo:
  assumes "left_of_cursor (screen out) = line" "key_ok k"
  shows "left_of_cursor (screen (out @ echo_key (line = []) k)) = edit k line"
proof -
  obtain cells col where s: "screen out = (cells, col)" by (cases "screen out") auto
  have c: "col \<le> length cells" using screen_col[of "([], 0)" out] s by (simp add: screen_def)
  have "k \<noteq> 8" using assms(2) by (auto simp: key_ok_def)
  then show ?thesis
    using assms(1) s c unfolding screen_def fold_append o_apply
    by (auto simp: echo_key_def put_char_def left_of_cursor_def edit_def butlast_take)
qed

section \<open>Reading a line\<close>

context tty_device
begin

lemma term_write_written:
  "\<exists>u'. term_write dev s u = Inr u' \<and> coming u' = coming u \<and> written u' = written u @ s"
proof (induction s arbitrary: u)
  case (Cons c s)
  obtain u1 where u1: "tty_write_op dev c u = Inr u1" "coming u1 = coming u" "written u1 = written u @ [c]"
    using write_output by blast
  then show ?case using Cons[of u1] by (auto simp: term_write_def)
qed (simp add: term_write_def)

lemma term_loop_key:
  assumes "coming u = k # ks" "key_ok k" "i < unat (len - 1)" "i < length buf"
  shows "\<exists>u'. term_loop dev len i buf u = term_loop dev len (if k = 0x7f then i - 1 else i + 1) (buf[i := k]) u' \<and>
    coming u' = ks \<and> written u' = written u @ echo_key (i = 0) k"
proof -
  obtain u1 where u1: "tty_read_op dev u = Inr (k, u1)" "coming u1 = ks" "written u1 = written u"
    using read_input[OF assms(1)] by blast
  have k: "k \<noteq> 0x0d" "k \<noteq> 0" using assms(2) by (auto simp: key_ok_def)
  obtain u2 where u2: "term_write dev (if k = 0x7f then [8, 32, 8] else [k]) u1 = Inr u2" "coming u2 = ks"
    "written u2 = written u @ (if k = 0x7f then [8, 32, 8] else [k])"
    using term_write_written[of "if k = 0x7f then [8, 32, 8] else [k]" u1] u1(2,3) by auto
  show ?thesis
    using u1 u2 k assms(3,4)
    by (subst term_loop.simps) (cases "k = 0x7f"; cases "i = 0"; auto simp: echo_key_def)
qed

lemma term_loop_line:
  assumes "coming u = keys @ 0x0d # rest" "list_all key_ok keys" "take i buf = line" "i = length line"
    and "\<And>ks. prefix ks keys \<Longrightarrow> length (fold edit ks line) < min (unat (len - 1)) (length buf)" "left_of_cursor (screen out) = line"
  shows "\<exists>buf' u' out'. term_loop dev len i buf u =
      Some (Inr (let n = length (fold edit keys line) in if n = 0 then 0 else n + 1, buf', u')) \<and>
    length buf' = length buf \<and> take (length (fold edit keys line) + 1) buf' = fold edit keys line @ [0] \<and>
    coming u' = rest \<and> written u' = written u @ out' @ [10, 13] \<and>
    left_of_cursor (screen (out @ out')) = fold edit keys line"
  using assms
proof (induction keys arbitrary: u i buf line out)
  case Nil
  obtain u1 where u1: "tty_read_op dev u = Inr (0x0d, u1)" "coming u1 = rest" "written u1 = written u"
    using read_input[of u "0x0d" rest] Nil(1) by auto
  obtain u2 where u2: "term_write dev [10, 13] u1 = Inr u2" "coming u2 = rest" "written u2 = written u @ [10, 13]"
    using term_write_written[of "[10, 13]" u1] u1 by auto
  have i: "i < unat (len - 1)" "i < length buf" using Nil(5)[of "[]"] Nil(4) by auto
  then show ?case
    using u1(1) u2 Nil(3,4,6) by (subst term_loop.simps) (auto simp: take_Suc_conv_app_nth intro!: exI[of _ "[]"])
next
  case (Cons k keys)
  have i: "i < unat (len - 1)" "i < length buf" using Cons(6)[of "[]"] Cons(5) by auto
  have k: "key_ok k" using Cons(3) by simp
  obtain u1 where u1: "term_loop dev len i buf u = term_loop dev len (if k = 0x7f then i - 1 else i + 1) (buf[i := k]) u1"
    "coming u1 = keys @ 0x0d # rest" "written u1 = written u @ echo_key (i = 0) k"
    using term_loop_key[OF _ k i] Cons(2) by (metis append_Cons)
  let ?line = "edit k line" and ?i = "if k = 0x7f then i - 1 else i + 1"
  have "take (i - 1) buf = butlast line"
    using arg_cong[OF Cons(4), of "take (i - 1)"] Cons(5) by (simp add: butlast_conv_take)
  then have e: "take ?i (buf[i := k]) = ?line" "?i = length ?line"
    using Cons(4,5) i(2) by (auto simp: edit_def butlast_take take_Suc_conv_app_nth)
  have p: "length (fold edit ks ?line) < min (unat (len - 1)) (length (buf[i := k]))" if "prefix ks keys" for ks
    using Cons(6)[of "k # ks"] that by simp
  have lk: "list_all key_ok keys" using Cons(3) by simp
  obtain buf' u' out' where r: "term_loop dev len ?i (buf[i := k]) u1 =
      Some (Inr (let n = length (fold edit keys ?line) in if n = 0 then 0 else n + 1, buf', u'))"
    "length buf' = length (buf[i := k])" "take (length (fold edit keys ?line) + 1) buf' = fold edit keys ?line @ [0]"
    "coming u' = rest" "written u' = written u1 @ out' @ [10, 13]"
    "left_of_cursor (screen ((out @ echo_key (line = []) k) @ out')) = fold edit keys ?line"
    using Cons(1)[OF u1(2) lk e p screen_echo[OF Cons(7) k]] by blast
  show ?case
    by (rule exI[of _ buf'], rule exI[of _ u'], rule exI[of _ "echo_key (line = []) k @ out'"])
      (use r u1(1,3) Cons(5) in simp)
qed

lemma edited_keys: "list_all key_ok keys \<Longrightarrow> list_all key_ok line \<Longrightarrow> 0 \<notin> set (fold edit keys line)"
proof (induction keys arbitrary: line)
  case Nil
  then show ?case by (auto simp: list_all_iff key_ok_def)
next
  case (Cons k keys)
  then show ?case by (auto simp: edit_def list_all_iff dest: in_set_butlastD)
qed

lemma term_read_line:
  assumes "coming u = keys @ 0x0d # rest" "list_all key_ok keys" "\<And>ks. prefix ks keys \<Longrightarrow> length (edited ks) < min (unat (len - 1)) (length buf)"
  obtains n buf' u' out where "term_read dev buf len u = Inr (n, buf', u')" "n = (if edited keys = [] then 0 else length (edited keys) + 1)"
    "cstr buf' = edited keys" "length buf' = length buf" "coming u' = rest" "written u' = written u @ out @ [10, 13]"
    "left_of_cursor (screen out) = edited keys"
proof -
  obtain buf' u' out where r: "term_loop dev len 0 buf u = Some (Inr (let n = length (edited keys) in if n = 0 then 0 else n + 1, buf', u'))"
    "length buf' = length buf" "take (length (edited keys) + 1) buf' = edited keys @ [0]" "coming u' = rest"
    "written u' = written u @ out @ [10, 13]" "left_of_cursor (screen out) = edited keys"
    using term_loop_line[OF assms(1,2), of 0 buf "[]" len "[]"] assms(3)
    by (auto simp: edited_def screen_def left_of_cursor_def)
  have "cstr buf' = cstr (edited keys @ 0 # drop (length (edited keys) + 1) buf')"
    using r(3) append_take_drop_id[of "length (edited keys) + 1" buf'] by (metis append.assoc append_Cons append_Nil)
  then have "cstr buf' = edited keys" using edited_keys[OF assms(2), of "[]"] by (simp add: edited_def)
  then show thesis using that[OF _ _ _ r(2,4-6)] r(1) by (simp add: term_read_def Let_def split: if_splits)
qed

end

lemma uart_tty_device: "uart plat hw rx tx busy \<Longrightarrow> tty_device (tty_init plat hw) rx tx"
  by unfold_locales (simp_all add: tty_init_def uart_getc_correct uart_putc_correct)

text \<open>C38: Reading a line from the serial line on either platform: when the user types some keys,
  backspaces among them, and Enter, and the line never gets too long, then the buffer holds the
  edited line as a C string, the result is its size with the NUL (0 for an empty line), the keys
  behind Enter are left, and the screen shows left of its cursor exactly the edited line.\<close>

theorem term_read_edits_line:
  assumes "uart plat hw rx tx busy" "rx u = keys @ 0x0d # rest" "list_all key_ok keys"
    and "\<forall>ks. prefix ks keys \<longrightarrow> length (edited ks) < unat (len - 1)" "unat (len - 1) < length buf"
  shows "\<exists>n buf' u' out. term_read (tty_init plat hw) buf len u = Inr (n, buf', u') \<and>
     n = (if edited keys = [] then 0 else length (edited keys) + 1) \<and> cstr buf' = edited keys \<and> length buf' = length buf \<and>
     rx u' = rest \<and> tx u' = tx u @ out @ [10, 13] \<and> left_of_cursor (screen out) = edited keys"
proof -
  obtain n buf' u' out where "term_read (tty_init plat hw) buf len u = Inr (n, buf', u')"
    "n = (if edited keys = [] then 0 else length (edited keys) + 1)" "cstr buf' = edited keys" "length buf' = length buf"
    "rx u' = rest" "tx u' = tx u @ out @ [10, 13]" "left_of_cursor (screen out) = edited keys"
    by (rule tty_device.term_read_line[OF uart_tty_device[OF assms(1)] assms(2,3), of len buf]) (use assms(4,5) in fastforce)
  then show ?thesis by blast
qed

section \<open>A UART\<close>

text \<open>
  A small UART with the registers of the SiFive one, for examples: characters that arrive, characters
  sent, and a number of reads for which its flags still say busy.
\<close>

record uart_sim =
  sim_rx :: "u8 list"
  sim_tx :: "u8 list"
  sim_busy :: nat

definition uart_sim_hw :: "uart_sim mmio" where
  "uart_sim_hw =
     \<lparr>mmio_read = (\<lambda>addr u.
        if 0 < sim_busy u then (push_bit 31 1, u\<lparr>sim_busy := sim_busy u - 1\<rparr>)
        else if addr = 0x10010004 then
          (case sim_rx u of [] \<Rightarrow> (push_bit 31 1, u) | c # cs \<Rightarrow> (ucast c, u\<lparr>sim_rx := cs, sim_busy := 2\<rparr>))
        else (0, u)),
      mmio_write = (\<lambda>addr v u. if addr = 0x10010000 then u\<lparr>sim_tx := sim_tx u @ [ucast v], sim_busy := 3\<rparr> else u)\<rparr>"

lemma uart_sim: "uart QEMU uart_sim_hw sim_rx sim_tx sim_busy"
proof -
  have m: "ucast c AND 0x80000000 = (0 :: u32)" "ucast c AND 0xFF = (ucast c :: u32)" for c :: u8
  proof -
    have "(0x80000000 :: u32) = push_bit 31 1" by simp
    moreover have "ucast c AND push_bit 31 1 = (0 :: u32)"
      by (rule bit_word_eqI) (simp only: bit_and_iff bit_push_bit_iff bit_unsigned_iff bit_1_iff bit_0_eq, auto dest: bit_imp_le_length)
    ultimately show "ucast c AND 0x80000000 = (0 :: u32)" by simp
    have "ucast c AND mask 8 = (ucast c :: u32)"
      by (rule bit_word_eqI) (auto simp: bit_simps dest: bit_imp_le_length)
    then show "ucast c AND 0xFF = (ucast c :: u32)" by (simp add: mask_eq_exp_minus_1)
  qed
  show ?thesis
    by (auto simp: uart_def sifive_uart_def uart_sim_hw_def m neq_Nil_conv split: if_splits)
qed

interpretation sim_tty: tty_device "tty_init QEMU uart_sim_hw" sim_rx sim_tx
  by (rule uart_tty_device[OF uart_sim])

theorem term_read_edits_line_witness:
  "\<exists>n buf' u'. term_read (tty_init QEMU uart_sim_hw) (replicate 16 9) 16 \<lparr>sim_rx = str ''cax'' @ [0x7f] @ str ''t'' @ [0x0d], sim_tx = [], sim_busy = 4\<rparr> =
     Inr (n, buf', u') \<and> n = 4 \<and> cstr buf' = str ''cat''"
proof -
  let ?keys = "str ''cax'' @ [0x7f] @ str ''t''"
  have e: "edited ?keys = str ''cat''" by (simp add: edited_def edit_def str_def)
  have "length (edited ks) < 15" if "prefix ks ?keys" for ks
    using prefix_length_le[OF that] length_edited[of ks] by simp
  then show ?thesis
    using term_read_edits_line[OF uart_sim, of "\<lparr>sim_rx = ?keys @ [0x0d], sim_tx = [], sim_busy = 4\<rparr>" ?keys "[]" 16 "replicate 16 9"] e
    by (auto simp: list_all_iff key_ok_def str_def)
qed

end
