(* ===== verification/Inode.thy ===== *)
theory Inode
  imports Prelude
begin

text \<open>
  The block and inode-store interface of library/file/disk.h and library/file/inode.h.
  An inode store is the record of its four methods; the \<open>self\<close> pointer and the
  \<open>void*\<close> state behind it are closed over by the methods, and \<open>'s\<close> is the
  storage they all work on. A store that a file system is built on promises the laws of
  the locale \<open>block_store\<close>.
\<close>

type_synonym block = "u8 list"

abbreviation BLOCK_SIZE :: nat where
  "BLOCK_SIZE \<equiv> 512"

abbreviation NINODES :: u32 where
  "NINODES \<equiv> 128"

text \<open>Disk layout (disk.h): 2MB of executables, then 2MB under the file system.\<close>

abbreviation SIZE_2MB :: nat where
  "SIZE_2MB \<equiv> 2 * 1024 * 1024"

definition FILE_SYS_DISK_START :: nat where
  "FILE_SYS_DISK_START = SIZE_2MB div BLOCK_SIZE"

definition FILE_SYS_DISK_BLOCKS :: nat where
  "FILE_SYS_DISK_BLOCKS = SIZE_2MB div BLOCK_SIZE"

text \<open>
  The methods of \<open>struct inode_store\<close>. \<open>read_op\<close> takes the caller's block buffer
  and returns it as the call leaves it. Results follow C: negative is an error.
\<close>

record 's inode_store =
  getsize_op :: "u32 \<Rightarrow> 's \<Rightarrow> (i32 \<times> 's) res"
  setsize_op :: "u32 \<Rightarrow> u32 \<Rightarrow> 's \<Rightarrow> (i32 \<times> 's) res"
  read_op :: "u32 \<Rightarrow> u32 \<Rightarrow> block \<Rightarrow> 's \<Rightarrow> (i32 \<times> block \<times> 's) res"
  write_op :: "u32 \<Rightarrow> u32 \<Rightarrow> block \<Rightarrow> 's \<Rightarrow> (i32 \<times> 's) res"

definition null_block :: block where
  "null_block = replicate BLOCK_SIZE 0"

text \<open>
  A local block buffer before the first read into it. A store overwrites it, or reports
  an error and the caller returns without looking at it.
\<close>

definition uninit_block :: block where
  "uninit_block = replicate BLOCK_SIZE 0"

text \<open>
  The contract of the store below a file system, for one of its inodes: \<open>nblocks\<close>
  blocks of 512 bytes, of which reads return the current contents and writes replace
  exactly one. Reads may change the storage (a device has state) but not its contents.
\<close>

locale block_store =
  fixes below :: "'s inode_store"
    and below_ino :: u32
    and ok :: "'s \<Rightarrow> bool"
    and contents :: "'s \<Rightarrow> u32 \<Rightarrow> block"
    and nblocks :: u32
  assumes read_ok: "ok s \<Longrightarrow> k < nblocks \<Longrightarrow>
      \<exists>s'. read_op below below_ino k buf s = Inr (0, contents s k, s') \<and>
           ok s' \<and> contents s' = contents s"
    and write_ok: "ok s \<Longrightarrow> k < nblocks \<Longrightarrow> length blk = BLOCK_SIZE \<Longrightarrow>
      \<exists>s'. write_op below below_ino k blk s = Inr (0, s') \<and>
           ok s' \<and> contents s' = (contents s)(k := blk)"
    and getsize_ok: "ok s \<Longrightarrow>
      \<exists>s'. getsize_op below below_ino s = Inr (nblocks, s') \<and>
           ok s' \<and> contents s' = contents s"
    and length_contents: "ok s \<Longrightarrow> k < nblocks \<Longrightarrow> length (contents s k) = BLOCK_SIZE"

section \<open>What a file system promises\<close>

text \<open>Writing a block of a file: files grow, with holes of null bytes, and never shrink.\<close>

definition write_file :: "block list \<Rightarrow> nat \<Rightarrow> block \<Rightarrow> block list" where
  "write_file f off blk =
     (if off < length f then f[off := blk]
      else f @ replicate (off - length f) null_block @ [blk])"

text \<open>
  The contract of an inode store with growing files. \<open>holds s files m\<close> says that the storage
  holds \<open>files\<close> and has at least \<open>m\<close> free blocks left, of which a write takes at most
  \<open>cost\<close>. Offset \<open>0xFFFFFFFF\<close> is excluded: the size behind it is not a 32-bit number.
\<close>

locale file_store =
  fixes fs :: "'s inode_store"
    and holds :: "'s \<Rightarrow> (nat \<Rightarrow> block list) \<Rightarrow> nat \<Rightarrow> bool"
    and nfiles :: nat
    and cost :: nat
  assumes write_holds: "holds s files (cost + m) \<Longrightarrow> unat ino < nfiles \<Longrightarrow> offset \<noteq> - 1 \<Longrightarrow>
      length blk = BLOCK_SIZE \<Longrightarrow>
      \<exists>s'. write_op fs ino offset blk s = Inr (0, s') \<and>
           holds s' (files(unat ino := write_file (files (unat ino)) (unat offset) blk)) m"
    and read_holds: "holds s files m \<Longrightarrow>
      \<exists>s'. read_op fs ino offset buf s =
             Inr (if unat ino < nfiles \<and> unat offset < length (files (unat ino))
                  then (0, files (unat ino) ! unat offset, s') else (-1, buf, s')) \<and>
           holds s' files m"
    and getsize_holds: "holds s files m \<Longrightarrow>
      \<exists>s'. getsize_op fs ino s =
             Inr (if unat ino < nfiles then of_nat (length (files (unat ino))) else -1, s') \<and>
           holds s' files m"
begin

text \<open>Writing consecutive blocks from offset 0 of an empty file makes it exactly those blocks.\<close>

lemma write_blocks:
  assumes "holds s files (cost * length blks + m)" "unat ino < nfiles" "files (unat ino) = []"
    and "\<And>b. b \<in> set blks \<Longrightarrow> length b = BLOCK_SIZE" "length blks < 2 ^ 32"
  shows "\<exists>s'. for_each [0 ..< length blks]
             (\<lambda>b s. bindr (write_op fs ino (of_nat b) (blks ! b) s) (\<lambda>(r, s). Inr s)) s = Inr s' \<and>
           holds s' (files(unat ino := blks)) m"
proof -
  let ?P = "\<lambda>js s. holds s (files(unat ino := take (length js) blks)) (cost * (length blks - length js) + m)"
  have "\<exists>t. for_each [0 ..< length blks]
             (\<lambda>b s. bindr (write_op fs ino (of_nat b) (blks ! b) s) (\<lambda>(r, s). Inr s)) s = Inr t \<and>
           ?P [0 ..< length blks] t"
  proof (rule for_each_invariant)
    show "?P [] s" using assms(1,3) by (simp add: fun_upd_idem)
  next
    fix js b rest t
    assume js: "[0 ..< length blks] = js @ b # rest" and P: "?P js t"
    from arg_cong[OF js, of length] have lt: "length js < length blks" by simp
    from arg_cong[OF js, of "\<lambda>xs. xs ! length js"] lt have b: "b = length js" by simp
    have u: "unat (of_nat b :: u32) = b" using lt b assms(5) by (intro unat_of_nat_u32) simp
    have nm: "(of_nat b :: u32) \<noteq> - 1"
    proof
      assume "(of_nat b :: u32) = - 1"
      then have "b = 2 ^ 32 - 1" using arg_cong[of "of_nat b" "- 1 :: u32" unat] u by (simp add: unsigned_minus_1_eq_mask mask_eq_exp_minus_1)
      then show False using lt b assms(5) by simp
    qed
    have "cost * (length blks - length js) + m = cost + (cost * (length blks - length (js @ [b])) + m)"
      using lt by (simp add: Suc_diff_Suc flip: mult_Suc_right)
    with P have "holds t (files(unat ino := take b blks)) (cost + (cost * (length blks - length (js @ [b])) + m))"
      by (simp add: b)
    from write_holds[OF this assms(2) nm assms(4)[of "blks ! b"]]
    show "\<exists>t'. bindr (write_op fs ino (of_nat b) (blks ! b) t) (\<lambda>(r, s). Inr s) = Inr t' \<and> ?P (js @ [b]) t'"
      using lt b u by (auto simp: write_file_def take_Suc_conv_app_nth)
  qed
  then show ?thesis by simp
qed

end

lemma length_null_block [simp]: "length null_block = BLOCK_SIZE"
  by (simp add: null_block_def)

end
