(* ===== verification/Disk.thy ===== *)
theory Disk
  imports Tty Inode
begin

text \<open>
  earth/dev_disk.c: the SD card behind the SPI bus, and the ROM that replaces it when there is no
  card. The SPI controller with the card is hardware: its registers are read and written through
  \<open>mmio\<close>. The functions above \<open>spi_exchange\<close> take the exchange of one byte as an argument.
  Messages to the console are left out.
\<close>

section \<open>SPI\<close>

abbreviation LITEX_SPI_CONTROL :: u32 where "LITEX_SPI_CONTROL \<equiv> 0"
abbreviation LITEX_SPI_STATUS :: u32 where "LITEX_SPI_STATUS \<equiv> 4"
abbreviation LITEX_SPI_MOSI :: u32 where "LITEX_SPI_MOSI \<equiv> 8"
abbreviation LITEX_SPI_MISO :: u32 where "LITEX_SPI_MISO \<equiv> 12"
abbreviation LITEX_SPI_CS :: u32 where "LITEX_SPI_CS \<equiv> 16"
abbreviation LITEX_SPI_CLKDIV :: u32 where "LITEX_SPI_CLKDIV \<equiv> 24"
abbreviation SIFIVE_SPI_CSDEF :: u32 where "SIFIVE_SPI_CSDEF \<equiv> 20"
abbreviation SIFIVE_SPI_CSMODE :: u32 where "SIFIVE_SPI_CSMODE \<equiv> 24"
abbreviation SIFIVE_SPI_TXDATA :: u32 where "SIFIVE_SPI_TXDATA \<equiv> 72"
abbreviation SIFIVE_SPI_RXDATA :: u32 where "SIFIVE_SPI_RXDATA \<equiv> 76"

definition spi_exchange :: "platform \<Rightarrow> 'u mmio \<Rightarrow> u8 \<Rightarrow> 'u \<Rightarrow> (u8 \<times> 'u) res" where
  "spi_exchange plat hw byte u =
     bindr
       (if plat = ARTY then
          let u = mmio_write hw (SPI_BASE plat + LITEX_SPI_MOSI) (ucast byte) u;
              u = mmio_write hw (SPI_BASE plat + LITEX_SPI_CONTROL) (8 * push_bit 8 1 OR 1) u in
          bindr (REGW_poll hw (SPI_BASE plat + LITEX_SPI_STATUS) (\<lambda>v. v AND 1 \<noteq> 1) u) (\<lambda>(_, u).
          Inr (mmio_read hw (SPI_BASE plat + LITEX_SPI_MISO) u))
        else
          bindr (REGW_poll hw (SPI_BASE plat + SIFIVE_SPI_TXDATA) (\<lambda>v. v AND push_bit 31 1 \<noteq> 0) u) (\<lambda>(_, u).
          let u = mmio_write hw (SPI_BASE plat + SIFIVE_SPI_TXDATA) (ucast byte) u in
          REGW_poll hw (SPI_BASE plat + SIFIVE_SPI_RXDATA) (\<lambda>v. v AND push_bit 31 1 \<noteq> 0) u))
       (\<lambda>(rxdata, u). Inr (ucast (rxdata AND 0xFF), u))"

abbreviation CPU_CLOCK_RATE :: u32 where "CPU_CLOCK_RATE \<equiv> 100000000"

definition spi_set_clock :: "platform \<Rightarrow> 'u mmio \<Rightarrow> u32 \<Rightarrow> 'u \<Rightarrow> 'u" where
  "spi_set_clock plat hw freq u =
     mmio_write hw (SPI_BASE plat + LITEX_SPI_CLKDIV) (CPU_CLOCK_RATE div freq + 1) u"

section \<open>Commands of the SD card\<close>

type_synonym 'c xchg = "u8 \<Rightarrow> 'c \<Rightarrow> (u8 \<times> 'c) res"

text \<open>Sending bytes one after the other, with the bytes received.\<close>

fun spi_send :: "'c xchg \<Rightarrow> u8 list \<Rightarrow> 'c \<Rightarrow> (u8 list \<times> 'c) res" where
  "spi_send x [] c = Inr ([], c)"
| "spi_send x (b # bs) c =
     bindr (x b c) (\<lambda>(r, c). bindr (spi_send x bs c) (\<lambda>(rs, c). Inr (r # rs, c)))"

text \<open>\<open>while (!stop(reply = spi_exchange(0xFF)));\<close>\<close>

partial_function (option) exchange_loop :: "'c xchg \<Rightarrow> (u8 \<Rightarrow> bool) \<Rightarrow> 'c \<Rightarrow> (u8 \<times> 'c) res option" where
  "exchange_loop x stop c =
     (case x 0xFF c of
        Inl e \<Rightarrow> Some (Inl e)
      | Inr (r, c) \<Rightarrow> if stop r then Some (Inr (r, c)) else exchange_loop x stop c)"

definition exchange_until :: "'c xchg \<Rightarrow> (u8 \<Rightarrow> bool) \<Rightarrow> 'c \<Rightarrow> (u8 \<times> 'c) res" where
  "exchange_until x stop c = (case exchange_loop x stop c of None \<Rightarrow> Inl Diverge | Some r \<Rightarrow> r)"

fun sd_reply :: "'c xchg \<Rightarrow> nat \<Rightarrow> 'c \<Rightarrow> (u8 \<times> 'c) res" where
  "sd_reply x 0 c = Inr (0xFF, c)"
| "sd_reply x (Suc n) c = bindr (x 0xFF c) (\<lambda>(r, c). if r \<noteq> 0xFF then Inr (r, c) else sd_reply x n c)"

definition sd_exec_cmd :: "'c xchg \<Rightarrow> u8 list \<Rightarrow> 'c \<Rightarrow> (u8 \<times> 'c) res" where
  "sd_exec_cmd x cmd c = bindr (spi_send x cmd c) (\<lambda>(_, c). sd_reply x 8000 c)"

definition sd_exec_acmd :: "'c xchg \<Rightarrow> u8 list \<Rightarrow> 'c \<Rightarrow> (u8 \<times> 'c) res" where
  "sd_exec_acmd x cmd c =
     bindr (exchange_until x (\<lambda>r. r = 0xFF) c) (\<lambda>(_, c).
     bindr (sd_exec_cmd x [0x77, 0x00, 0x00, 0x00, 0x00, 0xFF] c) (\<lambda>(_, c).
     bindr (exchange_until x (\<lambda>r. r = 0xFF) c) (\<lambda>(_, c).
     sd_exec_cmd x cmd c)))"

text \<open>The offset that the card expects, and the bytes of a command with it.\<close>

definition card_offset :: "platform \<Rightarrow> u32 \<Rightarrow> u32" where
  "card_offset plat offset = (if plat = QEMU then offset * 512 else offset)"

definition cmd_bytes :: "u8 \<Rightarrow> u32 \<Rightarrow> u8 list" where
  "cmd_bytes cmd offset = [cmd, byte_of 3 offset, byte_of 2 offset, byte_of 1 offset, byte_of 0 offset, 0xFF]"

definition sd_read :: "platform \<Rightarrow> 'c xchg \<Rightarrow> u32 \<Rightarrow> 'c \<Rightarrow> (u8 list \<times> 'c) res" where
  "sd_read plat x offset c =
     bindr (exchange_until x (\<lambda>r. r = 0xFF) c) (\<lambda>(_, c).
     bindr (sd_exec_cmd x (cmd_bytes 0x51 (card_offset plat offset)) c) (\<lambda>(reply, c).
     if reply \<noteq> 0 then Inl (FATAL ''SD card replies cmd17 with status 0x%.2x'')
     else
       bindr (exchange_until x (\<lambda>r. r = 0xFE) c) (\<lambda>(_, c).
       bindr (spi_send x (replicate BLOCK_SIZE 0xFF) c) (\<lambda>(dst, c).
       bindr (spi_send x [0xFF, 0xFF] c) (\<lambda>(_, c).
       Inr (dst, c))))))"

definition sd_write :: "platform \<Rightarrow> 'c xchg \<Rightarrow> u32 \<Rightarrow> u8 list \<Rightarrow> 'c \<Rightarrow> 'c res" where
  "sd_write plat x offset src c =
     bindr (exchange_until x (\<lambda>r. r = 0xFF) c) (\<lambda>(_, c).
     bindr (sd_exec_cmd x (cmd_bytes 0x58 (card_offset plat offset)) c) (\<lambda>(reply, c).
     if reply \<noteq> 0 then Inl (FATAL ''SD card replies cmd24 with status %.2x'')
     else
       bindr (spi_send x [0xFF] c) (\<lambda>(_, c).
       bindr (spi_send x [0xFE] c) (\<lambda>(_, c).
       bindr (spi_send x src c) (\<lambda>(_, c).
       bindr (spi_send x [0xFF, 0xFF] c) (\<lambda>(_, c).
       bindr (exchange_until x (\<lambda>r. r \<noteq> 0xFF) c) (\<lambda>(reply, c).
       if reply AND 0x1F \<noteq> 0x05 then Inl (FATAL ''SD card write ack with status 0x%.2x'')
       else Inr c)))))))"

section \<open>Initialization\<close>

text \<open>\<open>while (reply != 0x01) reply = spi_exchange(0xFF);\<close> and \<open>while (sd_exec_acmd(acmd41));\<close>\<close>

definition sd_await_idle :: "'c xchg \<Rightarrow> u8 \<Rightarrow> 'c \<Rightarrow> 'c res" where
  "sd_await_idle x reply c =
     (if reply = 0x01 then Inr c else bindr (exchange_until x (\<lambda>r. r = 0x01) c) (\<lambda>(_, c). Inr c))"

partial_function (option) acmd41_loop :: "'c xchg \<Rightarrow> 'c \<Rightarrow> 'c res option" where
  "acmd41_loop x c =
     (case sd_exec_acmd x [0x69, 0x40, 0x00, 0x00, 0x00, 0xFF] c of
        Inl e \<Rightarrow> Some (Inl e)
      | Inr (reply, c) \<Rightarrow> if reply = 0 then Some (Inr c) else acmd41_loop x c)"

definition sd_cmd8 :: "'c xchg \<Rightarrow> 'c \<Rightarrow> 'c res" where
  "sd_cmd8 x c =
     bindr (sd_exec_cmd x [0x48, 0x00, 0x00, 0x01, 0xAA, 0x87] c) (\<lambda>(reply, c).
     if reply AND 0x04 \<noteq> 0 then Inl (FATAL ''Only SD2/SDHC/SDXC cards are supported'')
     else
       bindr (spi_send x (replicate 4 0xFF) c) (\<lambda>(rs, c).
       let payload = le32 (rs ! 3) (rs ! 2) (rs ! 1) (rs ! 0) in
       if payload AND 0xFFF \<noteq> 0x1AA then Inl (FATAL ''Fail to check SD card type'') else Inr c))"

definition sd_power_up :: "platform \<Rightarrow> 'u mmio \<Rightarrow> 'u \<Rightarrow> 'u res" where
  "sd_power_up plat hw u =
     (if plat = ARTY then
        let u = mmio_write hw (SPI_BASE plat + LITEX_SPI_CS) 0 (spi_set_clock plat hw 400000 u) in
        bindr (spi_send (spi_exchange plat hw) (replicate 1000 0xFF) u) (\<lambda>(_, u).
        Inr (mmio_write hw (SPI_BASE plat + LITEX_SPI_CS) 1 u))
      else
        let u = mmio_write hw (SPI_BASE plat + SIFIVE_SPI_CSMODE) 1 u in
        bindr (spi_send (spi_exchange plat hw) (replicate 1000 0xFF) u) (\<lambda>(_, u).
        Inr (mmio_write hw (SPI_BASE plat + SIFIVE_SPI_CSDEF) 1 u)))"

definition sd_init :: "platform \<Rightarrow> 'u mmio \<Rightarrow> 'u \<Rightarrow> (i32 \<times> 'u) res" where
  "sd_init plat hw u =
     (let x = spi_exchange plat hw in
      bindr (sd_power_up plat hw u) (\<lambda>u.
      bindr (sd_exec_cmd x [0x40, 0x00, 0x00, 0x00, 0x00, 0x95] u) (\<lambda>(reply, u).
      if reply = 0xFF then Inr (- 1, u)
      else
        bindr (sd_await_idle x reply u) (\<lambda>u.
        bindr (exchange_until x (\<lambda>r. r = 0xFF) u) (\<lambda>(_, u).
        bindr (sd_cmd8 x u) (\<lambda>u.
        bindr (exchange_until x (\<lambda>r. r = 0xFF) u) (\<lambda>(_, u).
        bindr (case acmd41_loop x u of None \<Rightarrow> Inl Diverge | Some r \<Rightarrow> r) (\<lambda>u.
        bindr (exchange_until x (\<lambda>r. r = 0xFF) u) (\<lambda>(_, u).
        Inr (0, if plat = ARTY then spi_set_clock plat hw 20000000 u else u))))))))))"

section \<open>The disk\<close>

datatype disk_type = SD_CARD | FLASH_ROM

text \<open>The ROM is ordinary memory at \<open>BOARD_FLASH_ROM\<close>, given as an argument.\<close>

definition disk_read :: "disk_type \<Rightarrow> mem \<Rightarrow> platform \<Rightarrow> 'c xchg \<Rightarrow> u32 \<Rightarrow> nat \<Rightarrow> 'c \<Rightarrow> (u8 list \<times> 'c) res" where
  "disk_read dt rom plat x block_no nblocks c =
     (if dt = FLASH_ROM then
        Inr (memcpy_out rom (BOARD_FLASH_ROM + block_no * 512) (nblocks * BLOCK_SIZE), c)
      else
        for_each [0 ..< nblocks] (\<lambda>i (dst, c).
          bindr (sd_read plat x (block_no + of_nat i) c) (\<lambda>(blk, c). Inr (dst @ blk, c))) ([], c))"

definition disk_write :: "disk_type \<Rightarrow> platform \<Rightarrow> 'c xchg \<Rightarrow> u32 \<Rightarrow> nat \<Rightarrow> u8 list \<Rightarrow> 'c \<Rightarrow> 'c res" where
  "disk_write dt plat x block_no nblocks src c =
     (if dt = FLASH_ROM then Inl (FATAL ''disk_write: Writing to ROM'')
      else
        for_each [0 ..< nblocks] (\<lambda>i c.
          sd_write plat x (block_no + of_nat i) (take BLOCK_SIZE (drop (BLOCK_SIZE * i) src)) c) c)"

definition disk_init :: "platform \<Rightarrow> 'u mmio \<Rightarrow> 'u \<Rightarrow> (disk_type \<times> 'u) res" where
  "disk_init plat hw u =
     bindr (sd_init plat hw u) (\<lambda>(r, u). Inr (if r = 0 then SD_CARD else FLASH_ROM, u))"

end
