(* ===== verification/Treedisk.thy ===== *)
theory Treedisk
  imports Inode
begin

text \<open>
  The treedisk file system, library/file/file1.h and library/file/file1.c: virtual inode
  stores, each a tree of blocks, multiplexed on one inode of the store below. This theory
  holds the on-disk layout and every operation of the source, in its order.
\<close>

section \<open>On-disk layout (file1.h)\<close>

type_synonym block_no = u32

abbreviation REFS_PER_BLOCK :: nat where
  "REFS_PER_BLOCK \<equiv> 128"

abbreviation INODES_PER_BLOCK :: u32 where
  "INODES_PER_BLOCK \<equiv> 64"

text \<open>The fields of the members of \<open>union treedisk_block\<close>, read in a block.\<close>

definition n_inodeblocks :: "block \<Rightarrow> block_no" where
  "n_inodeblocks b = get32 b 0"

definition free_list :: "block \<Rightarrow> block_no" where
  "free_list b = get32 b 4"

definition set_free_list :: "block \<Rightarrow> block_no \<Rightarrow> block" where
  "set_free_list b w = put32 b 4 w"

text \<open>\<open>refs[i]\<close> of a freelist block or of an indirect block.\<close>

definition refs :: "block \<Rightarrow> nat \<Rightarrow> block_no" where
  "refs b i = get32 b (4 * i)"

definition set_ref :: "block \<Rightarrow> nat \<Rightarrow> block_no \<Rightarrow> block" where
  "set_ref b i w = put32 b (4 * i) w"

text \<open>\<open>inodes[i].root\<close> is word \<open>2 * i\<close> of an inode block, \<open>inodes[i].nblocks\<close> the next.\<close>

definition inode_root :: "block \<Rightarrow> nat \<Rightarrow> block_no" where
  "inode_root b i = refs b (2 * i)"

definition inode_nblocks :: "block \<Rightarrow> nat \<Rightarrow> block_no" where
  "inode_nblocks b i = refs b (2 * i + 1)"

section \<open>State of a treedisk (file1.c)\<close>

text \<open>
  \<open>snapshot->inode\<close> points into \<open>snapshot->inodeblock\<close>; here it is the index there.
\<close>

record treedisk_snapshot =
  superblock :: block
  inodeblock :: block
  inode_blockno :: block_no
  inode :: nat

text \<open>
  \<open>struct treedisk_state\<close>, with the file-scope variable \<open>log_rpb\<close> that
  \<open>treedisk_init\<close> sets.
\<close>

record 's treedisk_state =
  below :: "'s inode_store"
  below_ino :: u32
  ninodes :: u32
  log_rpb :: u32

definition panic :: "string \<Rightarrow> 'a res" where
  "panic s = Inl (FATAL s)"

definition log_shift_r :: "block_no \<Rightarrow> u32 \<Rightarrow> block_no" where
  "log_shift_r x nbits = (if nbits \<ge> 32 then 0 else drop_bit (unat nbits) x)"

section \<open>Operations\<close>

text \<open>\<open>None\<close> is the return value -1.\<close>

definition treedisk_get_snapshot ::
  "'s treedisk_state \<Rightarrow> u32 \<Rightarrow> 's \<Rightarrow> (treedisk_snapshot option \<times> 's) res" where
  "treedisk_get_snapshot ts inode_no s =
     bindr (read_op (below ts) (below_ino ts) 0 uninit_block s) (\<lambda>(r, sb, s).
       if r <s 0 then Inr (None, s)
       else if inode_no \<ge> n_inodeblocks sb * INODES_PER_BLOCK then Inr (None, s)
       else
         let blockno = 1 + inode_no div INODES_PER_BLOCK in
         bindr (read_op (below ts) (below_ino ts) blockno uninit_block s) (\<lambda>(r, ib, s).
           if r <s 0 then Inr (None, s)
           else Inr (Some \<lparr>superblock = sb, inodeblock = ib, inode_blockno = blockno,
                           inode = unat (inode_no mod INODES_PER_BLOCK)\<rparr>, s)))"

text \<open>\<open>for (i = REFS_PER_BLOCK; --i > 0;) if (refs[i] != 0) break;\<close>\<close>

fun scan_refs :: "block \<Rightarrow> nat \<Rightarrow> nat" where
  "scan_refs fl 0 = 0"
| "scan_refs fl (Suc i) =
     (if i = 0 then 0 else if refs fl i \<noteq> 0 then i else scan_refs fl i)"

definition treedisk_alloc_block ::
  "'s treedisk_state \<Rightarrow> treedisk_snapshot \<Rightarrow> 's \<Rightarrow> (block_no \<times> treedisk_snapshot \<times> 's) res" where
  "treedisk_alloc_block ts snapshot s =
     (let b = free_list (superblock snapshot) in
      if b = 0 then panic ''treedisk_alloc_block: inode store is full''
      else bindr (read_op (below ts) (below_ino ts) b uninit_block s) (\<lambda>(r, fl, s).
        if r <s 0 then panic ''treedisk_alloc_block''
        else
          let i = scan_refs fl REFS_PER_BLOCK in
          if i = 0 then
            let snapshot = snapshot\<lparr>superblock :=
                  set_free_list (superblock snapshot) (refs fl 0)\<rparr> in
            bindr (write_op (below ts) (below_ino ts) 0 (superblock snapshot) s) (\<lambda>(r, s).
              if r <s 0 then panic ''treedisk_alloc_block: superblock''
              else Inr (b, snapshot, s))
          else
            let free_blockno = refs fl i; fl = set_ref fl i 0 in
            bindr (write_op (below ts) (below_ino ts) b fl s) (\<lambda>(r, s).
              if r <s 0 then panic ''treedisk_alloc_block: freelistblock''
              else Inr (free_blockno, snapshot, s))))"

definition treedisk_getsize :: "'s treedisk_state \<Rightarrow> u32 \<Rightarrow> 's \<Rightarrow> (i32 \<times> 's) res" where
  "treedisk_getsize ts ino s =
     bindr (treedisk_get_snapshot ts ino s) (\<lambda>(sn, s).
       case sn of
         None \<Rightarrow> Inr (-1, s)
       | Some snapshot \<Rightarrow> Inr (inode_nblocks (inodeblock snapshot) (inode snapshot), s))"

definition treedisk_setsize :: "'s treedisk_state \<Rightarrow> u32 \<Rightarrow> u32 \<Rightarrow> 's \<Rightarrow> (i32 \<times> 's) res" where
  "treedisk_setsize ts ino nblocks s = panic ''treedisk_setsize not implemented''"

text \<open>
  The loops that count tree levels:
  \<open>while (log_shift_r(x, n * log_rpb) != 0) n++\<close>. They end because
  \<open>log_rpb\<close> is not 0.
\<close>

partial_function (option) levels_loop :: "u32 \<Rightarrow> block_no \<Rightarrow> u32 \<Rightarrow> u32 option" where
  "levels_loop rpb x n =
     (if log_shift_r x (n * rpb) \<noteq> 0 then levels_loop rpb x (n + 1) else Some n)"

definition count_levels :: "u32 \<Rightarrow> block_no \<Rightarrow> u32 res" where
  "count_levels rpb x = (case levels_loop rpb x 0 of None \<Rightarrow> Inl Diverge | Some n \<Rightarrow> Inr n)"

definition ref_index :: "'s treedisk_state \<Rightarrow> block_no \<Rightarrow> u32 \<Rightarrow> nat" where
  "ref_index ts offset nlevels = unat (log_shift_r offset (nlevels * log_rpb ts) mod 128)"

text \<open>The walk of \<open>treedisk_read\<close> from block \<open>b\<close>, \<open>nlevels\<close> above the data.\<close>

function read_walk ::
  "'s treedisk_state \<Rightarrow> block_no \<Rightarrow> u32 \<Rightarrow> block_no \<Rightarrow> block \<Rightarrow> 's \<Rightarrow> (i32 \<times> block \<times> 's) res" where
  "read_walk ts offset nlevels b block s =
     (if b = 0 then Inr (0, null_block, s)
      else bindr (read_op (below ts) (below_ino ts) b block s) (\<lambda>(result, block, s).
        if result <s 0 then Inr (result, block, s)
        else if nlevels = 0 then Inr (0, block, s)
        else read_walk ts offset (nlevels - 1) (refs block (ref_index ts offset (nlevels - 1)))
               block s))"
  by pat_completeness auto
termination
  by (relation "measure (\<lambda>(ts, offset, nlevels, b, block, s). unat nlevels)")
    (auto simp: unat_minus_one intro: unat_gt_0[THEN iffD2] simp flip: unat_gt_0)

definition treedisk_read ::
  "'s treedisk_state \<Rightarrow> u32 \<Rightarrow> block_no \<Rightarrow> block \<Rightarrow> 's \<Rightarrow> (i32 \<times> block \<times> 's) res" where
  "treedisk_read ts ino offset block s =
     bindr (treedisk_get_snapshot ts ino s) (\<lambda>(sn, s).
       case sn of
         None \<Rightarrow> Inr (-1, block, s)
       | Some snapshot \<Rightarrow>
           let nblocks = inode_nblocks (inodeblock snapshot) (inode snapshot);
               root = inode_root (inodeblock snapshot) (inode snapshot) in
           if offset \<ge> nblocks then Inr (-1, block, s)
           else
             bindr (if nblocks > 0 then count_levels (log_rpb ts) (nblocks - 1) else Inr 0)
               (\<lambda>nlevels. read_walk ts offset nlevels root block s))"

text \<open>\<open>while (nlevels_after > nlevels)\<close>: push the old root down under a new indirect block.\<close>

function grow_levels ::
  "'s treedisk_state \<Rightarrow> u32 \<Rightarrow> u32 \<Rightarrow> treedisk_snapshot \<Rightarrow> 's \<Rightarrow> (treedisk_snapshot \<times> 's) res" where
  "grow_levels ts nlevels_after nlevels snapshot s =
     (if nlevels_after > nlevels then
        bindr (treedisk_alloc_block ts snapshot s) (\<lambda>(indir, snapshot, s).
          let tib = set_ref null_block 0 (inode_root (inodeblock snapshot) (inode snapshot));
              snapshot = snapshot\<lparr>inodeblock :=
                set_ref (inodeblock snapshot) (2 * inode snapshot) indir\<rparr> in
          bindr (write_op (below ts) (below_ino ts) indir tib s) (\<lambda>(r, s).
            if r <s 0 then panic ''treedisk_write: indirect block''
            else grow_levels ts nlevels_after (nlevels + 1) snapshot s))
      else Inr (snapshot, s))"
  by pat_completeness auto
termination
  by (relation "measure (\<lambda>(ts, after, nlevels, sn, s). unat after - unat nlevels)")
    (auto simp: unat_plus_one_less word_less_nat_alt)

text \<open>
  The walk of \<open>treedisk_write\<close>. \<open>parent_no\<close> points at reference \<open>pidx\<close> of the
  buffer \<open>parent_block\<close>, which belongs at block \<open>parent_off\<close> of the store below: the inode
  block first, then the indirect block last loaded. The result is the data block to write.
\<close>

function write_walk ::
  "'s treedisk_state \<Rightarrow> block_no \<Rightarrow> u32 \<Rightarrow> block \<Rightarrow> nat \<Rightarrow> block_no \<Rightarrow> treedisk_snapshot \<Rightarrow> 's
     \<Rightarrow> (block_no \<times> 's) res" where
  "write_walk ts offset nlevels parent_block pidx parent_off snapshot s =
     (let b = refs parent_block pidx in
      bindr
        (if b = 0 then
           bindr (treedisk_alloc_block ts snapshot s) (\<lambda>(b, snapshot, s).
             bindr (write_op (below ts) (below_ino ts) parent_off
                      (set_ref parent_block pidx b) s) (\<lambda>(r, s).
               if r <s 0 then panic ''treedisk_write: parent''
               else Inr (b, null_block, snapshot, s)))
         else if nlevels = 0 then Inr (b, parent_block, snapshot, s)
         else bindr (read_op (below ts) (below_ino ts) b uninit_block s) (\<lambda>(r, tib, s).
           if r <s 0 then panic ''treedisk_write'' else Inr (b, tib, snapshot, s)))
        (\<lambda>(b, tib, snapshot, s).
           if nlevels = 0 then Inr (b, s)
           else write_walk ts offset (nlevels - 1) tib (ref_index ts offset (nlevels - 1)) b
                  snapshot s))"
  by pat_completeness auto
termination
  by (relation "measure (\<lambda>(ts, offset, nlevels, pb, pidx, poff, sn, s). unat nlevels)")
    (auto simp: unat_minus_one intro: unat_gt_0[THEN iffD2] simp flip: unat_gt_0)

definition treedisk_write ::
  "'s treedisk_state \<Rightarrow> u32 \<Rightarrow> block_no \<Rightarrow> block \<Rightarrow> 's \<Rightarrow> (i32 \<times> 's) res" where
  "treedisk_write ts ino offset block s =
     bindr (treedisk_get_snapshot ts ino s) (\<lambda>(sn, s).
       case sn of
         None \<Rightarrow> Inr (-1, s)
       | Some snapshot \<Rightarrow>
           let nblocks = inode_nblocks (inodeblock snapshot) (inode snapshot) in
           bindr (if nblocks > 0 then count_levels (log_rpb ts) (nblocks - 1) else Inr 0)
             (\<lambda>nlevels.
           bindr (if offset \<ge> nblocks
                  then bindr (count_levels (log_rpb ts) offset) (\<lambda>after.
                    Inr (snapshot\<lparr>inodeblock := set_ref (inodeblock snapshot)
                           (2 * inode snapshot + 1) (offset + 1)\<rparr>, True, after))
                  else Inr (snapshot, False, nlevels))
             (\<lambda>(snapshot, dirty, nlevels_after).
           bindr (if inode_nblocks (inodeblock snapshot) (inode snapshot) = 0
                  then Inr (nlevels_after, snapshot, dirty, s)
                  else if nlevels_after > nlevels then
                    bindr (grow_levels ts nlevels_after nlevels snapshot s) (\<lambda>(snapshot, s).
                      Inr (nlevels_after, snapshot, True, s))
                  else Inr (nlevels, snapshot, dirty, s))
             (\<lambda>(nlevels, snapshot, dirty, s).
           bindr (if dirty then
                    bindr (write_op (below ts) (below_ino ts) (inode_blockno snapshot)
                             (inodeblock snapshot) s) (\<lambda>(r, s).
                      if r <s 0 then panic ''treedisk_write: inode block'' else Inr s)
                  else Inr s)
             (\<lambda>s.
           bindr (write_walk ts offset nlevels (inodeblock snapshot) (2 * inode snapshot)
                    (inode_blockno snapshot) snapshot s)
             (\<lambda>(b, s).
           bindr (write_op (below ts) (below_ino ts) b block s) (\<lambda>(r, s).
             if r <s 0 then panic ''treedisk_write: data block'' else Inr (0, s))))))))"

text \<open>\<open>do { log_rpb++; } while (((REFS_PER_BLOCK - 1) >> log_rpb) != 0)\<close>\<close>

partial_function (option) log_rpb_loop :: "u32 \<Rightarrow> u32 option" where
  "log_rpb_loop n =
     (let n = n + 1 in if drop_bit (unat n) (127 :: u32) \<noteq> 0 then log_rpb_loop n else Some n)"

text \<open>
  \<open>treedisk_init\<close> gets the current \<open>log_rpb\<close> and returns the state of the new
  store; the store's methods are the operations above on that state.
\<close>

definition treedisk_init :: "'s inode_store \<Rightarrow> u32 \<Rightarrow> u32 \<Rightarrow> 's treedisk_state res" where
  "treedisk_init bel bel_ino rpb =
     bindr (if rpb = 0
            then (case log_rpb_loop rpb of None \<Rightarrow> Inl Diverge | Some n \<Rightarrow> Inr n)
            else Inr rpb)
       (\<lambda>rpb. Inr \<lparr>below = bel, below_ino = bel_ino, ninodes = 0, log_rpb = rpb\<rparr>)"

definition treedisk_intf :: "'s treedisk_state \<Rightarrow> 's inode_store" where
  "treedisk_intf ts = \<lparr>getsize_op = treedisk_getsize ts, setsize_op = treedisk_setsize ts,
     read_op = treedisk_read ts, write_op = treedisk_write ts\<rparr>"

section \<open>Creating a treedisk\<close>

text \<open>The two inner loops of \<open>setup_freelist\<close> over \<open>freelist_data[i]\<close>.\<close>

function fill_refs :: "nat \<Rightarrow> block_no \<Rightarrow> block_no \<Rightarrow> block \<Rightarrow> nat \<times> block_no \<times> block" where
  "fill_refs i next_free nblocks data =
     (if i < REFS_PER_BLOCK \<and> next_free < nblocks
      then fill_refs (i + 1) (next_free + 1) nblocks (set_ref data i next_free)
      else (i, next_free, data))"
  by pat_completeness auto
termination
  by (relation "measure (\<lambda>(i, next_free, nblocks, data). REFS_PER_BLOCK - i)") auto

function zero_refs :: "nat \<Rightarrow> block \<Rightarrow> block" where
  "zero_refs i data =
     (if i < REFS_PER_BLOCK then zero_refs (i + 1) (set_ref data i 0) else data)"
  by pat_completeness auto
termination
  by (relation "measure (\<lambda>(i, data). REFS_PER_BLOCK - i)") auto

partial_function (option) setup_freelist_loop ::
  "'s inode_store \<Rightarrow> u32 \<Rightarrow> block_no \<Rightarrow> block_no \<Rightarrow> block_no \<Rightarrow> block \<Rightarrow> 's
     \<Rightarrow> (block_no \<times> 's) res option" where
  "setup_freelist_loop bel bel_ino next_free nblocks freelist_block data s =
     (if next_free < nblocks then
        let data = set_ref data 0 freelist_block;
            freelist_block = next_free;
            (i, next_free, data) = fill_refs 1 (next_free + 1) nblocks data;
            data = zero_refs i data in
        case write_op bel bel_ino freelist_block data s of
          Inl e \<Rightarrow> Some (Inl e)
        | Inr (r, s) \<Rightarrow>
            if r <s 0 then Some (panic ''treedisk_setup_freelist'')
            else setup_freelist_loop bel bel_ino next_free nblocks freelist_block data s
      else Some (Inr (freelist_block, s)))"

definition setup_freelist ::
  "'s inode_store \<Rightarrow> u32 \<Rightarrow> block_no \<Rightarrow> block_no \<Rightarrow> 's \<Rightarrow> (block_no \<times> 's) res" where
  "setup_freelist bel bel_ino next_free nblocks s =
     (case setup_freelist_loop bel bel_ino next_free nblocks 0 uninit_block s of
        None \<Rightarrow> Inl Diverge | Some r \<Rightarrow> r)"

text \<open>
  \<open>for (uint i = 1; i <= n_inodeblocks; i++)\<close> of \<open>treedisk_create\<close>, over the values
  of \<open>i\<close>; \<open>False\<close> is its early return -1.
\<close>

fun clear_inodeblocks ::
  "'s inode_store \<Rightarrow> u32 \<Rightarrow> block_no list \<Rightarrow> 's \<Rightarrow> (bool \<times> 's) res" where
  "clear_inodeblocks bel bel_ino [] s = Inr (True, s)"
| "clear_inodeblocks bel bel_ino (i # is) s =
     bindr (write_op bel bel_ino i null_block s) (\<lambda>(r, s).
       if r <s 0 then Inr (False, s) else clear_inodeblocks bel bel_ino is s)"

definition treedisk_create :: "'s inode_store \<Rightarrow> u32 \<Rightarrow> u32 \<Rightarrow> 's \<Rightarrow> (i32 \<times> 's) res" where
  "treedisk_create bel bel_ino n_inodes s =
     (let n_inodeblocks' = (n_inodes + INODES_PER_BLOCK - 1) div INODES_PER_BLOCK in
      bindr (getsize_op bel bel_ino s) (\<lambda>(nblocks, s).
      if nblocks < n_inodeblocks' + 2 then Inr (-1, s)
      else bindr (read_op bel bel_ino 0 uninit_block s) (\<lambda>(r, sb, s).
      if r <s 0 then Inr (-1, s)
      else if n_inodeblocks sb = 0 then
        bindr (setup_freelist bel bel_ino (n_inodeblocks' + 1) nblocks s) (\<lambda>(fl, s).
        bindr (write_op bel bel_ino 0 (set_free_list (put32 null_block 0 n_inodeblocks') fl) s)
          (\<lambda>(r, s).
        if r <s 0 then Inr (-1, s)
        else bindr (clear_inodeblocks bel bel_ino
                      (map of_nat [1 ..< Suc (unat n_inodeblocks')]) s) (\<lambda>(fine, s).
          Inr (if fine then 0 else -1, s))))
      else Inr (0, s))))"

declare read_walk.simps [simp del] grow_levels.simps [simp del] write_walk.simps [simp del]
  fill_refs.simps [simp del] zero_refs.simps [simp del]

end
