(* ===== verification/Servers.thy ===== *)
theory Servers
  imports Prog Print Terminal Disk Treedisk
begin

text \<open>
  The messages between applications and system servers (library/syscall/servers.h), the library
  functions that send them (library/syscall/servers.c, as applications use it), and the terminal
  and file servers (apps/system/sys_terminal.c, sys_file.c) with the disk of the file server.
\<close>

section \<open>Messages\<close>

definition PROC_SPAWN :: u32 where "PROC_SPAWN = 0"
definition PROC_EXIT :: u32 where "PROC_EXIT = 1"
definition PROC_KILLALL :: u32 where "PROC_KILLALL = 2"
definition CMD_OK :: u32 where "CMD_OK = 0"
definition CMD_ERROR :: u32 where "CMD_ERROR = 1"
definition TERM_INPUT :: u32 where "TERM_INPUT = 0"
definition TERM_OUTPUT :: u32 where "TERM_OUTPUT = 1"
definition FILE_READ :: u32 where "FILE_READ = 1"
definition FILE_WRITE :: u32 where "FILE_WRITE = 2"
definition FILE_OK :: u32 where "FILE_OK = 0"
definition FILE_ERROR :: u32 where "FILE_ERROR = 1"

abbreviation TERM_BUF_SIZE :: nat where "TERM_BUF_SIZE \<equiv> 512"

text \<open>The structs as bytes; a field that the code leaves uninitialized is \<open>uninit\<close>.\<close>

definition uninit :: "nat \<Rightarrow> u8 list" where
  "uninit n = replicate n 0"

definition proc_request :: "u32 \<Rightarrow> u32 \<Rightarrow> u8 list \<Rightarrow> u8 list" where
  "proc_request type argc argv = bytes32 type @ bytes32 argc @ argv"

definition proc_reply :: "u32 \<Rightarrow> u8 list" where
  "proc_reply type = bytes32 type"

definition term_request :: "u32 \<Rightarrow> u32 \<Rightarrow> u8 list \<Rightarrow> u8 list" where
  "term_request type len buf = bytes32 type @ bytes32 len @ buf"

definition term_reply :: "u32 \<Rightarrow> u8 list \<Rightarrow> u8 list" where
  "term_reply len buf = bytes32 len @ buf"

definition file_request :: "u32 \<Rightarrow> u32 \<Rightarrow> u32 \<Rightarrow> block \<Rightarrow> u8 list" where
  "file_request type ino offset blk = bytes32 type @ bytes32 ino @ bytes32 offset @ blk"

definition file_reply :: "u32 \<Rightarrow> block \<Rightarrow> u8 list" where
  "file_reply result blk = bytes32 result @ blk"

section \<open>Library functions of applications\<close>

definition exit :: "('s, 'a) prog" where
  "exit = bindp (send GPID_PROCESS (proc_request PROC_EXIT (get32 (uninit 4) 0) (uninit (CMD_NARGS * CMD_ARG_LEN)))) (\<lambda>_. Stop Diverge)"

definition sleep :: "u32 \<Rightarrow> ('s, unit) prog" where
  "sleep usec = Ret ()"

definition file_read :: "i32 \<Rightarrow> u32 \<Rightarrow> ('s, i32 \<times> block) prog" where
  "file_read file_ino offset =
     bindp (bindp (send GPID_FILE (file_request FILE_READ file_ino offset (uninit BLOCK_SIZE))) (\<lambda>_. receive GPID_FILE)) (\<lambda>(_, reply).
     Ret (if get32 reply 0 = FILE_OK then 0 else - 1, take BLOCK_SIZE (drop 4 reply)))"

text \<open>
  The loop of \<open>dir_lookup\<close> over the positions of the directory, up to the \<open>uint\<close> limit. Reading
  behind the array is undefined: the position itself, a name that agrees with the array up to its
  end, or the byte behind the name.
\<close>

function dir_loop :: "u8 list \<Rightarrow> u8 list \<Rightarrow> u32 \<Rightarrow> nat \<Rightarrow> i32 res" where
  "dir_loop buf name limit i =
     (if \<not> i < unat limit then Inr (- 1)
      else if length buf \<le> i then Inl (Undef ''dir_lookup'')
      else
        let namelen = length name; w = take namelen (drop i buf) in
        if length w < namelen \<and> w = take (length w) name then Inl (Undef ''dir_lookup'')
        else if w = name \<and> length buf \<le> i + namelen then Inl (Undef ''dir_lookup'')
        else if w = name \<and> buf ! (i + namelen) = 32 \<and> (i = 0 \<or> buf ! (i - 1) = 32)
        then atoi (drop (i + namelen) buf)
        else dir_loop buf name limit (i + 1))"
  by pat_completeness auto
termination by (relation "measure (\<lambda>(buf, name, limit, i). length buf - i)") auto

declare dir_loop.simps [simp del]

definition dir_find :: "u8 list \<Rightarrow> u8 list \<Rightarrow> i32 res" where
  "dir_find buf name =
     (if 0 \<notin> set buf then Inl (Undef ''strlen'')
      else dir_loop buf (cstr name) (of_nat (strlen buf) - of_nat (strlen name)) 0)"

definition dir_lookup :: "i32 \<Rightarrow> u8 list \<Rightarrow> ('s, i32) prog" where
  "dir_lookup dir_ino name = bindp (file_read dir_ino 0) (\<lambda>(_, buf). of_res (dir_find buf name))"

definition term_read_app :: "u8 list \<Rightarrow> u32 \<Rightarrow> ('s, u32 \<times> u8 list) prog" where
  "term_read_app buf len =
     bindp (bindp (send GPID_TERMINAL (term_request TERM_INPUT len (uninit TERM_BUF_SIZE))) (\<lambda>_. receive GPID_TERMINAL)) (\<lambda>(_, reply).
     let n = unat (get32 reply 0) in
     if length buf < n \<or> TERM_BUF_SIZE < n then Stop (Undef ''term_read'')
     else Ret (get32 reply 0, take n (drop 4 reply) @ drop n buf))"

definition term_write_app :: "u8 list \<Rightarrow> ('s, unit) prog" where
  "term_write_app s =
     (if TERM_BUF_SIZE < length s then Stop (Undef ''term_write'')
      else send GPID_TERMINAL (term_request TERM_OUTPUT (of_nat (length s)) (s @ uninit (TERM_BUF_SIZE - length s))))"

text \<open>Printing from an application.\<close>

definition printf_app :: "u8 list \<Rightarrow> va list \<Rightarrow> ('s, unit) prog" where
  "printf_app fmt args = bindp (of_res (my_printf fmt args)) term_write_app"

definition INFO_app :: "u8 list \<Rightarrow> va list \<Rightarrow> ('s, unit) prog" where
  "INFO_app fmt args = bindp (of_res (INFO fmt args)) term_write_app"

section \<open>The state that processes share\<close>

text \<open>
  The serial line, the disk, the kernel, the current directory of the shell, which lies in a page
  that no process maps, and the variables of GPID_PROCESS that outlive a round of its loop.
\<close>

record ('t, 'c) world =
  w_tty :: 't
  w_disk :: 'c
  w_kernel :: kernel
  workdir_ino :: i32
  workdir :: "u8 list"
  app_pid :: i32
  shell_waiting :: bool

definition on_tty :: "('t \<Rightarrow> ('a \<times> 't) res) \<Rightarrow> (('t, 'c) world, 'a) prog" where
  "on_tty f = act (\<lambda>w. bindr (f (w_tty w)) (\<lambda>(x, t). Inr (x, w\<lparr>w_tty := t\<rparr>)))"

definition on_disk :: "('c \<Rightarrow> ('a \<times> 'c) res) \<Rightarrow> (('t, 'c) world, 'a) prog" where
  "on_disk f = act (\<lambda>w. bindr (f (w_disk w)) (\<lambda>(x, c). Inr (x, w\<lparr>w_disk := c\<rparr>)))"

text \<open>Printing from a system server, which owns the serial line.\<close>

definition print_sys :: "'t tty \<Rightarrow> u8 list res \<Rightarrow> (('t, 'c) world, unit) prog" where
  "print_sys dev text = bindp (of_res text) (\<lambda>s. on_tty (\<lambda>t. bindr (term_write dev s t) (\<lambda>t. Inr ((), t))))"

section \<open>The terminal server\<close>

definition sys_terminal_init :: "'t tty \<Rightarrow> (('t, 'c) world, unit) prog" where
  "sys_terminal_init dev =
     bindp (print_sys dev (SUCCESS (str ''Enter kernel process GPID_TERMINAL'') [])) (\<lambda>_.
     send GPID_PROCESS (str ''Finish GPID_TERMINAL initialization'' @ [0]))"

text \<open>\<open>buf\<close> is the request and becomes the reply, whose text starts at offset 4.\<close>

definition sys_terminal :: "'t tty \<Rightarrow> i32 \<Rightarrow> u8 list \<Rightarrow> (('t, 'c) world, unit) prog" where
  "sys_terminal dev sender buf =
     (let type = get32 buf 0; len = get32 buf 4 in
      if of_nat TERM_BUF_SIZE < len then Stop (FATAL ''sys_terminal: request len %d>TERM_BUF_SIZE'')
      else if type = TERM_INPUT then
        bindp (on_tty (\<lambda>t. bindr (term_read dev (drop 4 buf) len t) (\<lambda>(n, rb, t).
                 Inr (term_reply (of_nat n) (take TERM_BUF_SIZE rb), t)))) (send sender)
      else if type = TERM_OUTPUT then
        on_tty (\<lambda>t. bindr (term_write dev (take (unat len) (drop 8 buf)) t) (\<lambda>t. Inr ((), t)))
      else Stop (FATAL ''sys_terminal: invalid request %d''))"

section \<open>The file server\<close>

text \<open>The disk under the file system: the part of the disk behind the executables.\<close>

definition fs_getsize :: "u32 \<Rightarrow> 'c \<Rightarrow> (i32 \<times> 'c) res" where
  "fs_getsize ino c = Inr (of_nat FILE_SYS_DISK_BLOCKS, c)"

definition fs_setsize :: "u32 \<Rightarrow> u32 \<Rightarrow> 'c \<Rightarrow> (i32 \<times> 'c) res" where
  "fs_setsize ino newsize c = Inl (FATAL ''cannot set size'')"

definition fs_read :: "(u32 \<Rightarrow> nat \<Rightarrow> 'c \<Rightarrow> (u8 list \<times> 'c) res) \<Rightarrow> u32 \<Rightarrow> u32 \<Rightarrow> block \<Rightarrow> 'c \<Rightarrow> (i32 \<times> block \<times> 'c) res" where
  "fs_read dread ino offset blk c =
     bindr (dread (of_nat FILE_SYS_DISK_START + offset) 1 c) (\<lambda>(b, c). Inr (0, b, c))"

definition fs_write :: "(u32 \<Rightarrow> nat \<Rightarrow> u8 list \<Rightarrow> 'c \<Rightarrow> 'c res) \<Rightarrow> u32 \<Rightarrow> u32 \<Rightarrow> block \<Rightarrow> 'c \<Rightarrow> (i32 \<times> 'c) res" where
  "fs_write dwrite ino offset blk c =
     bindr (dwrite (of_nat FILE_SYS_DISK_START + offset) 1 blk c) (\<lambda>c. Inr (0, c))"

definition fs_disk ::
  "(u32 \<Rightarrow> nat \<Rightarrow> 'c \<Rightarrow> (u8 list \<times> 'c) res) \<Rightarrow> (u32 \<Rightarrow> nat \<Rightarrow> u8 list \<Rightarrow> 'c \<Rightarrow> 'c res) \<Rightarrow> 'c inode_store" where
  "fs_disk dread dwrite =
     \<lparr>getsize_op = fs_getsize, setsize_op = fs_setsize, read_op = fs_read dread, write_op = fs_write dwrite\<rparr>"

text \<open>The file system that the server uses, treedisk: the state that \<open>treedisk_init\<close> makes and its methods.\<close>

definition fs_tree ::
  "(u32 \<Rightarrow> nat \<Rightarrow> 'c \<Rightarrow> (u8 list \<times> 'c) res) \<Rightarrow> (u32 \<Rightarrow> nat \<Rightarrow> u8 list \<Rightarrow> 'c \<Rightarrow> 'c res) \<Rightarrow> 'c treedisk_state" where
  "fs_tree dread dwrite = \<lparr>below = fs_disk dread dwrite, below_ino = 0, ninodes = 0, log_rpb = 7\<rparr>"

definition file_system ::
  "(u32 \<Rightarrow> nat \<Rightarrow> 'c \<Rightarrow> (u8 list \<times> 'c) res) \<Rightarrow> (u32 \<Rightarrow> nat \<Rightarrow> u8 list \<Rightarrow> 'c \<Rightarrow> 'c res) \<Rightarrow> 'c inode_store" where
  "file_system dread dwrite = treedisk_intf (fs_tree dread dwrite)"

definition sys_file_init :: "'t tty \<Rightarrow> (('t, 'c) world, unit) prog" where
  "sys_file_init dev =
     bindp (print_sys dev (SUCCESS (str ''Enter kernel process GPID_FILE'') [])) (\<lambda>_.
     send GPID_PROCESS (str ''Finish GPID_FILE initialization'' @ [0]))"

text \<open>\<open>buf\<close> is the request and becomes the reply: the block is read over it from offset 4 on.\<close>

definition sys_file :: "'c inode_store \<Rightarrow> i32 \<Rightarrow> u8 list \<Rightarrow> (('t, 'c) world, unit) prog" where
  "sys_file fs sender buf =
     (if get32 buf 0 = FILE_READ then
        bindp (on_disk (\<lambda>c.
          bindr (read_op fs (get32 buf 4) (get32 buf 8) (take BLOCK_SIZE (drop 4 buf)) c) (\<lambda>(r, blk, c).
          Inr (file_reply (if r = 0 then FILE_OK else FILE_ERROR) blk, c)))) (send sender)
      else Stop (FATAL ''sys_file: invalid request %d''))"

end
