(* ===== verification/Shell.thy ===== *)
theory Shell
  imports Servers
begin

text \<open>
  The shell (apps/system/sys_shell.c): splitting the command line into arguments, the built-in
  commands, starting applications and waiting for them, and the prompt.
\<close>

section \<open>Parsing a command\<close>

definition put_arg :: "u8 list \<Rightarrow> nat \<Rightarrow> nat \<Rightarrow> u8 \<Rightarrow> u8 list res" where
  "put_arg argv nargs idx c =
     (let k = CMD_ARG_LEN * nargs + idx in
      if k < length argv then Inr (argv[k := c]) else Inl (Undef ''parse_request''))"

text \<open>The loop over the characters, with the position in the current argument and the number of arguments before it.\<close>

fun parse_loop :: "u8 list \<Rightarrow> nat \<Rightarrow> nat \<Rightarrow> u8 list \<Rightarrow> (i32 \<times> nat \<times> nat \<times> u8 list) res" where
  "parse_loop [] idx nargs argv = Inr (0, idx, nargs, argv)"
| "parse_loop (c # cs) idx nargs argv =
     (if c \<noteq> 32 then
        bindr (put_arg argv nargs idx c) (\<lambda>argv.
        if CMD_ARG_LEN \<le> idx + 1 then Inr (- 1, idx + 1, nargs, argv) else parse_loop cs (idx + 1) nargs argv)
      else if idx \<noteq> 0 then
        bindr (put_arg argv nargs idx 0) (\<lambda>argv.
        if CMD_NARGS \<le> nargs + 1 then Inr (- 1, 0, nargs + 1, argv) else parse_loop cs 0 (nargs + 1) argv)
      else parse_loop cs idx nargs argv)"

text \<open>The result with the argument count, which is only set on success, and the arguments.\<close>

definition parse_request :: "u8 list \<Rightarrow> (i32 \<times> nat option \<times> u8 list) res" where
  "parse_request buf =
     bindr (parse_loop (cstr buf) 0 0 (replicate (CMD_NARGS * CMD_ARG_LEN) 0)) (\<lambda>(r, idx, nargs, argv).
     Inr (r, if r = 0 then Some (if idx \<noteq> 0 then nargs + 1 else nargs) else None, argv))"

section \<open>Executing a command\<close>

definition request :: "u32 \<Rightarrow> u32 \<Rightarrow> u8 list \<Rightarrow> ('s, unit) prog" where
  "request type argc argv = send GPID_PROCESS (proc_request type argc argv)"

definition shell_spawn :: "'t tty \<Rightarrow> nat \<Rightarrow> u8 list \<Rightarrow> (('t, 'c) world, unit) prog" where
  "shell_spawn dev argc argv =
     bindp (request PROC_SPAWN (of_nat argc) argv) (\<lambda>_.
     bindp (receive GPID_PROCESS) (\<lambda>(_, reply).
     if get32 reply 0 \<noteq> CMD_OK then print_sys dev (INFO (str ''sys_shell: command %s not found'') [VStr argv])
     else if argc = 0 then Stop (Undef ''sys_shell'')
     else if argv ! (CMD_ARG_LEN * (argc - 1)) \<noteq> 38 then bindp (receive GPID_PROCESS) (\<lambda>_. Ret ())
     else Ret ()))"

definition shell_exec :: "'t tty \<Rightarrow> u8 list \<Rightarrow> (('t, 'c) world, unit) prog" where
  "shell_exec dev buf =
     (if strcmp_eq buf (str ''coresinfo'') then Ret ()
      else if strcmp_eq buf (str ''killall'') then
        request PROC_KILLALL (get32 (uninit 4) 0) (uninit (CMD_NARGS * CMD_ARG_LEN))
      else if strcmp_eq buf (str ''clear'') then print_sys dev (my_printf (27 # str ''[1;1H'' @ 27 # str ''[2J'') [])
      else if strcmp_eq buf (str ''pwd'') then
        bindp (act (\<lambda>w. Inr (workdir w, w))) (\<lambda>path. print_sys dev (my_printf (str ''%s'' @ [10, 13]) [VStr path]))
      else
        bindp (of_res (parse_request buf)) (\<lambda>(r, argc, argv).
        case argc of
          None \<Rightarrow> print_sys dev (INFO (str ''sys_shell: too many arguments or argument too long'') [])
        | Some argc \<Rightarrow> shell_spawn dev argc argv))"

section \<open>The prompt\<close>

definition prompt :: "u8 list \<Rightarrow> u8 list res" where
  "prompt path =
     my_printf (27 # str ''[1;32m'' @ [0xE2, 0x9E, 0x9C] @ str '' '' @ 27 # str ''[1;36m%s'' @ 27 # str ''[1;0m '') [VStr path]"

text \<open>Print the prompt and read a line until it is not empty. The buffer has 256 bytes.\<close>

partial_function (option) shell_read_loop :: "'t tty \<Rightarrow> u8 list \<Rightarrow> u8 list \<Rightarrow> 't \<Rightarrow> (u8 list \<times> 't) res option" where
  "shell_read_loop dev path buf t =
     (case bindr (prompt path) (\<lambda>s. bindr (term_write dev s t) (\<lambda>t. term_read dev buf (of_nat TERM_BUF_SIZE) t)) of
        Inl e \<Rightarrow> Some (Inl e)
      | Inr (n, buf, t) \<Rightarrow> if n = 0 then shell_read_loop dev path buf t else Some (Inr (buf, t)))"

definition shell_read :: "'t tty \<Rightarrow> u8 list \<Rightarrow> (('t, 'c) world, u8 list) prog" where
  "shell_read dev buf =
     bindp (act (\<lambda>w. Inr (workdir w, w))) (\<lambda>path.
     on_tty (\<lambda>t. case shell_read_loop dev path buf t of None \<Rightarrow> Inl Diverge | Some r \<Rightarrow> r))"

text \<open>The beginning of \<open>main\<close> with the first contents of the buffer, and a round of its loop, from one
  command line to the next.\<close>

definition sys_shell_init :: "'t tty \<Rightarrow> (('t, 'c) world, u8 list) prog" where
  "sys_shell_init dev =
     bindp (print_sys dev (CRITICAL (str ''Welcome to the egos-2000 shell!'') [])) (\<lambda>_.
     Ret (str ''cd'' @ replicate 254 0))"

definition sys_shell :: "'t tty \<Rightarrow> u8 list \<Rightarrow> (('t, 'c) world, u8 list) prog" where
  "sys_shell dev buf = bindp (shell_exec dev buf) (\<lambda>_. shell_read dev buf)"

section \<open>What a command line means\<close>

text \<open>The words of a line; an argument in its 32 bytes; the arguments of a request.\<close>

function line_words :: "u8 list \<Rightarrow> u8 list list" where
  "line_words s =
     (let t = dropWhile (\<lambda>c. c = 32) s in
      if t = [] then [] else takeWhile (\<lambda>c. c \<noteq> 32) t # line_words (dropWhile (\<lambda>c. c \<noteq> 32) t))"
  by pat_completeness auto
termination
proof (relation "measure length", simp)
  fix s t :: "u8 list"
  assume t: "t = dropWhile (\<lambda>c. c = 32) s" "t \<noteq> []"
  then have "hd t \<noteq> 32" using hd_dropWhile[of "\<lambda>c. c = 32" s] by simp
  then have "length (dropWhile (\<lambda>c. c \<noteq> 32) t) < length t" using t(2) by (cases t) (auto intro: le_imp_less_Suc length_dropWhile_le)
  also have "\<dots> \<le> length s" unfolding t(1) by (rule length_dropWhile_le)
  finally show "(dropWhile (\<lambda>c. c \<noteq> 32) t, s) \<in> measure length" by simp
qed

declare line_words.simps [simp del]

definition pad_arg :: "u8 list \<Rightarrow> u8 list" where
  "pad_arg w = w @ replicate (CMD_ARG_LEN - length w) 0"

definition argv_of :: "u8 list list \<Rightarrow> u8 list" where
  "argv_of ws = concat (map pad_arg ws) @ replicate (CMD_ARG_LEN * (CMD_NARGS - length ws)) 0"

text \<open>The lines that the shell accepts: at most 16 words of at most 31 characters, and no blank behind the 16th.\<close>

definition line_ok :: "u8 list \<Rightarrow> bool" where
  "line_ok s \<longleftrightarrow>
     list_all (\<lambda>w. length w < CMD_ARG_LEN) (line_words s) \<and>
     (length (line_words s) < CMD_NARGS \<or> length (line_words s) = CMD_NARGS \<and> last s \<noteq> 32)"

text \<open>The words from a position on, given the beginning of the current word.\<close>

fun words_from :: "u8 list \<Rightarrow> u8 list \<Rightarrow> u8 list list" where
  "words_from cur [] = (if cur = [] then [] else [cur])"
| "words_from cur (c # s) =
     (if c \<noteq> 32 then words_from (cur @ [c]) s else if cur \<noteq> [] then cur # words_from [] s else words_from [] s)"

lemma line_words_Nil: "line_words [] = []"
  by (subst line_words.simps) simp

lemma line_words_blank: "line_words (32 # s) = line_words s"
  by (simp add: line_words.simps[of "32 # s"] line_words.simps[of s])

lemma line_words_word: "cur \<noteq> [] \<Longrightarrow> 32 \<notin> set cur \<Longrightarrow> s = [] \<or> hd s = 32 \<Longrightarrow> line_words (cur @ s) = cur # line_words s"
proof -
  assume a: "cur \<noteq> []" "32 \<notin> set cur" "s = [] \<or> hd s = 32"
  have d: "dropWhile (\<lambda>c. c = 32) (cur @ s) = cur @ s" using a(1,2) by (cases cur) auto
  have t: "takeWhile (\<lambda>c. c \<noteq> 32) (cur @ s) = cur" "dropWhile (\<lambda>c. c \<noteq> 32) (cur @ s) = s"
    using a(2,3) by (induction cur; cases s; simp)+
  show ?thesis using a(1) by (subst line_words.simps) (simp add: d t Let_def)
qed

lemma words_from: "32 \<notin> set cur \<Longrightarrow> words_from cur s = line_words (cur @ s)"
proof (induction cur s rule: words_from.induct)
  case (1 cur)
  then show ?case using line_words_word[of cur "[]"] line_words_Nil by simp
next
  case (2 cur c s)
  then show ?case using line_words_word[of cur "32 # s"] line_words_blank[of s] by auto
qed

end
