(* ===== verification/Shell_Correct.thy ===== *)
theory Shell_Correct
  imports Shell
begin

text \<open>
  What the shell makes of a command line.
\<close>

lemma length_pad_arg [simp]: "length w \<le> CMD_ARG_LEN \<Longrightarrow> length (pad_arg w) = CMD_ARG_LEN"
  by (simp add: pad_arg_def)

lemma length_pad_args: "list_all (\<lambda>w. length w \<le> CMD_ARG_LEN) ws \<Longrightarrow> length (concat (map pad_arg ws)) = CMD_ARG_LEN * length ws"
  by (induction ws) simp_all

lemma argv_of_blank: "length ds < CMD_NARGS \<Longrightarrow> argv_of (ds @ [[]]) = argv_of ds"
proof -
  assume "length ds < CMD_NARGS"
  then have "CMD_NARGS - length ds = Suc (CMD_NARGS - Suc (length ds))" by simp
  then have "CMD_ARG_LEN * (CMD_NARGS - length ds) = CMD_ARG_LEN + CMD_ARG_LEN * (CMD_NARGS - Suc (length ds))" by simp
  then show ?thesis by (simp add: argv_of_def pad_arg_def replicate_add)
qed

lemma length_argv_of:
  assumes "list_all (\<lambda>w. length w \<le> CMD_ARG_LEN) ws" "length ws \<le> CMD_NARGS"
  shows "length (argv_of ws) = CMD_NARGS * CMD_ARG_LEN"
  using length_pad_args[OF assms(1)] assms(2) by (simp add: argv_of_def)

text \<open>One character more in the current argument, and its NUL.\<close>

lemma put_arg_char:
  assumes "list_all (\<lambda>w. length w \<le> CMD_ARG_LEN) ds" "length ds < CMD_NARGS" "length cur < CMD_ARG_LEN"
  shows "put_arg (argv_of (ds @ [cur])) (length ds) (length cur) c = Inr (argv_of (ds @ [cur @ [c]]))"
    "put_arg (argv_of (ds @ [cur])) (length ds) (length cur) 0 = Inr (argv_of (ds @ [cur]))"
proof -
  let ?a = "concat (map pad_arg ds)" and ?z = "replicate (CMD_ARG_LEN * (CMD_NARGS - Suc (length ds))) 0"
  let ?k = "CMD_ARG_LEN * length ds + length cur"
  have l: "length ?a = CMD_ARG_LEN * length ds" by (rule length_pad_args[OF assms(1)])
  obtain j where j: "CMD_ARG_LEN - length cur = Suc j" using assms(3) by (cases "CMD_ARG_LEN - length cur") auto
  then have e: "argv_of (ds @ [cur]) = (?a @ cur) @ 0 # replicate j 0 @ ?z" by (simp add: argv_of_def pad_arg_def)
  have k: "?k = length (?a @ cur)" using l by simp
  have lt: "?k < length (argv_of (ds @ [cur]))" unfolding e k by simp
  have "(argv_of (ds @ [cur]))[?k := c] = (?a @ cur) @ c # replicate j 0 @ ?z" unfolding e k by (rule list_update_length)
  also have "\<dots> = argv_of (ds @ [cur @ [c]])" using j by (simp add: argv_of_def pad_arg_def)
  finally show "put_arg (argv_of (ds @ [cur])) (length ds) (length cur) c = Inr (argv_of (ds @ [cur @ [c]]))"
    using lt by (simp add: put_arg_def)
  have "(argv_of (ds @ [cur]))[?k := 0] = argv_of (ds @ [cur])" unfolding e k by (rule list_update_length)
  then show "put_arg (argv_of (ds @ [cur])) (length ds) (length cur) 0 = Inr (argv_of (ds @ [cur]))"
    using lt by (simp add: put_arg_def)
qed

lemma words_from_prefix: "cur \<noteq> [] \<Longrightarrow> \<exists>r ws. words_from cur s = (cur @ r) # ws"
proof (induction s arbitrary: cur)
  case (Cons c s)
  then show ?case using Cons.IH[of "cur @ [c]"] by auto
qed simp

lemma words_from_Nil: "words_from [] s = [] \<Longrightarrow> s = [] \<or> last s = 32"
proof (induction s)
  case (Cons c s)
  have "c = 32" using Cons.prems words_from_prefix[of "[c]" s] by (auto split: if_splits)
  then show ?case using Cons by auto
qed simp

definition words_ok :: "nat \<Rightarrow> u8 list \<Rightarrow> u8 list \<Rightarrow> bool" where
  "words_ok n cur s \<longleftrightarrow>
     list_all (\<lambda>w. length w < CMD_ARG_LEN) (words_from cur s) \<and>
     (n + length (words_from cur s) < CMD_NARGS \<or> n + length (words_from cur s) = CMD_NARGS \<and> last (cur @ s) \<noteq> 32)"

text \<open>The loop from the argument \<open>cur\<close> on that follows the arguments \<open>ds\<close>.\<close>

lemma parse_loop_words:
  assumes "list_all (\<lambda>w. length w \<le> CMD_ARG_LEN) ds" "length ds < CMD_NARGS" "length cur < CMD_ARG_LEN" "32 \<notin> set cur"
  shows "if words_ok (length ds) cur s
    then \<exists>idx nargs. parse_loop s (length cur) (length ds) (argv_of (ds @ [cur])) = Inr (0, idx, nargs, argv_of (ds @ words_from cur s)) \<and>
      (if idx \<noteq> 0 then nargs + 1 else nargs) = length ds + length (words_from cur s)
    else \<exists>idx nargs argv. parse_loop s (length cur) (length ds) (argv_of (ds @ [cur])) = Inr (- 1, idx, nargs, argv) \<and>
      length argv = CMD_NARGS * CMD_ARG_LEN"
  using assms
proof (induction s arbitrary: ds cur)
  case Nil
  then have "cur \<noteq> [] \<Longrightarrow> last cur \<noteq> 32" by (metis last_in_set)
  then show ?case using Nil argv_of_blank[of ds] by (auto simp: words_ok_def)
next
  case (Cons c s)
  note put = put_arg_char[OF Cons.prems(1-3)]
  consider "c \<noteq> 32" | "c = 32" "cur \<noteq> []" | "c = 32" "cur = []" by blast
  then show ?case
  proof cases
    case 1
    show ?thesis
    proof (cases "CMD_ARG_LEN \<le> length cur + 1")
      case True
      obtain r ws where "words_from (cur @ [c]) s = (cur @ [c] @ r) # ws" using words_from_prefix[of "cur @ [c]" s] by auto
      then have "\<not> words_ok (length ds) cur (c # s)" using 1 True by (auto simp: words_ok_def)
      moreover have "length (argv_of (ds @ [cur @ [c]])) = CMD_NARGS * CMD_ARG_LEN"
        by (rule length_argv_of) (use Cons.prems in simp_all)
      ultimately show ?thesis using 1 True put(1) by simp
    next
      case False
      have loop: "parse_loop (c # s) (length cur) (length ds) (argv_of (ds @ [cur])) =
          parse_loop s (length (cur @ [c])) (length ds) (argv_of (ds @ [cur @ [c]]))" using False 1 put(1) by simp
      have w: "words_from cur (c # s) = words_from (cur @ [c]) s" using 1 by simp
      then have ok: "words_ok (length ds) cur (c # s) = words_ok (length ds) (cur @ [c]) s" by (simp add: words_ok_def)
      show ?thesis unfolding loop w ok by (rule Cons.IH) (use Cons.prems False 1 in simp_all)
    qed
  next
    case 2
    show ?thesis
    proof (cases "CMD_NARGS \<le> length ds + 1")
      case True
      then have n: "length ds + 1 = CMD_NARGS" using Cons.prems(2) by simp
      have "\<not> words_ok (length ds) cur (c # s)" using 2 n words_from_Nil[of s] by (auto simp: words_ok_def)
      moreover have "length (argv_of (ds @ [cur])) = CMD_NARGS * CMD_ARG_LEN"
        by (rule length_argv_of) (use Cons.prems in simp_all)
      ultimately show ?thesis using 2 True put(2) by simp
    next
      case False
      have a: "argv_of ((ds @ [cur]) @ [[]]) = argv_of (ds @ [cur])" by (rule argv_of_blank) (use False in simp)
      have loop: "parse_loop (c # s) (length cur) (length ds) (argv_of (ds @ [cur])) =
          parse_loop s (length ([] :: u8 list)) (length (ds @ [cur])) (argv_of ((ds @ [cur]) @ [[]]))" using False 2 put(2) a by simp
      have w: "ds @ words_from cur (c # s) = (ds @ [cur]) @ words_from [] s"
        "length ds + length (words_from cur (c # s)) = length (ds @ [cur]) + length (words_from [] s)" using 2 by simp_all
      have l: "last (cur @ 32 # s) = last (32 # s)" by simp
      have ok: "words_ok (length ds) cur (c # s) = words_ok (length (ds @ [cur])) [] s"
        using 2 False Cons.prems(2,3) by (auto simp: words_ok_def l)
      show ?thesis unfolding loop w ok by (rule Cons.IH) (use Cons.prems False in simp_all)
    qed
  next
    case 3
    have ok: "words_ok (length ds) cur (c # s) = words_ok (length ds) cur s"
      using 3 Cons.prems(2) by (auto simp: words_ok_def)
    have loop: "parse_loop (c # s) (length cur) (length ds) (argv_of (ds @ [cur])) =
        parse_loop s (length cur) (length ds) (argv_of (ds @ [cur]))" "words_from cur (c # s) = words_from cur s"
      using 3 by simp_all
    show ?thesis unfolding loop ok by (rule Cons.IH[OF Cons.prems])
  qed
qed

text \<open>C10: The shell splits a command line into its words. A line is accepted exactly if no word has more
  than 31 characters and there are at most 15 words, or 16 words with no blank behind the last one. For
  such a line the request has the number of words, and its arguments are exactly the words, each in its
  32 bytes and ended by a NUL, with zeros behind the last one. Every other line is refused with -1;
  these are the lines with a word that is too long, those with more than 16 words, and also those with
  16 words and a blank behind them, which would fit. No byte outside the 512 bytes of the arguments is
  written in either case.\<close>

theorem parse_request_words:
  "if line_ok (cstr buf)
   then parse_request buf = Inr (0, Some (length (line_words (cstr buf))), argv_of (line_words (cstr buf)))
   else \<exists>argv. parse_request buf = Inr (- 1, None, argv) \<and> length argv = CMD_NARGS * CMD_ARG_LEN"
proof -
  have w: "words_from [] (cstr buf) = line_words (cstr buf)" using words_from[of "[]"] by simp
  have ok: "words_ok 0 [] (cstr buf) = line_ok (cstr buf)" by (simp add: words_ok_def line_ok_def w)
  have "argv_of [[]] = replicate (CMD_NARGS * CMD_ARG_LEN) 0" by (simp add: argv_of_def pad_arg_def replicate_add[symmetric])
  with parse_loop_words[of "[]" "[]" "cstr buf"] w ok show ?thesis
    by (auto simp: parse_request_def split: if_splits)
qed

end
