(* ===== verification/Shell_Read.thy ===== *)
theory Shell_Read
  imports Shell_Correct
begin

text \<open>
  The prompt of the shell: it is printed and a line is read until the line is not empty. The buffer
  of the shell has 256 bytes, half of what \<open>term_read\<close> is told.
\<close>

lemma prompt_text:
  assumes "length (cstr path) \<le> 400"
  shows "\<exists>s. prompt path = Inr s"
proof -
  let ?f = "27 # str ''[1;32m'' @ [0xE2, 0x9E, 0x9C] @ str '' '' @ 27 # str ''[1;36m%s'' @ 27 # str ''[1;0m ''"
  have i: "items ?f = Some (map Lit (27 # str ''[1;32m'' @ [0xE2, 0x9E, 0x9C] @ str '' '' @ 27 # str ''[1;36m'') @ Dir 115 # map Lit (27 # str ''[1;0m ''))"
    by (simp add: str_def)
  have "fmt_type ?f = Some [TStr]" "length (render ?f [VStr path]) = 25 + length (cstr path)" "0 \<notin> set ?f"
    unfolding fmt_type_def render_def i by (simp_all add: str_def)
  then show ?thesis
    using LOG_typed[of ?f "[TStr]" "[VStr path]" "[]" "[]" "[]"] assms by (auto simp: prompt_def my_printf_def)
qed

text \<open>Keys that stay within \<open>n\<close> characters while they are typed.\<close>

definition typed :: "nat \<Rightarrow> u8 list \<Rightarrow> bool" where
  "typed n keys \<longleftrightarrow> list_all key_ok keys \<and> (\<forall>ks. prefix ks keys \<longrightarrow> length (edited ks) < n)"

context tty_device
begin

text \<open>One round: the prompt, and a line.\<close>

lemma shell_read_round:
  assumes "coming u = keys @ 0x0d # rest" "typed 256 keys" "length buf = 256" "length (cstr path) \<le> 400"
  obtains n buf' u' where "bindr (prompt path) (\<lambda>s. bindr (term_write dev s u) (\<lambda>t. term_read dev buf (of_nat TERM_BUF_SIZE) t)) = Inr (n, buf', u')"
    "n = 0 \<longleftrightarrow> edited keys = []" "cstr buf' = edited keys" "length buf' = 256" "coming u' = rest"
proof -
  obtain s where s: "prompt path = Inr s" using prompt_text[OF assms(4)] by blast
  obtain u1 where u1: "term_write dev s u = Inr u1" "coming u1 = coming u" using term_write_written by blast
  have k: "list_all key_ok keys" and p: "length (edited ks) < min (unat (of_nat TERM_BUF_SIZE - 1 :: u32)) (length buf)" if "prefix ks keys" for ks
    using assms(2,3) that by (auto simp: typed_def)
  obtain n buf' u' where "term_read dev buf (of_nat TERM_BUF_SIZE) u1 = Inr (n, buf', u')"
    "n = (if edited keys = [] then 0 else length (edited keys) + 1)" "cstr buf' = edited keys" "length buf' = length buf" "coming u' = rest"
    by (rule term_read_line[OF assms(1)[folded u1(2)] k[OF prefix_order.refl] p]) auto
  then show thesis using that[of n buf' u'] s u1(1) assms(3) by auto
qed

lemma shell_read_loop_line:
  assumes "coming u = concat (map (\<lambda>ks. ks @ [0x0d]) blanks) @ keys @ 0x0d # rest" "list_all (typed 256) (keys # blanks)"
    and "list_all (\<lambda>ks. edited ks = []) blanks" "edited keys \<noteq> []" "length buf = 256" "length (cstr path) \<le> 400"
  shows "\<exists>buf' u'. shell_read_loop dev path buf u = Some (Inr (buf', u')) \<and> cstr buf' = edited keys \<and> length buf' = 256 \<and> coming u' = rest"
  using assms
proof (induction blanks arbitrary: buf u)
  case Nil
  have c: "coming u = keys @ 0x0d # rest" and k: "typed 256 keys" using Nil(1,2) by simp_all
  obtain n buf' u' where r: "bindr (prompt path) (\<lambda>s. bindr (term_write dev s u) (\<lambda>t. term_read dev buf (of_nat TERM_BUF_SIZE) t)) = Inr (n, buf', u')"
    "n = 0 \<longleftrightarrow> edited keys = []" "cstr buf' = edited keys" "length buf' = 256" "coming u' = rest"
    by (rule shell_read_round[OF c k Nil(5,6)])
  then show ?case using Nil(4) by (subst shell_read_loop.simps) simp
next
  case (Cons b blanks)
  let ?more = "concat (map (\<lambda>ks. ks @ [0x0d]) blanks) @ keys @ 0x0d # rest"
  have c: "coming u = b @ 0x0d # ?more" and k: "typed 256 b" and e: "edited b = []" using Cons.prems(1-3) by simp_all
  obtain n buf' u' where r: "bindr (prompt path) (\<lambda>s. bindr (term_write dev s u) (\<lambda>t. term_read dev buf (of_nat TERM_BUF_SIZE) t)) = Inr (n, buf', u')"
    "n = 0 \<longleftrightarrow> edited b = []" "length buf' = 256" "coming u' = ?more"
    by (rule shell_read_round[OF c k Cons.prems(5,6)])
  have "shell_read_loop dev path buf u = shell_read_loop dev path buf' u'" using r(1,2) e by (subst shell_read_loop.simps) simp
  then show ?case using Cons.IH[OF r(4) _ _ Cons.prems(4) r(3) Cons.prems(6)] Cons.prems(2,3) by simp
qed

text \<open>A line that is too long is written behind the buffer.\<close>

lemma term_loop_overrun:
  assumes "coming u = keys @ rest" "list_all key_ok keys" "0x7f \<notin> set keys" "i \<le> length buf" "length buf < i + length keys"
    and "length buf < unat (len - 1)"
  shows "term_loop dev len i buf u = Some (Inl (Undef ''term_read''))"
  using assms
proof (induction keys arbitrary: u i buf)
  case (Cons k keys)
  show ?case
  proof (cases "i = length buf")
    case True
    obtain u1 where "tty_read_op dev u = Inr (k, u1)" using read_input[of u k "keys @ rest"] Cons.prems(1) by auto
    then show ?thesis using True Cons.prems(6) by (subst term_loop.simps) simp
  next
    case False
    have k: "key_ok k" "k \<noteq> 0x7f" and i: "i < unat (len - 1)" "i < length buf" using Cons.prems(2-4,6) False by auto
    have "coming u = k # (keys @ rest)" using Cons.prems(1) by simp
    from term_loop_key[OF this k(1) i] k(2) obtain u' where
      "term_loop dev len i buf u = term_loop dev len (i + 1) (buf[i := k]) u'" "coming u' = keys @ rest" by auto
    then show ?thesis using Cons.IH[of u' "i + 1" "buf[i := k]"] Cons.prems(2,3,5,6) i(2) by simp
  qed
qed simp

end

text \<open>C11: The shell gets its command lines. When the user types any number of lines that are empty after
  editing and then one that is not, and none of them ever gets longer than 255 characters, then the loop
  around the prompt ends, the shell's buffer of 256 bytes holds the last of the lines, edited, as a C
  string, and what was typed behind it is left.\<close>

theorem shell_reads_line:
  assumes "uart plat hw rx tx busy" "rx u = concat (map (\<lambda>ks. ks @ [0x0d]) blanks) @ keys @ 0x0d # rest"
    and "list_all (typed 256) (keys # blanks)" "list_all (\<lambda>ks. edited ks = []) blanks" "edited keys \<noteq> []"
    and "length buf = 256" "length (cstr path) \<le> 400"
  shows "\<exists>buf' u'. shell_read_loop (tty_init plat hw) path buf u = Some (Inr (buf', u')) \<and>
     cstr buf' = edited keys \<and> length buf' = 256 \<and> rx u' = rest"
  by (rule tty_device.shell_read_loop_line[OF uart_tty_device[OF assms(1)] assms(2-)])

theorem shell_reads_line_witness:
  "\<exists>buf' u'. shell_read_loop (tty_init QEMU uart_sim_hw) (str ''/home/yunhao'') (replicate 256 0)
       \<lparr>sim_rx = [0x0d] @ str ''x'' @ [0x7f, 0x0d] @ str ''ls'' @ [0x0d] @ str ''cd'', sim_tx = [], sim_busy = 4\<rparr> = Some (Inr (buf', u')) \<and>
     cstr buf' = str ''ls'' \<and> sim_rx u' = str ''cd''"
proof -
  let ?u = "\<lparr>sim_rx = [0x0d] @ str ''x'' @ [0x7f, 0x0d] @ str ''ls'' @ [0x0d] @ str ''cd'', sim_tx = [], sim_busy = 4\<rparr>"
  let ?blanks = "[[], str ''x'' @ [0x7f]]"
  have rx: "sim_rx ?u = concat (map (\<lambda>ks. ks @ [0x0d]) ?blanks) @ str ''ls'' @ 0x0d # str ''cd''" by simp
  have t: "typed 256 ks" if "list_all key_ok ks" "length ks < 100" for ks
  proof -
    have "length (edited p) < 256" if "prefix p ks" for p
      using prefix_length_le[OF that] length_edited[of p] \<open>length ks < 100\<close> by simp
    then show ?thesis using \<open>list_all key_ok ks\<close> by (simp add: typed_def)
  qed
  have l: "list_all (typed 256) (str ''ls'' # ?blanks)"
    using t[of "str ''ls''"] t[of "[]"] t[of "str ''x'' @ [0x7f]"] by (simp add: key_ok_def str_def)
  have e: "edited (str ''ls'') = str ''ls''" "edited (str ''x'' @ [0x7f]) = []" "edited [] = []"
    by (simp_all add: edited_def edit_def str_def)
  have b: "list_all (\<lambda>ks. edited ks = []) ?blanks" "edited (str ''ls'') \<noteq> []"
    unfolding e(1) by (simp only: list.pred_inject e simp_thms) (simp add: str_def)
  have p: "length (cstr (str ''/home/yunhao'')) \<le> 400" by (simp add: cstr_def str_def)
  have "length (replicate 256 (0 :: u8)) = 256" by simp
  note r = shell_reads_line[where blanks = ?blanks and keys = "str ''ls''" and rest = "str ''cd''" and u = ?u, OF uart_sim rx l b this p]
  show ?thesis using r unfolding e(1) by blast
qed

text \<open>The 257th character of a line is written behind the buffer of the shell.\<close>

lemma shell_line_overrun:
  assumes "uart plat hw rx tx busy" "rx u = keys @ rest" "list_all key_ok keys" "0x7f \<notin> set keys" "256 < length keys"
    and "length buf = 256" "length (cstr path) \<le> 400"
  shows "shell_read_loop (tty_init plat hw) path buf u = Some (Inl (Undef ''term_read''))"
proof -
  note tty = uart_tty_device[OF assms(1)]
  obtain s where s: "prompt path = Inr s" using prompt_text[OF assms(7)] by blast
  obtain u1 where u1: "term_write (tty_init plat hw) s u = Inr u1" "rx u1 = keys @ rest"
    using tty_device.term_write_written[OF tty, of s u] assms(2) by auto
  have "term_loop (tty_init plat hw) (of_nat TERM_BUF_SIZE) 0 buf u1 = Some (Inl (Undef ''term_read''))"
    by (rule tty_device.term_loop_overrun[OF tty u1(2) assms(3,4)]) (use assms(5,6) in simp_all)
  then show ?thesis by (subst shell_read_loop.simps) (simp add: s u1(1) term_read_def)
qed

end
