(* ===== verification/Apps.thy ===== *)
theory Apps
  imports Servers
begin

text \<open>
  The user applications cat, cd, echo, loop and ls (apps/user). The arguments of \<open>main\<close> are the
  argument count and the list of the argument strings, which lie in the argument page one behind
  another; \<open>argv ! i\<close> for an \<open>i\<close> at or behind \<open>argc\<close> is the empty string of an unused argument.
\<close>

definition arg :: "u8 list list \<Rightarrow> nat \<Rightarrow> u8 list" where
  "arg argv i = (if i < length argv then argv ! i else [])"

definition get_world :: "(('t, 'c) world \<Rightarrow> 'a) \<Rightarrow> (('t, 'c) world, 'a) prog" where
  "get_world f = act (\<lambda>w. Inr (f w, w))"

definition put_world :: "(('t, 'c) world \<Rightarrow> ('t, 'c) world) \<Rightarrow> (('t, 'c) world, unit) prog" where
  "put_world f = act (\<lambda>w. Inr ((), f w))"

primrec for_prog :: "'x list \<Rightarrow> ('x \<Rightarrow> ('s, unit) prog) \<Rightarrow> ('s, unit) prog" where
  "for_prog [] f = Ret ()"
| "for_prog (x # xs) f = bindp (f x) (\<lambda>_. for_prog xs f)"

text \<open>apps/app.s: \<open>main\<close>, then \<open>exit\<close>.\<close>

definition app_entry :: "(nat \<Rightarrow> u8 list list \<Rightarrow> ('s, i32) prog) \<Rightarrow> nat \<Rightarrow> u8 list list \<Rightarrow> ('s, unit) prog" where
  "app_entry main argc argv = bindp (main argc argv) (\<lambda>_. exit)"

section \<open>echo\<close>

definition echo_main :: "nat \<Rightarrow> u8 list list \<Rightarrow> ('s, i32) prog" where
  "echo_main argc argv =
     bindp (for_prog [1 ..< argc] (\<lambda>i. printf_app (str ''%s '') [VStr (arg argv i)])) (\<lambda>_.
     bindp (printf_app [10, 13] []) (\<lambda>_. Ret 0))"

section \<open>cat\<close>

definition cat_main :: "nat \<Rightarrow> u8 list list \<Rightarrow> (('t, 'c) world, i32) prog" where
  "cat_main argc argv =
     (if argc \<noteq> 2 then bindp (INFO_app (str ''usage: cat [FILE]'') []) (\<lambda>_. Ret (- 1))
      else
        bindp (get_world workdir_ino) (\<lambda>dir_ino.
        bindp (dir_lookup dir_ino (arg argv 1)) (\<lambda>file_ino.
        if file_ino <s 0 then bindp (INFO_app (str ''cat: file %s not found'') [VStr (arg argv 1)]) (\<lambda>_. Ret (- 1))
        else
          bindp (file_read file_ino 0) (\<lambda>(_, buf).
          if 0 \<notin> set buf then Stop (Undef ''printf'')
          else
            bindp (printf_app (str ''%s'') [VStr buf]) (\<lambda>_.
            if strlen buf = 0 then Stop (Undef ''cat'')
            else bindp (if buf ! (strlen buf - 1) \<noteq> 10 then printf_app [10, 13] [] else Ret ()) (\<lambda>_. Ret 0))))))"

section \<open>ls\<close>

text \<open>The loop that blanks out the inode numbers.\<close>

definition ls_blank :: "u8 list \<Rightarrow> u8 list" where
  "ls_blank buf =
     fold (\<lambda>i b. if b ! (i - 1) = 32 \<and> 48 \<le> b ! i \<and> b ! i \<le> 57 then b[i := 32] else b) [1 ..< strlen buf] buf"

definition ls_main :: "nat \<Rightarrow> u8 list list \<Rightarrow> (('t, 'c) world, i32) prog" where
  "ls_main argc argv =
     (if 1 < argc then bindp (INFO_app (str ''ls: ls with args is not implemented'') []) (\<lambda>_. Ret (- 1))
      else
        bindp (get_world workdir_ino) (\<lambda>dir_ino.
        bindp (file_read dir_ino 0) (\<lambda>(_, buf).
        if 0 \<notin> set buf then Stop (Undef ''strlen'')
        else bindp (printf_app (str ''%s'' @ [10, 13]) [VStr (ls_blank buf)]) (\<lambda>_. Ret 0))))"

section \<open>cd\<close>

text \<open>
  The loop that removes the last component of the path, from the position \<open>len\<close> on; running past
  the beginning of the path is undefined.
\<close>

fun cd_up :: "u8 list \<Rightarrow> nat \<Rightarrow> (u8 list \<times> nat) res" where
  "cd_up path len =
     (if (if len < length path then path ! len else 0) = 47 then Inr (path, len)
      else case len of 0 \<Rightarrow> Inl (Undef ''cd'') | Suc n \<Rightarrow> cd_up (take len path) n)"

declare cd_up.simps [simp del]

text \<open>The new path; \<open>a\<close> ends with a slash.\<close>

definition cd_path :: "u8 list \<Rightarrow> u8 list \<Rightarrow> u8 list res" where
  "cd_path path a =
     (if strcmp_eq (str ''./'') a then Inr path
      else if strcmp_eq (str ''../'') a then
        bindr (cd_up path (length path)) (\<lambda>(path, len). Inr (if len \<noteq> 0 then take len path else path))
      else Inr ((if 1 < length path then path @ [47] else path) @ take (length a - 1) a))"

definition cd_enter :: "i32 \<Rightarrow> u8 list \<Rightarrow> (('t, 'c) world, i32) prog" where
  "cd_enter dir_ino a =
     bindp (put_world (\<lambda>w. w\<lparr>workdir_ino := dir_ino\<rparr>)) (\<lambda>_.
     bindp (get_world workdir) (\<lambda>path.
     bindp (of_res (cd_path path a)) (\<lambda>path.
     bindp (put_world (\<lambda>w. w\<lparr>workdir := path\<rparr>)) (\<lambda>_. Ret 0))))"

definition cd_main :: "nat \<Rightarrow> u8 list list \<Rightarrow> (('t, 'c) world, i32) prog" where
  "cd_main argc argv =
     (if argc = 1 then
        bindp (dir_lookup 0 (str ''home/'')) (\<lambda>home_ino.
        bindp (dir_lookup home_ino (str ''yunhao/'')) (\<lambda>ino.
        bindp (put_world (\<lambda>w. w\<lparr>workdir_ino := ino, workdir := str ''/home/yunhao''\<rparr>)) (\<lambda>_. Ret 0)))
      else if arg argv 1 = [] then Stop (Undef ''cd'')
      else
        let a = (if last (arg argv 1) \<noteq> 47 then arg argv 1 @ [47] else arg argv 1) in
        bindp (get_world workdir_ino) (\<lambda>d.
        bindp (dir_lookup d a) (\<lambda>dir_ino.
        if dir_ino = - 1 then bindp (INFO_app (str ''cd: directory %s not found'') [VStr a]) (\<lambda>_. Ret (- 1))
        else cd_enter dir_ino a)))"

section \<open>loop\<close>

text \<open>The loop compares its unsigned counter with the signed number; without arguments it runs forever.\<close>

definition loop_main :: "nat \<Rightarrow> u8 list list \<Rightarrow> ('s, i32) prog" where
  "loop_main argc argv =
     (if argc = 1 then Stop Diverge
      else bindp (of_res (atoi (arg argv 1))) (\<lambda>n.
           bindp (for_prog [0 ..< unat n] (\<lambda>i.
             if argc \<noteq> 1 \<and> argc \<noteq> 3 then printf_app (str ''loop #%d'' @ [10, 13]) [VInt (of_nat i)] else Ret ())) (\<lambda>_. Ret 0)))"

end
