(* ===== verification/Disk_Correct.thy ===== *)
theory Disk_Correct
  imports Disk
begin

text \<open>
  The disk driver against an SD card. What the driver relies on is the conversation that the SD
  specification describes for reading and writing a block in SPI mode; the theorems say that the
  driver then reads and writes exactly the blocks of the card.
\<close>

section \<open>The card\<close>

text \<open>
  Reading: while the card is busy it answers something else than \<open>0xFF\<close>; it accepts the six bytes
  of a command, answers \<open>0xFF\<close> for a while (less than 8000 times) and then its status; then comes
  a token, the data and two bytes of checksum.
\<close>

definition read_talk :: "'c xchg \<Rightarrow> u8 list \<Rightarrow> 'c \<Rightarrow> u8 list \<Rightarrow> 'c \<Rightarrow> bool" where
  "read_talk x cmd c data c' \<longleftrightarrow>
     (\<exists>busy r6 k wait crc. 0xFF \<notin> set busy \<and> length r6 = length cmd \<and> k < 8000 \<and> 0xFE \<notin> set wait \<and> length crc = 2 \<and>
        spi_send x (replicate (length busy) 0xFF @ [0xFF] @ cmd @ replicate k 0xFF @ [0xFF] @
            replicate (length wait) 0xFF @ [0xFF] @ replicate BLOCK_SIZE 0xFF @ [0xFF, 0xFF]) c =
          Inr (busy @ [0xFF] @ r6 @ replicate k 0xFF @ [0] @ wait @ [0xFE] @ data @ crc, c'))"

text \<open>Writing: the same up to the status; then the card takes the token, the data and the checksum, and acknowledges.\<close>

definition write_talk :: "'c xchg \<Rightarrow> u8 list \<Rightarrow> u8 list \<Rightarrow> 'c \<Rightarrow> 'c \<Rightarrow> bool" where
  "write_talk x cmd blk c c' \<longleftrightarrow>
     (\<exists>busy r6 k t u rs crc m ack. 0xFF \<notin> set busy \<and> length r6 = length cmd \<and> k < 8000 \<and> length rs = length blk \<and>
        length crc = 2 \<and> ack \<noteq> 0xFF \<and> ack AND 0x1F = 0x05 \<and>
        spi_send x (replicate (length busy) 0xFF @ [0xFF] @ cmd @ replicate k 0xFF @ [0xFF] @ [0xFF] @ [0xFE] @
            blk @ [0xFF, 0xFF] @ replicate m 0xFF @ [0xFF]) c =
          Inr (busy @ [0xFF] @ r6 @ replicate k 0xFF @ [0] @ [t] @ [u] @ rs @ crc @ replicate m 0xFF @ [ack], c'))"

definition sd_card :: "platform \<Rightarrow> 'c xchg \<Rightarrow> nat \<Rightarrow> ('c \<Rightarrow> bool) \<Rightarrow> ('c \<Rightarrow> u32 \<Rightarrow> block) \<Rightarrow> bool" where
  "sd_card plat x nblocks ready data \<longleftrightarrow>
     (\<forall>c k. ready c \<longrightarrow> unat k < nblocks \<longrightarrow> length (data c k) = BLOCK_SIZE \<and>
        (\<exists>c'. read_talk x (cmd_bytes 0x51 (card_offset plat k)) c (data c k) c' \<and> ready c' \<and> data c' = data c)) \<and>
     (\<forall>c k blk. ready c \<longrightarrow> unat k < nblocks \<longrightarrow> length blk = BLOCK_SIZE \<longrightarrow>
        (\<exists>c'. write_talk x (cmd_bytes 0x58 (card_offset plat k)) blk c c' \<and> ready c' \<and> data c' = (data c)(k := blk)))"

lemmas sd_cardD =
  sd_card_def[THEN iffD1, THEN conjunct1, rule_format, THEN conjunct1]
  sd_card_def[THEN iffD1, THEN conjunct1, rule_format, THEN conjunct2]
  sd_card_def[THEN iffD1, THEN conjunct2, rule_format]

section \<open>The driver\<close>

lemma spi_send_append:
  "spi_send x (a @ b) c = bindr (spi_send x a c) (\<lambda>(r, c). bindr (spi_send x b c) (\<lambda>(s, c). Inr (r @ s, c)))"
proof (induction a arbitrary: c)
  case (Cons y a)
  then show ?case by (auto simp: bindr_def split: sum.splits)
qed (auto simp: bindr_def split: sum.splits)

lemma length_spi_send: "spi_send x bs c = Inr (rs, c') \<Longrightarrow> length rs = length bs"
  by (induction bs arbitrary: c rs) (auto simp: bindr_eq_Inr)

lemma spi_send_appendE:
  assumes "spi_send x (a @ b) c = Inr (r @ s, c')" "length r = length a"
  obtains c1 where "spi_send x a c = Inr (r, c1)" "spi_send x b c1 = Inr (s, c')"
proof -
  obtain r1 c1 s1 where r: "spi_send x a c = Inr (r1, c1)" "spi_send x b c1 = Inr (s1, c')" "r @ s = r1 @ s1"
    using assms(1) by (auto simp: spi_send_append bindr_eq_Inr)
  have "r1 = r" "s1 = s" using r(3) assms(2) length_spi_send[OF r(1)] by simp_all
  then show thesis using that r by blast
qed

lemma exchange_until_found:
  assumes "spi_send x (replicate (length rs) 0xFF @ [0xFF]) c = Inr (rs @ [r], c')" "\<forall>y \<in> set rs. \<not> stop y" "stop r"
  shows "exchange_until x stop c = Inr (r, c')"
proof -
  have "exchange_loop x stop c = Some (Inr (r, c'))"
    using assms(1,2)
  proof (induction rs arbitrary: c)
    case Nil
    then show ?case using assms(3) by (subst exchange_loop.simps) (auto simp: bindr_eq_Inr)
  next
    case (Cons y rs)
    then show ?case by (subst exchange_loop.simps) (auto simp: bindr_eq_Inr)
  qed
  then show ?thesis by (simp add: exchange_until_def)
qed

lemma sd_reply_found:
  assumes "spi_send x (replicate k 0xFF @ [0xFF]) c = Inr (replicate k 0xFF @ [r], c')" "r \<noteq> 0xFF" "k < n"
  shows "sd_reply x n c = Inr (r, c')"
  using assms(1,3)
proof (induction k arbitrary: c n)
  case 0
  then show ?case using assms(2) by (cases n) (auto simp: bindr_eq_Inr)
next
  case (Suc k)
  then show ?case by (cases n) (auto simp: bindr_eq_Inr)
qed

lemma sd_exec_cmd_found:
  assumes "spi_send x cmd c = Inr (r6, c1)" "spi_send x (replicate k 0xFF @ [0xFF]) c1 = Inr (replicate k 0xFF @ [r], c')"
    and "r \<noteq> 0xFF" "k < 8000"
  shows "sd_exec_cmd x cmd c = Inr (r, c')"
  using assms(1) sd_reply_found[OF assms(2-4)] by (simp add: sd_exec_cmd_def)

lemma sd_read_talk:
  assumes "read_talk x (cmd_bytes 0x51 (card_offset plat k)) c data c'" "length data = BLOCK_SIZE"
  shows "sd_read plat x k c = Inr (data, c')"
proof -
  let ?cmd = "cmd_bytes 0x51 (card_offset plat k)"
  obtain busy r6 j wait crc where t: "0xFF \<notin> set busy" "length r6 = length ?cmd" "j < 8000" "0xFE \<notin> set wait" "length crc = 2"
    "spi_send x ((replicate (length busy) 0xFF @ [0xFF]) @ ?cmd @ (replicate j 0xFF @ [0xFF]) @
       (replicate (length wait) 0xFF @ [0xFF]) @ replicate BLOCK_SIZE 0xFF @ [0xFF, 0xFF]) c =
     Inr ((busy @ [0xFF]) @ r6 @ (replicate j 0xFF @ [0]) @ (wait @ [0xFE]) @ data @ crc, c')"
    using assms(1) by (auto simp: read_talk_def)
  obtain c1 where c1: "spi_send x (replicate (length busy) 0xFF @ [0xFF]) c = Inr (busy @ [0xFF], c1)"
    "spi_send x (?cmd @ (replicate j 0xFF @ [0xFF]) @
       (replicate (length wait) 0xFF @ [0xFF]) @ replicate BLOCK_SIZE 0xFF @ [0xFF, 0xFF]) c1 =
     Inr (r6 @ (replicate j 0xFF @ [0]) @ (wait @ [0xFE]) @ data @ crc, c')"
    by (rule spi_send_appendE[OF t(6)]) simp_all
  obtain c2 where c2: "spi_send x ?cmd c1 = Inr (r6, c2)"
    "spi_send x ((replicate j 0xFF @ [0xFF]) @ (replicate (length wait) 0xFF @ [0xFF]) @ replicate BLOCK_SIZE 0xFF @ [0xFF, 0xFF]) c2 =
     Inr ((replicate j 0xFF @ [0]) @ (wait @ [0xFE]) @ data @ crc, c')"
    by (rule spi_send_appendE[OF c1(2) t(2)])
  obtain c3 where c3: "spi_send x (replicate j 0xFF @ [0xFF]) c2 = Inr (replicate j 0xFF @ [0], c3)"
    "spi_send x ((replicate (length wait) 0xFF @ [0xFF]) @ replicate BLOCK_SIZE 0xFF @ [0xFF, 0xFF]) c3 =
     Inr ((wait @ [0xFE]) @ data @ crc, c')"
    by (rule spi_send_appendE[OF c2(2)]) simp_all
  obtain c4 where c4: "spi_send x (replicate (length wait) 0xFF @ [0xFF]) c3 = Inr (wait @ [0xFE], c4)"
    "spi_send x (replicate BLOCK_SIZE 0xFF @ [0xFF, 0xFF]) c4 = Inr (data @ crc, c')"
    by (rule spi_send_appendE[OF c3(2)]) simp_all
  obtain c5 where c5: "spi_send x (replicate BLOCK_SIZE 0xFF) c4 = Inr (data, c5)" "spi_send x [0xFF, 0xFF] c5 = Inr (crc, c')"
    by (rule spi_send_appendE[OF c4(2)]) (simp_all add: assms(2))
  have "exchange_until x (\<lambda>r. r = 0xFF) c = Inr (0xFF, c1)" by (rule exchange_until_found[OF c1(1)]) (use t(1) in auto)
  moreover have "sd_exec_cmd x ?cmd c1 = Inr (0, c3)" by (rule sd_exec_cmd_found[OF c2(1) c3(1) _ t(3)]) simp
  moreover have "exchange_until x (\<lambda>r. r = 0xFE) c3 = Inr (0xFE, c4)" by (rule exchange_until_found[OF c4(1)]) (use t(4) in auto)
  ultimately show ?thesis using c5 by (simp add: sd_read_def del: spi_send.simps)
qed

lemma sd_write_talk:
  assumes "write_talk x (cmd_bytes 0x58 (card_offset plat k)) blk c c'"
  shows "sd_write plat x k blk c = Inr c'"
proof -
  let ?cmd = "cmd_bytes 0x58 (card_offset plat k)"
  obtain busy r6 j t u rs crc m ack where t: "0xFF \<notin> set busy" "length r6 = length ?cmd" "j < 8000" "length rs = length blk"
    "length crc = 2" "ack \<noteq> 0xFF" "ack AND 0x1F = 0x05"
    "spi_send x ((replicate (length busy) 0xFF @ [0xFF]) @ ?cmd @ (replicate j 0xFF @ [0xFF]) @ [0xFF] @ [0xFE] @ blk @ [0xFF, 0xFF] @
       replicate m 0xFF @ [0xFF]) c =
     Inr ((busy @ [0xFF]) @ r6 @ (replicate j 0xFF @ [0]) @ [t] @ [u] @ rs @ crc @ replicate m 0xFF @ [ack], c')"
    using assms by (auto simp: write_talk_def)
  obtain c1 where c1: "spi_send x (replicate (length busy) 0xFF @ [0xFF]) c = Inr (busy @ [0xFF], c1)"
    "spi_send x (?cmd @ (replicate j 0xFF @ [0xFF]) @ [0xFF] @ [0xFE] @ blk @ [0xFF, 0xFF] @ replicate m 0xFF @ [0xFF]) c1 =
     Inr (r6 @ (replicate j 0xFF @ [0]) @ [t] @ [u] @ rs @ crc @ replicate m 0xFF @ [ack], c')"
    by (rule spi_send_appendE[OF t(8)]) simp_all
  obtain c2 where c2: "spi_send x ?cmd c1 = Inr (r6, c2)"
    "spi_send x ((replicate j 0xFF @ [0xFF]) @ [0xFF] @ [0xFE] @ blk @ [0xFF, 0xFF] @ replicate m 0xFF @ [0xFF]) c2 =
     Inr ((replicate j 0xFF @ [0]) @ [t] @ [u] @ rs @ crc @ replicate m 0xFF @ [ack], c')"
    by (rule spi_send_appendE[OF c1(2) t(2)])
  obtain c3 where c3: "spi_send x (replicate j 0xFF @ [0xFF]) c2 = Inr (replicate j 0xFF @ [0], c3)"
    "spi_send x ([0xFF] @ [0xFE] @ blk @ [0xFF, 0xFF] @ replicate m 0xFF @ [0xFF]) c3 = Inr ([t] @ [u] @ rs @ crc @ replicate m 0xFF @ [ack], c')"
    by (rule spi_send_appendE[OF c2(2)]) simp_all
  obtain c4 where c4: "spi_send x [0xFF] c3 = Inr ([t], c4)"
    "spi_send x ([0xFE] @ blk @ [0xFF, 0xFF] @ replicate m 0xFF @ [0xFF]) c4 = Inr ([u] @ rs @ crc @ replicate m 0xFF @ [ack], c')"
    by (rule spi_send_appendE[OF c3(2)]) simp_all
  obtain c5 where c5: "spi_send x [0xFE] c4 = Inr ([u], c5)"
    "spi_send x (blk @ [0xFF, 0xFF] @ replicate m 0xFF @ [0xFF]) c5 = Inr (rs @ crc @ replicate m 0xFF @ [ack], c')"
    by (rule spi_send_appendE[OF c4(2)]) simp_all
  obtain c6 where c6: "spi_send x blk c5 = Inr (rs, c6)"
    "spi_send x ([0xFF, 0xFF] @ replicate m 0xFF @ [0xFF]) c6 = Inr (crc @ replicate m 0xFF @ [ack], c')"
    by (rule spi_send_appendE[OF c5(2) t(4)])
  obtain c7 where c7: "spi_send x [0xFF, 0xFF] c6 = Inr (crc, c7)"
    "spi_send x (replicate m 0xFF @ [0xFF]) c7 = Inr (replicate m 0xFF @ [ack], c')"
    by (rule spi_send_appendE[OF c6(2)]) (simp_all add: t(5))
  have "exchange_until x (\<lambda>r. r = 0xFF) c = Inr (0xFF, c1)" by (rule exchange_until_found[OF c1(1)]) (use t(1) in auto)
  moreover have "sd_exec_cmd x ?cmd c1 = Inr (0, c3)" by (rule sd_exec_cmd_found[OF c2(1) c3(1) _ t(3)]) simp
  moreover have "exchange_until x (\<lambda>r. r \<noteq> 0xFF) c7 = Inr (ack, c')"
    by (rule exchange_until_found[where rs = "replicate m 0xFF"]) (use c7(2) t(6) in auto)
  ultimately show ?thesis using c4(1) c5(1) c6(1) c7(1) t(7) by (simp add: sd_write_def del: spi_send.simps)
qed

section \<open>Several blocks\<close>

lemma unat_block_no: "unat k + i < n \<Longrightarrow> n \<le> 2 ^ 32 \<Longrightarrow> unat (k + of_nat i) = unat k + i" for k :: u32
  by (simp add: unat_word_ariths unat_of_nat)

lemma disk_read_blocks:
  assumes "sd_card plat x nblocks ready data" "ready c" "unat block_no + n \<le> nblocks" "nblocks \<le> 2 ^ 32"
  shows "\<exists>c'. disk_read SD_CARD rom plat x block_no n c = Inr (concat (map (\<lambda>i. data c (block_no + of_nat i)) [0 ..< n]), c') \<and>
    ready c' \<and> data c' = data c"
proof -
  let ?body = "\<lambda>i (dst, c). bindr (sd_read plat x (block_no + of_nat i) c) (\<lambda>(blk, c). Inr (dst @ blk, c))"
  let ?P = "\<lambda>js (dst, c'). dst = concat (map (\<lambda>i. data c (block_no + of_nat i)) js) \<and> ready c' \<and> data c' = data c"
  have "\<exists>t. for_each [0 ..< n] ?body ([], c) = Inr t \<and> ?P [0 ..< n] t"
  proof (rule for_each_invariant)
    show "?P [] ([], c)" using assms(2) by simp
  next
    fix js i rest and t :: "block \<times> 'a"
    assume js: "[0 ..< n] = js @ i # rest" and P: "?P js t"
    obtain dst c1 where t: "t = (dst, c1)" by (cases t) auto
    have "i < n" using js by (metis atLeastLessThan_iff atLeastLessThan_upt in_set_conv_decomp)
    then have u: "unat (block_no + of_nat i) < nblocks" using assms(3,4) unat_block_no[of block_no i nblocks] by simp
    have r: "ready c1" "data c1 = data c" using P t by simp_all
    obtain c2 where c2: "read_talk x (cmd_bytes 0x51 (card_offset plat (block_no + of_nat i))) c1 (data c1 (block_no + of_nat i)) c2"
      "ready c2" "data c2 = data c1" using sd_cardD(2)[OF assms(1) r(1) u] by blast
    have "sd_read plat x (block_no + of_nat i) c1 = Inr (data c1 (block_no + of_nat i), c2)"
      by (rule sd_read_talk[OF c2(1) sd_cardD(1)[OF assms(1) r(1) u]])
    then show "\<exists>t'. ?body i t = Inr t' \<and> ?P (js @ [i]) t'" using P t c2 by simp
  qed
  then obtain t where t: "for_each [0 ..< n] ?body ([], c) = Inr t" "?P [0 ..< n] t" by blast
  obtain dst c' where tt: "t = (dst, c')" by (cases t) auto
  have r: "dst = concat (map (\<lambda>i. data c (block_no + of_nat i)) [0 ..< n])" "ready c'" "data c' = data c"
    using t(2) unfolding tt case_prod_conv by blast+
  have d: "disk_read SD_CARD rom plat x block_no n c = Inr (dst, c')" using t(1) by (simp add: disk_read_def tt)
  show ?thesis by (rule exI[of _ c']) (intro conjI r(2,3) d[unfolded r(1)])
qed

lemma disk_write_blocks:
  assumes "sd_card plat x nblocks ready data" "ready c" "unat block_no + n \<le> nblocks" "nblocks \<le> 2 ^ 32" "length src = n * BLOCK_SIZE"
  shows "\<exists>c'. disk_write SD_CARD plat x block_no n src c = Inr c' \<and> ready c' \<and>
    (\<forall>i < n. data c' (block_no + of_nat i) = take BLOCK_SIZE (drop (BLOCK_SIZE * i) src)) \<and>
    (\<forall>k. (\<forall>i < n. k \<noteq> block_no + of_nat i) \<longrightarrow> data c' k = data c k)"
proof -
  let ?chunk = "\<lambda>i. take BLOCK_SIZE (drop (BLOCK_SIZE * i) src)"
  let ?body = "\<lambda>i. sd_write plat x (block_no + of_nat i) (?chunk i)"
  let ?P = "\<lambda>js c'. ready c' \<and> (\<forall>i \<in> set js. data c' (block_no + of_nat i) = ?chunk i) \<and>
    (\<forall>k. (\<forall>i \<in> set js. k \<noteq> block_no + of_nat i) \<longrightarrow> data c' k = data c k)"
  have inj: "block_no + of_nat i = block_no + of_nat j \<longleftrightarrow> i = j" if "i < n" "j < n" for i j
  proof -
    have "unat (block_no + of_nat i) = unat block_no + i" "unat (block_no + of_nat j) = unat block_no + j"
      by (rule unat_block_no[OF _ assms(4)], use that assms(3) in linarith)+
    then show ?thesis by (metis add_left_cancel)
  qed
  have "\<exists>t. for_each [0 ..< n] ?body c = Inr t \<and> ?P [0 ..< n] t"
  proof (rule for_each_invariant)
    show "?P [] c" using assms(2) by simp
  next
    fix js i rest c1
    assume js: "[0 ..< n] = js @ i # rest" and P: "?P js c1"
    have "set js \<subseteq> {0 ..< n}" "i < n" by (metis Un_iff atLeastLessThan_upt js set_append subsetI, metis atLeastLessThan_iff atLeastLessThan_upt in_set_conv_decomp js)
    have u: "unat (block_no + of_nat i) < nblocks" using \<open>i < n\<close> assms(3,4) unat_block_no[of block_no i nblocks] by simp
    have "BLOCK_SIZE * i + BLOCK_SIZE \<le> length src" using \<open>i < n\<close> assms(5) by (metis Suc_leI mult.commute mult_Suc add.commute mult_le_mono2)
    then have l: "length (?chunk i) = BLOCK_SIZE" by simp
    obtain c2 where c2: "write_talk x (cmd_bytes 0x58 (card_offset plat (block_no + of_nat i))) (?chunk i) c1 c2" "ready c2"
      "data c2 = (data c1)(block_no + of_nat i := ?chunk i)" using sd_cardD(3)[OF assms(1) _ u l] P by blast
    have "?P (js @ [i]) c2"
      using P c2(2,3) inj[OF _ \<open>i < n\<close>] \<open>set js \<subseteq> {0 ..< n}\<close> by (auto simp: subset_iff)
    then show "\<exists>t'. ?body i c1 = Inr t' \<and> ?P (js @ [i]) t'" using sd_write_talk[OF c2(1)] by blast
  qed
  then obtain c' where "for_each [0 ..< n] ?body c = Inr c'" "?P [0 ..< n] c'" by blast
  then show ?thesis by (intro exI[of _ c']) (simp add: disk_write_def)
qed

lemma concat_blocks: "length src = n * BLOCK_SIZE \<Longrightarrow> concat (map (\<lambda>i. take BLOCK_SIZE (drop (BLOCK_SIZE * i) src)) [0 ..< n]) = src"
proof (induction n arbitrary: src)
  case (Suc n)
  have "[0 ..< Suc n] = 0 # map Suc [0 ..< n]" by (simp add: upt_conv_Cons map_Suc_upt del: upt_Suc)
  moreover have "drop (BLOCK_SIZE * Suc i) src = drop (BLOCK_SIZE * i) (drop BLOCK_SIZE src)" for i by (simp add: add.commute)
  ultimately show ?case using Suc.IH[of "drop BLOCK_SIZE src"] Suc.prems by (simp add: comp_def del: upt_Suc)
qed simp

text \<open>C39: Blocks written to a range of the disk read back as the same bytes, and every block
  outside the range keeps its contents, on either platform and for every SD card that follows
  the protocol, however long it is busy.\<close>

theorem disk_round_trip:
  assumes "sd_card plat x nblocks ready data" "ready c" "unat block_no + n \<le> nblocks" "nblocks \<le> 2 ^ 32" "length src = n * BLOCK_SIZE"
  shows "\<exists>c1 c2. disk_write SD_CARD plat x block_no n src c = Inr c1 \<and> disk_read SD_CARD rom plat x block_no n c1 = Inr (src, c2) \<and>
     ready c2 \<and> (\<forall>k. (\<forall>i < n. k \<noteq> block_no + of_nat i) \<longrightarrow> data c2 k = data c k)"
proof -
  obtain c1 where c1: "disk_write SD_CARD plat x block_no n src c = Inr c1" "ready c1"
    "\<And>i. i < n \<Longrightarrow> data c1 (block_no + of_nat i) = take BLOCK_SIZE (drop (BLOCK_SIZE * i) src)"
    "\<And>k. (\<forall>i < n. k \<noteq> block_no + of_nat i) \<Longrightarrow> data c1 k = data c k"
    using disk_write_blocks[OF assms] by blast
  obtain c2 where c2: "disk_read SD_CARD rom plat x block_no n c1 = Inr (concat (map (\<lambda>i. data c1 (block_no + of_nat i)) [0 ..< n]), c2)"
    "ready c2" "data c2 = data c1" using disk_read_blocks[OF assms(1) c1(2) assms(3,4)] by blast
  have "map (\<lambda>i. data c1 (block_no + of_nat i)) [0 ..< n] = map (\<lambda>i. take BLOCK_SIZE (drop (BLOCK_SIZE * i) src)) [0 ..< n]"
    by (rule map_cong) (simp_all add: c1(3))
  then have "concat (map (\<lambda>i. data c1 (block_no + of_nat i)) [0 ..< n]) = src"
    by (simp only: concat_blocks[OF assms(5)])
  then show ?thesis using c1(1,4) c2 by auto
qed


section \<open>A card\<close>

text \<open>
  A small SD card for examples: it collects the bytes of a command, answers from a queue, and takes
  the data of a block after its token.
\<close>

datatype card_phase =
  Idle | Command "u8 list" | Reply "u8 list" card_phase | Token u32 | Receive u32 "u8 list"

type_synonym card = "(u32 \<Rightarrow> block) \<times> card_phase"

definition card_exec :: "(u32 \<Rightarrow> block) \<Rightarrow> u8 list \<Rightarrow> card_phase" where
  "card_exec d cmd =
     (let k = le32 (cmd ! 4) (cmd ! 3) (cmd ! 2) (cmd ! 1) in
      if hd cmd = 0x51 then Reply ([0xFF, 0, 0xFF, 0xFE] @ d k @ [1, 2]) Idle
      else if hd cmd = 0x58 then Reply [0xFF, 0xFF, 0] (Token k)
      else Reply [1] Idle)"

fun card_step :: "u8 \<Rightarrow> card \<Rightarrow> u8 \<times> card" where
  "card_step b (d, Idle) = (0xFF, d, if b = 0xFF then Idle else Command [b])"
| "card_step b (d, Command bs) =
     (0xFF, d, if length bs = 5 then card_exec d (bs @ [b]) else Command (bs @ [b]))"
| "card_step b (d, Reply [] p) = (0xFF, d, p)"
| "card_step b (d, Reply (r # rs) p) = (r, d, if rs = [] then p else Reply rs p)"
| "card_step b (d, Token k) = (0xFF, d, if b = 0xFE then Receive k [] else Token k)"
| "card_step b (d, Receive k bs) =
     (if length bs = 513 then (0xFF, d(k := take BLOCK_SIZE bs), Reply [0xFF, 0x05, 0, 0] Idle)
      else (0xFF, d, Receive k (bs @ [b])))"

definition card_x :: "card xchg" where
  "card_x b c = Inr (card_step b c)"

definition card_ready :: "card \<Rightarrow> bool" where
  "card_ready c \<longleftrightarrow> (\<forall>k. length (fst c k) = BLOCK_SIZE) \<and> snd c \<in> {Idle, Reply [0, 0] Idle}"

lemma card_reply: "q \<noteq> [] \<Longrightarrow> length bs = length q \<Longrightarrow> spi_send card_x bs (d, Reply q p) = Inr (q, d, p)"
proof (induction q arbitrary: bs)
  case (Cons r q)
  then show ?case by (cases bs; cases "q = []") (auto simp: card_x_def)
qed simp

lemma card_receive:
  "length acc + length bs < 514 \<Longrightarrow>
   spi_send card_x bs (d, Receive k acc) = Inr (replicate (length bs) 0xFF, d, Receive k (acc @ bs))"
  by (induction bs arbitrary: acc) (auto simp: card_x_def)

lemma card_idle:
  assumes "card_ready c"
  obtains busy where "0xFF \<notin> set busy"
    "spi_send card_x (replicate (length busy) 0xFF @ [0xFF]) c = Inr (busy @ [0xFF], fst c, Idle)"
proof -
  consider "snd c = Idle" | "snd c = Reply [0, 0] Idle" using assms by (auto simp: card_ready_def)
  then show thesis
  proof cases
    case 1
    then show thesis using that[of "[]"] by (cases c) (simp add: card_x_def)
  next
    case 2
    then show thesis using that[of "[0, 0]"] by (cases c) (simp add: card_x_def)
  qed
qed

lemma card_command:
  "cmd \<noteq> 0xFF \<Longrightarrow> spi_send card_x (cmd_bytes cmd k) (d, Idle) = Inr (replicate 6 0xFF, d, card_exec d (cmd_bytes cmd k))"
  by (simp add: cmd_bytes_def card_x_def numeral_eq_Suc)

lemma spi_sendI: "spi_send x a c = Inr (r, c1) \<Longrightarrow> spi_send x b c1 = Inr (s, c') \<Longrightarrow> spi_send x (a @ b) c = Inr (r @ s, c')"
  by (simp add: spi_send_append)

lemma card_read_talk:
  assumes "card_ready c"
  shows "read_talk card_x (cmd_bytes 0x51 k) c (fst c k) (fst c, Idle)"
proof -
  obtain busy where b: "0xFF \<notin> set busy" "spi_send card_x (replicate (length busy) 0xFF @ [0xFF]) c = Inr (busy @ [0xFF], fst c, Idle)"
    by (rule card_idle[OF assms])
  let ?q = "[0xFF, 0, 0xFF, 0xFE] @ fst c k @ [1, 2]"
  let ?in = "replicate 1 0xFF @ [0xFF] @ replicate 1 0xFF @ [0xFF] @ replicate BLOCK_SIZE 0xFF @ [0xFF, 0xFF]"
  have e: "card_exec (fst c) (cmd_bytes 0x51 k) = Reply ?q Idle" by (simp add: card_exec_def cmd_bytes_def)
  have r: "spi_send card_x ?in (fst c, card_exec (fst c) (cmd_bytes 0x51 k)) = Inr (?q, fst c, Idle)"
    unfolding e using assms by (intro card_reply) (simp_all add: card_ready_def)
  have cm: "spi_send card_x (cmd_bytes 0x51 k) (fst c, Idle) = Inr (replicate 6 0xFF, fst c, card_exec (fst c) (cmd_bytes 0x51 k))"
    by (rule card_command) simp
  have "spi_send card_x ((replicate (length busy) 0xFF @ [0xFF]) @ cmd_bytes 0x51 k @ ?in) c = Inr ((busy @ [0xFF]) @ replicate 6 0xFF @ ?q, fst c, Idle)"
    by (rule spi_sendI[OF b(2) spi_sendI[OF cm r]])
  moreover have "length (cmd_bytes 0x51 k) = 6" by (simp add: cmd_bytes_def)
  ultimately show ?thesis
    unfolding read_talk_def using b(1)
    by (intro exI[of _ busy] exI[of _ "replicate 6 0xFF"] exI[of _ 1] exI[of _ "[0xFF]"] exI[of _ "[1, 2]"])
      (simp del: spi_send.simps)
qed

lemma card_write_talk:
  assumes "card_ready c" "length blk = BLOCK_SIZE"
  shows "write_talk card_x (cmd_bytes 0x58 k) blk c ((fst c)(k := blk), Reply [0, 0] Idle)"
proof -
  obtain busy where b: "0xFF \<notin> set busy" "spi_send card_x (replicate (length busy) 0xFF @ [0xFF]) c = Inr (busy @ [0xFF], fst c, Idle)"
    by (rule card_idle[OF assms(1)])
  have two: "replicate 2 (0xFF :: u8) = [0xFF, 0xFF]" "replicate 1 (0xFF :: u8) = [0xFF]" by (simp_all add: numeral_2_eq_2)
  have e: "card_exec (fst c) (cmd_bytes 0x58 k) = Reply [0xFF, 0xFF, 0] (Token k)" by (simp add: card_exec_def cmd_bytes_def)
  have cm: "spi_send card_x (cmd_bytes 0x58 k) (fst c, Idle) = Inr (replicate 6 0xFF, fst c, Reply [0xFF, 0xFF, 0] (Token k))"
    unfolding e[symmetric] by (rule card_command) simp
  have st: "spi_send card_x (replicate 2 0xFF @ [0xFF]) (fst c, Reply [0xFF, 0xFF, 0] (Token k)) = Inr ([0xFF, 0xFF, 0], fst c, Token k)"
    by (rule card_reply) simp_all
  have tk: "spi_send card_x ([0xFF] @ [0xFE]) (fst c, Token k) = Inr ([0xFF, 0xFF], fst c, Receive k [])" by (simp add: card_x_def)
  have dt: "spi_send card_x blk (fst c, Receive k []) = Inr (replicate BLOCK_SIZE 0xFF, fst c, Receive k blk)"
    using card_receive[of "[]" blk "fst c" k] assms(2) by simp
  have ck: "spi_send card_x [0xFF, 0xFF] (fst c, Receive k blk) = Inr ([0xFF, 0xFF], (fst c)(k := blk), Reply [0xFF, 0x05, 0, 0] Idle)"
    using assms(2) by (simp add: card_x_def)
  have ak: "spi_send card_x (replicate 1 0xFF @ [0xFF]) ((fst c)(k := blk), Reply [0xFF, 0x05, 0, 0] Idle) =
      Inr ([0xFF, 0x05], (fst c)(k := blk), Reply [0, 0] Idle)" by (simp add: card_x_def)
  have "spi_send card_x ((replicate (length busy) 0xFF @ [0xFF]) @ cmd_bytes 0x58 k @ (replicate 2 0xFF @ [0xFF]) @ ([0xFF] @ [0xFE]) @
        blk @ [0xFF, 0xFF] @ replicate 1 0xFF @ [0xFF]) c =
      Inr ((busy @ [0xFF]) @ replicate 6 0xFF @ [0xFF, 0xFF, 0] @ [0xFF, 0xFF] @ replicate BLOCK_SIZE 0xFF @ [0xFF, 0xFF] @ [0xFF, 0x05],
        (fst c)(k := blk), Reply [0, 0] Idle)"
    by (rule spi_sendI[OF b(2) spi_sendI[OF cm spi_sendI[OF st spi_sendI[OF tk spi_sendI[OF dt spi_sendI[OF ck ak]]]]]])
  then have "spi_send card_x (replicate (length busy) 0xFF @ [0xFF] @ cmd_bytes 0x58 k @ replicate 2 0xFF @ [0xFF] @ [0xFF] @ [0xFE] @
        blk @ [0xFF, 0xFF] @ replicate 1 0xFF @ [0xFF]) c =
      Inr (busy @ [0xFF] @ replicate 6 0xFF @ replicate 2 0xFF @ [0] @ [0xFF] @ [0xFF] @ replicate BLOCK_SIZE 0xFF @ [0xFF, 0xFF] @
        replicate 1 0xFF @ [0x05], (fst c)(k := blk), Reply [0, 0] Idle)"
    unfolding two append_assoc append.simps .
  moreover have "length (replicate 6 (0xFF :: u8)) = length (cmd_bytes 0x58 k)" "(2 :: nat) < 8000"
    "length (replicate BLOCK_SIZE (0xFF :: u8)) = length blk" "length [0xFF, 0xFF :: u8] = 2"
    "(0x05 :: u8) \<noteq> 0xFF" "(0x05 :: u8) AND 0x1F = 0x05"
    by (simp_all add: cmd_bytes_def assms(2))
  ultimately show ?thesis unfolding write_talk_def using b(1) by blast
qed

lemma sd_card_sim: "sd_card ARTY card_x nblocks card_ready fst"
  unfolding sd_card_def
proof (intro conjI allI impI)
  fix c k assume c: "card_ready c"
  show "length (fst c k) = BLOCK_SIZE" using c by (simp add: card_ready_def)
  show "\<exists>c'. read_talk card_x (cmd_bytes 0x51 (card_offset ARTY k)) c (fst c k) c' \<and> card_ready c' \<and> fst c' = fst c"
    using card_read_talk[OF c, of k] c by (intro exI[of _ "(fst c, Idle)"]) (simp add: card_offset_def card_ready_def)
  fix blk :: block assume "length blk = BLOCK_SIZE"
  then show "\<exists>c'. write_talk card_x (cmd_bytes 0x58 (card_offset ARTY k)) blk c c' \<and> card_ready c' \<and> fst c' = (fst c)(k := blk)"
    using card_write_talk[OF c, of blk k] c
    by (intro exI[of _ "((fst c)(k := blk), Reply [0, 0] Idle)"]) (simp add: card_offset_def card_ready_def)
qed

theorem disk_round_trip_witness:
  "\<exists>c1 c2. disk_write SD_CARD ARTY card_x 7 2 (replicate 1024 5) (\<lambda>k. replicate 512 9, Idle) = Inr c1 \<and>
     disk_read SD_CARD (\<lambda>_. 0) ARTY card_x 7 2 c1 = Inr (replicate 1024 5, c2) \<and> fst c2 3 = replicate 512 9"
proof -
  have r: "card_ready (\<lambda>k. replicate 512 9, Idle)" by (simp add: card_ready_def)
  have "3 \<noteq> (7 :: u32) + of_nat i" if "i < 2" for i using that by (auto simp: less_2_cases_iff)
  then show ?thesis
    using disk_round_trip[OF sd_card_sim[of 100] r, of 7 2 "replicate 1024 5" "\<lambda>_. 0"] by auto
qed

end
