(* ===== verification/Treedisk_Spec.thy ===== *)
theory Treedisk_Spec
  imports Treedisk
begin

text \<open>
  What the blocks of a treedisk mean: the depth of a file's tree, the contents and the
  blocks of a tree, the free list as a set of blocks, and the frame properties of all
  three. Nothing here runs; these notions state what the operations of Treedisk do.
\<close>

section \<open>Levels\<close>

lemma unat_log_shift_r:
  assumes "unat n < 32"
  shows "unat (log_shift_r x (n * 7)) = unat x div 128 ^ unat n"
proof -
  have m: "unat (n * 7) = unat n * 7"
    using assms by (simp add: unat_word_ariths)
  have p: "(128::nat) ^ unat n = 2 ^ (unat n * 7)"
    by (simp add: power_mult mult.commute[of _ 7])
  show ?thesis
  proof (cases "n * 7 \<ge> 32")
    case True
    then have "32 \<le> unat n * 7"
      using m by (simp add: word_le_nat_alt)
    then have "(2::nat) ^ 32 \<le> 2 ^ (unat n * 7)"
      by (rule power_increasing) simp
    then have "unat x < 128 ^ unat n"
      using unsigned_less[of x, where 'a=nat] p by simp
    with True show ?thesis by (simp add: log_shift_r_def)
  next
    case False
    then show ?thesis
      by (simp add: log_shift_r_def m p unat_drop_bit_eq) (simp add: drop_bit_eq_div)
  qed
qed

text \<open>The number of levels of indirect blocks that an offset needs.\<close>

function depth :: "nat \<Rightarrow> nat" where
  "depth x = (if x = 0 then 0 else Suc (depth (x div 128)))"
  by pat_completeness auto
termination by (relation "measure id") auto

declare depth.simps [simp del]

lemma depth_0 [simp]: "depth 0 = 0"
  by (simp add: depth.simps)

lemma depth_less: "x < 128 ^ depth x"
proof (induction x rule: depth.induct)
  case (1 x)
  show ?case
  proof (cases "x = 0")
    case False
    then have "x div 128 < 128 ^ depth (x div 128)" using 1 by simp
    then have "x < 128 * 128 ^ depth (x div 128)" by (simp add: div_less_iff_less_mult mult.commute)
    with False show ?thesis by (subst depth.simps) simp
  qed simp
qed

lemma depth_le: "x < 128 ^ k \<Longrightarrow> depth x \<le> k"
proof (induction x arbitrary: k rule: depth.induct)
  case (1 x)
  show ?case
  proof (cases "x = 0")
    case False
    then obtain k' where k: "k = Suc k'" using 1(2) by (cases k) auto
    then have "x div 128 < 128 ^ k'" using 1(2) by (simp add: div_less_iff_less_mult mult.commute)
    then have "depth (x div 128) \<le> k'" using 1(1) False by simp
    with False k show ?thesis by (subst depth.simps) simp
  qed simp
qed

lemma depth_mono: "x \<le> y \<Longrightarrow> depth x \<le> depth y"
  by (meson depth_le depth_less le_less_trans)

lemma depth_u32: "depth (unat (x :: u32)) \<le> 5"
  by (rule depth_le, rule less_le_trans, rule unsigned_less) simp

lemma levels_loop_depth:
  "unat n + depth (unat x div 128 ^ unat n) \<le> 5 \<Longrightarrow>
   levels_loop 7 x n = Some (n + of_nat (depth (unat x div 128 ^ unat n)))"
proof (induction "depth (unat x div 128 ^ unat n)" arbitrary: n)
  case 0
  then have "unat x div 128 ^ unat n = 0"
    by (metis depth.simps Zero_not_Suc)
  moreover have "unat n < 32" using 0 by simp
  ultimately have "log_shift_r x (n * 7) = 0"
    by (metis unat_log_shift_r unsigned_0 unsigned_word_eqI)
  then show ?case
    using 0(1) by (subst levels_loop.simps) simp
next
  case (Suc m)
  have n: "unat n < 32" "unat (n + 1) = Suc (unat n)"
    using Suc by (auto simp: unat_word_ariths)
  have nz: "unat x div 128 ^ unat n \<noteq> 0"
    using Suc(2) by (metis depth_0 Zero_not_Suc)
  then have "log_shift_r x (n * 7) \<noteq> 0"
    by (metis n(1) unat_log_shift_r unsigned_0)
  moreover have d: "depth (unat x div 128 ^ unat n) = Suc (depth (unat x div 128 ^ unat (n + 1)))"
    using nz by (subst depth.simps) (simp add: n mult.commute flip: div_mult2_eq)
  moreover have "levels_loop 7 x (n + 1)
      = Some (n + 1 + of_nat (depth (unat x div 128 ^ unat (n + 1))))"
    using Suc.hyps(1)[of "n + 1"] Suc.hyps(2) Suc.prems d n(2) by simp
  ultimately show ?case
    by (subst levels_loop.simps) (simp add: add.assoc)
qed

lemma count_levels_depth: "count_levels 7 x = Inr (of_nat (depth (unat x)))"
  using levels_loop_depth[of 0 x] depth_u32[of x] by (simp add: count_levels_def)

lemma log_rpb_loop_7: "log_rpb_loop 0 = Some 7"
  by (subst log_rpb_loop.simps, simp add: Let_def)+


section \<open>Trees and free lists on a disk\<close>

text \<open>A disk is the function from block numbers to contents.\<close>

type_synonym fdisk = "block_no \<Rightarrow> block"

text \<open>
  What the tree of depth \<open>l\<close> at block \<open>b\<close> holds at an offset (block 0 is a hole),
  the blocks it occupies, and that it is a tree: no block is reached twice.
\<close>

fun lookup :: "fdisk \<Rightarrow> nat \<Rightarrow> block_no \<Rightarrow> nat \<Rightarrow> block" where
  "lookup d 0 b off = (if b = 0 then null_block else d b)"
| "lookup d (Suc l) b off =
     (if b = 0 then null_block else lookup d l (refs (d b) (off div 128 ^ l mod 128)) off)"

fun nodes :: "fdisk \<Rightarrow> nat \<Rightarrow> block_no \<Rightarrow> block_no set" where
  "nodes d 0 b = (if b = 0 then {} else {b})"
| "nodes d (Suc l) b =
     (if b = 0 then {} else insert b (\<Union>i \<in> {..<128}. nodes d l (refs (d b) i)))"

fun wf_tree :: "fdisk \<Rightarrow> nat \<Rightarrow> block_no \<Rightarrow> bool" where
  "wf_tree d 0 b = True"
| "wf_tree d (Suc l) b =
     (b = 0 \<or>
      (\<forall>i<128. wf_tree d l (refs (d b) i) \<and> b \<notin> nodes d l (refs (d b) i) \<and>
         (\<forall>j<128. i \<noteq> j \<longrightarrow> nodes d l (refs (d b) i) \<inter> nodes d l (refs (d b) j) = {})))"

text \<open>
  The free list from block \<open>b\<close>: the chain of freelist blocks, and the free blocks it
  stands for, which are the freelist blocks themselves and their non-zero references.
\<close>

fun chain :: "fdisk \<Rightarrow> block_no \<Rightarrow> block_no list \<Rightarrow> bool" where
  "chain d b [] = (b = 0)"
| "chain d b (c # cs) = (b = c \<and> c \<noteq> 0 \<and> chain d (refs (d c) 0) cs)"

definition entries :: "block \<Rightarrow> block_no list" where
  "entries fl = filter (\<lambda>x. x \<noteq> 0) (map (refs fl) [1 ..< 128])"

definition free_blocks :: "fdisk \<Rightarrow> block_no list \<Rightarrow> block_no list" where
  "free_blocks d cs = concat (map (\<lambda>c. c # entries (d c)) cs)"

definition free_inv :: "u32 \<Rightarrow> fdisk \<Rightarrow> block_no set \<Rightarrow> bool" where
  "free_inv nb d F \<longleftrightarrow>
     (\<exists>cs. chain d (free_list (d 0)) cs \<and> distinct (free_blocks d cs) \<and>
           set (free_blocks d cs) = F) \<and> F \<subseteq> {k. 0 < k \<and> k < nb}"

abbreviation store_full :: fault where
  "store_full \<equiv> FATAL ''treedisk_alloc_block: inode store is full''"

section \<open>Fields of a block\<close>

lemma refs_set_ref:
  "length b = BLOCK_SIZE \<Longrightarrow> i < 128 \<Longrightarrow> refs (set_ref b i w) j = (if i = j then w else refs b j)"
  by (cases i j rule: linorder_cases) (auto simp: refs_def set_ref_def get32_put32_other)

lemma length_set_ref [simp]: "length (set_ref b i w) = length b"
  by (simp add: set_ref_def)

lemma set_ref_set_ref [simp]: "set_ref (set_ref b i v) i w = set_ref b i w"
  by (simp add: set_ref_def)

lemma set_ref_refs: "length b = BLOCK_SIZE \<Longrightarrow> i < 128 \<Longrightarrow> set_ref b i (refs b i) = b"
  by (simp add: refs_def set_ref_def)

lemma refs_null_block [simp]: "i < 128 \<Longrightarrow> refs null_block i = 0"
  by (simp add: refs_def null_block_def)

lemma length_set_free_list [simp]: "length (set_free_list b w) = length b"
  by (simp add: set_free_list_def)

lemma free_list_set_free_list [simp]:
  "length b = BLOCK_SIZE \<Longrightarrow> free_list (set_free_list b w) = w"
  by (simp add: free_list_def set_free_list_def)

lemma n_inodeblocks_set_free_list [simp]:
  "n_inodeblocks (set_free_list b w) = n_inodeblocks b"
  by (simp add: n_inodeblocks_def set_free_list_def get32_put32_other)

section \<open>Frame properties\<close>

lemma nodes_zero [simp]: "nodes d l 0 = {}"
  by (cases l) auto

lemma wf_tree_zero [simp]: "wf_tree d l 0"
  by (cases l) auto

lemma lookup_zero [simp]: "lookup d l 0 off = null_block"
  by (cases l) auto

lemma zero_notin_nodes: "0 \<notin> nodes d l b"
  by (induction l arbitrary: b) auto

lemma root_in_nodes: "b \<noteq> 0 \<Longrightarrow> b \<in> nodes d l b"
  by (cases l) auto

lemma nodes_child: "b \<noteq> 0 \<Longrightarrow> i < 128 \<Longrightarrow> nodes d l (refs (d b) i) \<subseteq> nodes d (Suc l) b"
  by auto

lemma nodes_frame: "(\<And>k. k \<in> nodes d l b \<Longrightarrow> d' k = d k) \<Longrightarrow> nodes d' l b = nodes d l b"
proof (induction l arbitrary: b)
  case (Suc l)
  show ?case
  proof (cases "b = 0")
    case False
    then have "nodes d' l (refs (d b) i) = nodes d l (refs (d b) i)" if "i < 128" for i
      using Suc that by (intro Suc.IH) auto
    then show ?thesis using False Suc.prems[of b] by auto
  qed simp
qed simp

lemma wf_tree_frame:
  "(\<And>k. k \<in> nodes d l b \<Longrightarrow> d' k = d k) \<Longrightarrow> wf_tree d' l b = wf_tree d l b"
proof (induction l arbitrary: b)
  case (Suc l)
  show ?case
  proof (cases "b = 0")
    case False
    have fr: "d' k = d k" if "k \<in> nodes d l (refs (d b) i)" "i < 128" for i k
      using Suc.prems that False by auto
    have "wf_tree d' l (refs (d b) i) = wf_tree d l (refs (d b) i)" if "i < 128" for i
      using fr that by (intro Suc.IH) auto
    moreover have "nodes d' l (refs (d b) i) = nodes d l (refs (d b) i)" if "i < 128" for i
      using fr that by (intro nodes_frame) auto
    ultimately show ?thesis using False Suc.prems[of b] by auto
  qed simp
qed simp

lemma lookup_frame:
  "(\<And>k. k \<in> nodes d l b \<Longrightarrow> d' k = d k) \<Longrightarrow> lookup d' l b off = lookup d l b off"
proof (induction l arbitrary: b)
  case (Suc l)
  show ?case
  proof (cases "b = 0")
    case False
    let ?i = "off div 128 ^ l mod 128"
    have "?i < 128" by simp
    then have "d' k = d k" if "k \<in> nodes d l (refs (d b) ?i)" for k
      using Suc.prems that False nodes_child by blast
    then have "lookup d' l (refs (d b) ?i) off = lookup d l (refs (d b) ?i) off"
      by (rule Suc.IH)
    then show ?thesis using False Suc.prems[of b] by simp
  qed simp
qed simp

lemmas tree_frame = nodes_frame wf_tree_frame lookup_frame

lemma chain_frame: "(\<And>c. c \<in> set cs \<Longrightarrow> d' c = d c) \<Longrightarrow> chain d' b cs = chain d b cs"
  by (induction cs arbitrary: b) auto

lemma free_blocks_frame:
  "(\<And>c. c \<in> set cs \<Longrightarrow> d' c = d c) \<Longrightarrow> free_blocks d' cs = free_blocks d cs"
  by (auto simp: free_blocks_def cong: map_cong)

lemma chain_upd [simp]: "k \<notin> set cs \<Longrightarrow> chain (d(k := v)) b cs = chain d b cs"
  by (rule chain_frame) auto

lemma free_blocks_upd [simp]: "k \<notin> set cs \<Longrightarrow> free_blocks (d(k := v)) cs = free_blocks d cs"
  by (rule free_blocks_frame) auto

lemma tree_upd [simp]:
  "k \<notin> nodes d l b \<Longrightarrow> nodes (d(k := v)) l b = nodes d l b"
  "k \<notin> nodes d l b \<Longrightarrow> wf_tree (d(k := v)) l b = wf_tree d l b"
  "k \<notin> nodes d l b \<Longrightarrow> lookup (d(k := v)) l b off = lookup d l b off"
  by (auto intro!: tree_frame)

lemma chain_subset_free_blocks: "set cs \<subseteq> set (free_blocks d cs)"
  by (auto simp: free_blocks_def)

lemma free_inv_frame:
  assumes "free_inv nb d F" and "free_list (d' 0) = free_list (d 0)"
    and "\<And>k. k \<in> F \<Longrightarrow> d' k = d k"
  shows "free_inv nb d' F"
proof -
  obtain cs where cs: "chain d (free_list (d 0)) cs" "distinct (free_blocks d cs)"
    "set (free_blocks d cs) = F" and F: "F \<subseteq> {k. 0 < k \<and> k < nb}"
    using assms(1) by (auto simp: free_inv_def)
  have "d' c = d c" if "c \<in> set cs" for c
    using that assms(3) cs(3) chain_subset_free_blocks[of cs d] by blast
  then have "chain d' (free_list (d' 0)) cs" "free_blocks d' cs = free_blocks d cs"
    using cs(1) assms(2) chain_frame[of cs d' d] free_blocks_frame[of cs d' d] by auto
  with cs F show ?thesis
    unfolding free_inv_def by (intro conjI exI[of _ cs]) simp_all
qed

lemma free_inv_upd: "free_inv nb d F \<Longrightarrow> k \<notin> F \<Longrightarrow> k \<noteq> 0 \<Longrightarrow> free_inv nb (d(k := v)) F"
  by (erule free_inv_frame) auto

text \<open>From here on the recursive equations of a tree are unfolded on demand only.\<close>

lemmas tree_simps = nodes.simps(2) wf_tree.simps(2) lookup.simps(2)

declare tree_simps [simp del]

end
