(* ===== verification/Treedisk_Correct.thy ===== *)
theory Treedisk_Correct
  imports Treedisk_Spec
begin

text \<open>
  The loops of treedisk against trees and free lists. Allocation takes one block off the
  free list and changes nothing else; growing pushes the old root down and keeps what the
  tree holds; the read walk returns \<open>lookup\<close>; the write walk changes one offset of one
  tree. The lemmas about the operations hold over every store below that keeps the laws of
  \<open>block_store\<close>, in the locale \<open>treedisk_on\<close>.
\<close>

section \<open>Allocation from the free list\<close>

lemma scan_refs_zero: "scan_refs fl n = 0 \<Longrightarrow> 0 < i \<Longrightarrow> i < n \<Longrightarrow> refs fl i = 0"
  by (induction fl n rule: scan_refs.induct) (auto split: if_splits elim: less_SucE)

lemma scan_refs_found: "scan_refs fl n = i \<Longrightarrow> 0 < i \<Longrightarrow> i < n \<and> refs fl i \<noteq> 0"
  by (induction fl n rule: scan_refs.induct) (auto split: if_splits)

lemma entries_empty: "scan_refs fl 128 = 0 \<Longrightarrow> entries fl = []"
  using scan_refs_zero[of fl 128] by (auto simp: entries_def filter_empty_conv)

lemma upt_split: "i \<in> {1..<128} \<Longrightarrow> [1..<128] = [1..<i] @ i # [Suc i..<128]" for i :: nat
  by (metis atLeastLessThan_iff le_add_diff_inverse less_or_eq_imp_le upt_add_eq_append upt_conv_Cons)

lemma map_refs_set_ref:
  "length fl = BLOCK_SIZE \<Longrightarrow> i < 128 \<Longrightarrow> i \<notin> set xs \<Longrightarrow>
   map (refs (set_ref fl i w)) xs = map (refs fl) xs"
  by (auto simp: refs_set_ref)

lemma entries_clear:
  assumes "length fl = BLOCK_SIZE" "0 < i" "i < 128" "refs fl i \<noteq> 0"
  shows "\<exists>xs ys. entries fl = xs @ refs fl i # ys \<and> entries (set_ref fl i 0) = xs @ ys"
proof -
  let ?f = "\<lambda>a b. filter (\<lambda>x. x \<noteq> 0) (map (refs fl) [a..<b])"
  have u: "[1..<128] = [1..<i] @ [i] @ [Suc i..<128]"
    using upt_split[of i] assms by simp
  have "entries fl = ?f 1 i @ refs fl i # ?f (Suc i) 128"
    using assms(4) unfolding entries_def u by simp
  moreover have "entries (set_ref fl i 0) = ?f 1 i @ ?f (Suc i) 128"
    using assms unfolding entries_def u by (simp add: map_refs_set_ref refs_set_ref)
  ultimately show ?thesis by blast
qed

section \<open>Writing below a parent slot\<close>

text \<open>
  The effect of the write walk plus the final data write on a disk: slot \<open>pidx\<close> of
  the block at \<open>poff\<close>, whose buffer was \<open>pb\<close>, now holds \<open>b'\<close>, the root of a tree of
  depth \<open>l\<close> that differs from the old one at \<open>b\<close> in one offset only; blocks moved
  between the tree and the free list, at most one per level, and nothing else changed.
\<close>

definition walked ::
  "u32 \<Rightarrow> nat \<Rightarrow> block \<Rightarrow> nat \<Rightarrow> block_no \<Rightarrow> block_no \<Rightarrow> fdisk \<Rightarrow> block_no set \<Rightarrow> block \<Rightarrow> nat \<Rightarrow>
   fdisk \<Rightarrow> block_no \<Rightarrow> block_no set \<Rightarrow> bool" where
  "walked nb offset blk l b poff d F pb pidx d' b' F' \<longleftrightarrow>
     b' \<noteq> 0 \<and> d' poff = set_ref pb pidx b' \<and> wf_tree d' l b' \<and> free_inv nb d' F' \<and>
     nodes d' l b' \<union> F' = nodes d l b \<union> F \<and> nodes d' l b' \<inter> F' = {} \<and>
     card F \<le> card F' + Suc l \<and> n_inodeblocks (d' 0) = n_inodeblocks (d 0) \<and>
     (\<forall>off. lookup d' l b' off =
        (if off mod 128 ^ l = offset mod 128 ^ l then blk else lookup d l b off)) \<and>
     (\<forall>k. k \<notin> insert 0 (insert poff (nodes d l b \<union> F)) \<longrightarrow> d' k = d k)"

lemma mod_power_Suc_eq:
  "(a mod 128 ^ Suc l = b mod 128 ^ Suc l) =
   (a mod 128 ^ l = b mod 128 ^ l \<and> a div 128 ^ l mod 128 = b div 128 ^ l mod 128)"
  for a b :: nat
proof -
  have e: "x mod 128 ^ Suc l = 128 ^ l * (x div 128 ^ l mod 128) + x mod 128 ^ l" for x :: nat
    by (metis mod_mult2_eq mult.commute power_Suc)
  have "x mod 128 ^ Suc l mod 128 ^ l = x mod 128 ^ l"
    "x mod 128 ^ Suc l div 128 ^ l = x div 128 ^ l mod 128" for x :: nat
    by (simp_all only: e) simp_all
  then show ?thesis using e by metis
qed

lemma card_remove_u32: "b \<in> F \<Longrightarrow> card F = Suc (card (F - {b}))" for F :: "u32 set"
  by (metis card_Suc_Diff1 finite)

lemma walked_new:
  assumes w: "walked nb offset blk l 0 b1 d2 F1 null_block idx d' b2 F'"
    and idx: "idx = offset div 128 ^ l mod 128"
    and b1: "b1 \<in> F" "b1 \<noteq> 0" "F1 = F - {b1}" "poff \<notin> F" "poff \<noteq> 0"
    and d2: "d2 poff = set_ref pb pidx b1" "n_inodeblocks (d2 0) = n_inodeblocks (d 0)"
      "\<And>k. k \<notin> insert 0 (insert poff F) \<Longrightarrow> d2 k = d k"
  shows "walked nb offset blk (Suc l) 0 poff d F pb pidx d' b1 F'"
proof -
  let ?N = "nodes d' l b2"
  have idx': "idx < 128" using idx by simp
  have r: "refs (d' b1) i = (if i = idx then b2 else 0)" if "i < 128" for i
    using w that idx' by (auto simp: walked_def refs_set_ref)
  have nf: "?N \<union> F' = F - {b1}" "?N \<inter> F' = {}"
    using w b1 by (auto simp: walked_def)
  have "nodes d' (Suc l) b1 = insert b1 ?N"
    using r idx' b1(2) by (auto simp: tree_simps split: if_splits)
  moreover have "wf_tree d' (Suc l) b1"
    using r w nf by (auto simp: walked_def tree_simps)
  moreover have "lookup d' (Suc l) b1 off =
      (if off mod 128 ^ Suc l = offset mod 128 ^ Suc l then blk else null_block)" for off
    unfolding mod_power_Suc_eq using r w b1(2) by (auto simp: walked_def idx tree_simps)
  moreover have "d' poff = d2 poff" "\<And>k. k \<notin> insert 0 (insert poff F) \<Longrightarrow> d' k = d k"
    using w b1 d2(3) by (auto simp: walked_def)
  moreover have "card F \<le> card F' + Suc (Suc l)"
    using w card_remove_u32[OF b1(1)] unfolding walked_def b1(3) by linarith
  ultimately show ?thesis
    using w b1 nf d2 by (auto simp: walked_def)
qed

lemma walked_child:
  assumes w: "walked nb offset blk l (refs (d b) idx) b d F (d b) idx d' c' F'"
    and idx: "idx = offset div 128 ^ l mod 128"
    and b: "b \<noteq> 0" "length (d b) = BLOCK_SIZE" "wf_tree d (Suc l) b" "nodes d (Suc l) b \<inter> F = {}"
    and poff: "poff \<notin> nodes d (Suc l) b \<union> F" "poff \<noteq> 0" "d poff = set_ref pb pidx b"
  shows "walked nb offset blk (Suc l) b poff d F pb pidx d' b F'"
proof -
  let ?c = "\<lambda>i. refs (d b) i" and ?N = "nodes d' l c'"
  have idx': "idx < 128" using idx by simp
  have r: "refs (d' b) i = (if i = idx then c' else ?c i)" if "i < 128" for i
    using w that idx' b(2) by (auto simp: walked_def refs_set_ref)
  have nf: "?N \<union> F' = nodes d l (?c idx) \<union> F" "?N \<inter> F' = {}"
    and fr: "\<And>k. k \<notin> insert 0 (insert b (nodes d l (?c idx) \<union> F)) \<Longrightarrow> d' k = d k"
    using w by (auto simp: walked_def)
  have wf: "wf_tree d l (?c i)" "b \<notin> nodes d l (?c i)" "nodes d l (?c i) \<inter> F = {}"
    if "i < 128" for i
    using b that by (auto simp: tree_simps)
  have sep: "nodes d l (?c i) \<inter> nodes d l (?c j) = {}" if "i < 128" "j < 128" "i \<noteq> j" for i j
    using b that by (auto simp: tree_simps)
  have same: "nodes d' l (?c i) = nodes d l (?c i)" "wf_tree d' l (?c i)"
    "lookup d' l (?c i) off = lookup d l (?c i) off" if "i < 128" "i \<noteq> idx" for i off
  proof -
    have "d' k = d k" if "k \<in> nodes d l (?c i)" for k
      using that \<open>i < 128\<close> \<open>i \<noteq> idx\<close> idx' wf[of i] sep[of i idx] zero_notin_nodes[of d l]
      by (intro fr) auto
    then show "nodes d' l (?c i) = nodes d l (?c i)" "wf_tree d' l (?c i)"
      "lookup d' l (?c i) off = lookup d l (?c i) off"
      using wf(1) that tree_frame[of d l "?c i" d'] by auto
  qed
  have bN: "b \<notin> ?N" "b \<notin> F'" using nf wf[of idx] idx' b by (auto simp: tree_simps)
  have N1: "nodes d' (Suc l) b = insert b (?N \<union> (\<Union>i \<in> {..<128} - {idx}. nodes d l (?c i)))"
    using r idx' b(1) same(1) by (auto simp: tree_simps split: if_splits)
  have N0: "nodes d (Suc l) b =
      insert b (nodes d l (?c idx) \<union> (\<Union>i \<in> {..<128} - {idx}. nodes d l (?c i)))"
    using idx' b(1) by (auto simp: tree_simps)
  have dis: "nodes d l (?c i) \<inter> ?N = {}" "nodes d l (?c i) \<inter> F' = {}" if "i < 128" "i \<noteq> idx" for i
    using nf sep[of i idx] wf[of i] that idx' by blast+
  have ch: "nodes d' l (refs (d' b) i) = (if i = idx then ?N else nodes d l (?c i))"
    "wf_tree d' l (refs (d' b) i)" if "i < 128" for i
    using r same that w by (auto simp: walked_def)
  have "nodes d' l (refs (d' b) i) \<inter> nodes d' l (refs (d' b) j) = {}"
    if "i < 128" "j < 128" "i \<noteq> j" for i j
    using that ch sep[of i j] dis(1)[of i] dis(1)[of j] by auto
  then have "wf_tree d' (Suc l) b"
    using ch bN wf(2) by (auto simp: tree_simps)
  moreover have "nodes d' (Suc l) b \<union> F' = nodes d (Suc l) b \<union> F" "nodes d' (Suc l) b \<inter> F' = {}"
    unfolding N0 N1 using nf bN dis by blast+
  moreover have "lookup d' (Suc l) b off =
      (if off mod 128 ^ Suc l = offset mod 128 ^ Suc l then blk else lookup d (Suc l) b off)" for off
    unfolding mod_power_Suc_eq using r w b(1) same(3) by (auto simp: walked_def idx tree_simps)
  moreover have "d' k = d k" if "k \<notin> insert 0 (nodes d (Suc l) b \<union> F)" for k
    using that N0 by (intro fr) blast
  moreover have "card F \<le> card F' + Suc (Suc l)"
    using w unfolding walked_def by linarith
  ultimately show ?thesis
    using w b poff by (auto simp: walked_def)
qed

section \<open>Growing a tree by one level\<close>

lemma lessThan_128: "{..<128::nat} = insert 0 {1..<128}"
  by auto

lemma push_root:
  assumes d': "d' b = set_ref null_block 0 root" "b \<noteq> 0" "b \<notin> nodes d l root"
    and fr: "\<And>k. k \<in> nodes d l root \<Longrightarrow> d' k = d k"
    and wf: "wf_tree d l root"
  shows "wf_tree d' (Suc l) b" "nodes d' (Suc l) b = insert b (nodes d l root)"
    "off < 128 ^ Suc l \<Longrightarrow> lookup d' (Suc l) b off =
       (if off < 128 ^ l then lookup d l root off else null_block)"
proof -
  have r: "refs (d' b) i = (if i = 0 then root else 0)" if "i < 128" for i
    using d' that by (auto simp: refs_set_ref)
  note same = tree_frame[of d l root d', OF fr, simplified]
  show "wf_tree d' (Suc l) b" using r same wf d'(3) by (auto simp: r tree_simps)
  have "(\<Union>i \<in> {..<128}. nodes d' l (refs (d' b) i))
      = (\<Union>i \<in> {..<128::nat}. if i = 0 then nodes d l root else {})"
    by (rule SUP_cong) (auto simp: r same)
  also have "\<dots> = nodes d l root"
    unfolding lessThan_128 by (auto split: if_splits)
  finally show "nodes d' (Suc l) b = insert b (nodes d l root)"
    using d'(2) by (simp add: tree_simps)
  show "lookup d' (Suc l) b off = (if off < 128 ^ l then lookup d l root off else null_block)"
    if "off < 128 ^ Suc l"
  proof -
    have "off div 128 ^ l < 128" using that by (simp add: div_less_iff_less_mult)
    then show ?thesis using r same d'(2) by (auto simp: div_eq_0_iff not_less tree_simps)
  qed
qed

definition grown ::
  "u32 \<Rightarrow> nat \<Rightarrow> nat \<Rightarrow> fdisk \<Rightarrow> block_no \<Rightarrow> block_no set \<Rightarrow> fdisk \<Rightarrow> block_no \<Rightarrow> block_no set \<Rightarrow> bool"
where
  "grown nb l l2 d root F d' root' F' \<longleftrightarrow>
     wf_tree d' l2 root' \<and> free_inv nb d' F' \<and>
     nodes d' l2 root' \<union> F' = nodes d l root \<union> F \<and> nodes d' l2 root' \<inter> F' = {} \<and>
     card F = card F' + (l2 - l) \<and> n_inodeblocks (d' 0) = n_inodeblocks (d 0) \<and>
     (\<forall>k. k \<notin> insert 0 F \<longrightarrow> d' k = d k) \<and>
     (\<forall>off < 128 ^ l2. lookup d' l2 root' off =
        (if off < 128 ^ l then lookup d l root off else null_block))"

lemma grown_step:
  assumes g: "grown nb (Suc l) l2 d2 b (F - {b}) d' root' F'"
    and b: "b \<in> F" "Suc l \<le> l2" "b \<noteq> 0" "d2 b = set_ref null_block 0 root"
    and d2: "\<And>k. k \<notin> insert 0 F \<Longrightarrow> d2 k = d k" "n_inodeblocks (d2 0) = n_inodeblocks (d 0)"
    and wf: "wf_tree d l root" "nodes d l root \<inter> F = {}"
  shows "grown nb l l2 d root F d' root' F'"
proof -
  have "k \<notin> insert 0 F" if "k \<in> nodes d l root" for k
    using that wf(2) zero_notin_nodes[of d l root] by blast
  then have same: "\<And>k. k \<in> nodes d l root \<Longrightarrow> d2 k = d k"
    using d2(1) by simp
  have bn: "b \<notin> nodes d l root" using b wf by blast
  have push: "nodes d2 (Suc l) b = insert b (nodes d l root)"
    by (rule push_root(2)) (use b bn same wf in simp_all)
  have push': "lookup d2 (Suc l) b off = (if off < 128 ^ l then lookup d l root off else null_block)"
    if "off < 128 ^ Suc l" for off
    by (rule push_root(3)[OF _ _ bn]) (use that b same wf in simp_all)
  have g': "nodes d' l2 root' \<union> F' = nodes d2 (Suc l) b \<union> (F - {b})"
    "card (F - {b}) = card F' + (l2 - Suc l)" "n_inodeblocks (d' 0) = n_inodeblocks (d2 0)"
    "\<And>k. k \<notin> insert 0 (F - {b}) \<Longrightarrow> d' k = d2 k"
    "\<And>off. off < 128 ^ l2 \<Longrightarrow> lookup d' l2 root' off =
       (if off < 128 ^ Suc l then lookup d2 (Suc l) b off else null_block)"
    using g unfolding grown_def by blast+
  have "lookup d' l2 root' off = (if off < 128 ^ l then lookup d l root off else null_block)"
    if "off < 128 ^ l2" for off
    using g'(5)[OF that] push'[of off] by (cases "off < 128 ^ Suc l") simp_all
  moreover have "card F = card F' + (l2 - l)"
    using g'(2) b(2) card_remove_u32[OF b(1)] by linarith
  moreover have "nodes d' l2 root' \<union> F' = nodes d l root \<union> F"
    unfolding g'(1) push using b(1) by blast
  moreover have "d' k = d k" if "k \<notin> insert 0 F" for k
    using g'(4)[of k] d2(1)[of k] that by simp
  ultimately show ?thesis
    using g g'(3) d2(2) unfolding grown_def by metis
qed

text \<open>
  The walk down from a reference: what it relies on, and what it leads to. The reference is entry
  \<open>pidx\<close> of the block \<open>pb\<close> with number \<open>poff\<close>; the tree below it and the free blocks \<open>F\<close> are disjoint.
\<close>

definition walk_pre where
  "walk_pre ok contents nblocks l pb pidx poff sn s F \<longleftrightarrow>
     ok s \<and> l \<le> 5 \<and> length pb = BLOCK_SIZE \<and> pidx < 128 \<and> poff < nblocks \<and> poff \<noteq> 0 \<and>
     (refs pb pidx = 0 \<or> pb = contents s poff) \<and>
     wf_tree (contents s) l (refs pb pidx) \<and>
     nodes (contents s) l (refs pb pidx) \<subseteq> {k. 0 < k \<and> k < nblocks} \<and>
     free_inv nblocks (contents s) F \<and> superblock sn = contents s 0 \<and>
     nodes (contents s) l (refs pb pidx) \<inter> F = {} \<and>
     poff \<notin> nodes (contents s) l (refs pb pidx) \<union> F"

definition walk_post where
  "walk_post ok contents nblocks offset blk l pb pidx poff s F result \<longleftrightarrow>
     (result = Inl store_full \<and> card F \<le> l) \<or>
     (\<exists>b s' b' F'. result = Inr (b, s') \<and> ok s' \<and> b < nblocks \<and>
        walked nblocks (unat offset) blk l (refs pb pidx) poff (contents s) F pb pidx
          ((contents s')(b := blk)) b' F')"

lemma walk_preD:
  assumes "walk_pre ok contents nblocks l pb pidx poff sn s F"
  shows "ok s" "l \<le> 5" "length pb = BLOCK_SIZE" "pidx < 128" "poff < nblocks" "poff \<noteq> 0"
    "refs pb pidx = 0 \<or> pb = contents s poff" "wf_tree (contents s) l (refs pb pidx)"
    "nodes (contents s) l (refs pb pidx) \<subseteq> {k. 0 < k \<and> k < nblocks}"
    "free_inv nblocks (contents s) F" "superblock sn = contents s 0"
    "nodes (contents s) l (refs pb pidx) \<inter> F = {}" "poff \<notin> nodes (contents s) l (refs pb pidx) \<union> F"
  using assms by (simp_all add: walk_pre_def)

locale treedisk_on = block_store dev dev_ino ok contents nblocks
  for dev :: "'s inode_store" and dev_ino ok contents nblocks +
  fixes ts :: "'s treedisk_state"
  assumes ts_below: "below ts = dev" and ts_ino: "below_ino ts = dev_ino"
    and ts_rpb: "log_rpb ts = 7"
begin

lemma read_block:
  assumes "ok s" "k < nblocks"
  obtains s' where "read_op (below ts) (below_ino ts) k buf s = Inr (0, contents s k, s')"
    "ok s'" "contents s' = contents s"
  using read_ok[OF assms] ts_below ts_ino that by auto

lemma write_block:
  assumes "ok s" "k < nblocks" "length blk = BLOCK_SIZE"
  obtains s' where "write_op (below ts) (below_ino ts) k blk s = Inr (0, s')"
    "ok s'" "contents s' = (contents s)(k := blk)"
  using write_ok[OF assms] ts_below ts_ino that by auto

lemma alloc_full:
  assumes "free_inv nblocks (contents s) F" "superblock sn = contents s 0" "F = {}"
  shows "treedisk_alloc_block ts sn s = Inl (FATAL ''treedisk_alloc_block: inode store is full'')"
proof -
  obtain cs where "chain (contents s) (free_list (contents s 0)) cs"
    "set (free_blocks (contents s) cs) = {}"
    using assms by (auto simp: free_inv_def)
  then have "free_list (contents s 0) = 0"
    by (cases cs) (auto simp: free_blocks_def)
  with assms(2) show ?thesis by (simp add: treedisk_alloc_block_def panic_def)
qed

lemma alloc_block:
  assumes s: "ok s" and F: "free_inv nblocks (contents s) F" "F \<noteq> {}"
    and sb: "superblock sn = contents s 0"
  obtains b s' where
    "treedisk_alloc_block ts sn s = Inr (b, sn\<lparr>superblock := contents s' 0\<rparr>, s')"
    "ok s'" "b \<in> F" "free_inv nblocks (contents s') (F - {b})"
    "n_inodeblocks (contents s' 0) = n_inodeblocks (contents s 0)"
    "\<And>k. k \<notin> insert 0 F \<Longrightarrow> contents s' k = contents s k"
proof -
  let ?d = "contents s"
  obtain cs' where ch: "chain ?d (free_list (?d 0)) cs'" and di: "distinct (free_blocks ?d cs')"
    and set: "set (free_blocks ?d cs') = F" and rng: "F \<subseteq> {k. 0 < k \<and> k < nblocks}"
    using F by (auto simp: free_inv_def)
  with F(2) obtain c cs where cs': "cs' = c # cs" by (cases cs') (auto simp: free_blocks_def)
  have c: "free_list (?d 0) = c" "c \<noteq> 0" "chain ?d (refs (?d c) 0) cs" "c \<in> F" "c < nblocks"
    using ch set rng cs' by (auto simp: free_blocks_def)
  have z: "0 < nblocks" using c(5) by (rule word_pos_of_less)
  have len: "length (?d c) = BLOCK_SIZE" "length (?d 0) = BLOCK_SIZE"
    using length_contents s c z by auto
  have z0: "0 \<notin> set cs" using rng set cs' chain_subset_free_blocks[of cs' ?d] by auto
  obtain s1 where s1: "read_op (below ts) (below_ino ts) c uninit_block s = Inr (0, ?d c, s1)"
    "ok s1" "contents s1 = ?d" using read_block s c by metis
  define i where "i = scan_refs (?d c) 128"
  show thesis
  proof (cases "i = 0")
    case True
    let ?sb = "set_free_list (?d 0) (refs (?d c) 0)"
    obtain s2 where s2: "write_op (below ts) (below_ino ts) 0 ?sb s1 = Inr (0, s2)"
      "ok s2" "contents s2 = ?d(0 := ?sb)" using write_block[of s1 0 ?sb] s1 z len by auto
    have fb: "free_blocks ?d cs' = c # free_blocks ?d cs"
      using True entries_empty[of "?d c"] by (simp add: free_blocks_def cs' i_def)
    have fr: "free_blocks (contents s2) cs = free_blocks ?d cs"
      "chain (contents s2) (refs (?d c) 0) cs"
      using z0 c(3) s2(3) by simp_all
    have "free_inv nblocks (contents s2) (F - {c})"
      unfolding free_inv_def using fr fb di set rng s2(3) len
      by (intro conjI exI[of _ cs]) auto
    moreover have "treedisk_alloc_block ts sn s = Inr (c, sn\<lparr>superblock := contents s2 0\<rparr>, s2)"
      using True s1 s2 sb c by (simp add: treedisk_alloc_block_def i_def Let_def)
    ultimately show thesis
      using s2 c by (intro that[of c s2]) auto
  next
    case False
    let ?b = "refs (?d c) i" and ?fl = "set_ref (?d c) i 0"
    have i: "0 < i" "i < 128" "?b \<noteq> 0" using False scan_refs_found[of "?d c" 128 i] by (auto simp: i_def)
    obtain s2 where s2: "write_op (below ts) (below_ino ts) c ?fl s1 = Inr (0, s2)"
      "ok s2" "contents s2 = ?d(c := ?fl)" using write_block[of s1 c ?fl] s1 c len by auto
    obtain xs ys where xy: "entries (?d c) = xs @ ?b # ys" "entries ?fl = xs @ ys"
      using entries_clear[OF len(1) i] by blast
    have cn: "c \<notin> set cs" using di cs' chain_subset_free_blocks[of cs ?d] by (auto simp: free_blocks_def)
    have fb: "free_blocks ?d cs' = c # xs @ ?b # ys @ free_blocks ?d cs"
      by (simp add: free_blocks_def cs' xy)
    have fr: "free_blocks (contents s2) cs = free_blocks ?d cs"
      "chain (contents s2) (refs (?d c) 0) cs"
      using cn c(3) s2(3) by simp_all
    then have fb2: "free_blocks (contents s2) cs' = c # xs @ ys @ free_blocks ?d cs"
      using s2(3) xy(2) by (simp add: free_blocks_def cs')
    have "chain (contents s2) (free_list (contents s2 0)) cs'"
      using fr(2) s2(3) c i len by (simp add: cs' refs_set_ref)
    then have "free_inv nblocks (contents s2) (F - {?b})"
      unfolding free_inv_def using fb fb2 di set rng
      by (intro conjI exI[of _ cs']) auto
    moreover have "contents s2 0 = ?d 0" using s2(3) c by simp
    moreover have "?b \<in> F" using fb set by auto
    moreover have "treedisk_alloc_block ts sn s = Inr (?b, sn\<lparr>superblock := contents s2 0\<rparr>, s2)"
      using False s1 s2 sb c by (simp add: treedisk_alloc_block_def i_def Let_def)
    ultimately show thesis
      using s2 c by (intro that[of ?b s2]) auto
  qed
qed

lemma ref_index_eq: "l < 32 \<Longrightarrow> ref_index ts offset (of_nat l) = unat offset div 128 ^ l mod 128"
  using unat_log_shift_r[of "of_nat l" offset]
  by (simp add: ref_index_def ts_rpb unat_mod unat_of_nat take_bit_nat_eq_self)

text \<open>One round of the walk at a hole: a block is allocated and its parent written back.\<close>

lemma write_walk_hole_full:
  assumes "refs pb pidx = 0" "F = {}"
    and "free_inv nblocks (contents s) F" "superblock sn = contents s 0"
  shows "write_walk ts offset nl pb pidx poff sn s = Inl store_full"
  using assms alloc_full[of s F sn] by (subst write_walk.simps) simp

lemma write_walk_hole:
  assumes s: "ok s" "length pb = BLOCK_SIZE" "poff < nblocks" "poff \<noteq> 0" "poff \<notin> F"
    and "refs pb pidx = 0" "F \<noteq> {}"
    and "free_inv nblocks (contents s) F" "superblock sn = contents s 0"
  obtains b s2 where
    "write_walk ts offset nl pb pidx poff sn s =
       (if nl = 0 then Inr (b, s2)
        else write_walk ts offset (nl - 1) null_block (ref_index ts offset (nl - 1)) b
               (sn\<lparr>superblock := contents s2 0\<rparr>) s2)"
    "ok s2" "b \<in> F" "b \<noteq> 0" "b < nblocks" "b \<noteq> poff" "free_inv nblocks (contents s2) (F - {b})"
    "contents s2 poff = set_ref pb pidx b"
    "n_inodeblocks (contents s2 0) = n_inodeblocks (contents s 0)"
    "\<And>k. k \<notin> insert 0 (insert poff F) \<Longrightarrow> contents s2 k = contents s k"
proof -
  obtain b s1 where a: "treedisk_alloc_block ts sn s
      = Inr (b, sn\<lparr>superblock := contents s1 0\<rparr>, s1)" "ok s1" "b \<in> F"
    "free_inv nblocks (contents s1) (F - {b})"
    "n_inodeblocks (contents s1 0) = n_inodeblocks (contents s 0)"
    "\<And>k. k \<notin> insert 0 F \<Longrightarrow> contents s1 k = contents s k"
    using alloc_block[OF s(1) assms(8,7,9)] by blast
  obtain s2 where w: "write_op (below ts) (below_ino ts) poff (set_ref pb pidx b) s1 = Inr (0, s2)"
    "ok s2" "contents s2 = (contents s1)(poff := set_ref pb pidx b)"
    using write_block[OF a(2) s(3), of "set_ref pb pidx b"] s(2) by auto
  have b: "b \<noteq> 0" "b < nblocks" "b \<noteq> poff" using a(3) assms(8) s(5) by (auto simp: free_inv_def)
  have "free_inv nblocks (contents s2) (F - {b})"
    using a(4) w(3) s(4,5) by (auto intro!: free_inv_upd)
  moreover have "write_walk ts offset nl pb pidx poff sn s =
       (if nl = 0 then Inr (b, s2)
        else write_walk ts offset (nl - 1) null_block (ref_index ts offset (nl - 1)) b
               (sn\<lparr>superblock := contents s2 0\<rparr>) s2)"
    using assms(6) a(1) w(1,3) s(4) by (subst write_walk.simps) simp
  ultimately show thesis
    using a w b s(4) by (intro that[of b s2]) auto
qed

lemma walk_level:
  assumes "Suc l \<le> 5"
  shows "(of_nat (Suc l) :: u32) \<noteq> 0" "(of_nat (Suc l) :: u32) - 1 = of_nat l"
    "ref_index ts offset (of_nat l) = unat offset div 128 ^ l mod 128" "unat offset div 128 ^ l mod 128 < 128"
  using assms ref_index_eq[of l offset] of_nat_Suc_u32[of l] by auto

text \<open>At the bottom: the data block, or a new one.\<close>

lemma walk_leaf:
  assumes pre: "walk_pre ok contents nblocks 0 pb pidx poff sn s F"
  shows "walk_post ok contents nblocks offset blk 0 pb pidx poff s F (write_walk ts offset (of_nat 0) pb pidx poff sn s)"
proof -
  let ?d = "contents s" and ?b = "refs pb pidx"
  note P = walk_preD[OF pre]
  show ?thesis
  proof (cases "?b = 0")
    case True
    show ?thesis
    proof (cases "F = {}")
      case True
      with \<open>?b = 0\<close> write_walk_hole_full[of pb pidx F s sn] P show ?thesis by (simp add: walk_post_def)
    next
      case False
      obtain b s2 where w: "write_walk ts offset (of_nat 0) pb pidx poff sn s = Inr (b, s2)"
        "ok s2" "b \<in> F" "b \<noteq> 0" "b < nblocks" "b \<noteq> poff" "free_inv nblocks (contents s2) (F - {b})"
        "contents s2 poff = set_ref pb pidx b"
        "n_inodeblocks (contents s2 0) = n_inodeblocks (?d 0)"
        "\<And>k. k \<notin> insert 0 (insert poff F) \<Longrightarrow> contents s2 k = ?d k"
        using write_walk_hole[OF P(1,3,5,6) _ True False P(10,11), of offset "of_nat 0"] P(13) by auto
      have "free_inv nblocks ((contents s2)(b := blk)) (F - {b})" "card F \<le> Suc (card (F - {b}))"
        using w card_remove_u32[of b F] by (auto intro!: free_inv_upd)
      then have "walked nblocks (unat offset) blk 0 ?b poff ?d F pb pidx
          ((contents s2)(b := blk)) b (F - {b})"
        using w \<open>?b = 0\<close> P by (auto simp: walked_def)
      then show ?thesis unfolding walk_post_def using w by blast
    qed
  next
    case False
    then have "walked nblocks (unat offset) blk 0 ?b poff ?d F pb pidx (?d(?b := blk)) ?b F"
      using P free_inv_upd[OF P(10)] by (auto simp: walked_def set_ref_refs)
    moreover have "write_walk ts offset (of_nat 0) pb pidx poff sn s = Inr (?b, s)"
      using False by (subst write_walk.simps) simp
    moreover have "?b < nblocks" using P False by auto
    ultimately show ?thesis unfolding walk_post_def using P(1) by blast
  qed
qed

text \<open>A missing indirect block is allocated, and the walk goes on from it.\<close>

lemma walk_hole:
  assumes pre: "walk_pre ok contents nblocks (Suc l) pb pidx poff sn s F" and zero: "refs pb pidx = 0"
    and IH: "\<And>pb pidx poff sn s F. walk_pre ok contents nblocks l pb pidx poff sn s F \<Longrightarrow>
      walk_post ok contents nblocks offset blk l pb pidx poff s F (write_walk ts offset (of_nat l) pb pidx poff sn s)"
  shows "walk_post ok contents nblocks offset blk (Suc l) pb pidx poff s F (write_walk ts offset (of_nat (Suc l)) pb pidx poff sn s)"
proof -
  let ?d = "contents s" and ?b = "refs pb pidx" and ?idx = "unat offset div 128 ^ l mod 128"
  note P = walk_preD[OF pre]
  note nl = walk_level(1,2)[OF P(2)] walk_level(3,4)[OF P(2), of offset]
  show ?thesis
  proof (cases "F = {}")
    case True
    with zero write_walk_hole_full[of pb pidx F s sn] P show ?thesis by (simp add: walk_post_def)
  next
    case False
    obtain b s2 where w: "write_walk ts offset (of_nat (Suc l)) pb pidx poff sn s
        = write_walk ts offset (of_nat l) null_block ?idx b (sn\<lparr>superblock := contents s2 0\<rparr>) s2"
      "ok s2" "b \<in> F" "b \<noteq> 0" "b < nblocks" "b \<noteq> poff" "free_inv nblocks (contents s2) (F - {b})"
      "contents s2 poff = set_ref pb pidx b"
      "n_inodeblocks (contents s2 0) = n_inodeblocks (?d 0)"
      "\<And>k. k \<notin> insert 0 (insert poff F) \<Longrightarrow> contents s2 k = ?d k"
      using write_walk_hole[OF P(1,3,5,6) _ zero False P(10,11), of offset "of_nat (Suc l)"]
        P(13) nl by auto
    let ?sn = "sn\<lparr>superblock := contents s2 0\<rparr>"
    have fin: "finite F" by simp
    have z: "refs null_block ?idx = 0" using nl(4) by simp
    have "walk_pre ok contents nblocks l null_block ?idx b ?sn s2 (F - {b})"
      unfolding walk_pre_def using w(2,4-7) z nl(4) P(2) by simp
    from IH[OF this]
    consider (full) "write_walk ts offset (of_nat l) null_block ?idx b ?sn s2 = Inl store_full"
        "card (F - {b}) \<le> l"
      | (fine) db s' b' F' where
        "write_walk ts offset (of_nat l) null_block ?idx b ?sn s2 = Inr (db, s')" "ok s'"
        "db < nblocks"
        "walked nblocks (unat offset) blk l 0 b (contents s2) (F - {b}) null_block ?idx
           ((contents s')(db := blk)) b' F'"
      unfolding walk_post_def z by blast
    then show ?thesis
    proof cases
      case full
      with w(1,3) fin show ?thesis by (auto simp: walk_post_def)
    next
      case fine
      have "walked nblocks (unat offset) blk (Suc l) ?b poff ?d F pb pidx
          ((contents s')(db := blk)) b F'"
        unfolding zero using fine(4)
        by (rule walked_new) (use w P in auto)
      then show ?thesis unfolding walk_post_def w(1) using fine by blast
    qed
  qed
qed

text \<open>An indirect block that is there is read.\<close>

lemma walk_down:
  assumes pre: "walk_pre ok contents nblocks (Suc l) pb pidx poff sn s F" and nz: "refs pb pidx \<noteq> 0"
    and IH: "\<And>pb pidx poff sn s F. walk_pre ok contents nblocks l pb pidx poff sn s F \<Longrightarrow>
      walk_post ok contents nblocks offset blk l pb pidx poff s F (write_walk ts offset (of_nat l) pb pidx poff sn s)"
  shows "walk_post ok contents nblocks offset blk (Suc l) pb pidx poff s F (write_walk ts offset (of_nat (Suc l)) pb pidx poff sn s)"
proof -
  let ?d = "contents s" and ?b = "refs pb pidx" and ?idx = "unat offset div 128 ^ l mod 128"
  note P = walk_preD[OF pre]
  note nl = walk_level(1,2)[OF P(2)] walk_level(3,4)[OF P(2), of offset]
  have pb: "pb = ?d poff" and b: "?b < nblocks"
    using P nz root_in_nodes[of ?b ?d "Suc l"] by auto
  obtain s1 where r: "read_op (below ts) (below_ino ts) ?b uninit_block s = Inr (0, ?d ?b, s1)"
    "ok s1" "contents s1 = ?d"
    using read_block[OF P(1) b] by blast
  have len: "length (?d ?b) = BLOCK_SIZE" using length_contents P(1) b by simp
  let ?c = "refs (?d ?b) ?idx"
  have sub: "nodes ?d l ?c \<subseteq> nodes ?d (Suc l) ?b" "?b \<notin> nodes ?d l ?c" "wf_tree ?d l ?c"
    using nodes_child[OF nz nl(4), of ?d l] P(8) nl(4) nz
    by (simp_all add: wf_tree.simps(2))
  have bF: "?b \<notin> F" using root_in_nodes[OF nz, of ?d "Suc l"] P(12) by blast
  have e: "write_walk ts offset (of_nat (Suc l)) pb pidx poff sn s
      = write_walk ts offset (of_nat l) (?d ?b) ?idx ?b sn s1"
    using nz r nl by (subst write_walk.simps) (simp add: Let_def)
  have "nodes ?d l ?c \<subseteq> {k. 0 < k \<and> k < nblocks}" "nodes ?d l ?c \<inter> F = {}"
    using sub(1) P(9,12) by blast+
  then have "walk_pre ok contents nblocks l (?d ?b) ?idx ?b sn s1 F"
    unfolding walk_pre_def using r b len sub nl(4) P bF nz by simp
  from IH[OF this]
  consider (full) "write_walk ts offset (of_nat l) (?d ?b) ?idx ?b sn s1 = Inl store_full"
      "card F \<le> l"
    | (fine) db s' b' F' where
      "write_walk ts offset (of_nat l) (?d ?b) ?idx ?b sn s1 = Inr (db, s')" "ok s'" "db < nblocks"
      "walked nblocks (unat offset) blk l ?c ?b ?d F (?d ?b) ?idx ((contents s')(db := blk)) b' F'"
    unfolding walk_post_def r(3) by blast
  then show ?thesis
  proof cases
    case full
    with e show ?thesis by (auto simp: walk_post_def)
  next
    case fine
    have "walked nblocks (unat offset) blk (Suc l) ?b poff ?d F pb pidx
        ((contents s')(db := blk)) ?b F'"
      by (rule walked_child[OF fine(4) refl nz len P(8,12,13,6)])
        (use set_ref_refs[OF P(3,4)] pb in simp)
    then show ?thesis unfolding walk_post_def e using fine by blast
  qed
qed

lemma write_walk_correct:
  assumes "ok s" "l \<le> 5" "length pb = BLOCK_SIZE" "pidx < 128" "poff < nblocks" "poff \<noteq> 0"
    and "refs pb pidx = 0 \<or> pb = contents s poff"
    and "wf_tree (contents s) l (refs pb pidx)"
    and "nodes (contents s) l (refs pb pidx) \<subseteq> {k. 0 < k \<and> k < nblocks}"
    and "free_inv nblocks (contents s) F" "superblock sn = contents s 0"
    and "nodes (contents s) l (refs pb pidx) \<inter> F = {}"
    and "poff \<notin> nodes (contents s) l (refs pb pidx) \<union> F"
  shows "(write_walk ts offset (of_nat l) pb pidx poff sn s = Inl store_full \<and> card F \<le> l) \<or>
     (\<exists>b s' b' F'. write_walk ts offset (of_nat l) pb pidx poff sn s = Inr (b, s') \<and> ok s' \<and>
        b < nblocks \<and>
        walked nblocks (unat offset) blk l (refs pb pidx) poff (contents s) F pb pidx
          ((contents s')(b := blk)) b' F')"
proof -
  have "walk_pre ok contents nblocks l pb pidx poff sn s F \<Longrightarrow>
      walk_post ok contents nblocks offset blk l pb pidx poff s F (write_walk ts offset (of_nat l) pb pidx poff sn s)"
  proof (induction l arbitrary: pb pidx poff sn s F)
    case 0
    then show ?case by (rule walk_leaf)
  next
    case (Suc l)
    show ?case
    proof (cases "refs pb pidx = 0")
      case True
      then show ?thesis by (rule walk_hole[OF Suc.prems _ Suc.IH])
    next
      case False
      then show ?thesis by (rule walk_down[OF Suc.prems _ Suc.IH])
    qed
  qed
  with assms show ?thesis by (simp add: walk_pre_def walk_post_def)
qed

lemma read_walk_correct:
  assumes "ok s" "l \<le> 5" "nodes (contents s) l b \<subseteq> {k. 0 < k \<and> k < nblocks}"
  shows "\<exists>s'. read_walk ts offset (of_nat l) b buf s = Inr (0, lookup (contents s) l b (unat offset), s') \<and>
     ok s' \<and> contents s' = contents s"
  using assms
proof (induction l arbitrary: b buf s)
  case 0
  show ?case
  proof (cases "b = 0")
    case False
    with 0 have "b < nblocks" by auto
    then obtain s1 where "read_op (below ts) (below_ino ts) b buf s = Inr (0, contents s b, s1)"
      "ok s1" "contents s1 = contents s"
      using read_block[OF 0(1), of b buf] by blast
    with False show ?thesis by (subst read_walk.simps) simp
  qed (use 0 in \<open>subst read_walk.simps, simp\<close>)
next
  case (Suc l)
  let ?idx = "unat offset div 128 ^ l mod 128"
  have nl: "(of_nat (Suc l) :: u32) \<noteq> 0" "(of_nat (Suc l) :: u32) - 1 = of_nat l"
    "ref_index ts offset (of_nat l) = ?idx" "?idx < 128"
    using Suc(3) ref_index_eq[of l offset] of_nat_Suc_u32[of l] by auto
  show ?case
  proof (cases "b = 0")
    case False
    have "b < nblocks" using root_in_nodes[OF False] Suc(4) by blast
    then obtain s1 where r: "read_op (below ts) (below_ino ts) b buf s = Inr (0, contents s b, s1)"
      "ok s1" "contents s1 = contents s"
      using read_block[OF Suc(2), of b buf] by blast
    have "nodes (contents s) l (refs (contents s b) ?idx) \<subseteq> {k. 0 < k \<and> k < nblocks}"
      using nodes_child[OF False nl(4), of "contents s" l] Suc(4) by blast
    then obtain s2 where w: "read_walk ts offset (of_nat l) (refs (contents s b) ?idx) (contents s b) s1
        = Inr (0, lookup (contents s) l (refs (contents s b) ?idx) (unat offset), s2)"
      "ok s2" "contents s2 = contents s"
      using Suc.IH[of s1 "refs (contents s b) ?idx" "contents s b"] r Suc(3) by auto
    have "read_walk ts offset (of_nat (Suc l)) b buf s
        = read_walk ts offset (of_nat l) (refs (contents s b) ?idx) (contents s b) s1"
      using False r nl by (subst read_walk.simps) simp
    with w False show ?thesis by (simp add: tree_simps)
  qed (use Suc in \<open>subst read_walk.simps, simp\<close>)
qed

lemma grow_levels_correct:
  assumes "ok s" "l \<le> l2" "l2 \<le> 5" "length (inodeblock sn) = BLOCK_SIZE" "inode sn < 64"
    and "inode_root (inodeblock sn) (inode sn) = root"
    and "wf_tree (contents s) l root" "nodes (contents s) l root \<inter> F = {}"
    and "free_inv nblocks (contents s) F" "superblock sn = contents s 0"
  shows "(grow_levels ts (of_nat l2) (of_nat l) sn s = Inl store_full \<and> card F < l2 - l) \<or>
     (\<exists>root' s' F'. grow_levels ts (of_nat l2) (of_nat l) sn s =
          Inr (sn\<lparr>superblock := contents s' 0,
                  inodeblock := set_ref (inodeblock sn) (2 * inode sn) root'\<rparr>, s') \<and> ok s' \<and>
        grown nblocks l l2 (contents s) root F (contents s') root' F')"
  using assms
proof (induction "l2 - l" arbitrary: l sn s root F)
  case 0
  then have "l2 = l" by simp
  then have "grow_levels ts (of_nat l2) (of_nat l) sn s = Inr (sn, s)"
    by (subst grow_levels.simps) simp
  moreover have "sn = sn\<lparr>superblock := contents s 0,
      inodeblock := set_ref (inodeblock sn) (2 * inode sn) root\<rparr>"
    using 0 set_ref_refs[of "inodeblock sn" "2 * inode sn"] by (simp add: inode_root_def)
  moreover have "grown nblocks l l2 (contents s) root F (contents s) root F"
    using 0 \<open>l2 = l\<close> by (simp add: grown_def)
  ultimately show ?case using 0(2) by metis
next
  case (Suc m)
  let ?d = "contents s"
  have gt: "(of_nat l2 :: u32) > of_nat l" "(of_nat l :: u32) + 1 = of_nat (Suc l)"
    using Suc(2,4,5) by (auto simp: word_less_nat_alt unat_of_nat_u32)
  show ?case
  proof (cases "F = {}")
    case True
    with alloc_full[OF Suc(11,12) True] gt Suc(2) show ?thesis
      by (subst (1 2) grow_levels.simps) simp
  next
    case False
    obtain b s1 where a: "treedisk_alloc_block ts sn s
        = Inr (b, sn\<lparr>superblock := contents s1 0\<rparr>, s1)" "ok s1" "b \<in> F"
      "free_inv nblocks (contents s1) (F - {b})"
      "n_inodeblocks (contents s1 0) = n_inodeblocks (?d 0)"
      "\<And>k. k \<notin> insert 0 F \<Longrightarrow> contents s1 k = ?d k"
      using alloc_block[OF Suc(3,11) False Suc(12)] by blast
    have b: "b \<noteq> 0" "b < nblocks" "b \<notin> nodes ?d l root"
      using a(3) Suc(10,11) by (auto simp: free_inv_def)
    let ?tib = "set_ref null_block 0 root"
    obtain s2 where w: "write_op (below ts) (below_ino ts) b ?tib s1 = Inr (0, s2)"
      "ok s2" "contents s2 = (contents s1)(b := ?tib)"
      using write_block[OF a(2) b(2), of ?tib] by auto
    let ?sn = "sn\<lparr>superblock := contents s2 0, inodeblock := set_ref (inodeblock sn) (2 * inode sn) b\<rparr>"
    have e: "grow_levels ts (of_nat l2) (of_nat l) sn s = grow_levels ts (of_nat l2) (of_nat (Suc l)) ?sn s2"
      using gt a(1) w b(1) Suc(8)
      by (subst grow_levels.simps) (simp add: Let_def gt(2) del: of_nat_Suc)
    have fr: "contents s2 k = ?d k" if "k \<notin> insert 0 F" for k
      using a(3,6) w(3) that by auto
    have "k \<notin> insert 0 F" if "k \<in> nodes ?d l root" for k
      using that Suc(10) zero_notin_nodes[of ?d l root] by blast
    then have same: "contents s2 k = ?d k" if "k \<in> nodes ?d l root" for k
      using that fr by simp
    have t: "wf_tree (contents s2) (Suc l) b" "nodes (contents s2) (Suc l) b = insert b (nodes ?d l root)"
      using push_root(1,2)[of "contents s2" b root ?d l] b(1,3) same Suc(9) w(3) by auto
    have IH: "(grow_levels ts (of_nat l2) (of_nat (Suc l)) ?sn s2 = Inl store_full \<and>
          card (F - {b}) < l2 - Suc l) \<or>
       (\<exists>root' s' F'. grow_levels ts (of_nat l2) (of_nat (Suc l)) ?sn s2 =
          Inr (?sn\<lparr>superblock := contents s' 0,
                  inodeblock := set_ref (inodeblock ?sn) (2 * inode ?sn) root'\<rparr>, s') \<and> ok s' \<and>
          grown nblocks (Suc l) l2 (contents s2) b (F - {b}) (contents s') root' F')"
    proof (rule Suc.hyps(1))
      show "nodes (contents s2) (Suc l) b \<inter> (F - {b}) = {}" unfolding t(2) using Suc(10) by auto
      show "free_inv nblocks (contents s2) (F - {b})"
        using a(4) w(3) b(1) by (auto intro!: free_inv_upd)
    qed (use Suc.hyps(2) Suc.prems w(2) t(1) in \<open>simp_all add: inode_root_def refs_set_ref\<close>)
    then show ?thesis
    proof (elim disjE exE conjE)
      assume full: "grow_levels ts (of_nat l2) (of_nat (Suc l)) ?sn s2 = Inl store_full"
        "card (F - {b}) < l2 - Suc l"
      have "card F < l2 - l" using full(2) card_remove_u32[OF a(3)] by linarith
      then show ?thesis unfolding e full(1) by (intro disjI1 conjI refl)
    next
      fix root' s' F'
      assume g: "grow_levels ts (of_nat l2) (of_nat (Suc l)) ?sn s2 =
          Inr (?sn\<lparr>superblock := contents s' 0,
                  inodeblock := set_ref (inodeblock ?sn) (2 * inode ?sn) root'\<rparr>, s')" "ok s'"
        "grown nblocks (Suc l) l2 (contents s2) b (F - {b}) (contents s') root' F'"
      have "grown nblocks l l2 ?d root F (contents s') root' F'"
        using g(3) by (rule grown_step) (use a(3,5) b(1) w(3) fr Suc.hyps(2) Suc.prems in simp_all)
      with g(1,2) show ?thesis unfolding e by (simp del: of_nat_Suc) blast
    qed
  qed
qed

end

end
