(* ===== verification/Treedisk_Files.thy ===== *)
theory Treedisk_Files
  imports Treedisk_Correct
begin

text \<open>
  Files on a treedisk. The abstract state is a list of blocks per inode number; the
  invariant says that every block of the store is the superblock, an inode block, or
  belongs to exactly one of the free list and the files' trees.
\<close>

section \<open>Abstraction and invariant\<close>

definition inode_block :: "nat \<Rightarrow> block_no" where
  "inode_block i = of_nat (1 + i div 64)"

definition file_root :: "fdisk \<Rightarrow> nat \<Rightarrow> block_no" where
  "file_root d i = inode_root (d (inode_block i)) (i mod 64)"

definition file_nblocks :: "fdisk \<Rightarrow> nat \<Rightarrow> nat" where
  "file_nblocks d i = unat (inode_nblocks (d (inode_block i)) (i mod 64))"

definition file_depth :: "fdisk \<Rightarrow> nat \<Rightarrow> nat" where
  "file_depth d i = depth (file_nblocks d i - 1)"

definition file_nodes :: "fdisk \<Rightarrow> nat \<Rightarrow> block_no set" where
  "file_nodes d i = nodes d (file_depth d i) (file_root d i)"

definition file_block :: "fdisk \<Rightarrow> nat \<Rightarrow> nat \<Rightarrow> block" where
  "file_block d i off = lookup d (file_depth d i) (file_root d i) off"

definition n_files :: "fdisk \<Rightarrow> nat" where
  "n_files d = 64 * unat (n_inodeblocks (d 0))"

definition file_of :: "fdisk \<Rightarrow> nat \<Rightarrow> block list" where
  "file_of d i = map (file_block d i) [0 ..< file_nblocks d i]"

definition wf_file :: "fdisk \<Rightarrow> nat \<Rightarrow> bool" where
  "wf_file d i \<longleftrightarrow>
     wf_tree d (file_depth d i) (file_root d i) \<and>
     (file_nblocks d i = 0 \<longrightarrow> file_root d i = 0) \<and>
     (\<forall>off < 128 ^ file_depth d i. file_nblocks d i \<le> off \<longrightarrow> file_block d i off = null_block)"

definition treedisk_inv :: "u32 \<Rightarrow> fdisk \<Rightarrow> block_no set \<Rightarrow> bool" where
  "treedisk_inv nb d F \<longleftrightarrow>
     n_inodeblocks (d 0) < nb \<and> n_files d < 2 ^ 32 \<and> free_inv nb d F \<and>
     (\<forall>i < n_files d. wf_file d i \<and> file_nodes d i \<inter> F = {} \<and>
        (\<forall>j < n_files d. i \<noteq> j \<longrightarrow> file_nodes d i \<inter> file_nodes d j = {})) \<and>
     F \<union> (\<Union>i \<in> {..<n_files d}. file_nodes d i) = {k. n_inodeblocks (d 0) < k \<and> k < nb}"

section \<open>Inode blocks\<close>

lemma inode_block_le:
  assumes "n_files d < 2 ^ 32" "i < n_files d"
  shows "inode_block i \<noteq> 0" "inode_block i \<le> n_inodeblocks (d 0)"
    "unat (inode_block i) = 1 + i div 64"
proof -
  have "i div 64 < unat (n_inodeblocks (d 0))"
    using assms(2) by (simp add: n_files_def less_mult_imp_div_less mult.commute)
  moreover have "unat (n_inodeblocks (d 0)) < 2 ^ 32"
    using unsigned_less[of "n_inodeblocks (d 0)", where 'a = nat] by simp
  ultimately show u: "unat (inode_block i) = 1 + i div 64"
    unfolding inode_block_def by (intro unat_of_nat_u32) simp
  then show "inode_block i \<noteq> 0" by auto
  show "inode_block i \<le> n_inodeblocks (d 0)"
    using u \<open>i div 64 < _\<close> by (simp add: word_le_nat_alt)
qed

lemma inode_block_notin:
  assumes "treedisk_inv nb d F" "i < n_files d"
  shows "inode_block i \<notin> F" "j < n_files d \<Longrightarrow> inode_block i \<notin> file_nodes d j"
    "inode_block i < nb"
proof -
  have le: "inode_block i \<le> n_inodeblocks (d 0)"
    using assms inode_block_le by (simp add: treedisk_inv_def)
  have U: "F \<union> (\<Union>i \<in> {..<n_files d}. file_nodes d i) = {k. n_inodeblocks (d 0) < k \<and> k < nb}"
    using assms by (simp add: treedisk_inv_def)
  moreover have "inode_block i \<notin> {k. n_inodeblocks (d 0) < k \<and> k < nb}"
    using le by (simp add: not_less)
  ultimately show "inode_block i \<notin> F" "j < n_files d \<Longrightarrow> inode_block i \<notin> file_nodes d j"
    by blast+
  show "inode_block i < nb" using le assms(1) by (auto simp: treedisk_inv_def)
qed

lemma inode_block_inj:
  assumes "n_files d < 2 ^ 32" "i < n_files d" "j < n_files d" "inode_block i = inode_block j"
  shows "i div 64 = j div 64"
  using inode_block_le(3)[OF assms(1,2)] inode_block_le(3)[OF assms(1,3)] assms(4) by simp

section \<open>Replacing one file\<close>

text \<open>
  Disk \<open>d'\<close> has a new tree and size for file \<open>i\<close>; blocks moved between that tree and
  the free list only, and the other inodes of its inode block are as they were.
\<close>

definition file_updated ::
  "u32 \<Rightarrow> fdisk \<Rightarrow> block_no set \<Rightarrow> nat \<Rightarrow> block_no \<Rightarrow> u32 \<Rightarrow> fdisk \<Rightarrow> block_no set \<Rightarrow> bool" where
  "file_updated nb d F i b' sz d' F' \<longleftrightarrow>
     (let ib = inode_block i; l2 = depth (unat sz - 1) in
      (\<forall>k. k \<notin> insert 0 (insert ib (file_nodes d i \<union> F)) \<longrightarrow> d' k = d k) \<and>
      n_inodeblocks (d' 0) = n_inodeblocks (d 0) \<and>
      (\<forall>j < 128. j \<noteq> 2 * (i mod 64) \<and> j \<noteq> 2 * (i mod 64) + 1 \<longrightarrow> refs (d' ib) j = refs (d ib) j) \<and>
      inode_root (d' ib) (i mod 64) = b' \<and> inode_nblocks (d' ib) (i mod 64) = sz \<and> sz \<noteq> 0 \<and>
      wf_tree d' l2 b' \<and> free_inv nb d' F' \<and>
      nodes d' l2 b' \<union> F' = file_nodes d i \<union> F \<and> nodes d' l2 b' \<inter> F' = {} \<and>
      (\<forall>off < 128 ^ l2. unat sz \<le> off \<longrightarrow> lookup d' l2 b' off = null_block))"

lemma updated_n_files: "file_updated nb d F i b' sz d' F' \<Longrightarrow> n_files d' = n_files d"
  by (simp add: file_updated_def n_files_def Let_def)

lemma updated_this_file:
  assumes "file_updated nb d F i b' sz d' F'"
  shows "file_root d' i = b'" "file_nblocks d' i = unat sz" "file_depth d' i = depth (unat sz - 1)"
    "file_nodes d' i \<union> F' = file_nodes d i \<union> F" "file_nodes d' i \<inter> F' = {}" "wf_file d' i"
proof -
  have i: "file_root d' i = b'" "file_nblocks d' i = unat sz"
    using assms by (simp_all add: file_updated_def Let_def file_root_def file_nblocks_def)
  then have dep: "file_depth d' i = depth (unat sz - 1)" by (simp add: file_depth_def)
  show "file_root d' i = b'" "file_nblocks d' i = unat sz" "file_depth d' i = depth (unat sz - 1)"
    using i dep by simp_all
  show "file_nodes d' i \<union> F' = file_nodes d i \<union> F" "file_nodes d' i \<inter> F' = {}"
    using assms unfolding file_nodes_def[of d'] i dep by (simp_all add: file_updated_def Let_def)
  show "wf_file d' i"
    using assms unfolding wf_file_def file_block_def i dep
    by (simp add: file_updated_def Let_def unat_eq_zero)
qed

lemma updated_other_inode:
  assumes inv: "treedisk_inv nb d F" and i: "i < n_files d" and u: "file_updated nb d F i b' sz d' F'"
    and j: "j < n_files d" "j \<noteq> i"
  shows "file_root d' j = file_root d j" "file_nblocks d' j = file_nblocks d j"
proof -
  have b: "n_files d < 2 ^ 32" using inv by (simp add: treedisk_inv_def)
  have "refs (d' (inode_block j)) (2 * (j mod 64)) = refs (d (inode_block j)) (2 * (j mod 64)) \<and>
    refs (d' (inode_block j)) (2 * (j mod 64) + 1) = refs (d (inode_block j)) (2 * (j mod 64) + 1)"
  proof (cases "inode_block j = inode_block i")
    case True
    then have "j div 64 = i div 64" using inode_block_inj[OF b j(1) i] by blast
    then have ne: "j mod 64 \<noteq> i mod 64" using j(2) by (metis div_mult_mod_eq)
    have par: "2 * x \<noteq> 2 * y + 1" for x y :: nat by presburger
    have "refs (d' (inode_block i)) m = refs (d (inode_block i)) m"
      if "m < 128" "m \<noteq> 2 * (i mod 64)" "m \<noteq> 2 * (i mod 64) + 1" for m
      using u that unfolding file_updated_def Let_def by blast
    moreover have "2 * (j mod 64) < 128" "2 * (j mod 64) + 1 < 128"
      using mod_less_divisor[of 64 j] by linarith+
    ultimately show ?thesis unfolding True using ne par[of "j mod 64" "i mod 64"] par[of "i mod 64" "j mod 64"]
      by fastforce
  next
    case False
    then have "inode_block j \<notin> insert 0 (insert (inode_block i) (file_nodes d i \<union> F))"
      using inode_block_le(1)[OF b j(1)] inode_block_notin[OF inv j(1)] i by blast
    then show ?thesis using u by (simp add: file_updated_def Let_def)
  qed
  then show "file_root d' j = file_root d j" "file_nblocks d' j = file_nblocks d j"
    by (simp_all add: file_root_def file_nblocks_def inode_root_def inode_nblocks_def)
qed

lemma updated_other_frame:
  assumes inv: "treedisk_inv nb d F" and i: "i < n_files d" and u: "file_updated nb d F i b' sz d' F'"
    and j: "j < n_files d" "j \<noteq> i" "k \<in> file_nodes d j"
  shows "d' k = d k"
proof -
  have "file_nodes d j \<inter> F = {}" "file_nodes d j \<inter> file_nodes d i = {}"
    using inv j(1,2) i by (simp_all add: treedisk_inv_def)
  moreover have "inode_block i \<notin> file_nodes d j" using inode_block_notin[OF inv i] j(1) by blast
  moreover have "k \<noteq> 0" using j(3) zero_notin_nodes by (auto simp: file_nodes_def)
  ultimately have "k \<notin> insert 0 (insert (inode_block i) (file_nodes d i \<union> F))"
    using j(3) by blast
  then show ?thesis using u by (simp add: file_updated_def Let_def)
qed

lemma updated_other_file:
  assumes "treedisk_inv nb d F" "i < n_files d" "file_updated nb d F i b' sz d' F'"
    "j < n_files d" "j \<noteq> i"
  shows "file_nodes d' j = file_nodes d j" "file_block d' j = file_block d j" "wf_file d' j"
proof -
  note o = updated_other_inode[OF assms]
  have dep: "file_depth d' j = file_depth d j" using o by (simp add: file_depth_def)
  have fr: "\<And>k. k \<in> nodes d (file_depth d j) (file_root d j) \<Longrightarrow> d' k = d k"
    using updated_other_frame[OF assms] by (simp add: file_nodes_def)
  show "file_nodes d' j = file_nodes d j" and bl: "file_block d' j = file_block d j"
    using nodes_frame[OF fr] lookup_frame[OF fr] o dep
    by (simp_all add: file_nodes_def file_block_def fun_eq_iff)
  have "wf_file d j" using assms(1,4) by (simp add: treedisk_inv_def)
  then show "wf_file d' j"
    using wf_tree_frame[OF fr] o dep bl by (simp add: wf_file_def)
qed

lemma updated_inv:
  assumes inv: "treedisk_inv nb d F" and i: "i < n_files d" and u: "file_updated nb d F i b' sz d' F'"
  shows "treedisk_inv nb d' F'"
proof -
  note this_file = updated_this_file[OF u] and other_file = updated_other_file[OF inv i u]
  have dis: "file_nodes d j \<inter> F = {}" "file_nodes d j \<inter> file_nodes d i = {}"
    if "j < n_files d" "j \<noteq> i" for j
    using inv that i by (simp_all add: treedisk_inv_def)
  have sep: "file_nodes d j \<inter> F' = {}" "file_nodes d j \<inter> file_nodes d' i = {}"
    if "j < n_files d" "j \<noteq> i" for j
    using dis[OF that] this_file(4) by blast+
  have all: "wf_file d' j \<and> file_nodes d' j \<inter> F' = {}" if "j < n_files d" for j
    using that sep[of j] other_file[of j] this_file(5,6) by (cases "j = i") simp_all
  have pair: "file_nodes d' j \<inter> file_nodes d' k = {}"
    if "j < n_files d" "k < n_files d" "j \<noteq> k" for j k
    using that sep[of j] sep[of k] other_file(1)[of j] other_file(1)[of k] inv
    by (cases "j = i"; cases "k = i") (simp_all add: treedisk_inv_def Int_commute)
  have "(\<Union>j \<in> {..<n_files d}. file_nodes d' j)
      = file_nodes d' i \<union> (\<Union>j \<in> {..<n_files d} - {i}. file_nodes d j)"
    using i other_file(1) by auto
  moreover have "(\<Union>j \<in> {..<n_files d}. file_nodes d j)
      = file_nodes d i \<union> (\<Union>j \<in> {..<n_files d} - {i}. file_nodes d j)"
    using i by auto
  moreover have "F' \<union> (file_nodes d' i \<union> R) = F \<union> (file_nodes d i \<union> R)" for R
    using this_file(4) by (metis Un_assoc Un_commute)
  ultimately have "F' \<union> (\<Union>j \<in> {..<n_files d}. file_nodes d' j)
      = F \<union> (\<Union>j \<in> {..<n_files d}. file_nodes d j)"
    by simp
  moreover have "free_inv nb d' F'" "n_inodeblocks (d' 0) = n_inodeblocks (d 0)"
    using u unfolding file_updated_def Let_def by blast+
  ultimately show ?thesis
    using inv all pair unfolding treedisk_inv_def updated_n_files[OF u] by simp
qed

end
