(* ===== verification/Treedisk_Ops.thy ===== *)
theory Treedisk_Ops
  imports Treedisk_Files
begin

text \<open>
  The operations of a treedisk against the files it holds: \<open>treedisk_read\<close> returns a block
  of the abstract file, \<open>treedisk_write\<close> is \<open>write_file\<close> on it, \<open>treedisk_getsize\<close> its
  length, and \<open>treedisk_create\<close> makes a store of empty files. All of it holds over every
  store below with the laws of \<open>block_store\<close>.
\<close>

section \<open>A file made ready for a write\<close>

text \<open>
  The disk between the two halves of \<open>treedisk_write\<close>: the inode has its new size and root,
  the tree has the new depth, and the file still holds what it held.
\<close>

definition prepared ::
  "u32 \<Rightarrow> fdisk \<Rightarrow> block_no set \<Rightarrow> nat \<Rightarrow> u32 \<Rightarrow> block_no \<Rightarrow> fdisk \<Rightarrow> block_no set \<Rightarrow> bool" where
  "prepared nb d F i sz root d2 F2 \<longleftrightarrow>
     (let ib = inode_block i; l = file_depth d i; l2 = depth (unat sz - 1) in
      d2 ib = set_ref (set_ref (d ib) (2 * (i mod 64) + 1) sz) (2 * (i mod 64)) root \<and>
      grown nb l l2 (d(ib := d2 ib)) (file_root d i) F d2 root F2)"

lemma inode_fields:
  assumes "length b = BLOCK_SIZE" "m < 64"
  shows "inode_root (set_ref (set_ref b (2 * m + 1) sz) (2 * m) root) m = root"
    "inode_nblocks (set_ref (set_ref b (2 * m + 1) sz) (2 * m) root) m = sz"
    "j \<noteq> 2 * m \<Longrightarrow> j \<noteq> 2 * m + 1 \<Longrightarrow>
       refs (set_ref (set_ref b (2 * m + 1) sz) (2 * m) root) j = refs b j"
  using assms by (auto simp: inode_root_def inode_nblocks_def refs_set_ref)

lemma grown_upd:
  assumes "grown nb l l2 d root F d' root' F'" "k \<noteq> 0" "k \<notin> nodes d l root \<union> F"
  shows "grown nb l l2 (d(k := v)) root F (d'(k := v)) root' F'"
proof -
  have "k \<notin> nodes d' l2 root' \<union> F'" using assms by (auto simp: grown_def)
  then show ?thesis using assms by (auto simp: grown_def intro!: free_inv_upd)
qed

lemma grown_refl:
  "wf_tree d l root \<Longrightarrow> free_inv nb d F \<Longrightarrow> nodes d l root \<inter> F = {} \<Longrightarrow> grown nb l l d root F d root F"
  by (simp add: grown_def)

lemma grown_file:
  assumes "treedisk_inv nb d F" "i < n_files d"
  shows "wf_tree d (file_depth d i) (file_root d i)" "free_inv nb d F"
    "nodes d (file_depth d i) (file_root d i) \<inter> F = {}"
    "nodes d (file_depth d i) (file_root d i) \<union> F \<subseteq> {k. 0 < k \<and> k < nb}"
proof -
  show "wf_tree d (file_depth d i) (file_root d i)" "free_inv nb d F"
    "nodes d (file_depth d i) (file_root d i) \<inter> F = {}"
    using assms by (simp_all add: treedisk_inv_def wf_file_def file_nodes_def)
  have "file_nodes d i \<union> F \<subseteq> {k. n_inodeblocks (d 0) < k \<and> k < nb}"
    using assms unfolding treedisk_inv_def by blast
  then show "nodes d (file_depth d i) (file_root d i) \<union> F \<subseteq> {k. 0 < k \<and> k < nb}"
    using word_pos_of_less unfolding file_nodes_def by blast
qed

lemma prepared_same:
  assumes inv: "treedisk_inv nb d F" and i: "i < n_files d" and len: "length (d (inode_block i)) = BLOCK_SIZE"
  shows "prepared nb d F i (inode_nblocks (d (inode_block i)) (i mod 64)) (file_root d i) d F"
proof -
  let ?b = "d (inode_block i)" and ?m = "i mod 64"
  have m: "2 * ?m < 128" "2 * ?m + 1 < 128" by auto
  have "set_ref (set_ref ?b (2 * ?m + 1) (inode_nblocks ?b ?m)) (2 * ?m) (file_root d i) = ?b"
    using set_ref_refs[OF len m(2)] set_ref_refs[OF len m(1)]
    by (simp add: inode_nblocks_def file_root_def inode_root_def)
  then show ?thesis
    using grown_refl grown_file[OF assms(1,2)]
    by (simp add: prepared_def Let_def file_depth_def file_nblocks_def)
qed

lemma prepared_grown:
  assumes inv: "treedisk_inv nb d F" and i: "i < n_files d"
    and g: "grown nb (file_depth d i) (depth (unat sz - 1)) d (file_root d i) F d1 root F1"
    and ib: "ib = set_ref (set_ref (d (inode_block i)) (2 * (i mod 64) + 1) sz) (2 * (i mod 64)) root"
  shows "prepared nb d F i sz root (d1(inode_block i := ib)) F1"
proof -
  have "inode_block i \<noteq> 0" "inode_block i \<notin> nodes d (file_depth d i) (file_root d i) \<union> F"
    using inode_block_le(1)[OF _ i] inode_block_notin[OF inv i] i inv
    by (simp_all add: treedisk_inv_def file_nodes_def)
  then show ?thesis using grown_upd[OF g] ib by (simp add: prepared_def)
qed

section \<open>The file after a write\<close>

lemma mod_eq_less: "a < n \<Longrightarrow> b < n \<Longrightarrow> (a mod n = b mod n) = (a = b)" for a b n :: nat
  by simp

text \<open>
  The prepared disk after the walk and the data write: file \<open>i\<close> was replaced, and it
  reads as before except at the offset written.
\<close>

lemma prepared_walked:
  assumes inv: "treedisk_inv nb d F" and i: "i < n_files d" and len: "length (d (inode_block i)) = BLOCK_SIZE"
    and p: "prepared nb d F i sz root d2 F2"
    and w: "walked nb off blk (depth (unat sz - 1)) root (inode_block i) d2 F2
      (d2 (inode_block i)) (2 * (i mod 64)) d3 b' F3"
    and sz: "off < unat sz" "file_nblocks d i \<le> unat sz"
  shows "file_updated nb d F i b' sz d3 F3"
    "x < unat sz \<Longrightarrow> file_block d3 i x =
       (if x = off then blk else if x < file_nblocks d i then file_block d i x else null_block)"
    "card F \<le> card F3 + 11"
proof -
  let ?ib = "inode_block i" and ?l = "file_depth d i" and ?l2 = "depth (unat sz - 1)"
  let ?d = "d(?ib := d2 ?ib)"
  have ib: "?ib \<noteq> 0" "?ib \<notin> nodes d ?l (file_root d i) \<union> F"
    using inode_block_le(1)[OF _ i] inode_block_notin[OF inv i] i inv
    by (simp_all add: treedisk_inv_def file_nodes_def)
  have d2: "d2 ?ib = set_ref (set_ref (d ?ib) (2 * (i mod 64) + 1) sz) (2 * (i mod 64)) root"
    and g: "grown nb ?l ?l2 ?d (file_root d i) F d2 root F2"
    using p unfolding prepared_def Let_def by blast+
  have same: "nodes ?d ?l (file_root d i) = file_nodes d i"
    "lookup ?d ?l (file_root d i) x = file_block d i x" for x
    using ib(2) by (simp_all add: file_nodes_def file_block_def)
  have m: "i mod 64 < 64" by simp
  have d3: "d3 ?ib = set_ref (set_ref (d ?ib) (2 * (i mod 64) + 1) sz) (2 * (i mod 64)) b'"
    using w unfolding walked_def d2 by simp
  have l: "?l \<le> ?l2" using sz(2) by (simp add: file_depth_def depth_mono)
  have look: "lookup d3 ?l2 b' x =
      (if x = off then blk else if x < 128 ^ ?l then file_block d i x else null_block)"
    if "x < 128 ^ ?l2" for x
  proof -
    have o: "off < 128 ^ ?l2" using sz(1) depth_less[of "unat sz - 1"] by simp
    have "lookup d3 ?l2 b' x = (if x = off then blk else lookup d2 ?l2 root x)"
      using w unfolding walked_def mod_eq_less[OF that o, symmetric] by blast
    moreover have "lookup d2 ?l2 root x = (if x < 128 ^ ?l then file_block d i x else null_block)"
      using g that unfolding grown_def same by blast
    ultimately show ?thesis by simp
  qed
  have hole: "file_block d i x = null_block" if "x < 128 ^ ?l" "file_nblocks d i \<le> x" for x
    using inv i that by (simp add: treedisk_inv_def wf_file_def)
  have w': "nodes d3 ?l2 b' \<union> F3 = nodes d2 ?l2 root \<union> F2" "n_inodeblocks (d3 0) = n_inodeblocks (d2 0)"
    "\<And>k. k \<notin> insert 0 (insert ?ib (nodes d2 ?l2 root \<union> F2)) \<Longrightarrow> d3 k = d2 k"
    using w unfolding walked_def by blast+
  have g': "nodes d2 ?l2 root \<union> F2 = file_nodes d i \<union> F" "n_inodeblocks (d2 0) = n_inodeblocks (d 0)"
    "\<And>k. k \<notin> insert 0 F \<Longrightarrow> d2 k = ?d k"
    using g ib(1) unfolding grown_def same by simp_all
  have "d3 k = d k" if "k \<notin> insert 0 (insert ?ib (file_nodes d i \<union> F))" for k
    using w'(3)[of k] g'(3)[of k] that unfolding g'(1) by simp
  moreover have "nodes d3 ?l2 b' \<union> F3 = file_nodes d i \<union> F" using w'(1) g'(1) by simp
  moreover have "n_inodeblocks (d3 0) = n_inodeblocks (d 0)" using w'(2) g'(2) by simp
  moreover have "sz \<noteq> 0" using sz(1) by auto
  moreover have "lookup d3 ?l2 b' x = null_block" if "x < 128 ^ ?l2" "unat sz \<le> x" for x
    using look[OF that(1)] hole[of x] that(2) sz by simp
  moreover have "wf_tree d3 ?l2 b'" "free_inv nb d3 F3" "nodes d3 ?l2 b' \<inter> F3 = {}"
    using w unfolding walked_def by blast+
  ultimately show u: "file_updated nb d F i b' sz d3 F3"
    unfolding file_updated_def Let_def d3 using inode_fields[OF len m] by simp
  show "file_block d3 i x =
       (if x = off then blk else if x < file_nblocks d i then file_block d i x else null_block)"
    if "x < unat sz"
  proof -
    have "x < 128 ^ ?l2" using that depth_less[of "unat sz - 1"] by simp
    moreover have "x < file_nblocks d i \<Longrightarrow> x < 128 ^ ?l"
      using depth_less[of "file_nblocks d i - 1"] by (simp add: file_depth_def)
    ultimately show ?thesis
      using look[of x] hole[of x] unfolding file_block_def[of d3] updated_this_file(1,3)[OF u]
      by (simp add: not_less)
  qed
  have "card F = card F2 + (?l2 - ?l)" "card F2 \<le> card F3 + Suc ?l2" "?l2 \<le> 5"
    using g w depth_u32[of sz] depth_mono[of "unat sz - 1" "unat sz"]
    unfolding grown_def walked_def by simp_all
  then show "card F \<le> card F3 + 11" by linarith
qed

lemma length_file_of [simp]: "length (file_of d i) = file_nblocks d i"
  by (simp add: file_of_def)

lemma file_of_written:
  assumes "\<And>x. x < n' \<Longrightarrow> file_block d' i x =
      (if x = off then blk else if x < n then file_block d i x else null_block)"
    and "file_nblocks d' i = n'" "file_nblocks d i = n" "n' = max n (Suc off)"
  shows "file_of d' i = write_file (file_of d i) off blk"
proof (rule nth_equalityI)
  show len: "length (file_of d' i) = length (write_file (file_of d i) off blk)"
    using assms(2-4) by (auto simp: write_file_def)
  fix x
  assume "x < length (file_of d' i)"
  then have x: "x < n'" using assms(2) by simp
  then have "file_of d' i ! x = file_block d' i x" using assms(2) by (simp add: file_of_def)
  also have "\<dots> = write_file (file_of d i) off blk ! x"
    using x assms(1)[OF x] assms(3,4)
    by (auto simp: write_file_def file_of_def nth_append nth_Cons' max_def split: if_splits)
  finally show "file_of d' i ! x = write_file (file_of d i) off blk ! x" .
qed

text \<open>One write, seen from the files: what every property of \<open>treedisk_write\<close> rests on.\<close>

definition written ::
  "u32 \<Rightarrow> fdisk \<Rightarrow> block_no set \<Rightarrow> nat \<Rightarrow> nat \<Rightarrow> block \<Rightarrow> fdisk \<Rightarrow> block_no set \<Rightarrow> bool" where
  "written nb d F i off blk d' F' \<longleftrightarrow>
     treedisk_inv nb d' F' \<and> n_files d' = n_files d \<and> card F \<le> card F' + 11 \<and>
     (\<forall>j < n_files d. file_of d' j =
        (if j = i then write_file (file_of d i) off blk else file_of d j))"

lemma written_walked:
  assumes inv: "treedisk_inv nb d F" and i: "i < n_files d" and len: "length (d (inode_block i)) = BLOCK_SIZE"
    and p: "prepared nb d F i sz root d2 F2"
    and w: "walked nb off blk (depth (unat sz - 1)) root (inode_block i) d2 F2
      (d2 (inode_block i)) (2 * (i mod 64)) d3 b' F3"
    and sz: "unat sz = max (file_nblocks d i) (Suc off)"
  shows "written nb d F i off blk d3 F3"
proof -
  have sz': "off < unat sz" "file_nblocks d i \<le> unat sz" using sz by simp_all
  note pw = prepared_walked[OF inv i len p w sz'] and u = prepared_walked(1)[OF inv i len p w sz']
  have "file_of d3 i = write_file (file_of d i) off blk"
    using file_of_written[OF pw(2)] updated_this_file(2)[OF u] sz by simp
  moreover have "file_of d3 j = file_of d j" if "j < n_files d" "j \<noteq> i" for j
    using updated_other_file(2)[OF inv i u that] updated_other_inode(2)[OF inv i u that]
    by (simp add: file_of_def)
  ultimately show ?thesis
    using updated_inv[OF inv i u] updated_n_files[OF u] pw(3) by (simp add: written_def)
qed

section \<open>The operations\<close>

context treedisk_on
begin

lemma snapshot_correct:
  assumes s: "ok s" and inv: "treedisk_inv nblocks (contents s) F"
  shows "\<exists>s'. treedisk_get_snapshot ts ino s =
     Inr (if unat ino < n_files (contents s)
          then Some \<lparr>superblock = contents s 0, inodeblock = contents s (inode_block (unat ino)),
                     inode_blockno = inode_block (unat ino), inode = unat ino mod 64\<rparr>
          else None, s') \<and> ok s' \<and> contents s' = contents s"
proof -
  let ?d = "contents s"
  have b: "n_files ?d < 2 ^ 32" "0 < nblocks" using inv word_pos_of_less by (auto simp: treedisk_inv_def)
  obtain s1 where s1: "read_op (below ts) (below_ino ts) 0 uninit_block s = Inr (0, ?d 0, s1)"
    "ok s1" "contents s1 = ?d"
    using read_block[OF s b(2), of uninit_block] by blast
  have "unat (n_inodeblocks (?d 0) * 64) = n_files ?d"
    using b(1) by (simp add: n_files_def unat_word_ariths mult.commute)
  then have lt: "(n_inodeblocks (?d 0) * 64 \<le> ino) = (\<not> unat ino < n_files ?d)"
    by (simp add: word_le_nat_alt not_less)
  show ?thesis
  proof (cases "unat ino < n_files ?d")
    case True
    have "unat (inode_block (unat ino)) = 1 + unat ino div 64"
      by (rule inode_block_le(3)[OF b(1) True])
    moreover have "unat (1 + ino div 64) = 1 + unat ino div 64"
      using unsigned_less[of ino, where 'a = nat] by (simp add: unat_word_ariths unat_div)
    ultimately have bn: "1 + ino div 64 = inode_block (unat ino)"
      by (metis unsigned_word_eqI)
    obtain s2 where s2: "read_op (below ts) (below_ino ts) (1 + ino div 64) uninit_block s1
        = Inr (0, ?d (inode_block (unat ino)), s2)" "ok s2" "contents s2 = ?d"
      using read_block[OF s1(2), of "1 + ino div 64" uninit_block] inode_block_notin(3)[OF inv True] s1(3)
      unfolding bn by auto
    show ?thesis using True lt s1(1) s2 bn
      by (simp add: treedisk_get_snapshot_def Let_def unat_mod)
  next
    case False
    then show ?thesis using lt s1 by (simp add: treedisk_get_snapshot_def Let_def)
  qed
qed

lemma getsize_correct:
  assumes s: "ok s" and inv: "treedisk_inv nblocks (contents s) F"
  shows "\<exists>s'. treedisk_getsize ts ino s =
     Inr (if unat ino < n_files (contents s) then of_nat (length (file_of (contents s) (unat ino)))
          else -1, s') \<and> ok s' \<and> contents s' = contents s"
proof -
  obtain s' where "treedisk_get_snapshot ts ino s =
     Inr (if unat ino < n_files (contents s)
          then Some \<lparr>superblock = contents s 0, inodeblock = contents s (inode_block (unat ino)),
                     inode_blockno = inode_block (unat ino), inode = unat ino mod 64\<rparr>
          else None, s')" "ok s'" "contents s' = contents s"
    using snapshot_correct[OF assms, of ino] by blast
  then show ?thesis by (simp add: treedisk_getsize_def file_nblocks_def)
qed

lemma read_correct:
  assumes s: "ok s" and inv: "treedisk_inv nblocks (contents s) F"
  shows "\<exists>s'. treedisk_read ts ino offset buf s =
     Inr (if unat ino < n_files (contents s) \<and> unat offset < length (file_of (contents s) (unat ino))
          then (0, file_of (contents s) (unat ino) ! unat offset, s') else (-1, buf, s')) \<and>
     ok s' \<and> contents s' = contents s"
proof -
  let ?d = "contents s" and ?i = "unat ino"
  obtain s1 where s1: "treedisk_get_snapshot ts ino s =
     Inr (if ?i < n_files ?d
          then Some \<lparr>superblock = ?d 0, inodeblock = ?d (inode_block ?i),
                     inode_blockno = inode_block ?i, inode = ?i mod 64\<rparr>
          else None, s1)" "ok s1" "contents s1 = ?d"
    using snapshot_correct[OF assms, of ino] by blast
  let ?nb = "inode_nblocks (?d (inode_block ?i)) (?i mod 64)"
  show ?thesis
  proof (cases "?i < n_files ?d \<and> offset < ?nb")
    case True
    then have nb: "?nb > 0" "unat (?nb - 1) = file_nblocks ?d ?i - 1"
      using word_pos_of_less[of offset ?nb] by (auto simp: file_nblocks_def unat_minus_one word_gt_0)
    have sub: "nodes (contents s1) (file_depth ?d ?i) (file_root ?d ?i) \<subseteq> {k. 0 < k \<and> k < nblocks}"
      using grown_file(4)[OF inv, of ?i] True s1(3) by simp
    have "file_depth ?d ?i \<le> 5" using depth_u32[of "?nb - 1"] nb(2) by (simp add: file_depth_def)
    then obtain s2 where s2: "read_walk ts offset (of_nat (file_depth ?d ?i)) (file_root ?d ?i) buf s1
        = Inr (0, file_block ?d ?i (unat offset), s2)" "ok s2" "contents s2 = ?d"
      using read_walk_correct[OF s1(2) _ sub, of offset buf] s1(3) by (auto simp: file_block_def)
    have "count_levels (log_rpb ts) (?nb - 1) = Inr (of_nat (file_depth ?d ?i))"
      unfolding ts_rpb count_levels_depth nb(2) file_depth_def ..
    then have "treedisk_read ts ino offset buf s = Inr (0, file_block ?d ?i (unat offset), s2)"
      using True s1 nb(1) s2(1) by (simp add: treedisk_read_def Let_def not_le file_root_def)
    with True s2 show ?thesis by (auto simp: file_of_def file_nblocks_def word_less_nat_alt)
  next
    case False
    then show ?thesis using s1
      by (auto simp: treedisk_read_def Let_def not_less word_less_nat_alt word_le_nat_alt file_nblocks_def)
  qed
qed

text \<open>The second half of \<open>treedisk_write\<close>, from the inode block on disk to the data block.\<close>

lemma write_finish:
  assumes inv: "treedisk_inv nblocks d F" and i: "i < n_files d"
    and len: "length (d (inode_block i)) = BLOCK_SIZE" "length blk = BLOCK_SIZE"
    and p: "prepared nblocks d F i sz root (contents s) F2"
    and sz: "unat sz = max (file_nblocks d i) (Suc (unat offset))"
    and s: "ok s" "superblock sn = contents s 0"
  shows "(let r = bindr (write_walk ts offset (of_nat (depth (unat sz - 1))) (contents s (inode_block i))
            (2 * (i mod 64)) (inode_block i) sn s) (\<lambda>(b, s).
          bindr (write_op (below ts) (below_ino ts) b blk s) (\<lambda>(r, s).
            if r <s 0 then panic ''treedisk_write: data block'' else Inr (0, s)))
     in (r = Inl store_full \<and> card F \<le> 10) \<or>
        (\<exists>s' F'. r = Inr (0, s') \<and> ok s' \<and> written nblocks d F i (unat offset) blk (contents s') F'))"
proof -
  let ?ib = "inode_block i" and ?l = "file_depth d i" and ?l2 = "depth (unat sz - 1)" and ?m = "i mod 64"
  let ?d = "contents s"
  have ib: "?ib \<noteq> 0" "?ib \<notin> file_nodes d i \<union> F" "?ib < nblocks"
    using inode_block_le(1)[OF _ i] inode_block_notin[OF inv i] i inv
    by (simp_all add: treedisk_inv_def)
  have pib: "?d ?ib = set_ref (set_ref (d ?ib) (2 * ?m + 1) sz) (2 * ?m) root"
    and g: "grown nblocks ?l ?l2 (d(?ib := ?d ?ib)) (file_root d i) F ?d root F2"
    using p unfolding prepared_def Let_def by blast+
  have U: "nodes ?d ?l2 root \<union> F2 = file_nodes d i \<union> F"
    using g ib(2) by (simp add: grown_def file_nodes_def)
  have root: "refs (?d ?ib) (2 * ?m) = root"
    unfolding pib using inode_fields(1)[OF len(1), of ?m] by (simp add: inode_root_def)
  have l2: "?l2 \<le> 5" using depth_u32[of sz] depth_mono[of "unat sz - 1" "unat sz"] by simp
  have lp: "length (?d ?ib) = BLOCK_SIZE" using len(1) by (simp add: pib)
  have "(write_walk ts offset (of_nat ?l2) (?d ?ib) (2 * ?m) ?ib sn s = Inl store_full \<and> card F2 \<le> ?l2) \<or>
     (\<exists>b s' b' F'. write_walk ts offset (of_nat ?l2) (?d ?ib) (2 * ?m) ?ib sn s = Inr (b, s') \<and>
        ok s' \<and> b < nblocks \<and>
        walked nblocks (unat offset) blk ?l2 (refs (?d ?ib) (2 * ?m)) ?ib ?d F2 (?d ?ib) (2 * ?m)
          ((contents s')(b := blk)) b' F')"
  proof (rule write_walk_correct[OF s(1) l2 lp _ ib(3,1)])
    show "nodes ?d ?l2 (refs (?d ?ib) (2 * ?m)) \<subseteq> {k. 0 < k \<and> k < nblocks}"
      "?ib \<notin> nodes ?d ?l2 (refs (?d ?ib) (2 * ?m)) \<union> F2"
      unfolding root using U grown_file(4)[OF inv i] ib(2) by (auto simp: file_nodes_def)
  qed (use g s(2) in \<open>simp_all add: root grown_def\<close>)
  then show ?thesis
  proof (elim disjE exE conjE)
    assume full: "write_walk ts offset (of_nat ?l2) (?d ?ib) (2 * ?m) ?ib sn s = Inl store_full"
      "card F2 \<le> ?l2"
    have "card F = card F2 + (?l2 - ?l)" using g unfolding grown_def by blast
    then have "card F \<le> 10" using full(2) l2 by linarith
    with full(1) show ?thesis by simp
  next
    fix b s' b' F'
    assume w: "write_walk ts offset (of_nat ?l2) (?d ?ib) (2 * ?m) ?ib sn s = Inr (b, s')" "ok s'" "b < nblocks"
      "walked nblocks (unat offset) blk ?l2 (refs (?d ?ib) (2 * ?m)) ?ib ?d F2 (?d ?ib) (2 * ?m)
          ((contents s')(b := blk)) b' F'"
    obtain s3 where s3: "write_op (below ts) (below_ino ts) b blk s' = Inr (0, s3)" "ok s3"
      "contents s3 = (contents s')(b := blk)"
      using write_block[OF w(2,3) len(2)] by blast
    have "written nblocks d F i (unat offset) blk (contents s3) F'"
      using written_walked[OF inv i len(1) p w(4)[unfolded root] sz] unfolding s3(3) .
    with w(1) s3(1,2) show ?thesis by auto
  qed
qed

text \<open>The first half when the file grows: new size, new levels, and the inode block.\<close>

lemma write_prepare:
  assumes inv: "treedisk_inv nblocks (contents s) F" and i: "i < n_files (contents s)" and s: "ok s"
    and len: "length (contents s (inode_block i)) = BLOCK_SIZE"
    and sz: "file_nblocks (contents s) i \<le> unat sz"
    and sn: "sn = \<lparr>superblock = contents s 0,
      inodeblock = set_ref (contents s (inode_block i)) (2 * (i mod 64) + 1) sz,
      inode_blockno = inode_block i, inode = i mod 64\<rparr>"
  shows "(grow_levels ts (of_nat (depth (unat sz - 1))) (of_nat (file_depth (contents s) i)) sn s
           = Inl store_full \<and> card F \<le> 10) \<or>
     (\<exists>sn' s1 s2 root F2. grow_levels ts (of_nat (depth (unat sz - 1)))
          (of_nat (file_depth (contents s) i)) sn s = Inr (sn', s1) \<and>
        write_op (below ts) (below_ino ts) (inode_block i) (inodeblock sn') s1 = Inr (0, s2) \<and>
        ok s2 \<and> inodeblock sn' = contents s2 (inode_block i) \<and> superblock sn' = contents s2 0 \<and>
        inode sn' = i mod 64 \<and> inode_blockno sn' = inode_block i \<and>
        prepared nblocks (contents s) F i sz root (contents s2) F2)"
proof -
  let ?d = "contents s" and ?l = "file_depth (contents s) i" and ?l2 = "depth (unat sz - 1)"
  let ?ib = "inode_block i" and ?m = "i mod 64"
  have ib: "?ib \<noteq> 0" "?ib < nblocks"
    using inode_block_le(1)[OF _ i] inode_block_notin[OF inv i] inv by (simp_all add: treedisk_inv_def)
  have l: "?l \<le> ?l2" using sz by (simp add: file_depth_def depth_mono)
  have l2: "?l2 \<le> 5" using depth_u32[of sz] depth_mono[of "unat sz - 1" "unat sz"] by simp
  have root: "inode_root (inodeblock sn) (inode sn) = file_root ?d i"
    using len by (simp add: sn inode_root_def file_root_def refs_set_ref)
  have "(grow_levels ts (of_nat ?l2) (of_nat ?l) sn s = Inl store_full \<and> card F < ?l2 - ?l) \<or>
     (\<exists>root' s' F'. grow_levels ts (of_nat ?l2) (of_nat ?l) sn s =
          Inr (sn\<lparr>superblock := contents s' 0,
                  inodeblock := set_ref (inodeblock sn) (2 * inode sn) root'\<rparr>, s') \<and> ok s' \<and>
        grown nblocks ?l ?l2 ?d (file_root ?d i) F (contents s') root' F')"
    by (rule grow_levels_correct[OF s l l2 _ _ root])
      (use grown_file[OF inv i] len in \<open>simp_all add: sn\<close>)
  then show ?thesis
  proof (elim disjE exE conjE)
    assume "grow_levels ts (of_nat ?l2) (of_nat ?l) sn s = Inl store_full" "card F < ?l2 - ?l"
    moreover from this have "card F \<le> 10" using l2 by linarith
    ultimately show ?thesis by blast
  next
    fix root' s1 F'
    let ?nib = "set_ref (set_ref (?d ?ib) (2 * ?m + 1) sz) (2 * ?m) root'"
    assume g: "grow_levels ts (of_nat ?l2) (of_nat ?l) sn s =
          Inr (sn\<lparr>superblock := contents s1 0,
                  inodeblock := set_ref (inodeblock sn) (2 * inode sn) root'\<rparr>, s1)" "ok s1"
        "grown nblocks ?l ?l2 ?d (file_root ?d i) F (contents s1) root' F'"
    obtain s2 where s2: "write_op (below ts) (below_ino ts) ?ib ?nib s1 = Inr (0, s2)" "ok s2"
      "contents s2 = (contents s1)(?ib := ?nib)"
      using write_block[OF g(2) ib(2), of ?nib] len by auto
    have "prepared nblocks ?d F i sz root' (contents s2) F'"
      unfolding s2(3) by (rule prepared_grown[OF inv i g(3) refl])
    then show ?thesis using g(1) s2 ib(1) by (auto simp: sn)
  qed
qed

lemma treedisk_write_inside:
  assumes "treedisk_get_snapshot ts ino s = Inr (Some sn, s1)"
    "offset < inode_nblocks (inodeblock sn) (inode sn)"
    "count_levels (log_rpb ts) (inode_nblocks (inodeblock sn) (inode sn) - 1) = Inr l"
  shows "treedisk_write ts ino offset blk s =
        bindr (write_walk ts offset l (inodeblock sn) (2 * inode sn) (inode_blockno sn) sn s1) (\<lambda>(b, s).
          bindr (write_op (below ts) (below_ino ts) b blk s) (\<lambda>(r, s).
            if r <s 0 then panic ''treedisk_write: data block'' else Inr (0, s)))"
proof -
  have "inode_nblocks (inodeblock sn) (inode sn) \<noteq> 0"
    "\<not> inode_nblocks (inodeblock sn) (inode sn) \<le> offset"
    using assms(2) by auto
  then show ?thesis using assms(1,3) by (simp add: treedisk_write_def Let_def word_gt_0)
qed

lemma treedisk_write_outside:
  assumes "treedisk_get_snapshot ts ino s = Inr (Some sn, s1)"
    "inode_nblocks (inodeblock sn) (inode sn) \<le> offset"
    "(if inode_nblocks (inodeblock sn) (inode sn) > 0
      then count_levels (log_rpb ts) (inode_nblocks (inodeblock sn) (inode sn) - 1) else Inr 0) = Inr l"
    "count_levels (log_rpb ts) offset = Inr l2" "l \<le> l2"
    "sn' = sn\<lparr>inodeblock := set_ref (inodeblock sn) (2 * inode sn + 1) (offset + 1)\<rparr>"
    "inode_nblocks (inodeblock sn') (inode sn') \<noteq> 0"
  shows "treedisk_write ts ino offset blk s =
        bindr (grow_levels ts l2 l sn' s1) (\<lambda>(sn, s).
        bindr (write_op (below ts) (below_ino ts) (inode_blockno sn) (inodeblock sn) s) (\<lambda>(r, s).
        if r <s 0 then panic ''treedisk_write: inode block''
        else bindr (write_walk ts offset l2 (inodeblock sn) (2 * inode sn) (inode_blockno sn) sn s)
          (\<lambda>(b, s).
          bindr (write_op (below ts) (below_ino ts) b blk s) (\<lambda>(r, s).
            if r <s 0 then panic ''treedisk_write: data block'' else Inr (0, s)))))"
proof -
  have "grow_levels ts l2 l sn' s1 = Inr (sn', s1)" if "\<not> l < l2"
    using that by (subst grow_levels.simps) simp
  then show ?thesis
    using assms(2,5,7) unfolding treedisk_write_def assms(1) bindr_Inr prod.case option.case Let_def assms(3,4)
    by (cases "l < l2") (simp_all add: assms(6) bindr_assoc panic_def split_def if_distrib[of "\<lambda>x. bindr x _"]
        cong: if_cong)
qed

text \<open>The number of blocks of the file before the write, and its depth.\<close>

lemma write_start:
  assumes "ok s" "treedisk_inv nblocks (contents s) F" "unat ino < n_files (contents s)"
    and nb: "nb = inode_nblocks (contents s (inode_block (unat ino))) (unat ino mod 64)"
  shows "length (contents s (inode_block (unat ino))) = BLOCK_SIZE" "unat nb = file_nblocks (contents s) (unat ino)"
    "(if nb > 0 then count_levels (log_rpb ts) (nb - 1) else Inr 0) = Inr (of_nat (file_depth (contents s) (unat ino)))"
proof -
  show "length (contents s (inode_block (unat ino))) = BLOCK_SIZE"
    using length_contents[OF assms(1)] inode_block_notin(3)[OF assms(2,3)] by simp
  show nbu: "unat nb = file_nblocks (contents s) (unat ino)" by (simp add: file_nblocks_def nb)
  show "(if nb > 0 then count_levels (log_rpb ts) (nb - 1) else Inr 0) = Inr (of_nat (file_depth (contents s) (unat ino)))"
    using nbu by (auto simp: ts_rpb count_levels_depth file_depth_def unat_minus_one word_gt_0)
qed

text \<open>A write inside the file.\<close>

lemma write_inside:
  assumes s: "ok s" and inv: "treedisk_inv nblocks (contents s) F"
    and i: "unat ino < n_files (contents s)" and inside: "offset < inode_nblocks (contents s (inode_block (unat ino))) (unat ino mod 64)"
    and blk: "length blk = BLOCK_SIZE"
    and s1: "treedisk_get_snapshot ts ino s = Inr (Some \<lparr>superblock = contents s 0, inodeblock = contents s (inode_block (unat ino)),
        inode_blockno = inode_block (unat ino), inode = unat ino mod 64\<rparr>, s1)" "ok s1" "contents s1 = contents s"
  shows "(treedisk_write ts ino offset blk s = Inl store_full \<and> card F \<le> 10) \<or>
     (\<exists>s' F'. treedisk_write ts ino offset blk s = Inr (0, s') \<and> ok s' \<and>
        written nblocks (contents s) F (unat ino) (unat offset) blk (contents s') F')"
proof -
  let ?d = "contents s" and ?i = "unat ino" and ?l = "file_depth (contents s) (unat ino)"
  let ?ib = "inode_block ?i" and ?m = "?i mod 64"
  let ?nb = "inode_nblocks (?d ?ib) ?m"
  note len = write_start(1)[OF s inv i refl] and nbu = write_start(2)[OF s inv i refl] and lv = write_start(3)[OF s inv i refl]
  have sz: "unat ?nb = max (file_nblocks ?d ?i) (Suc (unat offset))"
    using inside nbu by (simp add: word_less_nat_alt)
  have nz: "?nb \<noteq> 0" using inside by auto
  let ?sn = "\<lparr>superblock = ?d 0, inodeblock = ?d ?ib, inode_blockno = ?ib, inode = ?m\<rparr>"
  have fd: "depth (unat ?nb - 1) = ?l" by (simp add: nbu file_depth_def)
  have "count_levels (log_rpb ts) (?nb - 1) = Inr (of_nat ?l)"
    using lv inside word_pos_of_less[of offset ?nb] by simp
  then have "treedisk_write ts ino offset blk s =
      bindr (write_walk ts offset (of_nat ?l) (?d ?ib) (2 * ?m) ?ib ?sn s1) (\<lambda>(b, s).
        bindr (write_op (below ts) (below_ino ts) b blk s) (\<lambda>(r, s).
          if r <s 0 then panic ''treedisk_write: data block'' else Inr (0, s)))"
    using treedisk_write_inside[OF s1(1), of offset "of_nat ?l" blk] inside by simp
  then show ?thesis
    using write_finish[OF inv i len blk _ sz s1(2), unfolded s1(3), OF prepared_same[OF inv i len], of ?sn]
    unfolding fd Let_def by simp
qed

text \<open>A write behind the end of the file.\<close>

lemma write_outside:
  assumes s: "ok s" and inv: "treedisk_inv nblocks (contents s) F"
    and i: "unat ino < n_files (contents s)" and off: "offset \<noteq> - 1"
    and outside: "\<not> offset < inode_nblocks (contents s (inode_block (unat ino))) (unat ino mod 64)"
    and blk: "length blk = BLOCK_SIZE"
    and s1: "treedisk_get_snapshot ts ino s = Inr (Some \<lparr>superblock = contents s 0, inodeblock = contents s (inode_block (unat ino)),
        inode_blockno = inode_block (unat ino), inode = unat ino mod 64\<rparr>, s1)" "ok s1" "contents s1 = contents s"
  shows "(treedisk_write ts ino offset blk s = Inl store_full \<and> card F \<le> 10) \<or>
     (\<exists>s' F'. treedisk_write ts ino offset blk s = Inr (0, s') \<and> ok s' \<and>
        written nblocks (contents s) F (unat ino) (unat offset) blk (contents s') F')"
proof -
  let ?d = "contents s" and ?i = "unat ino" and ?l = "file_depth (contents s) (unat ino)"
  let ?ib = "inode_block ?i" and ?m = "?i mod 64"
  let ?nb = "inode_nblocks (?d ?ib) ?m"
  note len = write_start(1)[OF s inv i refl] and nbu = write_start(2)[OF s inv i refl] and lv = write_start(3)[OF s inv i refl]
  let ?sz = "offset + 1"
  let ?sn = "\<lparr>superblock = ?d 0, inodeblock = set_ref (?d ?ib) (2 * ?m + 1) ?sz,
    inode_blockno = ?ib, inode = ?m\<rparr>"
  have sz': "?sz \<noteq> 0" "unat ?sz = Suc (unat offset)"
    using off unatSuc[of offset] by (simp_all add: eq_neg_iff_add_eq_0 add.commute)
  have sz: "unat ?sz = max (file_nblocks ?d ?i) (Suc (unat offset))"
    using sz' outside nbu by (simp add: not_less word_le_nat_alt)
  have fd: "depth (unat offset) = depth (unat ?sz - 1)" by (simp add: sz'(2))
  have l: "?l \<le> depth (unat ?sz - 1)" using sz by (simp add: file_depth_def depth_mono)
  have nbz: "inode_nblocks (inodeblock ?sn) (inode ?sn) \<noteq> 0"
    using len sz'(1) by (simp add: inode_nblocks_def refs_set_ref)
  have le: "(of_nat ?l :: u32) \<le> of_nat (depth (unat ?sz - 1))"
    using l depth_u32[of offset] by (simp add: fd word_le_nat_alt unat_of_nat_u32)
  have eq: "treedisk_write ts ino offset blk s =
      bindr (grow_levels ts (of_nat (depth (unat ?sz - 1))) (of_nat ?l) ?sn s1) (\<lambda>(sn, s).
      bindr (write_op (below ts) (below_ino ts) (inode_blockno sn) (inodeblock sn) s) (\<lambda>(r, s).
      if r <s 0 then panic ''treedisk_write: inode block''
      else bindr (write_walk ts offset (of_nat (depth (unat ?sz - 1))) (inodeblock sn) (2 * inode sn)
              (inode_blockno sn) sn s) (\<lambda>(b, s).
        bindr (write_op (below ts) (below_ino ts) b blk s) (\<lambda>(r, s).
          if r <s 0 then panic ''treedisk_write: data block'' else Inr (0, s)))))"
    by (rule treedisk_write_outside[OF s1(1) _ _ _ le _ nbz])
      (use outside lv in \<open>simp_all only: treedisk_snapshot.simps ts_rpb count_levels_depth fd not_less\<close>)
  have "file_nblocks ?d ?i \<le> unat ?sz" using sz by simp
  from write_prepare[OF inv[folded s1(3)] _ s1(2), unfolded s1(3), OF i len this refl]
  show ?thesis
  proof (elim disjE exE conjE)
    assume "grow_levels ts (of_nat (depth (unat ?sz - 1))) (of_nat ?l) ?sn s1 = Inl store_full" "card F \<le> 10"
    then show ?thesis unfolding eq by simp
  next
    fix sn' s2 s3 root F2
    assume g: "grow_levels ts (of_nat (depth (unat ?sz - 1))) (of_nat ?l) ?sn s1 = Inr (sn', s2)"
      "write_op (below ts) (below_ino ts) ?ib (inodeblock sn') s2 = Inr (0, s3)"
      "ok s3" "inodeblock sn' = contents s3 ?ib" "superblock sn' = contents s3 0"
      "inode sn' = ?m" "inode_blockno sn' = ?ib" "prepared nblocks ?d F ?i ?sz root (contents s3) F2"
    show ?thesis
      using write_finish[OF inv i len blk g(8) sz g(3,5)] g(2)[unfolded g(4)]
      unfolding eq g(1,4,6,7) Let_def by (simp add: g(4,6,7))
  qed
qed

lemma write_correct:
  assumes s: "ok s" and inv: "treedisk_inv nblocks (contents s) F"
    and i: "unat ino < n_files (contents s)" and off: "offset \<noteq> - 1"
    and blk: "length blk = BLOCK_SIZE"
  shows "(treedisk_write ts ino offset blk s = Inl store_full \<and> card F \<le> 10) \<or>
     (\<exists>s' F'. treedisk_write ts ino offset blk s = Inr (0, s') \<and> ok s' \<and>
        written nblocks (contents s) F (unat ino) (unat offset) blk (contents s') F')"
proof -
  obtain s1 where s1: "treedisk_get_snapshot ts ino s = Inr (Some \<lparr>superblock = contents s 0, inodeblock = contents s (inode_block (unat ino)),
      inode_blockno = inode_block (unat ino), inode = unat ino mod 64\<rparr>, s1)" "ok s1" "contents s1 = contents s"
    using snapshot_correct[OF s inv, of ino] i by auto
  show ?thesis
  proof (cases "offset < inode_nblocks (contents s (inode_block (unat ino))) (unat ino mod 64)")
    case True
    show ?thesis by (rule write_inside[OF s inv i True blk s1])
  next
    case False
    show ?thesis by (rule write_outside[OF s inv i off False blk s1])
  qed
qed

end

end
