(* ===== verification/Treedisk_Create.thy ===== *)
theory Treedisk_Create
  imports Treedisk_Ops
begin

text \<open>
  \<open>treedisk_create\<close>: on a store whose superblock is unused it builds a free list of all
  blocks behind the inode blocks and empties every inode, so that the invariant of
  Treedisk_Files holds with every file empty.
\<close>

section \<open>One block of the free list\<close>

lemma length_fill_refs [simp]: "length (snd (snd (fill_refs i nf nb b))) = length b"
  by (induction i nf nb b rule: fill_refs.induct) (subst fill_refs.simps, simp)

lemma fill_refs_correct:
  assumes "length b = BLOCK_SIZE" "i \<le> 128" "nf \<le> nb"
  obtains i' nf' b' where "fill_refs i nf nb b = (i', nf', b')" "length b' = BLOCK_SIZE"
    "i \<le> i'" "i' \<le> 128" "i' < 128 \<longrightarrow> nf' = nb" "nf' \<le> nb" "unat nf' = unat nf + (i' - i)"
    "\<And>j. refs b' j = (if i \<le> j \<and> j < i' then of_nat (unat nf + (j - i)) else refs b j)"
proof -
  have "\<exists>i' nf' b'. fill_refs i nf nb b = (i', nf', b') \<and> length b' = BLOCK_SIZE \<and>
    i \<le> i' \<and> i' \<le> 128 \<and> (i' < 128 \<longrightarrow> nf' = nb) \<and> nf' \<le> nb \<and> unat nf' = unat nf + (i' - i) \<and>
    (\<forall>j. refs b' j = (if i \<le> j \<and> j < i' then of_nat (unat nf + (j - i)) else refs b j))"
    using assms
  proof (induction i nf nb b rule: fill_refs.induct)
    case (1 i nf nb b)
    show ?case
    proof (cases "i < 128 \<and> nf < nb")
      case True
      have u: "unat (nf + 1) = Suc (unat nf)" using True unat_plus_one_less[of nf nb] by simp
      then have "nf + 1 \<le> nb" using True by (simp add: word_le_nat_alt word_less_nat_alt)
      then obtain i' nf' b' where r: "fill_refs (i + 1) (nf + 1) nb (set_ref b i nf) = (i', nf', b')"
        "length b' = BLOCK_SIZE" "i + 1 \<le> i'" "i' \<le> 128" "i' < 128 \<longrightarrow> nf' = nb" "nf' \<le> nb"
        "unat nf' = unat (nf + 1) + (i' - (i + 1))"
        "\<And>j. refs b' j = (if i + 1 \<le> j \<and> j < i' then of_nat (unat (nf + 1) + (j - (i + 1)))
            else refs (set_ref b i nf) j)"
        using 1 True by auto
      have "refs b' j = (if i \<le> j \<and> j < i' then of_nat (unat nf + (j - i)) else refs b j)" for j
        using r(3) r(8)[of j] u True 1(2) by (auto simp: refs_set_ref Suc_diff_le)
      moreover have "fill_refs i nf nb b = (i', nf', b')"
        using True r(1) by (subst fill_refs.simps) simp
      ultimately show ?thesis using r(2-7) u by auto
    next
      case False
      then show ?thesis using 1(2-4) by (subst fill_refs.simps) auto
    qed
  qed
  then show thesis using that by blast
qed

lemma zero_refs_correct:
  assumes "length b = BLOCK_SIZE"
  shows "length (zero_refs i b) = BLOCK_SIZE"
    "refs (zero_refs i b) j = (if i \<le> j \<and> j < 128 then 0 else refs b j)"
  using assms
proof (induction i b rule: zero_refs.induct)
  case (1 i b)
  {
    case 1
    show ?case using "1.IH"(1) 1 by (subst zero_refs.simps) auto
  next
    case 2
    show ?case using "1.IH"(2) 2 by (subst zero_refs.simps) (auto simp: refs_set_ref)
  }
qed

text \<open>The block written in one round holds the next block numbers, in order.\<close>

lemma entries_filled:
  assumes b: "length b = BLOCK_SIZE" and nf: "nf < nb"
    and fill: "fill_refs 1 (nf + 1) nb (set_ref b 0 fl) = (i, nf', b')"
  shows "refs (zero_refs i b') 0 = fl" "length (zero_refs i b') = BLOCK_SIZE"
    "entries (zero_refs i b') = map of_nat [Suc (unat nf) ..< unat nf']"
    "nf < nf'" "nf' \<le> nb"
proof -
  have u: "unat (nf + 1) = Suc (unat nf)" "nf + 1 \<le> nb"
    using nf unat_plus_one_less[of nf nb] by (simp_all add: word_le_nat_alt word_less_nat_alt)
  have lb: "length (set_ref b 0 fl) = BLOCK_SIZE" using b by simp
  have f: "length b' = BLOCK_SIZE" "1 \<le> i" "i \<le> 128" "nf' \<le> nb" "unat nf' = Suc (unat nf) + (i - 1)"
    "\<And>j. refs b' j = (if 1 \<le> j \<and> j < i then of_nat (Suc (unat nf) + (j - 1)) else refs (set_ref b 0 fl) j)"
    using fill_refs_correct[OF lb _ u(2), of 1] fill u by (metis One_nat_def one_le_numeral prod.inject)+
  show "length (zero_refs i b') = BLOCK_SIZE" using zero_refs_correct(1) f(1) .
  show "refs (zero_refs i b') 0 = fl"
    using f(2) f(6)[of 0] zero_refs_correct(2)[OF f(1), of i 0] b by (simp add: refs_set_ref)
  show "nf < nf'" "nf' \<le> nb" using f(4,5) by (simp_all add: word_less_nat_alt)
  have "[1..<128] = [1..<i] @ [i..<128]"
    using f(2,3) upt_add_eq_append[of 1 i "128 - i"] by simp
  moreover have "filter (\<lambda>x. x \<noteq> 0) (map (refs (zero_refs i b')) [i..<128]) = []"
    using zero_refs_correct(2)[OF f(1), of i] by (auto simp: filter_empty_conv)
  moreover have "filter (\<lambda>x. x \<noteq> 0) (map (refs (zero_refs i b')) [1..<i])
      = map (refs (zero_refs i b')) [1..<i]"
  proof (rule filter_True, clarsimp)
    fix j
    assume j: "Suc 0 \<le> j" "j < i" "refs (zero_refs i b') j = 0"
    then have "(of_nat (Suc (unat nf) + (j - 1)) :: u32) = 0"
      using f(6)[of j] zero_refs_correct(2)[OF f(1), of i j] by simp
    moreover have "Suc (unat nf) + (j - 1) < 2 ^ 32"
      using j f(5) unsigned_less[of nf', where 'a = nat] by simp
    ultimately show False using unat_of_nat_u32 by (metis add_Suc nat.distinct(1) unsigned_0)
  qed
  moreover have "map (refs (zero_refs i b')) [1..<i] = map of_nat [Suc (unat nf) ..< unat nf']"
    using f(2,5) f(6) zero_refs_correct(2)[OF f(1), of i]
    by (intro nth_equalityI) auto
  ultimately show "entries (zero_refs i b') = map of_nat [Suc (unat nf) ..< unat nf']"
    by (simp add: entries_def)
qed

section \<open>The free list and the inode blocks\<close>

text \<open>A free list from block \<open>fl\<close> that covers exactly the blocks from \<open>lo\<close> up to \<open>hi\<close>.\<close>

definition covers :: "fdisk \<Rightarrow> block_no \<Rightarrow> nat \<Rightarrow> nat \<Rightarrow> bool" where
  "covers d fl lo hi \<longleftrightarrow>
     (\<exists>cs. chain d fl cs \<and> distinct (free_blocks d cs) \<and>
           set (free_blocks d cs) = {k. lo \<le> unat k \<and> unat k < hi})"

lemma covers_frame:
  assumes "covers d fl lo hi" "\<And>k. lo \<le> unat k \<Longrightarrow> d' k = d k"
  shows "covers d' fl lo hi"
proof -
  obtain cs where cs: "chain d fl cs" "distinct (free_blocks d cs)"
    "set (free_blocks d cs) = {k. lo \<le> unat k \<and> unat k < hi}"
    using assms(1) by (auto simp: covers_def)
  have "d' c = d c" if "c \<in> set cs" for c
    using that assms(2)[of c] cs(3) chain_subset_free_blocks[of cs d] by blast
  then show ?thesis
    using cs chain_frame[of cs d' d] free_blocks_frame[of cs d' d] unfolding covers_def by metis
qed

lemma covers_push:
  assumes c: "covers d fl lo (unat nf)" and nf: "0 < lo" "lo \<le> unat nf" "nf < nf'"
    and b: "refs b 0 = fl" "entries b = map of_nat [Suc (unat nf) ..< unat nf']"
  shows "covers (d(nf := b)) nf lo (unat nf')"
proof -
  obtain cs where cs: "chain d fl cs" "distinct (free_blocks d cs)"
    "set (free_blocks d cs) = {k. lo \<le> unat k \<and> unat k < unat nf}"
    using c by (auto simp: covers_def)
  have nin: "nf \<notin> set cs" using cs(3) chain_subset_free_blocks[of cs d] by auto
  have lt: "unat nf < unat nf'" "unat nf' < 2 ^ 32"
    using nf(3) unsigned_less[of nf', where 'a = nat] by (simp_all add: word_less_nat_alt)
  have eq: "nf # entries b = map of_nat [unat nf ..< unat nf']"
    using lt(1) by (simp add: b(2) upt_conv_Cons)
  have inj: "inj_on (of_nat :: nat \<Rightarrow> u32) {unat nf ..< unat nf'}"
    using lt(2) unat_of_nat_u32 by (intro inj_onI) (metis atLeastLessThan_iff less_trans)
  have set: "set (nf # entries b) = {k. unat nf \<le> unat k \<and> unat k < unat nf'}"
  proof -
    have "k \<in> of_nat ` {unat nf ..< unat nf'}" if "unat nf \<le> unat k" "unat k < unat nf'" for k :: u32
      using that by (intro image_eqI[of _ _ "unat k"]) simp_all
    then show ?thesis unfolding eq using lt(2) by (auto simp: unat_of_nat_u32)
  qed
  have fb: "free_blocks (d(nf := b)) (nf # cs) = (nf # entries b) @ free_blocks d cs"
    using free_blocks_upd[OF nin, of d b] by (simp add: free_blocks_def)
  have "distinct (nf # entries b)" unfolding eq using inj by (simp add: distinct_map)
  then have "distinct (free_blocks (d(nf := b)) (nf # cs))"
    unfolding fb distinct_append set cs(3) using cs(2) by auto
  moreover have "set (free_blocks (d(nf := b)) (nf # cs)) = {k. lo \<le> unat k \<and> unat k < unat nf'}"
    unfolding fb set_append set cs(3) using nf(2) lt(1) by auto
  moreover have "nf \<noteq> 0" using nf(1,2) by auto
  then have "chain (d(nf := b)) nf (nf # cs)" using cs(1) nin b(1) by simp
  ultimately show ?thesis unfolding covers_def by blast
qed

text \<open>A store with an empty inode table and everything behind it free.\<close>

lemma empty_store:
  assumes sb: "d 0 = set_free_list (put32 null_block 0 nib) fl"
    and ib: "\<And>k. 0 < k \<Longrightarrow> k \<le> nib \<Longrightarrow> d k = null_block"
    and fl: "covers d fl (Suc (unat nib)) (unat nb)"
    and nib: "nib < nb" "64 * unat nib < 2 ^ 32"
  shows "treedisk_inv nb d {k. nib < k \<and> k < nb}" "n_files d = 64 * unat nib"
    "i < n_files d \<Longrightarrow> file_of d i = []"
proof -
  have n: "n_inodeblocks (d 0) = nib" and f: "free_list (d 0) = fl"
    by (simp_all add: sb) (simp add: n_inodeblocks_def null_block_def)
  show nf: "n_files d = 64 * unat nib" by (simp add: n_files_def n)
  have empty: "file_root d i = 0" "file_nblocks d i = 0" if "i < n_files d" for i
  proof -
    have "d (inode_block i) = null_block"
      using inode_block_le(1,2)[of d i] that nib(2) nf n by (intro ib) (simp_all add: word_gt_0)
    moreover have "2 * (i mod 64) < 128" "2 * (i mod 64) + 1 < 128" by auto
    ultimately show "file_root d i = 0" "file_nblocks d i = 0"
      by (simp_all add: file_root_def file_nblocks_def inode_root_def inode_nblocks_def)
  qed
  then show "i < n_files d \<Longrightarrow> file_of d i = []" by (simp add: file_of_def)
  have nodes: "file_nodes d i = {}" "wf_file d i" if "i < n_files d" for i
    using empty[OF that] by (simp_all add: file_nodes_def wf_file_def file_block_def)
  have "free_inv nb d {k. nib < k \<and> k < nb}"
  proof -
    have F: "{k. nib < k \<and> k < nb} = {k. Suc (unat nib) \<le> unat k \<and> unat k < unat nb}"
      by (simp add: word_less_nat_alt Suc_le_eq)
    have "{k. nib < k \<and> k < nb} \<subseteq> {k. 0 < k \<and> k < nb}" using word_pos_of_less[of nib] by blast
    then show ?thesis using fl unfolding free_inv_def covers_def f F[symmetric] by blast
  qed
  then show "treedisk_inv nb d {k. nib < k \<and> k < nb}"
    using nodes nib nf by (simp add: treedisk_inv_def n)
qed

context block_store
begin

lemma freelist_loop_correct:
  assumes "ok s" "nf \<le> nblocks" "0 < lo" "lo \<le> unat nf" "length data = BLOCK_SIZE"
    "covers (contents s) fl lo (unat nf)"
  shows "\<exists>fl' s'. setup_freelist_loop below below_ino nf nblocks fl data s = Some (Inr (fl', s')) \<and>
     ok s' \<and> covers (contents s') fl' lo (unat nblocks) \<and>
     (\<forall>k. unat k < lo \<longrightarrow> contents s' k = contents s k)"
  using assms
proof (induction "unat nblocks - unat nf" arbitrary: nf fl data s rule: less_induct)
  case less
  show ?case
  proof (cases "nf < nblocks")
    case True
    obtain i nf' b' where fill: "fill_refs 1 (nf + 1) nblocks (set_ref data 0 fl) = (i, nf', b')"
      by (cases "fill_refs 1 (nf + 1) nblocks (set_ref data 0 fl)") auto
    note f = entries_filled[OF less.prems(5) True fill]
    obtain s1 where s1: "write_op below below_ino nf (zero_refs i b') s = Inr (0, s1)" "ok s1"
      "contents s1 = (contents s)(nf := zero_refs i b')"
      using write_ok[OF less.prems(1) True f(2)] by blast
    have "covers (contents s1) nf lo (unat nf')"
      unfolding s1(3) using covers_push[OF less.prems(6,3,4) f(4) f(1,3)] .
    moreover have "unat nblocks - unat nf' < unat nblocks - unat nf" "lo \<le> unat nf'"
      using f(4) True less.prems(4) by (auto simp: word_less_nat_alt)
    ultimately obtain fl' s' where r:
      "setup_freelist_loop below below_ino nf' nblocks nf (zero_refs i b') s1 = Some (Inr (fl', s'))"
      "ok s'" "covers (contents s') fl' lo (unat nblocks)"
      "\<And>k. unat k < lo \<Longrightarrow> contents s' k = contents s1 k"
      using less.hyps[OF _ s1(2) f(5) less.prems(3) _ f(2)] by blast
    have "contents s' k = contents s k" if "unat k < lo" for k
    proof -
      have "k \<noteq> nf" using that less.prems(4) by auto
      then show ?thesis using r(4)[OF that] s1(3) by simp
    qed
    moreover have "setup_freelist_loop below below_ino nf nblocks fl data s = Some (Inr (fl', s'))"
      using True fill s1(1) r(1) by (subst setup_freelist_loop.simps) (simp add: Let_def)
    ultimately show ?thesis using r(2,3) by blast
  next
    case False
    then have "nf = nblocks" using less.prems(2) by simp
    then show ?thesis using less.prems by (subst setup_freelist_loop.simps) auto
  qed
qed

lemma clear_inodeblocks_correct:
  assumes "ok s" "\<And>k. k \<in> set ks \<Longrightarrow> k < nblocks"
  shows "\<exists>s'. clear_inodeblocks below below_ino ks s = Inr (True, s') \<and> ok s' \<and>
     contents s' = (\<lambda>k. if k \<in> set ks then null_block else contents s k)"
  using assms
proof (induction ks arbitrary: s)
  case (Cons k ks)
  obtain s1 where s1: "write_op below below_ino k null_block s = Inr (0, s1)" "ok s1"
    "contents s1 = (contents s)(k := null_block)"
    using write_ok[OF Cons.prems(1), of k null_block] Cons.prems(2)[of k] by auto
  obtain s' where "clear_inodeblocks below below_ino ks s1 = Inr (True, s')" "ok s'"
    "contents s' = (\<lambda>k. if k \<in> set ks then null_block else contents s1 k)"
    using Cons.IH[OF s1(2)] Cons.prems(2) by auto
  with s1 show ?case by (auto simp: fun_eq_iff)
qed simp

lemma create_correct:
  assumes s: "ok s" and fresh: "n_inodeblocks (contents s 0) = 0"
    and n: "unat n + 63 < 2 ^ 32" "nib = (n + 63) div 64" "nib + 2 \<le> nblocks"
  shows "\<exists>s'. treedisk_create below below_ino n s = Inr (0, s') \<and> ok s' \<and>
     treedisk_inv nblocks (contents s') {k. nib < k \<and> k < nblocks} \<and>
     n_files (contents s') = 64 * unat nib \<and> (\<forall>i < n_files (contents s'). file_of (contents s') i = [])"
proof -
  have u: "unat nib = (unat n + 63) div 64" "unat (nib + 1) = Suc (unat nib)" "unat (nib + 2) = Suc (Suc (unat nib))"
    using n(1) by (simp_all add: n(2) unat_word_ariths unat_div)
  have lt: "nib < nblocks" "nib + 1 \<le> nblocks" "0 < nblocks" "64 * unat nib < 2 ^ 32"
    using n(1,3) u by (auto simp: word_le_nat_alt word_less_nat_alt)
  obtain s1 where s1: "getsize_op below below_ino s = Inr (nblocks, s1)" "ok s1" "contents s1 = contents s"
    using getsize_ok[OF s] by blast
  obtain s2 where s2: "read_op below below_ino 0 uninit_block s1 = Inr (0, contents s 0, s2)" "ok s2"
    "contents s2 = contents s"
    using read_ok[OF s1(2) lt(3), of uninit_block] s1(3) by auto
  have c0: "covers (contents s2) 0 (Suc (unat nib)) (unat (nib + 1))"
    unfolding covers_def u by (intro exI[of _ "[]"]) (auto simp: free_blocks_def)
  obtain fl s3 where s3: "setup_freelist below below_ino (nib + 1) nblocks s2 = Inr (fl, s3)" "ok s3"
    "covers (contents s3) fl (Suc (unat nib)) (unat nblocks)"
    using freelist_loop_correct[OF s2(2) lt(2) _ _ _ c0, of uninit_block] u(2)
    by (auto simp: setup_freelist_def uninit_block_def)
  let ?sb = "set_free_list (put32 null_block 0 nib) fl"
  obtain s4 where s4: "write_op below below_ino 0 ?sb s3 = Inr (0, s4)" "ok s4"
    "contents s4 = (contents s3)(0 := ?sb)"
    using write_ok[OF s3(2) lt(3), of ?sb] by auto
  let ?ks = "map of_nat [1 ..< Suc (unat nib)] :: u32 list"
  have ks: "(k \<in> set ?ks) = (0 < k \<and> k \<le> nib)" for k
  proof
    assume "k \<in> set ?ks"
    then obtain m where m: "k = of_nat m" "1 \<le> m" "m \<le> unat nib" by auto
    then have "unat k = m"
      using unsigned_less[of nib, where 'a = nat] by (simp add: unat_of_nat_u32)
    then show "0 < k \<and> k \<le> nib" using m by (simp add: word_less_nat_alt word_le_nat_alt)
  next
    assume "0 < k \<and> k \<le> nib"
    then have "unat k \<in> set [1 ..< Suc (unat nib)]"
      by (simp add: word_less_nat_alt word_le_nat_alt Suc_le_eq less_Suc_eq_le del: upt_Suc)
    moreover have "k = of_nat (unat k)" by simp
    ultimately show "k \<in> set ?ks" by (metis imageI list.set_map)
  qed
  have kn: "k < nblocks" if "k \<in> set ?ks" for k using that lt(1) unfolding ks by auto
  obtain s5 where s5: "clear_inodeblocks below below_ino ?ks s4 = Inr (True, s5)" "ok s5"
    "contents s5 = (\<lambda>k. if 0 < k \<and> k \<le> nib then null_block else contents s4 k)"
    using clear_inodeblocks_correct[OF s4(2), of ?ks] kn unfolding ks by blast
  have "covers (contents s5) fl (Suc (unat nib)) (unat nblocks)"
    using s3(3) by (rule covers_frame) (auto simp: s5(3) s4(3) word_le_nat_alt)
  from empty_store[OF _ _ this lt(1,4)]
  have e: "treedisk_inv nblocks (contents s5) {k. nib < k \<and> k < nblocks}"
    "n_files (contents s5) = 64 * unat nib" "i < n_files (contents s5) \<Longrightarrow> file_of (contents s5) i = []" for i
    using s5(3) s4(3) by simp_all
  have "\<not> nblocks < nib + 2" using n(3) by simp
  then have "treedisk_create below below_ino n s = Inr (0, s5)"
    using s1(1) s2(1) s3(1) s4(1) s5(1) fresh
    by (simp add: treedisk_create_def Let_def add_diff_eq[symmetric] del: upt_Suc flip: n(2))
  with s5(2) e show ?thesis by blast
qed

text \<open>A store that is too small is refused; one that is in use is left as it is.\<close>

lemma create_refused:
  assumes "ok s" "nblocks < (n + 63) div 64 + 2"
  shows "\<exists>s'. treedisk_create below below_ino n s = Inr (-1, s') \<and> ok s' \<and> contents s' = contents s"
  using getsize_ok[OF assms(1)] assms(2) by (auto simp: treedisk_create_def Let_def add_diff_eq[symmetric])

lemma create_again:
  assumes s: "ok s" and "(n + 63) div 64 + 2 \<le> nblocks" "0 < nblocks" "n_inodeblocks (contents s 0) \<noteq> 0"
  shows "\<exists>s'. treedisk_create below below_ino n s = Inr (0, s') \<and> ok s' \<and> contents s' = contents s"
proof -
  obtain s1 where s1: "getsize_op below below_ino s = Inr (nblocks, s1)" "ok s1" "contents s1 = contents s"
    using getsize_ok[OF s] by blast
  obtain s2 where "read_op below below_ino 0 uninit_block s1 = Inr (0, contents s 0, s2)" "ok s2"
    "contents s2 = contents s"
    using read_ok[OF s1(2) assms(3), of uninit_block] s1(3) by auto
  with s1 assms show ?thesis
    by (simp add: treedisk_create_def Let_def add_diff_eq[symmetric] not_less)
qed

end

end
