(* ===== verification/Treedisk_Contract.thy ===== *)
theory Treedisk_Contract
  imports Treedisk_Create
begin

text \<open>
  A treedisk keeps the contract \<open>file_store\<close> of an inode store. The refinement relation
  is \<open>disk_holds\<close>: the disk satisfies the invariant and its files are the abstract ones.
\<close>

definition disk_holds :: "u32 \<Rightarrow> nat \<Rightarrow> fdisk \<Rightarrow> (nat \<Rightarrow> block list) \<Rightarrow> nat \<Rightarrow> bool" where
  "disk_holds nb N d files m \<longleftrightarrow>
     (\<exists>F. treedisk_inv nb d F \<and> n_files d = N \<and> (\<forall>j < N. file_of d j = files j) \<and> m \<le> card F)"

lemma disk_holds_written:
  assumes "disk_holds nb N d files (11 + m)" "i < N"
    and w: "\<And>F. treedisk_inv nb d F \<Longrightarrow> 11 \<le> card F \<Longrightarrow> \<exists>F'. written nb d F i off blk d' F'"
  shows "disk_holds nb N d' (files(i := write_file (files i) off blk)) m"
proof -
  obtain F where F: "treedisk_inv nb d F" "n_files d = N" "\<And>j. j < N \<Longrightarrow> file_of d j = files j" "11 + m \<le> card F"
    using assms(1) by (auto simp: disk_holds_def)
  obtain F' where "written nb d F i off blk d' F'" using w[OF F(1)] F(4) by auto
  with F assms(2) show ?thesis
    unfolding written_def disk_holds_def by (intro exI[of _ F']) auto
qed

locale treedisk_with = treedisk_on dev dev_ino ok contents nblocks ts
  for dev :: "'s inode_store" and dev_ino ok contents nblocks ts +
  fixes N :: nat

sublocale treedisk_with < files: file_store "treedisk_intf ts"
  "\<lambda>s files m. ok s \<and> disk_holds nblocks N (contents s) files m" N 11
proof
  fix s files m and ino offset :: u32 and blk :: block
  assume h: "ok s \<and> disk_holds nblocks N (contents s) files (11 + m)"
    and a: "unat ino < N" "offset \<noteq> - 1" "length blk = BLOCK_SIZE"
  then obtain F where F: "treedisk_inv nblocks (contents s) F" "n_files (contents s) = N" "11 + m \<le> card F"
    by (auto simp: disk_holds_def)
  have s: "ok s" using h by simp
  have i: "unat ino < n_files (contents s)" using a(1) F(2) by simp
  have "\<not> card F \<le> 10" using F(3) by simp
  then obtain s' where w: "treedisk_write ts ino offset blk s = Inr (0, s')" "ok s'"
    using write_correct[OF s F(1) i a(2,3)] by auto
  have "\<exists>F'. written nblocks (contents s) G (unat ino) (unat offset) blk (contents s') F'"
    if "treedisk_inv nblocks (contents s) G" "11 \<le> card G" for G
    using write_correct[OF s that(1) i a(2,3)] that(2) w(1) by auto
  then have "disk_holds nblocks N (contents s')
      (files(unat ino := write_file (files (unat ino)) (unat offset) blk)) m"
    using disk_holds_written[of nblocks N "contents s" files m "unat ino"] h a(1) by blast
  with w show "\<exists>s'. write_op (treedisk_intf ts) ino offset blk s = Inr (0, s') \<and> ok s' \<and>
      disk_holds nblocks N (contents s') (files(unat ino := write_file (files (unat ino)) (unat offset) blk)) m"
    by (simp add: treedisk_intf_def)
next
  fix s files m and ino offset :: u32 and buf :: block
  assume h: "ok s \<and> disk_holds nblocks N (contents s) files m"
  then obtain F where F: "treedisk_inv nblocks (contents s) F" "n_files (contents s) = N"
      "\<And>j. j < N \<Longrightarrow> file_of (contents s) j = files j"
    by (auto simp: disk_holds_def)
  have s: "ok s" using h by simp
  show "\<exists>s'. read_op (treedisk_intf ts) ino offset buf s =
      Inr (if unat ino < N \<and> unat offset < length (files (unat ino))
           then (0, files (unat ino) ! unat offset, s') else (- 1, buf, s')) \<and>
      ok s' \<and> disk_holds nblocks N (contents s') files m"
    using read_correct[OF s F(1), of ino offset buf] F(2,3) h
    by (fastforce simp: treedisk_intf_def simp del: length_file_of)
  show "\<exists>s'. getsize_op (treedisk_intf ts) ino s =
      Inr (if unat ino < N then of_nat (length (files (unat ino))) else - 1, s') \<and>
      ok s' \<and> disk_holds nblocks N (contents s') files m"
    using getsize_correct[OF s F(1), of ino] F(2,3) h
    by (fastforce simp: treedisk_intf_def simp del: length_file_of)
qed

end
