(* ===== verification/Servers_Correct.thy ===== *)
theory Servers_Correct
  imports Servers Disk_Correct Treedisk_Contract
begin

text \<open>
  What an application gets from the servers: the blocks of the files, and the text it writes on the
  screen.
\<close>

section \<open>Messages\<close>

lemma length_padded: "length m \<le> length old \<Longrightarrow> length (padded old m) = length old"
  by (simp add: padded_def)

lemma get32_padded: "k + 3 < length m \<Longrightarrow> get32 (padded old m) k = get32 m k"
  by (simp add: padded_def get32_append_left)

lemma take_drop_padded: "k + n \<le> length m \<Longrightarrow> take n (drop k (padded old m)) = take n (drop k m)"
  by (simp add: padded_def)

lemma file_request_fields:
  "get32 (file_request type ino offset blk) 0 = type" "get32 (file_request type ino offset blk) 4 = ino"
  "get32 (file_request type ino offset blk) 8 = offset" "length (file_request type ino offset blk) = 12 + length blk"
  by (simp_all add: file_request_def get32_def bytes32_def nth_append)

lemma term_request_fields:
  "get32 (term_request type len buf) 0 = type" "get32 (term_request type len buf) 4 = len"
  "drop 8 (term_request type len buf) = buf" "length (term_request type len buf) = 8 + length buf"
  by (simp_all add: term_request_def get32_def bytes32_def nth_append)

lemma file_reply_fields:
  "get32 (file_reply r blk) 0 = r" "drop 4 (file_reply r blk) = blk" "length (file_reply r blk) = 4 + length blk"
  by (simp_all add: file_reply_def get32_def bytes32_def nth_append)

definition set_disk :: "('t, 'c) world system \<Rightarrow> 'c \<Rightarrow> ('t, 'c) world system" where
  "set_disk S c = S\<lparr>shared := (shared S)\<lparr>w_disk := c\<rparr>\<rparr>"

definition set_tty :: "('t, 'c) world system \<Rightarrow> 't \<Rightarrow> ('t, 'c) world system" where
  "set_tty S t = S\<lparr>shared := (shared S)\<lparr>w_tty := t\<rparr>\<rparr>"

lemma set_simps [simp]:
  "procs (set_disk S c) = procs S" "procs (set_tty S t) = procs S"
  "w_disk (shared (set_disk S c)) = c" "w_tty (shared (set_disk S c)) = w_tty (shared S)"
  "w_tty (shared (set_tty S t)) = t" "w_disk (shared (set_tty S t)) = w_disk (shared S)"
  "workdir_ino (shared (set_disk S c)) = workdir_ino (shared S)" "workdir_ino (shared (set_tty S t)) = workdir_ino (shared S)"
  "workdir (shared (set_disk S c)) = workdir (shared S)" "workdir (shared (set_tty S t)) = workdir (shared S)"
  "w_kernel (shared (set_disk S c)) = w_kernel (shared S)" "w_kernel (shared (set_tty S t)) = w_kernel (shared S)"
  "waiting (set_disk S c) q h = waiting S q h" "waiting (set_tty S t) q h = waiting S q h"
  by (simp_all add: set_disk_def set_tty_def waiting_def)

lemma set_disk_with_proc: "set_disk (with_proc S p c) d = with_proc (set_disk S d) p c"
  by (simp add: set_disk_def with_proc_def)

lemma set_tty_with_proc: "set_tty (with_proc S p c) d = with_proc (set_tty S d) p c"
  by (simp add: set_tty_def with_proc_def)

lemma calls_on_disk: "f (w_disk (shared S)) = Inr (x, c) \<Longrightarrow> calls old p (on_disk f) S x (set_disk S c)"
  unfolding on_disk_def set_disk_def by (rule calls_act) simp

lemma calls_on_tty: "f (w_tty (shared S)) = Inr (x, t) \<Longrightarrow> calls old p (on_tty f) S x (set_tty S t)"
  unfolding on_tty_def set_tty_def by (rule calls_act) simp

section \<open>Reading a file\<close>

lemma calls_file_read:
  assumes w: "waiting S GPID_FILE (sys_file fs)" "p \<noteq> GPID_FILE" "length old = SYSCALL_MSG_LEN"
    and r: "read_op fs ino off (bytes32 ino @ bytes32 off @ uninit 504) (w_disk (shared S)) = Inr (r, blk, c)" "length blk = BLOCK_SIZE"
  shows "calls old p (file_read ino off) S (if r = 0 then 0 else - 1, blk) (set_disk S c)"
proof -
  let ?m = "file_request FILE_READ ino off (uninit BLOCK_SIZE)"
  let ?reply = "file_reply (if r = 0 then FILE_OK else FILE_ERROR) blk"
  have l: "length ?m = 524" by (simp add: file_request_fields uninit_def)
  have f: "get32 (padded old ?m) 0 = FILE_READ" "get32 (padded old ?m) 4 = ino" "get32 (padded old ?m) 8 = off"
    using l by (simp_all add: get32_padded file_request_fields)
  have b: "take BLOCK_SIZE (drop 4 (padded old ?m)) = bytes32 ino @ bytes32 off @ uninit 504"
    using l by (simp add: take_drop_padded) (simp add: file_request_def uninit_def bytes32_def numeral_eq_Suc)
  let ?a = "on_disk (\<lambda>c. bindr (read_op fs ino off (bytes32 ino @ bytes32 off @ uninit 504) c) (\<lambda>(r, blk, c).
      Inr (file_reply (if r = 0 then FILE_OK else FILE_ERROR) blk, c)))"
  have "calls old p (bindp (send GPID_FILE ?m) (\<lambda>_. receive GPID_FILE)) S (GPID_FILE, padded old ?reply) (set_disk S c)"
  proof (rule server_answers[where h = "sys_file fs" and a = ?a])
    show "sys_file fs p (padded old ?m) = bindp ?a (send p)" by (simp add: sys_file_def f b)
    show "calls old GPID_FILE ?a (with_proc S p d) ?reply (with_proc (set_disk S c) p d)" for d
      unfolding set_disk_with_proc[symmetric] by (rule calls_on_disk) (simp add: r(1))
  qed (use w l r(2) in \<open>simp_all add: file_reply_fields\<close>)
  moreover have "get32 (padded old ?reply) 0 = (if r = 0 then FILE_OK else FILE_ERROR)" "take BLOCK_SIZE (drop 4 (padded old ?reply)) = blk"
    using r(2) by (simp_all add: get32_padded take_drop_padded file_reply_fields)
  ultimately show ?thesis
    unfolding file_read_def by (auto intro!: calls_bind[where x = "(GPID_FILE, padded old ?reply)"] calls_Ret simp: FILE_OK_def FILE_ERROR_def)
qed

lemma calls_file_block:
  assumes w: "waiting S GPID_FILE (sys_file fs)" "p \<noteq> GPID_FILE" "length old = SYSCALL_MSG_LEN"
    and fs: "file_store fs holds nfiles cost" "holds (w_disk (shared S)) files m"
    and i: "unat ino < nfiles" "unat off < length (files (unat ino))" "length (files (unat ino) ! unat off) = BLOCK_SIZE"
  shows "\<exists>c. calls old p (file_read ino off) S (0, files (unat ino) ! unat off) (set_disk S c) \<and> holds c files m"
proof -
  obtain c where "read_op fs ino off (bytes32 ino @ bytes32 off @ uninit 504) (w_disk (shared S)) = Inr (0, files (unat ino) ! unat off, c)"
    "holds c files m"
    using file_store.read_holds[OF fs(1) fs(2), of ino off "bytes32 ino @ bytes32 off @ uninit 504"] i(1,2) by auto
  then show ?thesis using calls_file_read[OF w, of ino off 0 "files (unat ino) ! unat off" c] i(3) by auto
qed

section \<open>Writing to the screen\<close>

lemma calls_term_write:
  fixes S :: "('a, 'b) world system"
  assumes dev: "tty_device dev coming sent" and w: "waiting S GPID_TERMINAL (sys_terminal dev)" "p \<noteq> GPID_TERMINAL" "length old = SYSCALL_MSG_LEN"
    and s: "length s \<le> TERM_BUF_SIZE"
  shows "\<exists>t. calls old p (term_write_app s) S () (set_tty S t) \<and> coming t = coming (w_tty (shared S)) \<and>
    sent t = sent (w_tty (shared S)) @ s"
proof -
  let ?m = "term_request TERM_OUTPUT (of_nat (length s)) (s @ uninit (TERM_BUF_SIZE - length s))"
  obtain t where t: "term_write dev s (w_tty (shared S)) = Inr t" "coming t = coming (w_tty (shared S))" "sent t = sent (w_tty (shared S)) @ s"
    using tty_device.term_write_written[OF dev, of s "w_tty (shared S)"] by blast
  have l: "length ?m = 520" using s by (simp add: term_request_fields uninit_def)
  have f: "get32 (padded old ?m) 0 = TERM_OUTPUT" "get32 (padded old ?m) 4 = of_nat (length s)"
    using l by (simp_all add: get32_padded term_request_fields)
  have u: "unat (of_nat (length s) :: u32) = length s" using s by (intro unat_of_nat_u32) simp
  have b: "take (length s) (drop 8 (padded old ?m)) = s"
    using l s by (simp add: take_drop_padded term_request_fields)
  have n: "\<not> 512 < (of_nat (length s) :: u32)" using s u by (simp add: word_less_nat_alt)
  have ne: "TERM_OUTPUT \<noteq> TERM_INPUT" by (simp add: TERM_INPUT_def TERM_OUTPUT_def)
  have "calls old p (send GPID_TERMINAL ?m) S () (set_tty S t)"
  proof (rule server_takes[where h = "sys_terminal dev"])
    have "sys_terminal dev p (padded old ?m) = (on_tty (\<lambda>t. bindr (term_write dev s t) (\<lambda>t. Inr ((), t))) :: (('a, 'b) world, unit) prog)"
      using n ne by (simp add: sys_terminal_def f b u Let_def)
    then show "calls old GPID_TERMINAL (sys_terminal dev p (padded old ?m)) (with_proc S p d) () (with_proc (set_tty S t) p d)" for d
      unfolding set_tty_with_proc[symmetric] by (simp only:) (rule calls_on_tty, simp add: t(1) with_proc_def)
  qed (use w l in simp_all)
  then have "calls old p (term_write_app s) S () (set_tty S t)" using s by (simp add: term_write_app_def)
  then show ?thesis using t(2,3) by blast
qed

lemma calls_printf:
  assumes "tty_device dev coming sent" "waiting S GPID_TERMINAL (sys_terminal dev)" "p \<noteq> GPID_TERMINAL" "length old = SYSCALL_MSG_LEN"
    and "my_printf fmt args = Inr s" "length s \<le> TERM_BUF_SIZE"
  shows "\<exists>t. calls old p (printf_app fmt args) S () (set_tty S t) \<and> coming t = coming (w_tty (shared S)) \<and>
    sent t = sent (w_tty (shared S)) @ s"
proof -
  obtain t where t: "calls old p (term_write_app s) S () (set_tty S t)" "coming t = coming (w_tty (shared S))"
    "sent t = sent (w_tty (shared S)) @ s"
    using calls_term_write[OF assms(1-4,6)] by blast
  have "calls old p (printf_app fmt args) S () (set_tty S t)"
    unfolding printf_app_def by (rule calls_bind[OF calls_of_res[OF assms(5)]]) (rule t(1))
  then show ?thesis using t(2,3) by blast
qed

section \<open>The disk of the file server\<close>

text \<open>
  On an SD card the disk of the file server keeps the contract that treedisk relies on, and the
  treedisk on it the contract of a file system.
\<close>

definition fs_blocks :: "('c \<Rightarrow> u32 \<Rightarrow> block) \<Rightarrow> 'c \<Rightarrow> u32 \<Rightarrow> block" where
  "fs_blocks data c k = (if k < 4096 then data c (4096 + k) else [])"

lemma fs_disk_block_store:
  assumes card: "sd_card plat x nblocks ready data" and n: "8192 \<le> nblocks" "nblocks \<le> 2 ^ 32"
  shows "block_store (fs_disk (disk_read SD_CARD rom plat x) (disk_write SD_CARD plat x)) 0 ready (fs_blocks data) 4096"
proof
  fix c and k :: u32 and buf :: block
  assume r: "ready c" and k: "k < 4096"
  have u: "unat (4096 + k) = 4096 + unat k" "unat k < 4096"
    using k by (simp_all add: unat_word_ariths word_less_nat_alt)
  have s: "(of_nat FILE_SYS_DISK_START :: u32) = 4096" by (simp add: FILE_SYS_DISK_START_def)
  have b: "fs_blocks data c k = data c (4096 + k)" using k by (simp add: fs_blocks_def)
  have le: "unat (4096 + k) + 1 \<le> nblocks" using u n(1) by simp
  show "length (fs_blocks data c k) = BLOCK_SIZE" unfolding b by (rule sd_cardD(1)[OF card r]) (use le in simp)
  show "\<exists>c'. read_op (fs_disk (disk_read SD_CARD rom plat x) (disk_write SD_CARD plat x)) 0 k buf c = Inr (0, fs_blocks data c k, c') \<and>
      ready c' \<and> fs_blocks data c' = fs_blocks data c"
    using disk_read_blocks[OF card r le n(2), of rom] k by (auto simp: fs_disk_def fs_read_def s fs_blocks_def fun_eq_iff)
  fix blk :: block
  assume l: "length blk = BLOCK_SIZE"
  obtain c' where c': "disk_write SD_CARD plat x (4096 + k) 1 blk c = Inr c'" "ready c'" "data c' (4096 + k) = blk"
    "\<And>j. j \<noteq> 4096 + k \<Longrightarrow> data c' j = data c j"
    using disk_write_blocks[OF card r le n(2), of blk] l by auto
  have "fs_blocks data c' = (fs_blocks data c)(k := blk)"
    by (rule ext) (use k c'(3,4) in \<open>simp add: fs_blocks_def\<close>)
  then show "\<exists>c'. write_op (fs_disk (disk_read SD_CARD rom plat x) (disk_write SD_CARD plat x)) 0 k blk c = Inr (0, c') \<and>
      ready c' \<and> fs_blocks data c' = (fs_blocks data c)(k := blk)"
    using c'(1,2) by (simp add: fs_disk_def fs_write_def s)
next
  fix c
  assume "ready c"
  then show "\<exists>c'. getsize_op (fs_disk (disk_read SD_CARD rom plat x) (disk_write SD_CARD plat x)) 0 c = Inr (4096, c') \<and>
      ready c' \<and> fs_blocks data c' = fs_blocks data c"
    by (simp add: fs_disk_def fs_getsize_def FILE_SYS_DISK_BLOCKS_def)
qed

lemma file_system_init: "treedisk_init (fs_disk dread dwrite) 0 0 = Inr (fs_tree dread dwrite)"
  by (simp add: treedisk_init_def log_rpb_loop_7 fs_tree_def)

context treedisk_with
begin

lemma treedisk_file_store:
  "file_store (treedisk_intf ts) (\<lambda>s files m. ok s \<and> disk_holds nblocks N (contents s) files m) N 11"
  by (rule files.file_store_axioms)

end

lemma file_system_store:
  assumes "sd_card plat x nblocks ready data" "8192 \<le> nblocks" "nblocks \<le> 2 ^ 32"
  shows "file_store (file_system (disk_read SD_CARD rom plat x) (disk_write SD_CARD plat x))
    (\<lambda>c files m. ready c \<and> disk_holds 4096 nfiles (fs_blocks data c) files m) nfiles 11"
proof -
  have "treedisk_with (fs_disk (disk_read SD_CARD rom plat x) (disk_write SD_CARD plat x)) 0 ready (fs_blocks data) 4096
    (fs_tree (disk_read SD_CARD rom plat x) (disk_write SD_CARD plat x))"
    unfolding treedisk_with_def treedisk_on_def treedisk_on_axioms_def
    using fs_disk_block_store[OF assms] by (simp add: fs_tree_def)
  from treedisk_with.treedisk_file_store[OF this]
  show ?thesis unfolding file_system_def .
qed

end
