(* ===== verification/Mydisk.thy ===== *)
theory Mydisk
  imports Inode
begin

text \<open>
  The placeholder file system of library/file/file0.c: inode \<open>ino\<close> is the window of 128
  blocks at \<open>128 * ino\<close> of the store below. The file is built for mkfs and for the kernel;
  the two versions of the unimplemented methods never return.
\<close>

definition DUMMY_DISK_OFFSET :: "u32 \<Rightarrow> u32 \<Rightarrow> u32" where
  "DUMMY_DISK_OFFSET ino offset = ino * 128 + offset"

definition mydisk_read ::
  "'s inode_store \<Rightarrow> u32 \<Rightarrow> u32 \<Rightarrow> block \<Rightarrow> 's \<Rightarrow> (i32 \<times> block \<times> 's) res" where
  "mydisk_read below ino offset block s = read_op below 0 (DUMMY_DISK_OFFSET ino offset) block s"

definition mydisk_write ::
  "'s inode_store \<Rightarrow> u32 \<Rightarrow> u32 \<Rightarrow> block \<Rightarrow> 's \<Rightarrow> (i32 \<times> 's) res" where
  "mydisk_write below ino offset block s = write_op below 0 (DUMMY_DISK_OFFSET ino offset) block s"

definition mydisk_getsize :: "'s inode_store \<Rightarrow> u32 \<Rightarrow> 's \<Rightarrow> (i32 \<times> 's) res" where
  "mydisk_getsize below ino s = Inl (FATAL ''mydisk_getsize not implemented'')"

definition mydisk_setsize :: "'s inode_store \<Rightarrow> u32 \<Rightarrow> u32 \<Rightarrow> 's \<Rightarrow> (i32 \<times> 's) res" where
  "mydisk_setsize below ino nblocks s = Inl (FATAL ''mydisk_setsize not implemented'')"

definition mydisk_create :: "'s inode_store \<Rightarrow> u32 \<Rightarrow> u32 \<Rightarrow> 's \<Rightarrow> (i32 \<times> 's) res" where
  "mydisk_create below below_ino ninodes s = Inr (0, s)"

definition mydisk_init :: "'s inode_store \<Rightarrow> u32 \<Rightarrow> 's inode_store" where
  "mydisk_init below below_ino =
     \<lparr>getsize_op = mydisk_getsize below, setsize_op = mydisk_setsize below,
      read_op = mydisk_read below, write_op = mydisk_write below\<rparr>"

text \<open>Two inodes share no block, as long as offsets stay inside the window.\<close>

lemma DUMMY_DISK_OFFSET_inj:
  assumes "DUMMY_DISK_OFFSET i a = DUMMY_DISK_OFFSET j b" "a < 128" "b < 128" "i < 2 ^ 25" "j < 2 ^ 25"
  shows "i = j \<and> a = b"
proof -
  have u: "unat (DUMMY_DISK_OFFSET k c) = 128 * unat k + unat c" if "c < 128" "k < 2 ^ 25" for k c
    using that by (simp add: DUMMY_DISK_OFFSET_def unat_word_ariths word_less_nat_alt)
  have eq: "128 * unat i + unat a = 128 * unat j + unat b"
    using assms u[of a i] u[of b j] by simp
  have "unat a < 128" "unat b < 128" using assms by (simp_all add: word_less_nat_alt)
  then have "unat i = unat j"
    using arg_cong[OF eq, of "\<lambda>x. x div 128"] by simp
  then show ?thesis using eq by (simp add: word_unat_eq_iff)
qed

context block_store
begin

text \<open>A write to one inode is read back there, and no other block of any inode changes.\<close>

lemma mydisk_write_read:
  assumes s: "ok s" and z: "below_ino = 0" and blk: "length blk = BLOCK_SIZE"
    and r: "DUMMY_DISK_OFFSET i a < nblocks" "DUMMY_DISK_OFFSET j b < nblocks"
    and w: "a < 128" "b < 128" "i < 2 ^ 25" "j < 2 ^ 25"
  shows "\<exists>s' s''. mydisk_write below i a blk s = Inr (0, s') \<and>
     mydisk_read below j b buf s' = Inr (0, if i = j \<and> a = b then blk
       else contents s (DUMMY_DISK_OFFSET j b), s'') \<and> ok s''"
proof -
  obtain s' where s': "write_op below 0 (DUMMY_DISK_OFFSET i a) blk s = Inr (0, s')" "ok s'"
    "contents s' = (contents s)(DUMMY_DISK_OFFSET i a := blk)"
    using write_ok[OF s r(1) blk] z by auto
  obtain s'' where "read_op below 0 (DUMMY_DISK_OFFSET j b) buf s'
      = Inr (0, contents s' (DUMMY_DISK_OFFSET j b), s'')" "ok s''"
    using read_ok[OF s'(2) r(2), of buf] z by auto
  with s' DUMMY_DISK_OFFSET_inj[of i a j b] w show ?thesis
    by (auto simp: mydisk_write_def mydisk_read_def)
qed

end

end
