(* ===== verification/Mkfs.thy ===== *)
theory Mkfs
  imports Treedisk_Contract Mydisk Cstring "HOL-Library.Sublist"
begin

text \<open>
  tools/mkfs.c: the program that builds the disk image. The file system part of \<open>main\<close> is
  modelled: a ramdisk in the 2MB array \<open>fs\<close>, the file system created on it, and the
  directories and applications written into it. What the host gives, the directory listing of
  the built applications and the bytes of each file, is an argument. Theory
  \<open>Image\<close> has the rest of \<open>main\<close>: the kernel binaries in \<open>exec\<close> and the two image files.
\<close>

section \<open>The ramdisk\<close>

definition getsize :: "u32 \<Rightarrow> u8 list \<Rightarrow> (i32 \<times> u8 list) res" where
  "getsize ino fs = Inr (of_nat FILE_SYS_DISK_BLOCKS, fs)"

definition setsize :: "u32 \<Rightarrow> u32 \<Rightarrow> u8 list \<Rightarrow> (i32 \<times> u8 list) res" where
  "setsize ino newsize fs = Inl (FATAL ''assert(0)'')"

definition ramread :: "u32 \<Rightarrow> u32 \<Rightarrow> block \<Rightarrow> u8 list \<Rightarrow> (i32 \<times> block \<times> u8 list) res" where
  "ramread ino offset block fs =
     (let p = unat (offset * 512) in
      if p + BLOCK_SIZE \<le> length fs then Inr (0, take BLOCK_SIZE (drop p fs), fs)
      else Inl (Undef ''ramread''))"

definition ramwrite :: "u32 \<Rightarrow> u32 \<Rightarrow> block \<Rightarrow> u8 list \<Rightarrow> (i32 \<times> u8 list) res" where
  "ramwrite ino offset block fs =
     (let p = unat (offset * 512) in
      if p + BLOCK_SIZE \<le> length fs
      then Inr (0, take p fs @ take BLOCK_SIZE block @ drop (p + BLOCK_SIZE) fs)
      else Inl (Undef ''ramwrite''))"

definition ramdisk :: "u8 list inode_store" where
  "ramdisk = \<lparr>getsize_op = getsize, setsize_op = setsize, read_op = ramread, write_op = ramwrite\<rparr>"

text \<open>The ramdisk keeps the laws of a block store.\<close>

definition ram_ok :: "u8 list \<Rightarrow> bool" where
  "ram_ok fs \<longleftrightarrow> length fs = SIZE_2MB"

definition ram_block :: "u8 list \<Rightarrow> u32 \<Rightarrow> block" where
  "ram_block fs k = take BLOCK_SIZE (drop (BLOCK_SIZE * unat k) fs)"

lemma unat_block_offset: "k < 4096 \<Longrightarrow> unat (k * 512) = 512 * unat k" for k :: u32
  by (simp add: word_less_nat_alt unat_word_ariths)

lemma ram_block_write:
  assumes "length fs = SIZE_2MB" "length b = BLOCK_SIZE" "m < 4096" "unat k = m"
  shows "ram_block (take (512 * m) fs @ b @ drop (512 * m + 512) fs) j
    = (if j = k then b else ram_block fs j)"
proof (cases "unat j" m rule: linorder_cases)
  case less
  then have "512 * unat j + 512 \<le> 512 * m" by linarith
  then show ?thesis using less assms
    by (auto simp: ram_block_def take_drop min_def)
next
  case equal
  then have "j = k" using assms(4) by (simp add: word_unat_eq_iff)
  then show ?thesis using equal assms(1-3) by (simp add: ram_block_def)
next
  case greater
  then have le: "512 * m + 512 \<le> 512 * unat j" by linarith
  then have "512 * unat j = 512 * m + 512 + (512 * unat j - (512 * m + 512))" by simp
  have "drop (512 * unat j) (take (512 * m) fs @ b @ drop (512 * m + 512) fs) = drop (512 * unat j) fs"
    using le assms by (simp add: add.commute)
  then show ?thesis using greater assms by (auto simp: ram_block_def)
qed

interpretation ram: block_store ramdisk 0 ram_ok ram_block 4096
proof
  fix fs and k :: u32 and buf :: block
  assume s: "ram_ok fs" and k: "k < 4096"
  have m: "unat k < 4096" using k by (simp add: word_less_nat_alt)
  show "\<exists>fs'. read_op ramdisk 0 k buf fs = Inr (0, ram_block fs k, fs') \<and> ram_ok fs' \<and> ram_block fs' = ram_block fs"
    using s m by (simp add: ramdisk_def ramread_def Let_def unat_block_offset[OF k] ram_ok_def ram_block_def)
  show "length (ram_block fs k) = BLOCK_SIZE"
    using s m by (simp add: ram_block_def ram_ok_def)
  fix blk :: block
  assume blk: "length blk = BLOCK_SIZE"
  show "\<exists>fs'. write_op ramdisk 0 k blk fs = Inr (0, fs') \<and> ram_ok fs' \<and> ram_block fs' = (ram_block fs)(k := blk)"
    using s m blk ram_block_write[of fs blk "unat k" k]
    by (auto simp: ramdisk_def ramwrite_def Let_def unat_block_offset[OF k] ram_ok_def fun_eq_iff)
next
  fix fs
  assume "ram_ok fs"
  then show "\<exists>fs'. getsize_op ramdisk 0 fs = Inr (4096, fs') \<and> ram_ok fs' \<and> ram_block fs' = ram_block fs"
    by (simp add: ramdisk_def getsize_def FILE_SYS_DISK_BLOCKS_def)
qed

section \<open>Filling the file system\<close>

definition mkfs_contents :: "u8 list list" where
  "mkfs_contents = map str
     [''./   0 ../   0 home/   1 bin/   6 '',
      ''./   1 ../   0 yunhao/   2 rvr/   3 yacqub/   4 '',
      ''./   2 ../   1 README   5 '',
      ''./   3 ../   1 '',
      ''./   4 ../   1 '',
      ''With only 2000 lines of code, egos-2000 implements boot loader, SD card '' @
      ''driver, tty driver, virtual memory with page tables, interrupt and '' @
      ''exception handling, preemptive scheduler, system call, file system, '' @
      ''shell, an Ethernet/UDP demo, several user commands, and the mkfs tool. '' @
      ''Moreover, the EGOS book (https://egos.fun) contains 9 course projects.'']"

definition BIN_DIR_INODE :: nat where
  "BIN_DIR_INODE = 6"

text \<open>The globals \<open>inode\<close>, \<open>bin_dir\<close> and \<open>fs\<close> (\<open>disk_fs\<close> here), and the local \<open>app_ino\<close> of \<open>main\<close>.\<close>

record 's mkfs_state =
  inode_buf :: "u8 list"
  bin_dir :: "u8 list"
  disk_fs :: 's
  app_ino :: u32

definition bin_dir_init :: "u8 list" where
  "bin_dir_init = str ''./   6 ../   0 '' @ replicate 241 0"

text \<open>The loop over inodes 0 to \<open>BIN_DIR_INODE - 1\<close>; results of \<open>write\<close> are ignored.\<close>

definition mkfs_dirs :: "'s inode_store \<Rightarrow> 's mkfs_state \<Rightarrow> 's mkfs_state res" where
  "mkfs_dirs filesys st =
     for_each [0 ..< BIN_DIR_INODE] (\<lambda>ino st.
       let buf = strncpy (inode_buf st) (mkfs_contents ! ino) BLOCK_SIZE in
       bindr (write_op filesys (of_nat ino) 0 (take BLOCK_SIZE buf) (disk_fs st)) (\<lambda>(r, s).
         Inr (st\<lparr>inode_buf := buf, disk_fs := s\<rparr>))) st"

definition nblocks_of :: "u8 list \<Rightarrow> nat" where
  "nblocks_of bytes = (length bytes + BLOCK_SIZE - 1) div BLOCK_SIZE"

definition file_entry :: "u8 list \<Rightarrow> u32 \<Rightarrow> u8 list" where
  "file_entry d_name ino =
     take (length d_name - 4) d_name @ pad_left 4 (dec (unat ino)) @ str '' ''"

text \<open>
  The body of the loop over the directory of applications, for one entry: its name and the
  bytes \<open>load_file\<close> puts at the start of \<open>inode\<close>.
\<close>

definition mkfs_app ::
  "'s inode_store \<Rightarrow> u8 list \<times> u8 list \<Rightarrow> 's mkfs_state \<Rightarrow> 's mkfs_state res" where
  "mkfs_app filesys ep st =
     (let (d_name, bytes) = ep in
      if \<not> sublist (str ''.elf'') d_name then Inr st
      else if SIZE_2MB < length bytes then Inl (Undef ''load_file'')
      else
        let buf = bytes @ drop (length bytes) (inode_buf st) in
        bindr (for_each [0 ..< nblocks_of bytes] (\<lambda>b s.
                 bindr (write_op filesys (app_ino st) (of_nat b)
                          (take BLOCK_SIZE (drop (b * BLOCK_SIZE) buf)) s) (\<lambda>(r, s). Inr s)) (disk_fs st))
          (\<lambda>s. case strcat (bin_dir st) (file_entry d_name (app_ino st)) of
             None \<Rightarrow> Inl (Undef ''strcat'')
           | Some dir \<Rightarrow> Inr (st\<lparr>inode_buf := buf, disk_fs := s, bin_dir := dir,
                              app_ino := app_ino st + 1\<rparr>)))"

text \<open>
  \<open>bin_dir\<close> has 256 bytes and is written as a block of 512: the bytes \<open>adj\<close> that follow it
  in the memory of mkfs go to the disk as well.
\<close>

definition mkfs_fill ::
  "'s inode_store \<Rightarrow> (u8 list \<times> u8 list) list \<Rightarrow> u8 list \<Rightarrow> 's \<Rightarrow> 's res" where
  "mkfs_fill filesys eps adj s =
     bindr (mkfs_dirs filesys \<lparr>inode_buf = replicate SIZE_2MB 0, bin_dir = bin_dir_init, disk_fs = s,
                               app_ino = of_nat (BIN_DIR_INODE + 1)\<rparr>) (\<lambda>st.
     bindr (for_each eps (mkfs_app filesys) st) (\<lambda>st.
     bindr (write_op filesys (of_nat BIN_DIR_INODE) 0 (bin_dir st @ adj) (disk_fs st)) (\<lambda>(r, s). Inr s)))"

definition mkfs_main :: "nat \<Rightarrow> (u8 list \<times> u8 list) list \<Rightarrow> u8 list \<Rightarrow> u8 list \<Rightarrow> u8 list res" where
  "mkfs_main FILESYS eps adj fs0 =
     bindr (if FILESYS = 0 then mydisk_create ramdisk 0 NINODES fs0
            else treedisk_create ramdisk 0 NINODES fs0) (\<lambda>(r, s).
     if r <s 0 then Inl (FATAL ''assert'')
     else bindr (if FILESYS = 0 then Inr (mydisk_init ramdisk 0)
                 else bindr (treedisk_init ramdisk 0 0) (\<lambda>ts. Inr (treedisk_intf ts)))
       (\<lambda>filesys. mkfs_fill filesys eps adj s))"

section \<open>What the image holds\<close>

definition is_app :: "u8 list \<times> u8 list \<Rightarrow> bool" where
  "is_app ep \<longleftrightarrow> sublist (str ''.elf'') (fst ep)"

definition dir_block :: "u8 list \<Rightarrow> block" where
  "dir_block s = take BLOCK_SIZE (s @ replicate BLOCK_SIZE 0)"

text \<open>The text of the /bin directory for a list of applications.\<close>

definition bin_text :: "(u8 list \<times> u8 list) list \<Rightarrow> u8 list" where
  "bin_text apps = str ''./   6 ../   0 '' @
     concat (map (\<lambda>k. file_entry (fst (apps ! k)) (of_nat (7 + k))) [0 ..< length apps])"

text \<open>A file holds some bytes: as many blocks as they need, and they come first.\<close>

definition stores :: "block list \<Rightarrow> u8 list \<Rightarrow> bool" where
  "stores f bytes \<longleftrightarrow> length f = nblocks_of bytes \<and> take (length bytes) (concat f) = bytes"

definition mkfs_holds :: "(nat \<Rightarrow> block list) \<Rightarrow> (u8 list \<times> u8 list) list \<Rightarrow> bool" where
  "mkfs_holds files apps \<longleftrightarrow>
     (\<forall>ino < 6. files ino = [dir_block (mkfs_contents ! ino)]) \<and>
     (\<forall>k < length apps. stores (files (7 + k)) (snd (apps ! k))) \<and>
     (\<forall>ino. 7 + length apps \<le> ino \<longrightarrow> files ino = [])"

lemma concat_chunks:
  "n * BLOCK_SIZE \<le> length buf \<Longrightarrow>
   concat (map (\<lambda>b. take BLOCK_SIZE (drop (b * BLOCK_SIZE) buf)) [0 ..< n]) = take (n * BLOCK_SIZE) buf"
proof (induction n)
  case (Suc n)
  then show ?case using take_add[of "n * 512" 512 buf] by (simp add: add.commute)
qed simp

lemma nblocks_of_bounds:
  "length bytes \<le> nblocks_of bytes * BLOCK_SIZE"
  "length bytes \<le> SIZE_2MB \<Longrightarrow> nblocks_of bytes * BLOCK_SIZE \<le> SIZE_2MB"
proof -
  have "n \<le> (n + 512 - 1) div 512 * 512" for n :: nat by linarith
  moreover have "(n + 512 - 1) div 512 \<le> 4096" if "n \<le> SIZE_2MB" for n :: nat
    using div_le_mono[of "n + 512 - 1" "2097663" 512] that by simp
  ultimately show "length bytes \<le> nblocks_of bytes * BLOCK_SIZE"
    "length bytes \<le> SIZE_2MB \<Longrightarrow> nblocks_of bytes * BLOCK_SIZE \<le> SIZE_2MB"
    by (simp_all add: nblocks_of_def)
qed

lemma stores_chunks:
  assumes "length bytes \<le> SIZE_2MB" "length buf = SIZE_2MB" "take (length bytes) buf = bytes"
  shows "stores (map (\<lambda>b. take BLOCK_SIZE (drop (b * BLOCK_SIZE) buf)) [0 ..< nblocks_of bytes]) bytes"
proof -
  have "nblocks_of bytes * BLOCK_SIZE \<le> length buf"
    using nblocks_of_bounds(2)[OF assms(1)] assms(2) by simp
  note concat_chunks[OF this]
  then show ?thesis
    using assms(3) nblocks_of_bounds(1)[of bytes] by (simp add: stores_def min_def)
qed

lemma contents_no_nul: "i < 6 \<Longrightarrow> 0 \<notin> set (mkfs_contents ! i)"
proof -
  have "list_all (\<lambda>s. 0 \<notin> set s) mkfs_contents" "length mkfs_contents = 6" by code_simp+
  then show "i < 6 \<Longrightarrow> 0 \<notin> set (mkfs_contents ! i)" by (simp add: list_all_length)
qed

lemma take_strncpy: "0 \<notin> set s \<Longrightarrow> take BLOCK_SIZE (strncpy buf s BLOCK_SIZE) = dir_block s"
  by (simp add: strncpy_def dir_block_def)

lemma length_dir_block [simp]: "length (dir_block s) = BLOCK_SIZE"
  by (simp add: dir_block_def)

lemma bin_text_snoc:
  "bin_text (apps @ [a]) = bin_text apps @ file_entry (fst a) (of_nat (7 + length apps))"
proof -
  have "map (\<lambda>k. file_entry (fst ((apps @ [a]) ! k)) (of_nat (7 + k))) [0 ..< length (apps @ [a])]
      = map (\<lambda>k. file_entry (fst (apps ! k)) (of_nat (7 + k))) [0 ..< length apps]
        @ [file_entry (fst a) (of_nat (7 + length apps))]"
    by (simp add: nth_append)
  then show ?thesis by (simp only: bin_text_def concat_append append_assoc) simp
qed

lemma bin_text_append: "length (bin_text apps) \<le> length (bin_text (apps @ rest))"
proof (induction rest rule: rev_induct)
  case (snoc a rest)
  then show ?case using bin_text_snoc[of "apps @ rest" a] by simp
qed simp

lemma file_entry_no_nul: "0 \<notin> set d_name \<Longrightarrow> 0 \<notin> set (file_entry d_name ino)"
  by (auto simp: file_entry_def str_def dest: in_set_takeD)

lemma bin_text_no_nul:
  "(\<And>a. a \<in> set apps \<Longrightarrow> 0 \<notin> set (fst a)) \<Longrightarrow> 0 \<notin> set (bin_text apps)"
proof (induction apps rule: rev_induct)
  case Nil
  show ?case by code_simp
next
  case (snoc a apps)
  then show ?case using file_entry_no_nul[of "fst a"] by (simp add: bin_text_snoc)
qed

definition app_blocks :: "(u8 list \<times> u8 list) list \<Rightarrow> nat" where
  "app_blocks apps = sum_list (map (\<lambda>a. nblocks_of (snd a)) apps)"

text \<open>The state of \<open>main\<close> after the entries \<open>js\<close>, over any file system.\<close>

definition mkfs_progress ::
  "('s \<Rightarrow> (nat \<Rightarrow> block list) \<Rightarrow> nat \<Rightarrow> bool) \<Rightarrow> nat \<Rightarrow> (u8 list \<times> u8 list) list \<Rightarrow> 's mkfs_state \<Rightarrow> bool" where
  "mkfs_progress holds m apps st \<longleftrightarrow>
     length (inode_buf st) = SIZE_2MB \<and> app_ino st = of_nat (7 + length apps) \<and>
     bin_dir st = bin_text apps @ replicate (256 - length (bin_text apps)) 0 \<and>
     (\<exists>files. holds (disk_fs st) files m \<and> mkfs_holds files apps \<and> files 6 = [])"

lemma mkfs_holds_snoc:
  assumes "mkfs_holds files apps" "stores f (snd a)"
  shows "mkfs_holds (files(7 + length apps := f)) (apps @ [a])"
  using assms by (auto simp: mkfs_holds_def nth_append less_Suc_eq)

context file_store
begin

lemma mkfs_dirs_correct:
  assumes "holds (disk_fs st) (\<lambda>_. []) (cost * 6 + m)" "7 \<le> nfiles" "length (inode_buf st) = SIZE_2MB"
  shows "\<exists>st'. mkfs_dirs fs st = Inr st' \<and> length (inode_buf st') = SIZE_2MB \<and>
     bin_dir st' = bin_dir st \<and> app_ino st' = app_ino st \<and>
     holds (disk_fs st') (\<lambda>i. if i < 6 then [dir_block (mkfs_contents ! i)] else []) m"
proof -
  let ?P = "\<lambda>js st'. length (inode_buf st') = SIZE_2MB \<and>
     bin_dir st' = bin_dir st \<and> app_ino st' = app_ino st \<and>
     holds (disk_fs st') (\<lambda>i. if i < length js then [dir_block (mkfs_contents ! i)] else [])
       (cost * (6 - length js) + m)"
  have "\<exists>t. mkfs_dirs fs st = Inr t \<and> ?P [0 ..< 6] t"
    unfolding mkfs_dirs_def BIN_DIR_INODE_def
  proof (rule for_each_invariant)
    show "?P [] st" using assms by simp
  next
    fix js b rest t
    assume js: "[0 ..< 6] = js @ b # rest" and P: "?P js t"
    from arg_cong[OF js, of length] have lt: "length js < 6" by simp
    from arg_cong[OF js, of "\<lambda>xs. xs ! length js"] lt have b: "b = length js"
      by (metis add.left_neutral nth_append_length nth_upt)
    let ?f = "\<lambda>i. if i < b then [dir_block (mkfs_contents ! i)] else []"
    let ?buf = "strncpy (inode_buf t) (mkfs_contents ! b) BLOCK_SIZE"
    have u: "unat (of_nat b :: u32) = b" using lt b by (intro unat_of_nat_u32) simp
    have t: "take BLOCK_SIZE ?buf = dir_block (mkfs_contents ! b)"
      using contents_no_nul[of b] lt b by (intro take_strncpy) simp
    have "6 - length js = Suc (6 - length (js @ [b]))" using lt by simp
    then have "cost * (6 - length js) + m = cost + (cost * (6 - length (js @ [b])) + m)"
      by (simp only: mult_Suc_right add.assoc)
    with P have h: "holds (disk_fs t) ?f (cost + (cost * (6 - length (js @ [b])) + m))"
      by (simp add: b)
    obtain s' where w: "write_op fs (of_nat b) 0 (dir_block (mkfs_contents ! b)) (disk_fs t) = Inr (0, s')"
      "holds s' (?f(b := write_file (?f b) 0 (dir_block (mkfs_contents ! b)))) (cost * (6 - length (js @ [b])) + m)"
      using write_holds[OF h, of "of_nat b" 0 "dir_block (mkfs_contents ! b)"] u lt b assms(2) by auto
    have "?f(b := write_file (?f b) 0 (dir_block (mkfs_contents ! b)))
        = (\<lambda>i. if i < length (js @ [b]) then [dir_block (mkfs_contents ! i)] else [])"
      by (auto simp: write_file_def b)
    with w P show "\<exists>t'. (let buf = ?buf in
        bindr (write_op fs (of_nat b) 0 (take BLOCK_SIZE buf) (disk_fs t)) (\<lambda>(r, s).
         Inr (t\<lparr>inode_buf := buf, disk_fs := s\<rparr>))) = Inr t' \<and> ?P (js @ [b]) t'"
      by (auto simp: Let_def t)
  qed
  then show ?thesis by simp
qed

lemma mkfs_app_correct:
  assumes P: "mkfs_progress holds (cost * nblocks_of (snd a) + m) apps st" and a: "is_app a"
    and n: "7 + length apps < nfiles" "nfiles \<le> 2 ^ 32"
    and b: "length (snd a) \<le> SIZE_2MB" "0 \<notin> set (fst a)" "\<And>x. x \<in> set apps \<Longrightarrow> 0 \<notin> set (fst x)"
    and d: "length (bin_text (apps @ [a])) < 256"
  shows "\<exists>st'. mkfs_app fs a st = Inr st' \<and> mkfs_progress holds m (apps @ [a]) st'"
proof -
  obtain d_name bytes where ab: "a = (d_name, bytes)" by (cases a)
  define buf where "buf = bytes @ drop (length bytes) (inode_buf st)"
  define ino where "ino = (of_nat (7 + length apps) :: u32)"
  let ?blks = "map (\<lambda>b. take BLOCK_SIZE (drop (b * BLOCK_SIZE) buf)) [0 ..< nblocks_of bytes]"
  obtain files where st: "length (inode_buf st) = SIZE_2MB" "app_ino st = ino"
    "bin_dir st = bin_text apps @ replicate (256 - length (bin_text apps)) 0"
    "holds (disk_fs st) files (cost * nblocks_of bytes + m)" "mkfs_holds files apps" "files 6 = []"
    using P by (auto simp: mkfs_progress_def ab ino_def)
  have u: "unat ino = 7 + length apps" unfolding ino_def using n by (intro unat_of_nat_u32) simp
  have buf: "length buf = SIZE_2MB" "take (length bytes) buf = bytes"
    using st(1) b(1) by (simp_all add: ab buf_def)
  have nb: "nblocks_of bytes * BLOCK_SIZE \<le> SIZE_2MB" using nblocks_of_bounds(2) b(1) by (simp add: ab)
  have len: "length blk = BLOCK_SIZE" if i: "blk \<in> set ?blks" for blk
  proof -
    obtain k where k: "k < nblocks_of bytes" "blk = take BLOCK_SIZE (drop (k * BLOCK_SIZE) buf)"
      using i by auto
    then have "k * BLOCK_SIZE + BLOCK_SIZE \<le> SIZE_2MB" using nb by linarith
    then show ?thesis using buf(1) by (simp add: k(2))
  qed
  have e: "files (unat ino) = []" using st(5) by (simp add: u mkfs_holds_def)
  obtain s where s: "for_each [0 ..< nblocks_of bytes]
      (\<lambda>b s. bindr (write_op fs ino (of_nat b) (?blks ! b) s) (\<lambda>(r, s). Inr s)) (disk_fs st) = Inr s"
    "holds s (files(unat ino := ?blks)) m"
    using write_blocks[of "disk_fs st" files ?blks m ino, OF _ _ e len] st(4) u n nb by auto
  have loop: "for_each [0 ..< nblocks_of bytes] (\<lambda>b s. bindr (write_op fs ino (of_nat b)
        (take BLOCK_SIZE (drop (b * BLOCK_SIZE) buf)) s) (\<lambda>(r, s). Inr s)) (disk_fs st) = Inr s"
    using s(1) by (subst (asm) for_each_cong[OF refl refl]) auto
  have "mkfs_holds (files(unat ino := ?blks)) (apps @ [a])"
    unfolding u using stores_chunks[OF _ buf] b(1) by (intro mkfs_holds_snoc[OF st(5)]) (simp add: ab)
  moreover have "(files(unat ino := ?blks)) 6 = []" using st(6) by (simp add: u)
  moreover have "strcat (bin_dir st) (file_entry d_name ino)
      = Some (bin_text (apps @ [a]) @ replicate (256 - length (bin_text (apps @ [a]))) 0)"
    unfolding st(3) using d bin_text_no_nul[OF b(3)] file_entry_no_nul[OF b(2)]
    by (subst strcat_padded) (simp_all add: bin_text_snoc ab ino_def)
  moreover have "ino + 1 = of_nat (7 + length (apps @ [a]))" by (simp add: ino_def)
  ultimately show ?thesis
    using a b(1) s(2) buf loop unfolding ab
    by (auto simp: mkfs_app_def mkfs_progress_def is_app_def Let_def st(2) ino_def[symmetric] buf_def[symmetric])
qed

lemma mkfs_apps_correct:
  assumes P: "mkfs_progress holds (cost * app_blocks (filter is_app eps) + m) [] st"
    and n: "7 + length (filter is_app eps) \<le> nfiles" "nfiles \<le> 2 ^ 32"
    and b: "\<And>x. x \<in> set (filter is_app eps) \<Longrightarrow> length (snd x) \<le> SIZE_2MB \<and> 0 \<notin> set (fst x)"
    and d: "length (bin_text (filter is_app eps)) < 256"
  shows "\<exists>st'. for_each eps (mkfs_app fs) st = Inr st' \<and> mkfs_progress holds m (filter is_app eps) st'"
proof -
  let ?Q = "\<lambda>js st. mkfs_progress holds (cost * app_blocks (filter is_app (drop (length js) eps)) + m)
    (filter is_app js) st"
  have "\<exists>t. for_each eps (mkfs_app fs) st = Inr t \<and> ?Q eps t"
  proof (rule for_each_invariant[where P = ?Q])
    show "?Q [] st" using P by simp
  next
    fix js a rest t
    assume js: "eps = js @ a # rest" and Q: "?Q js t"
    show "\<exists>t'. mkfs_app fs a t = Inr t' \<and> ?Q (js @ [a]) t'"
    proof (cases "is_app a")
      case False
      then have "mkfs_app fs a t = Inr t" by (cases a) (simp add: mkfs_app_def is_app_def)
      with False Q js show ?thesis by simp
    next
      case True
      have "filter is_app eps = (filter is_app js @ [a]) @ filter is_app rest" using js True by simp
      then have d': "length (bin_text (filter is_app js @ [a])) < 256"
        using d bin_text_append[of "filter is_app js @ [a]" "filter is_app rest"] by simp
      have Q': "mkfs_progress holds (cost * nblocks_of (snd a) + (cost * app_blocks (filter is_app rest) + m))
          (filter is_app js) t"
        using Q js True by (simp add: app_blocks_def distrib_left add.assoc)
      have "\<exists>t'. mkfs_app fs a t = Inr t' \<and>
          mkfs_progress holds (cost * app_blocks (filter is_app rest) + m) (filter is_app js @ [a]) t'"
        by (rule mkfs_app_correct[OF Q' True _ n(2)]) (use n(1) b js True d' in auto)
      with js True show ?thesis by simp
    qed
  qed
  then show ?thesis by (simp add: app_blocks_def)
qed

lemma mkfs_fill_correct:
  assumes h: "holds s (\<lambda>_. []) (cost * (7 + app_blocks (filter is_app eps)) + m)"
    and n: "7 + length (filter is_app eps) \<le> nfiles" "nfiles \<le> 2 ^ 32"
    and b: "\<And>x. x \<in> set (filter is_app eps) \<Longrightarrow> length (snd x) \<le> SIZE_2MB \<and> 0 \<notin> set (fst x)"
    and d: "length (bin_text (filter is_app eps)) < 256" and adj: "length adj = 256"
  shows "\<exists>s' files. mkfs_fill fs eps adj s = Inr s' \<and> holds s' files m \<and>
     mkfs_holds files (filter is_app eps) \<and>
     files 6 = [bin_text (filter is_app eps) @ replicate (256 - length (bin_text (filter is_app eps))) 0 @ adj]"
proof -
  let ?apps = "filter is_app eps"
  define st where "st = \<lparr>inode_buf = replicate SIZE_2MB 0, bin_dir = bin_dir_init, disk_fs = s,
    app_ino = of_nat (BIN_DIR_INODE + 1)\<rparr>"
  have "cost * (7 + app_blocks ?apps) + m = cost * 6 + (cost * app_blocks ?apps + (cost + m))"
    by (simp add: distrib_left)
  then have h': "holds (disk_fs st) (\<lambda>_. []) (cost * 6 + (cost * app_blocks ?apps + (cost + m)))"
    using h by (simp only: st_def mkfs_state.simps)
  obtain st1 where st1: "mkfs_dirs fs st = Inr st1" "length (inode_buf st1) = SIZE_2MB"
    "bin_dir st1 = bin_dir_init" "app_ino st1 = 7"
    "holds (disk_fs st1) (\<lambda>i. if i < 6 then [dir_block (mkfs_contents ! i)] else [])
       (cost * app_blocks ?apps + (cost + m))"
    using mkfs_dirs_correct[OF h'] n(1) by (auto simp: st_def BIN_DIR_INODE_def)
  have "mkfs_progress holds (cost * app_blocks ?apps + (cost + m)) [] st1"
    unfolding mkfs_progress_def using st1(2-5)
    by (intro conjI exI[of _ "\<lambda>i. if i < 6 then [dir_block (mkfs_contents ! i)] else []"])
      (simp_all add: bin_dir_init_def bin_text_def mkfs_holds_def)
  from mkfs_apps_correct[OF this n b d]
  obtain st2 where st2: "for_each eps (mkfs_app fs) st1 = Inr st2"
    "mkfs_progress holds (cost + m) ?apps st2" by blast
  then obtain files where f: "holds (disk_fs st2) files (cost + m)" "mkfs_holds files ?apps" "files 6 = []"
    "bin_dir st2 = bin_text ?apps @ replicate (256 - length (bin_text ?apps)) 0"
    by (auto simp: mkfs_progress_def)
  have "length (bin_dir st2 @ adj) = BLOCK_SIZE" using f(4) d adj by simp
  then obtain s' where s': "write_op fs 6 0 (bin_dir st2 @ adj) (disk_fs st2) = Inr (0, s')"
    "holds s' (files(6 := [bin_dir st2 @ adj])) m"
    using write_holds[OF f(1), of 6 0 "bin_dir st2 @ adj"] n f(3) by (auto simp: write_file_def)
  have "mkfs_holds (files(6 := [bin_dir st2 @ adj])) ?apps" using f(2) by (simp add: mkfs_holds_def)
  moreover have "mkfs_fill fs eps adj s = Inr s'"
    using st1(1) st2(1) s'(1) by (simp add: mkfs_fill_def st_def BIN_DIR_INODE_def)
  ultimately show ?thesis using s'(2) f(4) by (intro exI[of _ s'] exI[of _ "files(6 := [bin_dir st2 @ adj])"]) simp
qed

end

section \<open>The treedisk of mkfs\<close>

text \<open>The state \<open>treedisk_init\<close> makes on the ramdisk, and the contract of its store.\<close>

definition ram_tree :: "u8 list treedisk_state" where
  "ram_tree = \<lparr>below = ramdisk, below_ino = 0, ninodes = 0, log_rpb = 7\<rparr>"

lemma treedisk_init_ramdisk: "treedisk_init ramdisk 0 0 = Inr ram_tree"
  by (simp add: treedisk_init_def log_rpb_loop_7 ram_tree_def)

interpretation tree: treedisk_with ramdisk 0 ram_ok ram_block 4096 ram_tree 128
  by unfold_locales (simp_all add: ram_tree_def)

lemma card_between: "card {k :: u32. a < k \<and> k < b} = unat b - Suc (unat a)"
proof -
  have eq: "unat ` {k :: u32. a < k \<and> k < b} = {Suc (unat a) ..< unat b}"
  proof (intro subset_antisym subsetI)
    fix x
    assume x: "x \<in> {Suc (unat a) ..< unat b}"
    then have "x < 2 ^ 32" using unsigned_less[of b, where 'a = nat] by simp
    then have "unat (of_nat x :: u32) = x" by (rule unat_of_nat_u32)
    with x show "x \<in> unat ` {k :: u32. a < k \<and> k < b}"
      by (intro image_eqI[of _ _ "of_nat x"]) (simp_all add: word_less_nat_alt)
  qed (auto simp: word_less_nat_alt)
  have "inj_on unat {k :: u32. a < k \<and> k < b}" by (intro inj_onI) (simp add: word_unat_eq_iff)
  from card_image[OF this] show ?thesis unfolding eq by simp
qed

text \<open>\<open>fs\<close> is a C global: all zero when \<open>main\<close> starts.\<close>

definition fs_init :: "u8 list" where
  "fs_init = replicate SIZE_2MB 0"

lemma fs_init_ok: "ram_ok fs_init" "n_inodeblocks (ram_block fs_init 0) = 0"
  by (simp_all add: fs_init_def ram_ok_def ram_block_def n_inodeblocks_def)

lemma created_holds:
  "\<exists>s. treedisk_create ramdisk 0 NINODES fs_init = Inr (0, s) \<and> ram_ok s \<and>
     disk_holds 4096 128 (ram_block s) (\<lambda>_. []) 4093"
proof -
  obtain s where s: "treedisk_create ramdisk 0 NINODES fs_init = Inr (0, s)" "ram_ok s"
    "treedisk_inv 4096 (ram_block s) {k. 2 < k \<and> k < 4096}" "n_files (ram_block s) = 128"
    "\<And>i. i < 128 \<Longrightarrow> file_of (ram_block s) i = []"
    using ram.create_correct[OF fs_init_ok, of NINODES 2] by auto
  have "4093 \<le> card {k :: u32. 2 < k \<and> k < 4096}" by (simp add: card_between)
  with s show ?thesis unfolding disk_holds_def by blast
qed

end
