(* ===== verification/Directory.thy ===== *)
theory Directory
  imports Servers_Correct Mkfs
begin

text \<open>
  Directories: what \<open>dir_lookup\<close> (library/syscall/servers.c) finds in the text that tools/mkfs.c
  writes for a directory.
\<close>

section \<open>The text of a directory\<close>

definition dir_entry :: "u8 list \<times> nat \<Rightarrow> u8 list" where
  "dir_entry e = fst e @ pad_left 4 (dec (snd e)) @ [32]"

definition dir_text :: "(u8 list \<times> nat) list \<Rightarrow> u8 list" where
  "dir_text es = concat (map dir_entry es)"

text \<open>Names are not empty and have no blanks or NULs; a name to look up is also not a number.\<close>

definition name_ok :: "u8 list \<Rightarrow> bool" where
  "name_ok n \<longleftrightarrow> n \<noteq> [] \<and> 32 \<notin> set n \<and> 0 \<notin> set n"

definition entries_ok :: "(u8 list \<times> nat) list \<Rightarrow> bool" where
  "entries_ok es \<longleftrightarrow> list_all (\<lambda>(n, i). name_ok n \<and> i < 1000) es"

definition numeric :: "u8 list \<Rightarrow> bool" where
  "numeric n \<longleftrightarrow> list_all isdigit n"

text \<open>A position where \<open>dir_lookup\<close> stops.\<close>

definition found_at :: "u8 list \<Rightarrow> u8 list \<Rightarrow> nat \<Rightarrow> bool" where
  "found_at text name i \<longleftrightarrow>
     i + length name < length text \<and> take (length name) (drop i text) = name \<and>
     text ! (i + length name) = 32 \<and> (i = 0 \<or> text ! (i - 1) = 32)"

lemma dir_text_simps [simp]: "dir_text [] = []" "dir_text (e # es) = dir_entry e @ dir_text es"
  "dir_text (es @ fs) = dir_text es @ dir_text fs"
  by (simp_all add: dir_text_def)

lemma zero_notin_dir_text: "entries_ok es \<Longrightarrow> 0 \<notin> set (dir_text es)"
  by (induction es) (auto simp: entries_ok_def dir_entry_def name_ok_def pad_left_def)

lemma pad_left_dec:
  assumes "i < 1000"
  obtains k where "pad_left 4 (dec i) = replicate (Suc k) 32 @ dec i"
proof -
  have "length (dec i) \<le> Suc 2" by (rule length_dec) (use assms in simp)
  then have "pad_left 4 (dec i) = replicate (Suc (3 - length (dec i))) 32 @ dec i"
    by (simp add: pad_left_def numeral_eq_Suc Suc_diff_le)
  then show thesis by (rule that)
qed

section \<open>Where a search stops\<close>

lemma takeWhile_stop: "\<not> P c \<Longrightarrow> takeWhile P (xs @ c # ys) = takeWhile P xs"
  by (induction xs) simp_all

lemma found_at_token:
  assumes "found_at text name i" "32 \<notin> set name"
  shows "takeWhile (\<lambda>c. c \<noteq> 32) (drop i text) = name"
proof -
  have "drop i text = take (length name) (drop i text) @ drop (i + length name) text"
    by (metis append_take_drop_id drop_drop add.commute)
  moreover have "drop (i + length name) text = 32 # drop (Suc (i + length name)) text"
    using assms(1) Cons_nth_drop_Suc[of "i + length name" "text"] by (simp add: found_at_def)
  ultimately have "drop i text = name @ 32 # drop (Suc (i + length name)) text"
    using assms(1) by (simp add: found_at_def)
  then show ?thesis using assms(2) by (auto simp: takeWhile_append takeWhile_eq_all_conv)
qed

text \<open>Inside an entry the search stops only at its beginning, and only for the name of the entry.\<close>

lemma not_found_in_entry:
  assumes e: "name_ok n" "i < 1000" "n \<noteq> name" and name: "name_ok name" "\<not> numeric name"
    and j: "j < length (dir_entry (n, i))"
  shows "\<not> found_at (pre @ dir_entry (n, i) @ post) name (length pre + j)"
proof
  let ?text = "pre @ dir_entry (n, i) @ post"
  assume f: "found_at ?text name (length pre + j)"
  obtain k where k: "pad_left 4 (dec i) = replicate (Suc k) 32 @ dec i" using pad_left_dec[OF e(2)] by blast
  have ent: "dir_entry (n, i) = n @ replicate (Suc k) 32 @ dec i @ [32]" by (simp add: dir_entry_def k)
  have t: "takeWhile (\<lambda>c. c \<noteq> 32) (drop j (dir_entry (n, i) @ post)) = name"
    using found_at_token[OF f] name(1) by (simp add: name_ok_def)
  consider "j = 0" | "0 < j" "j \<le> length n" | "length n < j" by linarith
  then show False
  proof cases
    case 1
    have "takeWhile (\<lambda>c. c \<noteq> 32) (n @ 32 # rest) = n" for rest
      using e(1) by (auto simp: name_ok_def takeWhile_append takeWhile_eq_all_conv)
    then show False using t 1 e(3) by (simp add: ent)
  next
    case 2
    then obtain m where m: "j = Suc m" "m < length n" by (cases j) auto
    then have "?text ! (length pre + m) = n ! m" by (simp add: ent nth_append)
    then show False using f e(1) m nth_mem[OF m(2)] by (auto simp: found_at_def name_ok_def)
  next
    case 3
    have d: "set (dec i) \<subseteq> {c. isdigit c}" using dec_digits[of i] by (auto simp: isdigit_def)
    define w where "w = replicate (Suc k) 32 @ dec i"
    have ent: "dir_entry (n, i) = n @ w @ [32]" by (simp add: ent w_def)
    let ?r = "drop (j - length n) w"
    have "drop j (dir_entry (n, i) @ post) = ?r @ 32 # post" using 3 j by (simp add: ent)
    moreover have "takeWhile (\<lambda>c. c \<noteq> 32) (?r @ 32 # post) = takeWhile (\<lambda>c. c \<noteq> 32) ?r"
      by (simp add: takeWhile_stop)
    ultimately have "name = takeWhile (\<lambda>c. c \<noteq> 32) ?r" using t by simp
    moreover have "set ?r \<subseteq> {c. c = 32 \<or> isdigit c}"
      using d set_drop_subset[of "j - length n" w] by (auto simp: w_def)
    ultimately have "numeric name"
      unfolding numeric_def list_all_iff by (auto dest: set_takeWhileD)
    then show False using name(2) by simp
  qed
qed

lemma found_at_entry:
  assumes "i < 1000" "pre = [] \<or> last pre = 32"
  shows "found_at (pre @ dir_entry (n, i) @ post) n (length pre)"
proof -
  obtain k where "pad_left 4 (dec i) = replicate (Suc k) 32 @ dec i" using pad_left_dec[OF assms(1)] by blast
  then show ?thesis using assms(2) by (cases pre rule: rev_cases) (auto simp: found_at_def dir_entry_def nth_append)
qed

section \<open>The loop\<close>

text \<open>As long as the name is not longer than the directory the loop reads only the text of the directory.\<close>

lemma dir_loop_step:
  assumes "0 \<notin> set name" "unat limit + length name = length text" "i < unat limit"
  shows "dir_loop (text @ 0 # rest) name limit i =
    (if found_at text name i then atoi (drop (i + length name) (text @ 0 # rest))
     else dir_loop (text @ 0 # rest) name limit (Suc i))"
  using assms by (subst dir_loop.simps) (auto simp: Let_def found_at_def nth_append)

lemma dir_loop_skip:
  assumes "0 \<notin> set name" "unat limit + length name = length text" "\<And>j. j < k \<Longrightarrow> \<not> found_at text name (i + j)"
  shows "dir_loop (text @ 0 # rest) name limit i = dir_loop (text @ 0 # rest) name limit (i + k)"
  using assms(3)
proof (induction k)
  case (Suc k)
  have IH: "dir_loop (text @ 0 # rest) name limit i = dir_loop (text @ 0 # rest) name limit (i + k)"
    using Suc by simp
  show ?case
  proof (cases "i + k < unat limit")
    case True
    then show ?thesis using IH dir_loop_step[OF assms(1,2) True] Suc.prems[of k] by simp
  next
    case False
    then show ?thesis using IH by (simp add: dir_loop.simps[of _ _ _ "i + k"] dir_loop.simps[of _ _ _ "Suc (i + k)"])
  qed
qed simp

lemma dir_loop_entries:
  assumes name: "name_ok name" "\<not> numeric name"
    and "entries_ok es" "text = pre @ dir_text es" "pre = [] \<or> last pre = 32"
    and limit: "unat limit + length name = length text"
  shows "dir_loop (text @ 0 # rest) name limit (length pre) =
    Inr (case map_of es name of None \<Rightarrow> - 1 | Some i \<Rightarrow> of_nat i)"
  using assms(3-5)
proof (induction es arbitrary: pre)
  case Nil
  then show ?case using limit name by (subst dir_loop.simps) (simp add: name_ok_def)
next
  case (Cons e es)
  obtain n i where e: "e = (n, i)" by (cases e) auto
  have ok: "name_ok n" "i < 1000" "entries_ok es" using Cons.prems(1) by (simp_all add: e entries_ok_def)
  have tx: "text = pre @ dir_entry (n, i) @ dir_text es" using Cons.prems(2) by (simp add: e)
  have z: "0 \<notin> set name" using name(1) by (simp add: name_ok_def)
  show ?case
  proof (cases "n = name")
    case True
    obtain k where k: "pad_left 4 (dec i) = replicate (Suc k) 32 @ dec i" using pad_left_dec[OF ok(2)] by blast
    have "length pre < unat limit" using limit by (simp add: tx dir_entry_def True)
    moreover have "found_at text name (length pre)"
      unfolding tx True[symmetric] by (rule found_at_entry[OF ok(2) Cons.prems(3)])
    moreover have "atoi (drop (length pre + length name) (text @ 0 # rest)) = Inr (of_nat i)"
      using atoi_dec[of "32 # dir_text es @ 0 # rest" i "Suc k"] ok(2) by (simp add: tx True dir_entry_def k isdigit_def)
    ultimately show ?thesis using dir_loop_step[OF z limit] by (simp add: e True)
  next
    case False
    have nf: "\<not> found_at text name (length pre + j)" if "j < length (dir_entry (n, i))" for j
      unfolding tx by (rule not_found_in_entry[OF ok(1,2) False name that])
    have "dir_loop (text @ 0 # rest) name limit (length pre) =
      dir_loop (text @ 0 # rest) name limit (length (pre @ dir_entry (n, i)))"
      using dir_loop_skip[OF z limit, of "length (dir_entry (n, i))" "length pre"] nf by simp
    also have "\<dots> = Inr (case map_of es name of None \<Rightarrow> - 1 | Some i \<Rightarrow> of_nat i)"
      by (rule Cons.IH[OF ok(3)]) (simp_all add: tx dir_entry_def)
    finally show ?thesis using False by (simp add: e)
  qed
qed

lemma dir_find_entries:
  assumes "name_ok (cstr name)" "\<not> numeric (cstr name)" "entries_ok es"
    and "strlen name \<le> length (dir_text es)" "length (dir_text es) < 2 ^ 32"
  shows "dir_find (dir_text es @ 0 # rest) name = Inr (case map_of es (cstr name) of None \<Rightarrow> - 1 | Some i \<Rightarrow> of_nat i)"
proof -
  let ?limit = "of_nat (length (dir_text es)) - of_nat (strlen name) :: u32"
  have "?limit = of_nat (length (dir_text es) - strlen name)" by (rule of_nat_diff[OF assms(4), symmetric])
  moreover have "unat (of_nat (length (dir_text es) - strlen name) :: u32) = length (dir_text es) - strlen name"
    by (rule unat_of_nat_u32) (use assms(5) in linarith)
  ultimately have "unat ?limit + length (cstr name) = length (dir_text es)"
    using assms(4) unfolding strlen_def by (simp only: le_add_diff_inverse2)
  from dir_loop_entries[OF assms(1,2,3) _ _ this, of "[]" rest]
  show ?thesis using zero_notin_dir_text[OF assms(3)] by (simp add: dir_find_def strlen_def)
qed

section \<open>The directories of the disk image\<close>

lemma file_entry_dir: "file_entry d_name ino = dir_entry (take (length d_name - 4) d_name, unat ino)"
  by (simp add: file_entry_def dir_entry_def str_def)

definition bin_entries :: "(u8 list \<times> u8 list) list \<Rightarrow> (u8 list \<times> nat) list" where
  "bin_entries apps = [(str ''./'', 6), (str ''../'', 0)] @
     map (\<lambda>k. (take (length (fst (apps ! k)) - 4) (fst (apps ! k)), 7 + k)) [0 ..< length apps]"

lemma bin_text_entries: "length apps \<le> 121 \<Longrightarrow> bin_text apps = dir_text (bin_entries apps)"
proof -
  assume n: "length apps \<le> 121"
  have h: "str ''./   6 ../   0 '' = dir_text [(str ''./'', 6), (str ''../'', 0)]"
    by (simp add: dir_entry_def str_def dec.simps pad_left_def numeral_3_eq_3)
  have "unat (of_nat (7 + k) :: u32) = 7 + k" if "k < length apps" for k
    using that n by (intro unat_of_nat_u32) simp
  then have "concat (map (\<lambda>k. file_entry (fst (apps ! k)) (of_nat (7 + k))) [0 ..< length apps]) =
      dir_text (map (\<lambda>k. (take (length (fst (apps ! k)) - 4) (fst (apps ! k)), 7 + k)) [0 ..< length apps])"
    unfolding dir_text_def map_map comp_def file_entry_dir
    by (intro arg_cong[of _ _ concat] map_cong refl) (simp del: of_nat_add)
  then show ?thesis unfolding bin_text_def bin_entries_def h by simp
qed

section \<open>What lookups find\<close>

text \<open>C12: Looking up a name in a directory that tools/mkfs.c can write returns the inode number of
  the first entry with that name, and -1 if there is none, whatever follows the text in the
  block: neither the inode numbers nor parts of other names are taken for the name. The name
  must not be a number, and not be longer than the text of the directory.\<close>

theorem dir_find_finds_entry:
  assumes "name_ok (cstr name)" "\<not> numeric (cstr name)" "entries_ok es"
    and "strlen name \<le> length (dir_text es)" "length (dir_text es) < BLOCK_SIZE"
  shows "dir_find (dir_text es @ 0 # rest) name = Inr (case map_of es (cstr name) of None \<Rightarrow> - 1 | Some i \<Rightarrow> of_nat i)"
  by (rule dir_find_entries) (use assms in simp_all)

theorem dir_find_finds_entry_witness:
  "dir_find (mkfs_contents ! 1 @ 0 # replicate 400 0) (str ''rvr/'' @ [0]) = Inr 3 \<and>
   dir_find (mkfs_contents ! 1 @ 0 # replicate 400 0) (str ''rvr'' @ [0]) = Inr (- 1)"
proof -
  define es where "es = [(str ''./'', 1 :: nat), (str ''../'', 0), (str ''yunhao/'', 2), (str ''rvr/'', 3), (str ''yacqub/'', 4)]"
  have t: "mkfs_contents ! 1 = dir_text es"
    by (simp add: es_def mkfs_contents_def dir_entry_def str_def dec.simps pad_left_def numeral_3_eq_3)
  have es: "entries_ok es" by (simp add: es_def entries_ok_def name_ok_def str_def)
  have m: "map_of es (str ''rvr/'') = Some 3" "map_of es (str ''rvr'') = None" by (simp_all add: es_def str_def)
  have l: "length (dir_text es) = 48" unfolding t[symmetric] by (simp add: mkfs_contents_def)
  have n: "cstr (str ''rvr/'' @ [0]) = str ''rvr/''" "cstr (str ''rvr'' @ [0]) = str ''rvr''"
    by (simp_all add: cstr_def str_def)
  have ok: "name_ok (str ''rvr/'')" "\<not> numeric (str ''rvr/'')" "name_ok (str ''rvr'')" "\<not> numeric (str ''rvr'')"
    by (simp_all add: name_ok_def numeric_def str_def isdigit_def)
  show ?thesis
    using dir_find_finds_entry[of "str ''rvr/'' @ [0]" es "replicate 400 0"]
      dir_find_finds_entry[of "str ''rvr'' @ [0]" es "replicate 400 0"] es ok l m
    unfolding t n strlen_def by simp
qed

section \<open>Names that are longer than the directory\<close>

lemma take_drop_eqD:
  assumes "take (length s) (drop i b) = s"
  shows "length s \<le> length b - i" "j < length s \<Longrightarrow> s ! j = b ! (i + j)"
proof -
  show l: "length s \<le> length b - i" using arg_cong[OF assms, of length] by (simp add: min_def split: if_splits)
  show "s ! j = b ! (i + j)" if "j < length s"
    using that l arg_cong[OF assms, of "\<lambda>l. l ! j"] by simp
qed

lemma dir_loop_overrun:
  assumes "0 \<notin> set t" "0 \<notin> set name" "length t < length name" "length t + k < unat limit" "i \<le> length t + k"
  shows "dir_loop (t @ replicate k 0) name limit i = Inl (Undef ''dir_lookup'')"
  using assms(5)
proof (induction "length t + k - i" arbitrary: i)
  case 0
  then show ?case using assms(4) by (subst dir_loop.simps) (auto simp: Let_def)
next
  case (Suc m)
  let ?buf = "t @ replicate k 0" let ?w = "take (length name) (drop i ?buf)"
  have i: "i < unat limit" "i < length ?buf" using Suc.hyps(2) assms(4) by simp_all
  have ne: "?w \<noteq> name"
  proof
    assume w: "?w = name"
    then have "length name \<le> length ?buf - i" by (rule take_drop_eqD(1))
    then have l: "length t - i < length name" "length t - i < length ?buf - i" using assms(3) by simp_all
    then have "i + (length t - i) - length t < k" using i(2) by simp
    moreover have "\<not> i + (length t - i) < length t" by linarith
    ultimately have "?buf ! (i + (length t - i)) = 0" by (simp only: nth_append if_False nth_replicate)
    moreover have "name ! (length t - i) = ?buf ! (i + (length t - i))"
      by (rule take_drop_eqD(2)[OF w l(1)])
    ultimately show False using nth_mem[OF l(1)] assms(2) by simp
  qed
  have "dir_loop ?buf name limit (Suc i) = Inl (Undef ''dir_lookup'')" by (rule Suc.hyps(1)) (use Suc.hyps(2) in simp_all)
  then show ?case using i ne by (subst dir_loop.simps) (simp add: Let_def)
qed

text \<open>C40: A name that is longer than the text of the directory makes \<open>dir_lookup\<close> read behind the
  512 bytes of its buffer: the limit of its loop is an unsigned difference, which wraps around.\<close>

theorem dir_find_overruns_short_directory:
  assumes "0 \<notin> set t" "length t < strlen name" "strlen name < 2 ^ 31" "0 < k" "length t + k = BLOCK_SIZE"
  shows "dir_find (t @ replicate k 0) name = Inl (Undef ''dir_lookup'')"
proof -
  have z: "0 \<in> set (t @ replicate k 0)" "strlen (t @ replicate k 0) = length t" using assms(1,4) by (simp_all add: strlen_def)
  let ?limit = "of_nat (length t) - of_nat (strlen name) :: u32"
  have u: "unat (of_nat (length t) :: u32) = length t" "unat (of_nat (strlen name) :: u32) = strlen name"
    using unat_of_nat_u32[of "length t"] unat_of_nat_u32[of "strlen name"] assms(3,5) by simp_all
  have "unat ?limit = length t + 2 ^ LENGTH(32) - strlen name"
    unfolding unat_sub_if' u using assms(2) by simp
  then have "length t + k < unat ?limit" using assms(3,5) by simp
  with dir_loop_overrun[OF assms(1) zero_notin_cstr, of name k ?limit 0] assms(2) z
  show ?thesis by (simp add: dir_find_def strlen_def)
qed

theorem dir_find_overruns_short_directory_witness:
  "dir_find (mkfs_contents ! 3 @ replicate 497 0) (str ''a_rather_long_name'' @ [0]) = Inl (Undef ''dir_lookup'')"
proof -
  have "0 \<notin> set (mkfs_contents ! 3)" "length (mkfs_contents ! 3) = 15" by (simp_all add: mkfs_contents_def str_def)
  moreover have "strlen (str ''a_rather_long_name'' @ [0]) = 18" by (simp add: strlen_def cstr_def str_def)
  ultimately show ?thesis
    using dir_find_overruns_short_directory[of "mkfs_contents ! 3" "str ''a_rather_long_name'' @ [0]" 497] by simp
qed

end
