(* ===== verification/Apps_Correct.thy ===== *)
theory Apps_Correct
  imports Apps Directory
begin

text \<open>
  What the applications do in a system in which the file server and the terminal server wait for
  requests: a process \<open>p\<close> of such a system runs the application to its end.
\<close>

section \<open>Systems that serve applications\<close>

definition app_ready :: "u8 list \<Rightarrow> i32 \<Rightarrow> 'c inode_store \<Rightarrow> 't tty \<Rightarrow> ('t, 'c) world system \<Rightarrow> bool" where
  "app_ready old p fs dev S \<longleftrightarrow>
     waiting S GPID_FILE (sys_file fs) \<and> waiting S GPID_TERMINAL (sys_terminal dev) \<and>
     p \<noteq> GPID_FILE \<and> p \<noteq> GPID_TERMINAL \<and> length old = SYSCALL_MSG_LEN"

text \<open>A file whose first block holds a text.\<close>

definition text_file :: "(nat \<Rightarrow> block list) \<Rightarrow> nat \<Rightarrow> u8 list \<Rightarrow> bool" where
  "text_file files i t \<longleftrightarrow>
     files i \<noteq> [] \<and> length (files i ! 0) = BLOCK_SIZE \<and> 0 \<notin> set t \<and> (\<exists>rest. files i ! 0 = t @ 0 # rest)"

definition directory :: "(nat \<Rightarrow> block list) \<Rightarrow> nat \<Rightarrow> (u8 list \<times> nat) list \<Rightarrow> bool" where
  "directory files d es \<longleftrightarrow> text_file files d (dir_text es) \<and> entries_ok es"

definition set_workdir :: "('t, 'c) world system \<Rightarrow> i32 \<Rightarrow> u8 list \<Rightarrow> ('t, 'c) world system" where
  "set_workdir S ino path = S\<lparr>shared := (shared S)\<lparr>workdir_ino := ino, workdir := path\<rparr>\<rparr>"

lemma app_ready_set [simp]:
  "app_ready old p fs dev (set_disk S c) = app_ready old p fs dev S"
  "app_ready old p fs dev (set_tty S t) = app_ready old p fs dev S"
  "app_ready old p fs dev (set_workdir S i w) = app_ready old p fs dev S"
  by (simp_all add: app_ready_def set_workdir_def waiting_def)

lemma set_twice [simp]:
  "set_disk (set_disk S c) c' = set_disk S c'" "set_tty (set_tty S t) t' = set_tty S t'"
  "set_disk (set_tty S t) c = set_tty (set_disk S c) t"
  "set_disk S (w_disk (shared S)) = S" "set_tty S (w_tty (shared S)) = S"
  by (simp_all add: set_disk_def set_tty_def)

lemma calls_get_world: "calls old p (get_world f) S (f (shared S)) S"
  using calls_act[of "\<lambda>w. Inr (f w, w)" S "f (shared S)" "shared S"] by (simp add: get_world_def)

lemma text_file_length: "text_file files i t \<Longrightarrow> length t < BLOCK_SIZE"
  by (auto simp: text_file_def)

lemma printf_string:
  assumes "strlen s < 512"
  shows "my_printf (str ''%s'') [VStr s] = Inr (cstr s)"
proof -
  have "items (str ''%s'') = Some [Dir 115]" by (simp add: str_def)
  then show ?thesis
    using LOG_typed[of "str ''%s''" "[TStr]" "[VStr s]" "[]" "[]" "[]"] assms
    by (simp add: my_printf_def fmt_type_def render_def str_def strlen_def)
qed

lemma printf_newline: "my_printf [10, 13] [] = Inr [10, 13]"
  using LOG_typed[of "[10, 13]" "[]" "[]" "[]" "[]" "[]"] by (simp add: my_printf_def fmt_type_def render_def)

lemma printf_word:
  assumes "strlen s < 511"
  shows "my_printf (str ''%s '') [VStr s] = Inr (cstr s @ [32])"
proof -
  have "items (str ''%s '') = Some [Dir 115, Lit 32]" by (simp add: str_def)
  then show ?thesis
    using LOG_typed[of "str ''%s ''" "[TStr]" "[VStr s]" "[]" "[]" "[]"] assms
    by (simp add: my_printf_def fmt_type_def render_def str_def strlen_def)
qed

lemma printf_line:
  assumes "strlen s < 510"
  shows "my_printf (str ''%s'' @ [10, 13]) [VStr s] = Inr (cstr s @ [10, 13])"
proof -
  have "items (str ''%s'' @ [10, 13]) = Some [Dir 115, Lit 10, Lit 13]" by (simp add: str_def)
  then show ?thesis
    using LOG_typed[of "str ''%s'' @ [10, 13]" "[TStr]" "[VStr s]" "[]" "[]" "[]"] assms
    by (simp add: my_printf_def fmt_type_def render_def str_def strlen_def)
qed

section \<open>Blanking out the inode numbers\<close>

text \<open>The loop of ls as a pass over the text with the previous character at hand.\<close>

fun blank :: "u8 \<Rightarrow> u8 list \<Rightarrow> u8 list" where
  "blank p [] = []"
| "blank p (c # cs) = (let c' = if p = 32 \<and> isdigit c then 32 else c in c' # blank c' cs)"

lemma ls_fold_blank:
  "fold (\<lambda>i b. if b ! (i - 1) = 32 \<and> 48 \<le> b ! i \<and> b ! i \<le> 57 then b[i := 32] else b) [Suc (length bs) ..< Suc (length bs + length cs)]
     (bs @ p # cs @ tail) = bs @ p # blank p cs @ tail"
proof (induction cs arbitrary: bs p)
  case (Cons c cs)
  let ?f = "\<lambda>i b. if b ! (i - 1) = 32 \<and> 48 \<le> b ! i \<and> b ! i \<le> 57 then b[i := 32] else b :: u8 list"
  let ?c = "if p = 32 \<and> isdigit c then 32 else c"
  have "?f (Suc (length bs)) (bs @ p # c # cs @ tail) = (bs @ [p]) @ ?c # cs @ tail"
    by (auto simp: nth_append isdigit_def list_update_append)
  moreover have "[Suc (length bs) ..< Suc (length bs + length (c # cs))] =
      Suc (length bs) # [Suc (length (bs @ [p])) ..< Suc (length (bs @ [p]) + length cs)]"
    by (simp add: upt_conv_Cons del: upt_Suc)
  ultimately show ?case using Cons.IH[of "bs @ [p]" ?c] by (simp add: Let_def del: upt_Suc)
qed simp

lemma ls_blank_text: "0 \<notin> set (p # cs) \<Longrightarrow> ls_blank (p # cs @ 0 # rest) = p # blank p cs @ 0 # rest"
  using ls_fold_blank[of "[]" cs p "0 # rest"] cstr_pad[of "p # cs" rest] by (simp add: ls_blank_def strlen_def)

lemma blank_name: "32 \<notin> set n \<Longrightarrow> p \<noteq> 32 \<or> \<not> isdigit (hd (n @ [c])) \<Longrightarrow> \<not> isdigit c \<Longrightarrow> blank p (n @ c # r) = n @ c # blank c r"
  by (induction n arbitrary: p) (auto simp: Let_def)

lemma blank_spaces: "blank 32 (replicate k 32 @ r) = replicate k 32 @ blank 32 r"
  by (induction k) (simp_all add: isdigit_def)

lemma blank_digits: "list_all isdigit ds \<Longrightarrow> blank 32 (ds @ r) = replicate (length ds) 32 @ blank 32 r"
  by (induction ds) simp_all

lemma blank_entry:
  assumes "name_ok n" "i < 1000" "p \<noteq> 32 \<or> \<not> isdigit (hd n)"
  shows "blank p (dir_entry (n, i) @ r) = n @ replicate 5 32 @ blank 32 r"
proof -
  obtain k where k: "pad_left 4 (dec i) = replicate (Suc k) 32 @ dec i" using pad_left_dec[OF assms(2)] by blast
  have "length (pad_left 4 (dec i)) = 4"
    using length_dec[of i 2] assms(2) by (simp add: pad_left_def)
  then have l: "Suc k + length (dec i) = 4" unfolding k by simp
  have d: "list_all isdigit (dec i)" using dec_digits[of i] by (auto simp: list_all_iff isdigit_def)
  have "hd (n @ [32]) = hd n" using assms(1) by (simp add: name_ok_def)
  then have "blank p (dir_entry (n, i) @ r) = n @ 32 # blank 32 (replicate k 32 @ dec i @ 32 # r)"
    using blank_name[of n p 32 "replicate k 32 @ dec i @ 32 # r"] assms(1,3) by (simp add: dir_entry_def k name_ok_def isdigit_def)
  also have "\<dots> = n @ replicate (Suc k + length (dec i)) 32 @ blank 32 (32 # r)"
    by (simp add: blank_spaces blank_digits[OF d] replicate_add)
  finally show ?thesis unfolding l by (simp add: isdigit_def numeral_eq_Suc)
qed

lemma blank_entries:
  "entries_ok es \<Longrightarrow> \<forall>(n, i) \<in> set es. \<not> isdigit (hd n) \<Longrightarrow> blank p (dir_text es) = concat (map (\<lambda>(n, i). n @ replicate 5 32) es)"
proof (induction es arbitrary: p)
  case (Cons e es)
  then show ?case using blank_entry[of "fst e" "snd e" p "dir_text es"] by (auto simp: entries_ok_def)
qed simp

lemma ls_blank_dir:
  assumes "entries_ok es" "\<forall>(n, i) \<in> set es. \<not> isdigit (hd n)" "es \<noteq> []"
  shows "ls_blank (dir_text es @ 0 # rest) = concat (map (\<lambda>(n, i). n @ replicate 5 32) es) @ 0 # rest"
proof -
  obtain c cs where c: "dir_text es = c # cs"
    using assms(1,3) by (cases es; cases "dir_text es") (auto simp: entries_ok_def dir_entry_def)
  have "0 \<notin> set (c # cs)" using zero_notin_dir_text[OF assms(1)] c by simp
  moreover have "blank 0 (c # cs) = c # blank c cs" by simp
  ultimately show ?thesis using blank_entries[OF assms(1,2), of 0] ls_blank_text[of c cs rest] by (simp add: c)
qed

lemma length_ls_text: "entries_ok es \<Longrightarrow> length (concat (map (\<lambda>(n, i). n @ replicate 5 32) es)) = length (dir_text es)"
proof (induction es)
  case (Cons e es)
  have "length (pad_left 4 (dec (snd e))) = 4"
    using length_dec[of "snd e" 2] Cons.prems by (auto simp: pad_left_def entries_ok_def)
  then show ?case using Cons by (auto simp: entries_ok_def dir_entry_def)
qed simp

lemma of_nat_not_negative: "i < 2 ^ 31 \<Longrightarrow> \<not> (of_nat i :: i32) <s 0"
  by (simp add: word_sless_alt signed_of_nat signed_take_bit_int_eq_self)

section \<open>Applications over a file system and a terminal\<close>

locale user_system = file_store fs holds nfiles cost + tty_device dev coming sent
  for fs :: "'c inode_store" and holds nfiles cost and dev :: "'t tty" and coming sent
begin

lemma block_read:
  assumes "app_ready old p fs dev S" "holds (w_disk (shared S)) files m" "unat ino < nfiles" "text_file files (unat ino) t"
  shows "\<exists>c. calls old p (file_read ino 0) S (0, files (unat ino) ! 0) (set_disk S c) \<and> holds c files m"
  using calls_file_block[OF _ _ _ file_store_axioms assms(2,3), of p old 0] assms(1,4)
  by (auto simp: app_ready_def text_file_def)

lemma lookup:
  assumes "app_ready old p fs dev S" "holds (w_disk (shared S)) files m" "unat d < nfiles" "directory files (unat d) es"
    and "name_ok (cstr name)" "\<not> numeric (cstr name)" "strlen name \<le> length (dir_text es)"
  shows "\<exists>c. calls old p (dir_lookup d name) S (case map_of es (cstr name) of None \<Rightarrow> - 1 | Some i \<Rightarrow> of_nat i) (set_disk S c) \<and>
    holds c files m"
proof -
  have d: "text_file files (unat d) (dir_text es)" "entries_ok es" using assms(4) by (simp_all add: directory_def)
  obtain c where c: "calls old p (file_read d 0) S (0, files (unat d) ! 0) (set_disk S c)" "holds c files m"
    using block_read[OF assms(1-3) d(1)] by blast
  obtain rest where "files (unat d) ! 0 = dir_text es @ 0 # rest" using d(1) by (auto simp: text_file_def)
  then have "dir_find (files (unat d) ! 0) name = Inr (case map_of es (cstr name) of None \<Rightarrow> - 1 | Some i \<Rightarrow> of_nat i)"
    using dir_find_entries[OF assms(5,6) d(2) assms(7), of rest] text_file_length[OF d(1)] by simp
  from calls_of_res[OF this] have "calls old p (dir_lookup d name) S (case map_of es (cstr name) of None \<Rightarrow> - 1 | Some i \<Rightarrow> of_nat i) (set_disk S c)"
    unfolding dir_lookup_def by (intro calls_bind[OF c(1)]) simp
  then show ?thesis using c(2) by blast
qed

lemma print:
  assumes "app_ready old p fs dev S" "my_printf fmt args = Inr s" "length s \<le> TERM_BUF_SIZE"
  shows "\<exists>t. calls old p (printf_app fmt args) S () (set_tty S t) \<and> coming t = coming (w_tty (shared S)) \<and>
    sent t = sent (w_tty (shared S)) @ s"
  using assms(1) unfolding app_ready_def by (intro calls_printf[OF tty_device_axioms _ _ _ assms(2,3)]) blast+

lemma cat_prints:
  assumes a: "app_ready old p fs dev S" "holds (w_disk (shared S)) files m"
    and d: "unat (workdir_ino (shared S)) < nfiles" "directory files (unat (workdir_ino (shared S))) es"
    and n: "name_ok name" "\<not> numeric name" "length name \<le> length (dir_text es)" "map_of es name = Some i" "i < nfiles"
    and t: "text_file files i t" "t \<noteq> []"
  shows "\<exists>c u. calls old p (cat_main 2 [n0, name]) S 0 (set_tty (set_disk S c) u) \<and> holds c files m \<and>
    coming u = coming (w_tty (shared S)) \<and> sent u = sent (w_tty (shared S)) @ t @ (if last t = 10 then [] else [10, 13])"
proof -
  have z: "cstr name = name" "strlen name = length name" using n(1) by (simp_all add: name_ok_def strlen_def)
  have i: "i < 1000" using d(2) n(4) by (auto simp: directory_def entries_ok_def list_all_iff dest: map_of_SomeD)
  then have ui: "unat (of_nat i :: i32) = i" by (intro unat_of_nat_u32) simp
  have si: "\<not> (of_nat i :: i32) <s 0" by (rule of_nat_not_negative) (use i in simp)
  obtain c1 where c1: "calls old p (dir_lookup (workdir_ino (shared S)) name) S (of_nat i) (set_disk S c1)" "holds c1 files m"
    using lookup[OF a d, of name] n z by auto
  obtain c2 where c2: "calls old p (file_read (of_nat i) 0) (set_disk S c1) (0, files i ! 0) (set_disk S c2)" "holds c2 files m"
    using block_read[of old p "set_disk S c1" files m "of_nat i" t] a(1) c1(2) t(1) ui n(5) by auto
  obtain rest where b: "files i ! 0 = t @ 0 # rest" "0 \<notin> set t" using t(1) by (auto simp: text_file_def)
  have l: "length t < 512" using text_file_length[OF t(1)] by simp
  obtain u1 where u1: "calls old p (printf_app (str ''%s'') [VStr (files i ! 0)]) (set_disk S c2) () (set_tty (set_disk S c2) u1)"
    "coming u1 = coming (w_tty (shared S))" "sent u1 = sent (w_tty (shared S)) @ t"
    using print[of old p "set_disk S c2", OF _ printf_string, of "files i ! 0"] a(1) b l by (auto simp: strlen_def)
  let ?nl = "if last t \<noteq> 10 then printf_app [10, 13] [] else Ret ()"
  have e: "files i ! 0 ! (length t - Suc 0) = last t" using b(1) t(2) by (simp add: nth_append last_conv_nth)
  obtain u2 where u2: "calls old p ?nl (set_tty (set_disk S c2) u1) () (set_tty (set_disk S c2) u2)"
    "coming u2 = coming (w_tty (shared S))" "sent u2 = sent (w_tty (shared S)) @ t @ (if last t = 10 then [] else [10, 13])"
  proof (cases "last t = 10")
    case True
    then show thesis by (intro that[of u1]) (simp_all add: calls_Ret u1(2,3))
  next
    case False
    then show thesis
      using that print[OF _ printf_newline, of old p "set_tty (set_disk S c2) u1"] a(1) u1(2,3) by auto
  qed
  have "calls old p (cat_main 2 [n0, name]) S 0 (set_tty (set_disk S c2) u2)"
  proof -
    have sl: "strlen (files i ! 0) = length t" "0 \<in> set (files i ! 0)" using b by (simp_all add: strlen_def)
    have "calls old p (bindp ?nl (\<lambda>_. Ret 0)) (set_tty (set_disk S c2) u1) (0 :: i32) (set_tty (set_disk S c2) u2)"
      by (rule calls_bind[OF u2(1) calls_Ret])
    then show ?thesis
      unfolding cat_main_def arg_def
      using si sl t(2) e
      by (auto intro!: calls_bind[OF calls_get_world] calls_bind[OF c1(1)] calls_bind[OF c2(1)] calls_bind[OF u1(1)])
  qed
  then show ?thesis using c2(2) u2(2,3) by blast
qed

lemma echo_loop:
  assumes "\<forall>i \<in> set is. strlen (arg argv i) < 511" "app_ready old p fs dev S"
  shows "\<exists>t. calls old p (for_prog is (\<lambda>i. printf_app (str ''%s '') [VStr (arg argv i)])) S () (set_tty S t) \<and>
    coming t = coming (w_tty (shared S)) \<and> sent t = sent (w_tty (shared S)) @ concat (map (\<lambda>i. cstr (arg argv i) @ [32]) is)"
  using assms
proof (induction "is" arbitrary: S)
  case Nil
  show ?case by (intro exI[of _ "w_tty (shared S)"]) (simp add: calls_Ret)
next
  case (Cons i js)
  obtain t where t: "calls old p (printf_app (str ''%s '') [VStr (arg argv i)]) S () (set_tty S t)"
    "coming t = coming (w_tty (shared S))" "sent t = sent (w_tty (shared S)) @ cstr (arg argv i) @ [32]"
    using print[OF Cons.prems(2) printf_word, of "arg argv i"] Cons.prems(1) by (auto simp: strlen_def)
  have js: "\<forall>i \<in> set js. strlen (arg argv i) < 511" using Cons.prems(1) by simp
  have ready: "app_ready old p fs dev (set_tty S t)" using Cons.prems(2) by simp
  obtain u where u: "calls old p (for_prog js (\<lambda>i. printf_app (str ''%s '') [VStr (arg argv i)])) (set_tty S t) () (set_tty S u)"
    "coming u = coming (w_tty (shared S))" "sent u = sent t @ concat (map (\<lambda>i. cstr (arg argv i) @ [32]) js)"
    using Cons.IH[OF js ready] unfolding set_twice(2) set_simps(5) t(2) by blast
  have "calls old p (for_prog (i # js) (\<lambda>i. printf_app (str ''%s '') [VStr (arg argv i)])) S () (set_tty S u)"
    unfolding for_prog.simps by (rule calls_bind[OF t(1)]) (rule u(1))
  then show ?case using u(2,3) t(3) by (intro exI[of _ u]) simp
qed

lemma echo_prints:
  assumes "app_ready old p fs dev S" "\<forall>i \<in> {1 ..< argc}. strlen (arg argv i) < 511"
  shows "\<exists>u. calls old p (echo_main argc argv) S 0 (set_tty S u) \<and> coming u = coming (w_tty (shared S)) \<and>
    sent u = sent (w_tty (shared S)) @ concat (map (\<lambda>i. cstr (arg argv i) @ [32]) [1 ..< argc]) @ [10, 13]"
proof -
  obtain t where t: "calls old p (for_prog [1 ..< argc] (\<lambda>i. printf_app (str ''%s '') [VStr (arg argv i)])) S () (set_tty S t)"
    "coming t = coming (w_tty (shared S))" "sent t = sent (w_tty (shared S)) @ concat (map (\<lambda>i. cstr (arg argv i) @ [32]) [1 ..< argc])"
    using echo_loop[of "[1 ..< argc]" argv old p S] assms by auto
  obtain u where u: "calls old p (printf_app [10, 13] []) (set_tty S t) () (set_tty S u)"
    "coming u = coming t" "sent u = sent t @ [10, 13]"
    using print[OF _ printf_newline, of old p "set_tty S t"] assms(1) by auto
  have "calls old p (echo_main argc argv) S 0 (set_tty S u)"
    unfolding echo_main_def by (intro calls_bind[OF t(1)] calls_bind[OF u(1)] calls_Ret)
  then show ?thesis using t(2,3) u(2,3) by (intro exI[of _ u]) simp
qed

lemma ls_prints:
  assumes a: "app_ready old p fs dev S" "holds (w_disk (shared S)) files m" "argc \<le> 1"
    and d: "unat (workdir_ino (shared S)) < nfiles" "directory files (unat (workdir_ino (shared S))) es"
    and n: "\<forall>(n, i) \<in> set es. \<not> isdigit (hd n)" "length (dir_text es) < 510" "es \<noteq> []"
  shows "\<exists>c u. calls old p (ls_main argc argv) S 0 (set_tty (set_disk S c) u) \<and> holds c files m \<and>
    coming u = coming (w_tty (shared S)) \<and>
    sent u = sent (w_tty (shared S)) @ concat (map (\<lambda>(n, i). n @ replicate 5 32) es) @ [10, 13]"
proof -
  let ?d = "workdir_ino (shared S)" let ?b = "files (unat ?d) ! 0"
  have f: "text_file files (unat ?d) (dir_text es)" "entries_ok es" using d(2) by (simp_all add: directory_def)
  obtain c where c: "calls old p (file_read ?d 0) S (0, ?b) (set_disk S c)" "holds c files m"
    using block_read[OF a(1,2) d(1) f(1)] by blast
  obtain rest where b: "?b = dir_text es @ 0 # rest" "0 \<notin> set (dir_text es)" using f(1) by (auto simp: text_file_def)
  let ?t = "concat (map (\<lambda>(n, i). n @ replicate 5 32) es)"
  have bl: "ls_blank ?b = ?t @ 0 # rest" unfolding b(1) by (rule ls_blank_dir[OF f(2) n(1,3)])
  have z: "0 \<notin> set ?t" using f(2) by (auto simp: entries_ok_def name_ok_def list_all_iff)
  have l: "length ?t < 510" using n(2) length_ls_text[OF f(2)] by simp
  have "strlen (ls_blank ?b) < 510" "cstr (ls_blank ?b) = ?t" unfolding bl strlen_def using z l by simp_all
  then obtain u where u: "calls old p (printf_app (str ''%s'' @ [10, 13]) [VStr (ls_blank ?b)]) (set_disk S c) () (set_tty (set_disk S c) u)"
    "coming u = coming (w_tty (shared S))" "sent u = sent (w_tty (shared S)) @ ?t @ [10, 13]"
    using print[of old p "set_disk S c", OF _ printf_line, of "ls_blank ?b"] a(1) l by auto
  have "0 \<in> set ?b" using b(1) by simp
  then have "calls old p (ls_main argc argv) S 0 (set_tty (set_disk S c) u)"
    unfolding ls_main_def using a(3)
    by (auto intro!: calls_bind[OF calls_get_world] calls_bind[OF c(1)] calls_bind[OF u(1)] calls_Ret)
  then show ?thesis using c(2) u(2,3) by blast
qed

end

end
