(* ===== verification/Elf.thy ===== *)
theory Elf
  imports Kernel_Inv
begin

text \<open>
  library/elf/elf.c: loading an executable into the pages of a new process. The reader that
  the caller passes, a function from block numbers to blocks, is a parameter. Here
  \<open>elf_load\<close> is a function of the pages; theory \<open>Elf_Prog\<close> has it as the program that reads its
  blocks from a device or a server and prints its message for the system processes.
\<close>

section \<open>Headers\<close>

definition get16 :: "u8 list \<Rightarrow> nat \<Rightarrow> nat" where
  "get16 bs k = unat (bs ! k) + 256 * unat (bs ! (k + 1))"

abbreviation BLOCK_BYTES :: nat where "BLOCK_BYTES \<equiv> 512"

record elf32_program_header =
  p_offset :: u32
  p_vaddr :: u32
  p_filesz :: u32
  p_memsz :: u32

definition e_phoff :: "u8 list \<Rightarrow> nat" where
  "e_phoff hbuf = unat (get32 hbuf 28)"

definition e_phnum :: "u8 list \<Rightarrow> nat" where
  "e_phnum hbuf = get16 hbuf 44"

text \<open>\<open>pheader[i]\<close> is read from the 512 bytes of \<open>hbuf\<close>; outside them the access is undefined.\<close>

definition pheader :: "u8 list \<Rightarrow> nat \<Rightarrow> elf32_program_header res" where
  "pheader hbuf i =
     (let k = e_phoff hbuf + 32 * i in
      if k + 32 \<le> BLOCK_BYTES then
        Inr \<lparr>p_offset = get32 hbuf (k + 4), p_vaddr = get32 hbuf (k + 8),
             p_filesz = get32 hbuf (k + 16), p_memsz = get32 hbuf (k + 20)\<rparr>
      else Inl (Undef ''pheader''))"

section \<open>Pages\<close>

definition map_new_page :: "i32 \<Rightarrow> u32 \<Rightarrow> mmu_state \<Rightarrow> (u32 \<times> mmu_state) res" where
  "map_new_page p vpage st =
     bindr (mmu_alloc st) (\<lambda>(ppage_id, st).
     bindr (mmu_map p vpage ppage_id st) (\<lambda>st. Inr (ppage_id, st)))"

definition zero_page :: "u32 \<Rightarrow> mmu_state \<Rightarrow> mmu_state" where
  "zero_page ppage_id st = st\<lparr>memory := memset (memory st) (PAGE_ID_TO_ADDR ppage_id) 0 PAGE_SIZE\<rparr>"

section \<open>Segments\<close>

text \<open>The locals of the loop over the blocks of a segment.\<close>

record load_state =
  l_ppage :: u32
  l_pageno :: u32
  l_blockno :: u32
  l_mmu :: mmu_state

definition load_block :: "i32 \<Rightarrow> (u32 \<Rightarrow> u8 list) \<Rightarrow> nat \<Rightarrow> nat \<Rightarrow> load_state \<Rightarrow> load_state res" where
  "load_block p reader filesz off l =
     bindr (if off mod PAGE_SIZE = 0 then
              bindr (map_new_page p (l_pageno l) (l_mmu l)) (\<lambda>(ppage_id, st).
                Inr (l\<lparr>l_ppage := ppage_id, l_pageno := l_pageno l + 1, l_mmu := zero_page ppage_id st\<rparr>))
            else Inr l) (\<lambda>l.
       let sz = (if off + BLOCK_BYTES < filesz then BLOCK_BYTES else filesz - off);
           buf = reader (l_blockno l); st = l_mmu l in
       Inr (l\<lparr>l_blockno := l_blockno l + 1,
              l_mmu := st\<lparr>memory := memcpy_in (memory st)
                (PAGE_ID_TO_ADDR (l_ppage l) + of_nat (off mod PAGE_SIZE)) (take sz buf)\<rparr>\<rparr>))"

text \<open>
  The offsets \<open>0\<close>, \<open>BLOCK_SIZE\<close>, ... below the file size of the segment. The C loop counts in
  a \<open>uint\<close>, which no run can wrap around: every eighth block takes a page and after 2048 pages
  the allocator stops the system.
\<close>

definition block_offsets :: "nat \<Rightarrow> nat list" where
  "block_offsets filesz = map (\<lambda>b. BLOCK_BYTES * b) [0 ..< (filesz + BLOCK_BYTES - 1) div BLOCK_BYTES]"

definition map_zero_page :: "i32 \<Rightarrow> nat \<Rightarrow> mmu_state \<Rightarrow> mmu_state res" where
  "map_zero_page p pageno st =
     bindr (map_new_page p (of_nat pageno) st) (\<lambda>(ppage_id, st). Inr (zero_page ppage_id st))"

definition load_segment :: "i32 \<Rightarrow> (u32 \<Rightarrow> u8 list) \<Rightarrow> elf32_program_header \<Rightarrow> mmu_state \<Rightarrow> mmu_state res" where
  "load_segment p reader h st =
     (let addr = p_vaddr h in
      if addr < RAM_START then Inr st
      else
        let filesz = unat (p_filesz h);
            curr_pageno = addr div 4096;
            end_pageno = (addr + p_memsz h) div 4096;
            curr_blockno = p_offset h div 512 in
        bindr (for_each (block_offsets filesz) (load_block p reader filesz)
                 \<lparr>l_ppage = 0, l_pageno = curr_pageno, l_blockno = curr_blockno, l_mmu = st\<rparr>) (\<lambda>l.
          for_each [unat (l_pageno l) ..< unat end_pageno] (map_zero_page p) (l_mmu l)))"

section \<open>Arguments and stack\<close>

definition write_args :: "u32 \<Rightarrow> nat \<Rightarrow> u8 list option \<Rightarrow> mem \<Rightarrow> mem" where
  "write_args ppage_id argc argv m =
     (let argc_addr = PAGE_ID_TO_ADDR ppage_id;
          argv_addr = argc_addr + 4;
          args_addr = argv_addr + 4 * of_nat CMD_NARGS;
          m = store32 m argc_addr (of_nat argc);
          m = (case argv of None \<Rightarrow> m | Some bs \<Rightarrow> memcpy_in m args_addr (take (argc * CMD_ARG_LEN) bs)) in
      fold (\<lambda>i m. store32 m (argv_addr + 4 * of_nat i)
        (APPS_ARG + 4 + 4 * of_nat CMD_NARGS + of_nat i * of_nat CMD_ARG_LEN)) [0 ..< argc] m)"

definition elf_load :: "i32 \<Rightarrow> (u32 \<Rightarrow> u8 list) \<Rightarrow> nat \<Rightarrow> u8 list option \<Rightarrow> mmu_state \<Rightarrow> mmu_state res" where
  "elf_load p reader argc argv st =
     (let hbuf = reader 0 in
      bindr (for_each [0 ..< e_phnum hbuf] (\<lambda>i st.
               bindr (pheader hbuf i) (\<lambda>h. load_segment p reader h st)) st) (\<lambda>st.
      bindr (map_new_page p (APPS_ARG div 4096) st) (\<lambda>(ppage_id, st).
      let st = st\<lparr>memory := write_args ppage_id argc argv (memory st)\<rparr> in
      bindr (map_new_page p (SYSCALL_ARG div 4096) st) (\<lambda>(_, st).
      for_each [1, 2] (\<lambda>i st.
        bindr (map_new_page p (APPS_STACK_TOP div 4096 - of_nat i) st) (\<lambda>(_, st). Inr st)) st))))"

end
