(* ===== verification/Elf_Prog.thy ===== *)
theory Elf_Prog
  imports Apps_Correct Elf
begin

text \<open>
  library/elf/elf.c once more, as the process server runs it: the reader is a program that asks the
  file server for a block, and between two blocks other processes may run. The state of the memory
  management unit is therefore read and written in place, and not passed along as in theory Elf.
  It is shown that the two agree.
\<close>

section \<open>Loading with a reader that is a program\<close>

definition on_mmu :: "(mmu_state \<Rightarrow> ('a \<times> mmu_state) res) \<Rightarrow> (('t, 'c) world, 'a) prog" where
  "on_mmu f = act (\<lambda>w. bindr (f (mmu (w_kernel w))) (\<lambda>(x, st). Inr (x, w\<lparr>w_kernel := (w_kernel w)\<lparr>mmu := st\<rparr>\<rparr>)))"

primrec fold_prog :: "'x list \<Rightarrow> ('x \<Rightarrow> 'a \<Rightarrow> ('s, 'a) prog) \<Rightarrow> 'a \<Rightarrow> ('s, 'a) prog" where
  "fold_prog [] f a = Ret a"
| "fold_prog (x # xs) f a = bindp (f x a) (fold_prog xs f)"

text \<open>The locals \<open>ppage_id\<close>, \<open>curr_pageno\<close> and \<open>curr_blockno\<close> of the loop over the blocks.\<close>

definition load_block_prog ::
  "i32 \<Rightarrow> (u32 \<Rightarrow> (('t, 'c) world, u8 list) prog) \<Rightarrow> nat \<Rightarrow> nat \<Rightarrow> u32 \<times> u32 \<times> u32 \<Rightarrow> (('t, 'c) world, u32 \<times> u32 \<times> u32) prog" where
  "load_block_prog p reader filesz off = (\<lambda>(ppage, pageno, blockno).
     bindp (if off mod PAGE_SIZE = 0 then
              on_mmu (\<lambda>st. bindr (map_new_page p pageno st) (\<lambda>(ppage_id, st). Inr ((ppage_id, pageno + 1), zero_page ppage_id st)))
            else Ret (ppage, pageno)) (\<lambda>(ppage, pageno).
     let sz = (if off + BLOCK_BYTES < filesz then BLOCK_BYTES else filesz - off) in
     bindp (reader blockno) (\<lambda>buf.
     bindp (on_mmu (\<lambda>st. Inr ((), st\<lparr>memory := memcpy_in (memory st)
              (PAGE_ID_TO_ADDR ppage + of_nat (off mod PAGE_SIZE)) (take sz buf)\<rparr>))) (\<lambda>_.
     Ret (ppage, pageno, blockno + 1)))))"

definition load_segment_prog ::
  "'t tty \<Rightarrow> i32 \<Rightarrow> (u32 \<Rightarrow> (('t, 'c) world, u8 list) prog) \<Rightarrow> elf32_program_header \<Rightarrow> (('t, 'c) world, unit) prog" where
  "load_segment_prog dev p reader h =
     (let addr = p_vaddr h in
      if addr < RAM_START then Ret ()
      else
        let filesz = unat (p_filesz h);
            curr_pageno = addr div 4096;
            end_pageno = (addr + p_memsz h) div 4096;
            curr_blockno = p_offset h div 512 in
        bindp (fold_prog (block_offsets filesz) (load_block_prog p reader filesz) (0, curr_pageno, curr_blockno)) (\<lambda>(_, curr_pageno, _).
        bindp (on_mmu (\<lambda>st. bindr (for_each [unat curr_pageno ..< unat end_pageno] (map_zero_page p) st) (\<lambda>st. Inr ((), st)))) (\<lambda>_.
        if p \<le>s GPID_SHELL then print_sys dev (INFO (str ''Load 0x%x bytes to 0x%x'') [VInt (p_filesz h), VInt addr]) else Ret ())))"

definition load_pages :: "i32 \<Rightarrow> nat \<Rightarrow> u8 list option \<Rightarrow> mmu_state \<Rightarrow> mmu_state res" where
  "load_pages p argc argv st =
     bindr (map_new_page p (APPS_ARG div 4096) st) (\<lambda>(ppage_id, st).
     let st = st\<lparr>memory := write_args ppage_id argc argv (memory st)\<rparr> in
     bindr (map_new_page p (SYSCALL_ARG div 4096) st) (\<lambda>(_, st).
     for_each [1, 2] (\<lambda>i st.
       bindr (map_new_page p (APPS_STACK_TOP div 4096 - of_nat i) st) (\<lambda>(_, st). Inr st)) st))"

definition elf_load_prog ::
  "'t tty \<Rightarrow> i32 \<Rightarrow> (u32 \<Rightarrow> (('t, 'c) world, u8 list) prog) \<Rightarrow> nat \<Rightarrow> u8 list option \<Rightarrow> (('t, 'c) world, unit) prog" where
  "elf_load_prog dev p reader argc argv =
     bindp (reader 0) (\<lambda>hbuf.
     bindp (fold_prog [0 ..< e_phnum hbuf] (\<lambda>i _.
              bindp (of_res (pheader hbuf i)) (load_segment_prog dev p reader)) ()) (\<lambda>_.
     on_mmu (\<lambda>st. bindr (load_pages p argc argv st) (\<lambda>st. Inr ((), st)))))"

section \<open>Agreement\<close>

definition set_mmu :: "('t, 'c) world system \<Rightarrow> mmu_state \<Rightarrow> ('t, 'c) world system" where
  "set_mmu S st = S\<lparr>shared := (shared S)\<lparr>w_kernel := (w_kernel (shared S))\<lparr>mmu := st\<rparr>\<rparr>\<rparr>"

abbreviation mmu_of :: "('t, 'c) world system \<Rightarrow> mmu_state" where
  "mmu_of S \<equiv> mmu (w_kernel (shared S))"

lemma set_mmu_simps [simp]:
  "set_mmu (set_mmu S a) b = set_mmu S b" "set_disk (set_mmu S a) c = set_mmu (set_disk S c) a"
  "mmu_of (set_mmu S a) = a" "mmu_of (set_disk S c) = mmu_of S" "w_disk (shared (set_mmu S a)) = w_disk (shared S)"
  "set_tty (set_mmu S a) t = set_mmu (set_tty S t) a" "mmu_of (set_tty S t) = mmu_of S" "w_tty (shared (set_mmu S a)) = w_tty (shared S)"
  "set_tty (set_disk S c) (w_tty (shared S)) = set_disk S c" "set_mmu S (mmu_of S) = S" "app_ready old p fs dev (set_mmu S a) = app_ready old p fs dev S"
  by (simp_all add: set_mmu_def set_disk_def set_tty_def app_ready_def waiting_def)

lemma calls_on_mmu: "f (mmu_of S) = Inr (x, st) \<Longrightarrow> calls old p (on_mmu f) S x (set_mmu S st)"
  unfolding on_mmu_def set_mmu_def by (rule calls_act) simp

lemma calls_print_sys:
  assumes "m = Inr s" "term_write dev s (w_tty (shared S)) = Inr t"
  shows "calls old p (print_sys dev m) S () (set_tty S t)"
  unfolding print_sys_def by (rule calls_bind[OF calls_of_res[OF assms(1)]], rule calls_on_tty) (simp add: assms(2))

lemma length_hex: "n < 16 ^ Suc k \<Longrightarrow> length (hex n) \<le> Suc k"
proof (induction k arbitrary: n)
  case (Suc k)
  then have "n div 16 < 16 ^ Suc k" by (simp add: less_mult_imp_div_less mult.commute)
  then show ?case using Suc.IH[of "n div 16"] by (subst hex.simps) (simp add: Let_def)
qed (simp add: hex.simps Let_def)

lemma length_itoa_hex: "length (itoa v 16) \<le> 8"
  using length_hex[of "unat v" 7] unsigned_less[of v, where 'a = nat] by (simp add: itoa_def)

lemma load_info: "\<exists>s. INFO (str ''Load 0x%x bytes to 0x%x'') [VInt a, VInt b] = Inr s"
proof -
  let ?f = "str ''Load 0x%x bytes to 0x%x''"
  have "items ?f = Some (map Lit (str ''Load 0x'') @ [Dir 120] @ map Lit (str '' bytes to 0x'') @ [Dir 120])" by (simp add: str_def)
  then have "fmt_type ?f = Some [TInt, TInt]" "render ?f [VInt a, VInt b] = str ''Load 0x'' @ itoa a 16 @ str '' bytes to 0x'' @ itoa b 16"
    by (simp_all add: fmt_type_def render_def str_def)
  then show ?thesis unfolding INFO_def
    using LOG_typed[of ?f "[TInt, TInt]" "[VInt a, VInt b]" "[]" "str ''[INFO] ''" "[10, 13]"] length_itoa_hex[of a] length_itoa_hex[of b]
    by (simp add: str_def)
qed

text \<open>The blocks of an executable that are loaded.\<close>

definition segment_blocks :: "elf32_program_header \<Rightarrow> u32 set" where
  "segment_blocks h =
     (if p_vaddr h < RAM_START then {} else (\<lambda>k. p_offset h div 512 + of_nat k) ` {..< length (block_offsets (unat (p_filesz h)))})"

definition program_blocks :: "u8 list \<Rightarrow> u32 set" where
  "program_blocks hbuf = insert 0 (\<Union>i \<in> {..< e_phnum hbuf}. case pheader hbuf i of Inl _ \<Rightarrow> {} | Inr h \<Rightarrow> segment_blocks h)"

text \<open>
  A reader that gives the block \<open>r b\<close> for each \<open>b\<close> in \<open>good\<close> whenever the disk is in a state with \<open>ok\<close>,
  and changes nothing but the disk, and a terminal that takes every text.
\<close>

locale block_reader =
  fixes dev :: "'t tty" and old :: "u8 list" and q :: i32 and reader :: "u32 \<Rightarrow> (('t, 'c) world, u8 list) prog"
    and r :: "u32 \<Rightarrow> u8 list" and good :: "u32 set" and ok :: "('t, 'c) world system \<Rightarrow> bool"
  assumes reads: "ok S \<Longrightarrow> b \<in> good \<Longrightarrow> \<exists>c. calls old q (reader b) S (r b) (set_disk S c) \<and> ok (set_disk S c)"
    and ok_mmu: "ok (set_mmu S st) = ok S" and ok_tty: "ok (set_tty S t) = ok S"
    and prints: "\<exists>t'. term_write dev s t = Inr t'"
begin

lemma load_block_agrees:
  assumes "ok S" "load_block p r filesz off (l\<lparr>l_mmu := mmu_of S\<rparr>) = Inr l'" "l_blockno l \<in> good"
  shows "\<exists>c. calls old q (load_block_prog p reader filesz off (l_ppage l, l_pageno l, l_blockno l)) S
      (l_ppage l', l_pageno l', l_blockno l') (set_mmu (set_disk S c) (l_mmu l')) \<and> ok (set_disk S c)"
proof -
  let ?b = "l_blockno l"
  obtain pp pn st where st: "calls old q (if off mod PAGE_SIZE = 0 then
        on_mmu (\<lambda>st. bindr (map_new_page p (l_pageno l) st) (\<lambda>(ppage_id, st). Inr ((ppage_id, l_pageno l + 1), zero_page ppage_id st)))
      else Ret (l_ppage l, l_pageno l)) S (pp, pn) (set_mmu S st)"
    and l': "l' = l\<lparr>l_ppage := pp, l_pageno := pn, l_blockno := ?b + 1,
        l_mmu := st\<lparr>memory := memcpy_in (memory st) (PAGE_ID_TO_ADDR pp + of_nat (off mod PAGE_SIZE))
          (take (if off + BLOCK_BYTES < filesz then BLOCK_BYTES else filesz - off) (r ?b))\<rparr>\<rparr>"
  proof (cases "off mod PAGE_SIZE = 0")
    case True
    then obtain pg s where m: "map_new_page p (l_pageno l) (mmu_of S) = Inr (pg, s)"
      using assms(2) by (cases "map_new_page p (l_pageno l) (mmu_of S)") (auto simp: load_block_def)
    show thesis
      by (rule that[of pg "l_pageno l + 1" "zero_page pg s"])
        (use True m assms(2) in \<open>auto simp: load_block_def Let_def intro!: calls_on_mmu\<close>)
  next
    case False
    then show thesis
      using assms(2) by (intro that[of "l_ppage l" "l_pageno l" "mmu_of S"]) (auto simp: load_block_def Let_def calls_Ret)
  qed
  obtain c where c: "calls old q (reader ?b) (set_mmu S st) (r ?b) (set_mmu (set_disk S c) st)" "ok (set_disk S c)"
    using reads[of "set_mmu S st" ?b] assms(1,3) by (auto simp: ok_mmu)
  have "calls old q (load_block_prog p reader filesz off (l_ppage l, l_pageno l, l_blockno l)) S
      (l_ppage l', l_pageno l', l_blockno l') (set_mmu (set_disk S c) (l_mmu l'))"
    unfolding load_block_prog_def prod.case
    by (rule calls_bind[OF st], simp only: prod.case Let_def, rule calls_bind[OF c(1)], rule calls_bind[OF calls_on_mmu[OF refl]])
      (simp add: l' calls_Ret)
  then show ?thesis using c(2) by blast
qed

lemma load_blocks_agree:
  assumes "ok S" "for_each offs (load_block p r filesz) (l\<lparr>l_mmu := mmu_of S\<rparr>) = Inr l'"
    and "\<And>k. k < length offs \<Longrightarrow> l_blockno l + of_nat k \<in> good"
  shows "\<exists>c. calls old q (fold_prog offs (load_block_prog p reader filesz) (l_ppage l, l_pageno l, l_blockno l)) S
      (l_ppage l', l_pageno l', l_blockno l') (set_mmu (set_disk S c) (l_mmu l')) \<and> ok (set_disk S c)"
  using assms
proof (induction offs arbitrary: S l)
  case Nil
  then show ?case by (intro exI[of _ "w_disk (shared S)"]) (auto simp: calls_Ret)
next
  case (Cons off offs)
  obtain l1 where l1: "load_block p r filesz off (l\<lparr>l_mmu := mmu_of S\<rparr>) = Inr l1" "for_each offs (load_block p r filesz) l1 = Inr l'"
    using Cons.prems(2) by (cases "load_block p r filesz off (l\<lparr>l_mmu := mmu_of S\<rparr>)") auto
  obtain c1 where c1: "calls old q (load_block_prog p reader filesz off (l_ppage l, l_pageno l, l_blockno l)) S
      (l_ppage l1, l_pageno l1, l_blockno l1) (set_mmu (set_disk S c1) (l_mmu l1))" "ok (set_disk S c1)"
    using load_block_agrees[OF Cons.prems(1) l1(1)] Cons.prems(3)[of 0] by auto
  have "l_blockno l1 = l_blockno l + 1"
    using l1(1) by (auto simp: load_block_def Let_def bindr_eq_Inr split: if_splits)
  then have g: "l_blockno l1 + of_nat k \<in> good" if "k < length offs" for k
    using Cons.prems(3)[of "Suc k"] that by (simp add: add.assoc)
  have "l1 = l1\<lparr>l_mmu := mmu_of (set_mmu (set_disk S c1) (l_mmu l1))\<rparr>" by simp
  then obtain c2 where c2: "calls old q (fold_prog offs (load_block_prog p reader filesz) (l_ppage l1, l_pageno l1, l_blockno l1))
      (set_mmu (set_disk S c1) (l_mmu l1)) (l_ppage l', l_pageno l', l_blockno l') (set_mmu (set_disk S c2) (l_mmu l'))" "ok (set_disk S c2)"
    using Cons.IH[of "set_mmu (set_disk S c1) (l_mmu l1)" l1] l1(2) c1(2) g by (auto simp: ok_mmu)
  have "calls old q (fold_prog (off # offs) (load_block_prog p reader filesz) (l_ppage l, l_pageno l, l_blockno l)) S
      (l_ppage l', l_pageno l', l_blockno l') (set_mmu (set_disk S c2) (l_mmu l'))"
    unfolding fold_prog.simps by (rule calls_bind[OF c1(1)]) (rule c2(1))
  then show ?case using c2(2) by blast
qed

lemma load_segment_agrees:
  assumes "ok S" "load_segment p r h (mmu_of S) = Inr st'" "segment_blocks h \<subseteq> good"
  shows "\<exists>c t. calls old q (load_segment_prog dev p reader h) S () (set_mmu (set_tty (set_disk S c) t) st') \<and> ok (set_disk S c)"
proof (cases "p_vaddr h < RAM_START")
  case True
  then show ?thesis using assms
    by (intro exI[of _ "w_disk (shared S)"] exI[of _ "w_tty (shared S)"]) (auto simp: load_segment_def load_segment_prog_def calls_Ret)
next
  case False
  let ?l = "\<lparr>l_ppage = 0, l_pageno = p_vaddr h div 4096, l_blockno = p_offset h div 512, l_mmu = mmu_of S\<rparr>"
  obtain l where l: "for_each (block_offsets (unat (p_filesz h))) (load_block p r (unat (p_filesz h))) (?l\<lparr>l_mmu := mmu_of S\<rparr>) = Inr l"
    "for_each [unat (l_pageno l) ..< unat ((p_vaddr h + p_memsz h) div 4096)] (map_zero_page p) (l_mmu l) = Inr st'"
    using assms(2) False unfolding load_segment_def Let_def
    by (cases "for_each (block_offsets (unat (p_filesz h))) (load_block p r (unat (p_filesz h))) ?l") auto
  obtain c where c: "calls old q (fold_prog (block_offsets (unat (p_filesz h))) (load_block_prog p reader (unat (p_filesz h)))
      (0, p_vaddr h div 4096, p_offset h div 512)) S (l_ppage l, l_pageno l, l_blockno l) (set_mmu (set_disk S c) (l_mmu l))" "ok (set_disk S c)"
    using load_blocks_agree[OF assms(1) l(1)] assms(3) False by (auto simp: segment_blocks_def)
  let ?T = "set_mmu (set_disk S c) (l_mmu l)" and ?U = "set_mmu (set_disk S c) st'"
  have z: "calls old q (on_mmu (\<lambda>st. bindr (for_each [unat (l_pageno l) ..< unat ((p_vaddr h + p_memsz h) div 4096)] (map_zero_page p) st)
      (\<lambda>st. Inr ((), st)))) ?T () ?U"
    using calls_on_mmu[of "\<lambda>st. bindr (for_each [unat (l_pageno l) ..< unat ((p_vaddr h + p_memsz h) div 4096)] (map_zero_page p) st)
      (\<lambda>st. Inr ((), st))" ?T "()" st' old q] l(2) by simp
  obtain s t where s: "INFO (str ''Load 0x%x bytes to 0x%x'') [VInt (p_filesz h), VInt (p_vaddr h)] = Inr s" "term_write dev s (w_tty (shared ?U)) = Inr t"
    using load_info prints by blast
  obtain t' where t': "calls old q (if p \<le>s GPID_SHELL then print_sys dev (INFO (str ''Load 0x%x bytes to 0x%x'') [VInt (p_filesz h), VInt (p_vaddr h)])
      else Ret ()) ?U () (set_tty ?U t')"
  proof (cases "p \<le>s GPID_SHELL")
    case True
    then show thesis using that[of t] calls_print_sys[OF s] by simp
  next
    case False
    then show thesis using that[of "w_tty (shared ?U)"] by (simp add: calls_Ret)
  qed
  have "calls old q (load_segment_prog dev p reader h) S () (set_mmu (set_tty (set_disk S c) t') st')"
    unfolding load_segment_prog_def Let_def if_not_P[OF False]
    by (rule calls_bind[OF c(1)], unfold prod.case, rule calls_bind[OF z]) (use t' in simp)
  then show ?thesis using c(2) by blast
qed

lemma load_segments_agree:
  assumes "ok S" "for_each is (\<lambda>i st. bindr (pheader hbuf i) (\<lambda>h. load_segment p r h st)) (mmu_of S) = Inr st'"
    and "\<And>i h. i \<in> set is \<Longrightarrow> pheader hbuf i = Inr h \<Longrightarrow> segment_blocks h \<subseteq> good"
  shows "\<exists>c t. calls old q (fold_prog is (\<lambda>i _. bindp (of_res (pheader hbuf i)) (load_segment_prog dev p reader)) ()) S ()
      (set_mmu (set_tty (set_disk S c) t) st') \<and> ok (set_disk S c)"
  using assms
proof (induction "is" arbitrary: S)
  case Nil
  then show ?case by (intro exI[of _ "w_disk (shared S)"] exI[of _ "w_tty (shared S)"]) (auto simp: calls_Ret)
next
  case (Cons i js)
  obtain h st where h: "pheader hbuf i = Inr h" "load_segment p r h (mmu_of S) = Inr st"
    "for_each js (\<lambda>i st. bindr (pheader hbuf i) (\<lambda>h. load_segment p r h st)) st = Inr st'"
    using Cons.prems(2) by (cases "pheader hbuf i"; cases "bindr (pheader hbuf i) (\<lambda>h. load_segment p r h (mmu_of S))") auto
  obtain c1 t1 where c1: "calls old q (load_segment_prog dev p reader h) S () (set_mmu (set_tty (set_disk S c1) t1) st)" "ok (set_disk S c1)"
    using load_segment_agrees[OF Cons.prems(1) h(2) Cons.prems(3)[OF _ h(1)]] by auto
  let ?T = "set_mmu (set_tty (set_disk S c1) t1) st"
  have g: "segment_blocks h \<subseteq> good" if "j \<in> set js" "pheader hbuf j = Inr h" for j h
    using Cons.prems(3)[of j h] that by simp
  have "\<exists>c t. calls old q (fold_prog js (\<lambda>i _. bindp (of_res (pheader hbuf i)) (load_segment_prog dev p reader)) ()) ?T ()
      (set_mmu (set_tty (set_disk ?T c) t) st') \<and> ok (set_disk ?T c)"
    by (rule Cons.IH, use h(3) c1(2) in \<open>simp_all add: ok_mmu ok_tty\<close>) (rule g)
  then obtain c2 t2 where c2: "calls old q (fold_prog js (\<lambda>i _. bindp (of_res (pheader hbuf i)) (load_segment_prog dev p reader)) ())
      ?T () (set_mmu (set_tty (set_disk S c2) t2) st')" "ok (set_disk S c2)"
    by (auto simp: ok_mmu ok_tty)
  have "calls old q (bindp (of_res (pheader hbuf i)) (load_segment_prog dev p reader)) S () ?T"
    by (rule calls_bind[OF calls_of_res[OF h(1)]]) (rule c1(1))
  then have "calls old q (fold_prog (i # js) (\<lambda>i _. bindp (of_res (pheader hbuf i)) (load_segment_prog dev p reader)) ()) S ()
      (set_mmu (set_tty (set_disk S c2) t2) st')"
    unfolding fold_prog.simps by (rule calls_bind) (rule c2(1))
  then show ?case using c2(2) by blast
qed

lemma elf_load_agrees:
  assumes "ok S" "elf_load p r argc argv (mmu_of S) = Inr st'" "program_blocks (r 0) \<subseteq> good"
  shows "\<exists>c t. calls old q (elf_load_prog dev p reader argc argv) S () (set_mmu (set_tty (set_disk S c) t) st') \<and> ok (set_disk S c)"
proof -
  obtain c0 where c0: "calls old q (reader 0) S (r 0) (set_disk S c0)" "ok (set_disk S c0)" using reads[OF assms(1), of 0] assms(3) by (auto simp: program_blocks_def)
  have g: "segment_blocks h \<subseteq> good" if "i < e_phnum (r 0)" "pheader (r 0) i = Inr h" for i h
    using assms(3) that by (force simp: program_blocks_def)
  obtain st where st: "for_each [0 ..< e_phnum (r 0)] (\<lambda>i st. bindr (pheader (r 0) i) (\<lambda>h. load_segment p r h st)) (mmu_of S) = Inr st"
    "load_pages p argc argv st = Inr st'"
    using assms(2) unfolding elf_load_def load_pages_def Let_def
    by (cases "for_each [0 ..< e_phnum (r 0)] (\<lambda>i st. bindr (pheader (r 0) i) (\<lambda>h. load_segment p r h st)) (mmu_of S)") auto
  obtain c t where c: "calls old q (fold_prog [0 ..< e_phnum (r 0)] (\<lambda>i _. bindp (of_res (pheader (r 0) i)) (load_segment_prog dev p reader)) ())
      (set_disk S c0) () (set_mmu (set_tty (set_disk S c) t) st)" "ok (set_disk S c)"
    using load_segments_agree[OF c0(2), of "[0 ..< e_phnum (r 0)]" "r 0" p st] st(1) g by auto
  let ?T = "set_mmu (set_tty (set_disk S c) t) st"
  have "calls old q (on_mmu (\<lambda>st. bindr (load_pages p argc argv st) (\<lambda>st. Inr ((), st)))) ?T () (set_mmu ?T st')"
    by (rule calls_on_mmu) (simp add: st(2))
  then have "calls old q (bindp (fold_prog [0 ..< e_phnum (r 0)] (\<lambda>i _. bindp (of_res (pheader (r 0) i)) (load_segment_prog dev p reader)) ())
      (\<lambda>_. on_mmu (\<lambda>st. bindr (load_pages p argc argv st) (\<lambda>st. Inr ((), st))))) (set_disk S c0) () (set_mmu (set_tty (set_disk S c) t) st')"
    by (intro calls_bind[OF c(1)]) simp
  then have "calls old q (elf_load_prog dev p reader argc argv) S () (set_mmu (set_tty (set_disk S c) t) st')"
    unfolding elf_load_prog_def by (rule calls_bind[OF c0(1)])
  then show ?thesis using c(2) by blast
qed

end

end
