(* ===== verification/Proc.thy ===== *)
theory Proc
  imports Elf_Prog
begin

text \<open>
  The process server (apps/system/sys_proc.c): starting the other servers, and handling the requests
  to start an application, to end a process and to end all of them.
\<close>

definition on_kernel :: "(kernel \<Rightarrow> ('a \<times> kernel) res) \<Rightarrow> (('t, 'c) world, 'a) prog" where
  "on_kernel f = act (\<lambda>w. bindr (f (w_kernel w)) (\<lambda>(x, k). Inr (x, w\<lparr>w_kernel := k\<rparr>)))"

section \<open>Applications\<close>

definition app_read :: "i32 \<Rightarrow> u32 \<Rightarrow> ('s, u8 list) prog" where
  "app_read ino off = bindp (file_read ino off) (\<lambda>(_, dst). Ret dst)"

text \<open>\<open>req->argv[req->argc - 1][0]\<close>; an access outside the message is undefined.\<close>

definition last_arg_char :: "nat \<Rightarrow> u8 list \<Rightarrow> u8 res" where
  "last_arg_char argc buf =
     (let k = 8 + CMD_ARG_LEN * (argc - 1) in
      if argc = 0 \<or> length buf \<le> k then Inl (Undef ''sys_proc'') else Inr (buf ! k))"

definition app_spawn :: "'t tty \<Rightarrow> u8 list \<Rightarrow> (('t, 'c) world, u32) prog" where
  "app_spawn dev buf =
     (let argv = drop 8 buf; argc = unat (get32 buf 4) in
      bindp (dir_lookup 0 (str ''bin/'')) (\<lambda>bin_ino.
      bindp (dir_lookup bin_ino argv) (\<lambda>app_ino.
      if app_ino <s 0 then Ret CMD_ERROR
      else
        bindp (of_res (last_arg_char argc buf)) (\<lambda>c.
        let argc = (if c = 38 then argc - 1 else argc) in
        bindp (on_kernel proc_alloc) (\<lambda>p.
        bindp (put_world (\<lambda>w. w\<lparr>app_pid := p\<rparr>)) (\<lambda>_.
        if length argv < argc * CMD_ARG_LEN then Stop (Undef ''memcpy'')
        else bindp (elf_load_prog dev p (app_read app_ino) argc (Some argv)) (\<lambda>_.
        bindp (on_kernel (\<lambda>k. Inr ((), proc_set_ready p k))) (\<lambda>_.
        Ret CMD_OK))))))))"

section \<open>System servers\<close>

definition sys_proc_read :: "(u32 \<Rightarrow> nat \<Rightarrow> 'c \<Rightarrow> (u8 list \<times> 'c) res) \<Rightarrow> u32 \<Rightarrow> u32 \<Rightarrow> (('t, 'c) world, u8 list) prog" where
  "sys_proc_read dread sys_apps_base block_no = on_disk (dread (sys_apps_base + block_no) 1)"

definition sys_apps :: "u8 list list" where
  "sys_apps = map str [''sys_process'', ''sys_terminal'', ''sys_file'', ''sys_shell'']"

definition sys_spawn :: "'t tty \<Rightarrow> (u32 \<Rightarrow> nat \<Rightarrow> 'c \<Rightarrow> (u8 list \<times> 'c) res) \<Rightarrow> u32 \<Rightarrow> (('t, 'c) world, unit) prog" where
  "sys_spawn dev dread base =
     bindp (on_kernel proc_alloc) (\<lambda>p.
     let i = unat (p - 1) in
     bindp (if i < length sys_apps
            then print_sys dev (INFO (str ''Load kernel process #%d: %s'') [VInt p, VStr (sys_apps ! i)])
            else Stop (Undef ''sys_apps'')) (\<lambda>_.
     bindp (elf_load_prog dev p (sys_proc_read dread base) 0 None) (\<lambda>_.
     on_kernel (\<lambda>k. Inr ((), proc_set_ready p k)))))"

definition SYS_TERM_EXEC_START :: u32 where "SYS_TERM_EXEC_START = 512"
definition SYS_FILE_EXEC_START :: u32 where "SYS_FILE_EXEC_START = 768"
definition SYS_SHELL_EXEC_START :: u32 where "SYS_SHELL_EXEC_START = 1024"

definition await_server :: "'t tty \<Rightarrow> i32 \<Rightarrow> (('t, 'c) world, unit) prog" where
  "await_server dev server =
     bindp (receive server) (\<lambda>(_, buf).
     if 0 \<notin> set buf then Stop (Undef ''printf'')
     else print_sys dev (INFO (str ''sys_process receives: %s'') [VStr buf]))"

definition sys_process_init :: "'t tty \<Rightarrow> (u32 \<Rightarrow> nat \<Rightarrow> 'c \<Rightarrow> (u8 list \<times> 'c) res) \<Rightarrow> (('t, 'c) world, unit) prog" where
  "sys_process_init dev dread =
     bindp (print_sys dev (SUCCESS (str ''Enter kernel process GPID_PROCESS'') [])) (\<lambda>_.
     bindp (sys_spawn dev dread SYS_TERM_EXEC_START) (\<lambda>_.
     bindp (await_server dev GPID_TERMINAL) (\<lambda>_.
     bindp (sys_spawn dev dread SYS_FILE_EXEC_START) (\<lambda>_.
     bindp (await_server dev GPID_FILE) (\<lambda>_.
     sys_spawn dev dread SYS_SHELL_EXEC_START)))))"

section \<open>Requests\<close>

definition handle_spawn :: "'t tty \<Rightarrow> u8 list \<Rightarrow> (('t, 'c) world, unit) prog" where
  "handle_spawn dev buf =
     bindp (app_spawn dev buf) (\<lambda>reply.
     bindp (of_res (last_arg_char (unat (get32 buf 4)) buf)) (\<lambda>c.
     let waiting = (c \<noteq> 38 \<and> reply = CMD_OK) in
     bindp (put_world (\<lambda>w. w\<lparr>shell_waiting := waiting\<rparr>)) (\<lambda>_.
     bindp (get_world app_pid) (\<lambda>p.
     bindp (if \<not> waiting \<and> reply = CMD_OK
            then print_sys dev (INFO (str ''process %d running in the background'') [VInt p]) else Ret ()) (\<lambda>_.
     send GPID_SHELL (proc_reply reply))))))"

definition handle_exit :: "'t tty \<Rightarrow> i32 \<Rightarrow> u8 list \<Rightarrow> (('t, 'c) world, unit) prog" where
  "handle_exit dev sender buf =
     bindp (on_kernel (\<lambda>k. Inr ((), proc_free sender k))) (\<lambda>_.
     bindp (get_world (\<lambda>w. (shell_waiting w, app_pid w))) (\<lambda>(waiting, p).
     if waiting \<and> p = sender then send GPID_SHELL (take 4 buf)
     else if p = sender then print_sys dev (INFO (str ''background process %d terminated'') [VInt sender])
     else Ret ()))"

definition sys_process :: "'t tty \<Rightarrow> i32 \<Rightarrow> u8 list \<Rightarrow> (('t, 'c) world, unit) prog" where
  "sys_process dev sender buf =
     (let type = get32 buf 0 in
      if type = PROC_SPAWN then handle_spawn dev buf
      else if type = PROC_EXIT then handle_exit dev sender buf
      else if type = PROC_KILLALL then on_kernel (\<lambda>k. Inr ((), proc_free GPID_ALL k))
      else Stop (FATAL ''sys_process: invalid request %d''))"

end
