(* ===== verification/Boot.thy ===== *)
theory Boot
  imports Proc Pagetable
begin

text \<open>
  From reset to the first instruction of GPID_PROCESS: earth/boot.s, earth/boot.c, the initialization
  functions of earth/cpu_intr.c and earth/cpu_mmu.c with what they print and read, and grass/init.c.
  The control registers and the registers that \<open>mret\<close> uses are values that are passed along. The
  addresses of \<open>trap_entry\<close> and \<open>boot_lock\<close> are chosen by the linker and are arguments.
\<close>

section \<open>Registers\<close>

record csrs =
  csr_mtvec :: u32
  csr_mip :: u32
  csr_mie :: u32
  csr_mstatus :: u32

text \<open>The instructions that \<open>flush_cache\<close> executes.\<close>

datatype fence = FENCE_I | SFENCE_VMA

text \<open>How a process is entered: the two argument registers, \<open>mepc\<close>, and the fences before \<open>mret\<close>.\<close>

record start =
  start_mepc :: u32
  start_a0 :: u32
  start_a1 :: u32
  start_fences :: "fence list"

section \<open>Initializing the devices\<close>

definition disk_init_prog :: "'t tty \<Rightarrow> platform \<Rightarrow> 'c mmio \<Rightarrow> (('t, 'c) world, disk_type) prog" where
  "disk_init_prog dev plat hw =
     bindp (on_disk (disk_init plat hw)) (\<lambda>type.
     bindp (if type = FLASH_ROM then print_sys dev (CRITICAL (str ''Using FLASH_ROM instead of SD_CARD'') []) else Ret ()) (\<lambda>_.
     Ret type))"

definition intr_init :: "'t tty \<Rightarrow> addr \<Rightarrow> nat \<Rightarrow> csrs \<Rightarrow> (('t, 'c) world, csrs) prog" where
  "intr_init dev trap_addr core_id r =
     bindp (on_kernel (\<lambda>k. Inr ((), k\<lparr>mtimecmp := mtimecmp_set 0x0FFFFFFFFFFFFFFF core_id (mtimecmp k)\<rparr>))) (\<lambda>_.
     let r = r\<lparr>csr_mtvec := trap_addr\<rparr> in
     bindp (print_sys dev (INFO (str ''Use direct mode and put the address of the trap_entry into mtvec'') [])) (\<lambda>_.
     Ret (r\<lparr>csr_mip := 0, csr_mie := csr_mie r OR 0x80, csr_mstatus := csr_mstatus r OR 0x88\<rparr>)))"

definition flush_cache :: "mmu_state \<Rightarrow> fence list" where
  "flush_cache st =
     (if platform st = ARTY then [FENCE_I] else []) @ (if translation st = PAGE_TABLE then [SFENCE_VMA] else [])"

text \<open>The question in \<open>mmu_init\<close>, with the last character typed.\<close>

partial_function (option) mmu_ask :: "'t tty \<Rightarrow> u8 \<Rightarrow> 't \<Rightarrow> (u8 \<times> 't) res option" where
  "mmu_ask dev c t =
     (if c \<noteq> 48 \<and> c \<noteq> 49 then
        (case tty_read_op dev t of Inl e \<Rightarrow> Some (Inl e) | Inr (c, t) \<Rightarrow> mmu_ask dev c t)
      else Some (Inr (c, t)))"

definition mmu_init_prog :: "'t tty \<Rightarrow> (('t, 'c) world, unit) prog" where
  "mmu_init_prog dev =
     bindp (on_mmu (\<lambda>st. Inr ((), pmp_init st))) (\<lambda>_.
     bindp (print_sys dev (CRITICAL (str ''Choose a memory translation mechanism:'') [])) (\<lambda>_.
     bindp (print_sys dev (my_printf (str ''Enter 0: page tables'' @ [10, 13] @ str ''Enter 1: software TLB'' @ [10, 13]) [])) (\<lambda>_.
     bindp (on_tty (\<lambda>t. case mmu_ask dev 0 t of None \<Rightarrow> Inl Diverge | Some r \<Rightarrow> r)) (\<lambda>c.
     bindp (on_mmu (\<lambda>st. Inr ((), st\<lparr>translation := (if c = 48 then PAGE_TABLE else SOFT_TLB)\<rparr>))) (\<lambda>_.
     bindp (print_sys dev (INFO (str ''%s translation is chosen'') [VStr (if c = 48 then str ''Page table'' else str ''Software'')])) (\<lambda>_.
     on_mmu (\<lambda>st. bindr (mmu_setup st) (\<lambda>st. Inr ((), st)))))))))"

section \<open>The grass layer\<close>

definition SYS_PROC_EXEC_START :: u32 where "SYS_PROC_EXEC_START = 256"

text \<open>\<open>grass_entry\<close> up to \<open>mret\<close>; bits 11 and 12 of \<open>mstatus\<close> are the privilege mode that it returns to.\<close>

definition grass_entry ::
  "'t tty \<Rightarrow> (u32 \<Rightarrow> nat \<Rightarrow> 'c \<Rightarrow> (u8 list \<times> 'c) res) \<Rightarrow> addr \<Rightarrow> csrs \<Rightarrow> (('t, 'c) world, csrs \<times> start) prog" where
  "grass_entry dev dread lock_addr r =
     bindp (print_sys dev (SUCCESS (str ''Enter the grass layer'') [])) (\<lambda>_.
     bindp (print_sys dev (INFO (str ''Load kernel process #%d: sys_process'') [VInt GPID_PROCESS])) (\<lambda>_.
     bindp (elf_load_prog dev GPID_PROCESS (sys_proc_read dread SYS_PROC_EXEC_START) 0 None) (\<lambda>_.
     bindp (on_kernel (\<lambda>k. bindr (proc_alloc k) (\<lambda>(p, k). Inr ((), proc_set_running p k)))) (\<lambda>_.
     bindp (on_mmu (\<lambda>st. Inr ((), mmu_switch GPID_PROCESS st))) (\<lambda>_.
     bindp (get_world (\<lambda>w. mmu (w_kernel w))) (\<lambda>st.
     let mode = (if translation st = SOFT_TLB then 3 else 0) in
     Ret (r\<lparr>csr_mstatus := (csr_mstatus r AND NOT (push_bit 11 3)) OR push_bit 11 mode\<rparr>,
          \<lparr>start_mepc = APPS_ENTRY, start_a0 = APPS_ARG, start_a1 = lock_addr, start_fences = flush_cache st\<rparr>)))))))"

section \<open>The boot loader\<close>

text \<open>From \<open>mmu_init\<close> on, when the terminal and the disk are ready.\<close>

definition boot_kernel ::
  "'t tty \<Rightarrow> (u32 \<Rightarrow> nat \<Rightarrow> 'c \<Rightarrow> (u8 list \<times> 'c) res) \<Rightarrow> addr \<Rightarrow> addr \<Rightarrow> nat \<Rightarrow> csrs \<Rightarrow> (('t, 'c) world, csrs \<times> start) prog" where
  "boot_kernel dev dread trap_addr lock_addr core_id r =
     bindp (mmu_init_prog dev) (\<lambda>_.
     bindp (intr_init dev trap_addr core_id r) (\<lambda>r.
     bindp (print_sys dev (SUCCESS (str ''Finished initializing the MMU, timer and interrupts'') [])) (\<lambda>_.
     grass_entry dev dread lock_addr r)))"

record boot_vars =
  boot_lock :: u32
  booted_core_cnt :: u32

text \<open>\<open>None\<close> is a core that hangs, as boot.s does when \<open>boot\<close> returns.\<close>

definition boot ::
  "'t mmio \<Rightarrow> 'c mmio \<Rightarrow> mem \<Rightarrow> addr \<Rightarrow> addr \<Rightarrow> u32 \<Rightarrow> u32 \<Rightarrow> csrs \<Rightarrow> boot_vars \<Rightarrow> (('t, 'c) world, (csrs \<times> start) option \<times> boot_vars) prog" where
  "boot thw dhw rom trap_addr lock_addr core_id vendor_id r v =
     (let plat = (if vendor_id = 666 then ARTY else QEMU); dev = tty_init plat thw in
      bindp (on_mmu (\<lambda>st. Inr ((), st\<lparr>platform := plat\<rparr>))) (\<lambda>_.
      if plat = QEMU \<and> core_id = 0 then Ret (None, v\<lparr>boot_lock := 0\<rparr>)
      else
        let w = v\<lparr>booted_core_cnt := booted_core_cnt v + 1\<rparr> in
        if booted_core_cnt v = 0 then
          bindp (print_sys dev (CRITICAL (str ''--- Booting on %s with core #%d ---'')
            [VStr (if plat = ARTY then str ''Arty'' else str ''QEMU''), VInt core_id])) (\<lambda>_.
          bindp (disk_init_prog dev plat dhw) (\<lambda>type.
          bindp (print_sys dev (SUCCESS (str ''Finished initializing the tty and disk devices'') [])) (\<lambda>_.
          bindp (boot_kernel dev (disk_read type rom plat (spi_exchange plat dhw)) trap_addr lock_addr (unat core_id) r) (\<lambda>s.
          Ret (Some s, w)))))
        else
          bindp (print_sys dev (SUCCESS (str ''--- Core #%d starts running ---'') [VInt core_id])) (\<lambda>_.
          Ret (None, w))))"

text \<open>The loop in boot.s takes the lock with an atomic swap; a core that finds it taken waits.\<close>

definition boot_loader ::
  "'t mmio \<Rightarrow> 'c mmio \<Rightarrow> mem \<Rightarrow> addr \<Rightarrow> addr \<Rightarrow> u32 \<Rightarrow> u32 \<Rightarrow> csrs \<Rightarrow> boot_vars \<Rightarrow> (('t, 'c) world, (csrs \<times> start) option \<times> boot_vars) prog" where
  "boot_loader thw dhw rom trap_addr lock_addr core_id vendor_id r v =
     (if boot_lock v \<noteq> 0 then Stop Diverge
      else boot thw dhw rom trap_addr lock_addr core_id vendor_id r (v\<lparr>boot_lock := 1\<rparr>))"

end
