(* ===== verification/Filesys.thy ===== *)
theory Filesys
  imports Mkfs
begin

text \<open>
  The properties of the file system: treedisk on the ramdisk of mkfs, down to the bytes of the
  disk image. \<open>disk_holds 4096 128 d files m\<close> relates a disk of 4096 blocks to the contents of
  its 128 files and says that at least \<open>m\<close> blocks are free; it includes the invariant
  \<open>treedisk_inv\<close>, by which no block is shared or lost.
\<close>

section \<open>Creating, writing and reading files\<close>

text \<open>C18: \<open>treedisk_create\<close> turns the zeroed 2MB array of mkfs into a file system that
  satisfies the invariant, with 128 empty files and 4093 free blocks.\<close>

theorem treedisk_create_fresh:
  "\<exists>s. treedisk_create ramdisk 0 NINODES fs_init = Inr (0, s) \<and> ram_ok s \<and>
     treedisk_inv 4096 (ram_block s) {k. 2 < k \<and> k < 4096} \<and> n_files (ram_block s) = 128 \<and>
     (\<forall>i. i < 128 \<longrightarrow> file_of (ram_block s) i = [])"
  using ram.create_correct[OF fs_init_ok, of NINODES 2] by auto

text \<open>A created store for the witnesses below.\<close>

lemma created:
  assumes "m \<le> 4093"
  shows "\<exists>s. treedisk_create ramdisk 0 NINODES fs_init = Inr (0, s) \<and> ram_ok s \<and>
     disk_holds 4096 128 (ram_block s) (\<lambda>_. []) m"
proof -
  obtain s where s: "treedisk_create ramdisk 0 NINODES fs_init = Inr (0, s)" "ram_ok s"
    "disk_holds 4096 128 (ram_block s) (\<lambda>_. []) 4093"
    using created_holds by blast
  have "disk_holds 4096 128 (ram_block s) (\<lambda>_. []) m"
    using s(3) assms unfolding disk_holds_def by (meson le_trans)
  with s show ?thesis by blast
qed

theorem treedisk_create_fresh_witness:
  "\<exists>s. treedisk_create ramdisk 0 NINODES fs_init = Inr (0, s) \<and> file_of (ram_block s) 127 = []"
  using treedisk_create_fresh by auto

text \<open>C4: \<open>treedisk_write\<close> with 11 free blocks in store returns 0; the file written gets the
  block at its offset, growing with null blocks in between when the offset is behind its end,
  every other file keeps its contents, and the invariant holds again.\<close>

theorem treedisk_write_refines:
  assumes "ram_ok s" "disk_holds 4096 128 (ram_block s) files (11 + m)"
    and "unat ino < 128" "offset \<noteq> - 1" "length blk = BLOCK_SIZE"
  shows "\<exists>s'. treedisk_write ram_tree ino offset blk s = Inr (0, s') \<and> ram_ok s' \<and>
     disk_holds 4096 128 (ram_block s')
       (files(unat ino := write_file (files (unat ino)) (unat offset) blk)) m"
  using tree.files.write_holds[OF conjI[OF assms(1,2)] assms(3-5)] by (simp add: treedisk_intf_def)

theorem treedisk_write_refines_witness:
  "\<exists>s s'. treedisk_create ramdisk 0 NINODES fs_init = Inr (0, s) \<and>
     treedisk_write ram_tree 3 200 (replicate BLOCK_SIZE 7) s = Inr (0, s') \<and>
     disk_holds 4096 128 (ram_block s')
       ((\<lambda>_. [])(3 := replicate 200 null_block @ [replicate BLOCK_SIZE 7])) 4082"
proof -
  obtain s where s: "treedisk_create ramdisk 0 NINODES fs_init = Inr (0, s)" "ram_ok s"
    "disk_holds 4096 128 (ram_block s) (\<lambda>_. []) (11 + 4082)"
    using created[of "11 + 4082"] by auto
  from treedisk_write_refines[OF s(2,3), of 3 200 "replicate BLOCK_SIZE 7"] s(1) show ?thesis
    by (auto simp: write_file_def)
qed

text \<open>C17: \<open>treedisk_read\<close> returns 0 and the block of the file when inode and offset are in
  range; otherwise it returns -1 and leaves the caller's buffer alone. Reading changes
  nothing.\<close>

theorem treedisk_read_refines:
  assumes "ram_ok s" "disk_holds 4096 128 (ram_block s) files m"
  shows "\<exists>s'. treedisk_read ram_tree ino offset buf s =
       Inr (if unat ino < 128 \<and> unat offset < length (files (unat ino))
            then (0, files (unat ino) ! unat offset, s') else (-1, buf, s')) \<and>
     ram_ok s' \<and> disk_holds 4096 128 (ram_block s') files m"
  using tree.files.read_holds[OF conjI[OF assms]] by (simp add: treedisk_intf_def)

theorem treedisk_read_refines_witness:
  "\<exists>s s'. treedisk_create ramdisk 0 NINODES fs_init = Inr (0, s) \<and>
     treedisk_read ram_tree 5 0 uninit_block s = Inr (-1, uninit_block, s')"
proof -
  obtain s where s: "treedisk_create ramdisk 0 NINODES fs_init = Inr (0, s)" "ram_ok s"
    "disk_holds 4096 128 (ram_block s) (\<lambda>_. []) 0"
    using created[of 0] by auto
  from treedisk_read_refines[OF s(2,3), of 5 0 uninit_block] s(1) show ?thesis by auto
qed

text \<open>\<open>treedisk_getsize\<close> returns the number of blocks of the file, and -1 for an inode
  number outside the table.\<close>

theorem treedisk_getsize_refines:
  assumes "ram_ok s" "disk_holds 4096 128 (ram_block s) files m"
  shows "\<exists>s'. treedisk_getsize ram_tree ino s =
       Inr (if unat ino < 128 then of_nat (length (files (unat ino))) else -1, s') \<and>
     ram_ok s' \<and> disk_holds 4096 128 (ram_block s') files m"
  using tree.files.getsize_holds[OF conjI[OF assms]] by (simp add: treedisk_intf_def)

theorem treedisk_getsize_refines_witness:
  "\<exists>s s'. treedisk_create ramdisk 0 NINODES fs_init = Inr (0, s) \<and>
     treedisk_getsize ram_tree 0 s = Inr (0, s') \<and> (\<exists>s''. treedisk_getsize ram_tree 128 s = Inr (-1, s''))"
proof -
  obtain s where s: "treedisk_create ramdisk 0 NINODES fs_init = Inr (0, s)" "ram_ok s"
    "disk_holds 4096 128 (ram_block s) (\<lambda>_. []) 0"
    using created[of 0] by auto
  from treedisk_getsize_refines[OF s(2,3), of 0] treedisk_getsize_refines[OF s(2,3), of 128] s(1)
  show ?thesis by auto
qed

text \<open>C19: with any number of free blocks, a write to a valid inode either succeeds with the
  invariant kept and at most 11 blocks taken, or stops with the message that the store is full,
  and the latter only when at most 10 blocks are free.\<close>

theorem treedisk_write_full:
  assumes "ram_ok s" "treedisk_inv 4096 (ram_block s) F" "unat ino < n_files (ram_block s)"
    and "offset \<noteq> - 1" "length blk = BLOCK_SIZE"
  shows "(treedisk_write ram_tree ino offset blk s = Inl store_full \<and> card F \<le> 10) \<or>
     (\<exists>s' F'. treedisk_write ram_tree ino offset blk s = Inr (0, s') \<and> ram_ok s' \<and>
        treedisk_inv 4096 (ram_block s') F' \<and> card F \<le> card F' + 11)"
  using tree.write_correct[OF assms] by (auto simp: written_def)

theorem treedisk_write_full_witness:
  "\<exists>s s'. treedisk_create ramdisk 0 NINODES fs_init = Inr (0, s) \<and>
     treedisk_write ram_tree 127 0xFFFFFFFE null_block s = Inr (0, s') \<and> ram_ok s'"
proof -
  obtain s where s: "treedisk_create ramdisk 0 NINODES fs_init = Inr (0, s)" "ram_ok s"
    "treedisk_inv 4096 (ram_block s) {k. 2 < k \<and> k < 4096}" "n_files (ram_block s) = 128"
    using ram.create_correct[OF fs_init_ok, of NINODES 2] by auto
  have "\<not> card {k :: u32. 2 < k \<and> k < 4096} \<le> 10" by (simp add: card_between)
  with treedisk_write_full[OF s(2,3), of 127 "0xFFFFFFFE" null_block] s(1,4) show ?thesis by auto
qed

section \<open>The disk image\<close>

lemma mkfs_image:
  assumes "apps = filter is_app eps" "length apps \<le> 121" "length (bin_text apps) < 256"
    and "11 * (7 + app_blocks apps) \<le> 4093" "length adj = 256"
    and "\<forall>a \<in> set apps. length (snd a) \<le> SIZE_2MB \<and> 0 \<notin> set (fst a)"
  shows "\<exists>img files. mkfs_main 1 eps adj fs_init = Inr img \<and> ram_ok img \<and>
     disk_holds 4096 128 (ram_block img) files 0 \<and> mkfs_holds files apps \<and>
     files 6 = [bin_text apps @ replicate (256 - length (bin_text apps)) 0 @ adj]"
proof -
  obtain s where s: "treedisk_create ramdisk 0 NINODES fs_init = Inr (0, s)" "ram_ok s"
    "disk_holds 4096 128 (ram_block s) (\<lambda>_. []) (11 * (7 + app_blocks apps) + 0)"
    using created[of "11 * (7 + app_blocks apps) + 0"] assms(4) by auto
  have "\<exists>s' files. mkfs_fill (treedisk_intf ram_tree) eps adj s = Inr s' \<and>
     (ram_ok s' \<and> disk_holds 4096 128 (ram_block s') files 0) \<and> mkfs_holds files (filter is_app eps) \<and>
     files 6 = [bin_text (filter is_app eps) @ replicate (256 - length (bin_text (filter is_app eps))) 0 @ adj]"
    by (rule tree.files.mkfs_fill_correct) (use s assms in auto)
  with s(1) show ?thesis
    unfolding mkfs_main_def treedisk_init_ramdisk by (auto simp: assms(1))
qed

end
