(* ===== verification/App_System.thy ===== *)
theory App_System
  imports Apps_Correct Filesys
begin

text \<open>
  Applications on the real services: the file server with treedisk on an SD card and the terminal
  server on the serial line; and as an example the system with the disk image that mkfs builds.
\<close>

section \<open>Applications on an SD card and a serial line\<close>

lemma user_system_on:
  assumes "sd_card plat x nblocks ready data" "8192 \<le> nblocks" "nblocks \<le> 2 ^ 32" "uart plat hw rx tx busy"
  shows "user_system (file_system (disk_read SD_CARD rom plat x) (disk_write SD_CARD plat x))
    (\<lambda>c files m. ready c \<and> disk_holds 4096 nfiles (fs_blocks data c) files m) nfiles 11 (tty_init plat hw) rx tx"
  unfolding user_system_def by (intro conjI file_system_store[OF assms(1-3)] uart_tty_device[OF assms(4)])

text \<open>C14: cat prints the file. In a system with the file server on an SD card and the terminal server
  on the serial line of the same board, a process that runs \<open>cat NAME\<close> can run to its end with the
  result 0, when the current directory has an entry NAME and the file's first block is a nonempty
  text; then exactly that text has been sent over the serial line, with a newline if it does not
  end in one, and the files on the disk are the same as before.\<close>

theorem cat_prints_file:
  assumes "sd_card plat x nblocks ready data" "8192 \<le> nblocks" "nblocks \<le> 2 ^ 32" "uart plat hw rx tx busy"
    and "app_ready old p (file_system (disk_read SD_CARD rom plat x) (disk_write SD_CARD plat x)) (tty_init plat hw) S"
    and "ready (w_disk (shared S))" "disk_holds 4096 128 (fs_blocks data (w_disk (shared S))) files m"
    and "unat (workdir_ino (shared S)) < 128" "directory files (unat (workdir_ino (shared S))) es"
    and "name_ok name" "\<not> numeric name" "length name \<le> length (dir_text es)" "map_of es name = Some i" "i < 128"
    and "text_file files i t" "t \<noteq> []"
  shows "\<exists>c u. calls old p (cat_main 2 [str ''cat'', name]) S 0 (set_tty (set_disk S c) u) \<and>
    ready c \<and> disk_holds 4096 128 (fs_blocks data c) files m \<and>
    rx u = rx (w_tty (shared S)) \<and> tx u = tx (w_tty (shared S)) @ t @ (if last t = 10 then [] else [10, 13])"
  using user_system.cat_prints[OF user_system_on[OF assms(1-4)] assms(5) _ assms(8-16), of m "str ''cat''"] assms(6,7) by blast

section \<open>A board\<close>

text \<open>For examples: a UART with the registers of the LiteX one.\<close>

definition litex_sim_hw :: "uart_sim mmio" where
  "litex_sim_hw =
     \<lparr>mmio_read = (\<lambda>addr u.
        if addr = 0xF0001000 then (ucast (hd (sim_rx u)), u)
        else if 0 < sim_busy u then (1, u\<lparr>sim_busy := sim_busy u - 1\<rparr>) else (0, u\<lparr>sim_busy := 2\<rparr>)),
      mmio_write = (\<lambda>addr v u.
        if addr = 0xF0001000 then u\<lparr>sim_tx := sim_tx u @ [ucast v]\<rparr>
        else if addr = 0xF0001010 \<and> v = 2 then u\<lparr>sim_rx := tl (sim_rx u)\<rparr> else u)\<rparr>"

lemma ucast_u8_mask: "ucast c AND 0xFF = (ucast c :: u32)" for c :: u8
proof -
  have "ucast c AND mask 8 = (ucast c :: u32)"
    by (rule bit_word_eqI) (auto simp: bit_simps dest: bit_imp_le_length)
  then show ?thesis by (simp add: mask_eq_exp_minus_1)
qed

lemma litex_sim: "uart ARTY litex_sim_hw sim_rx sim_tx sim_busy"
  by (auto simp: uart_def litex_uart_def litex_sim_hw_def ucast_u8_mask split: if_splits)

interpretation board: user_system "file_system (disk_read SD_CARD (\<lambda>_. 0) ARTY card_x) (disk_write SD_CARD ARTY card_x)"
  "\<lambda>c files m. card_ready c \<and> disk_holds 4096 128 (fs_blocks fst c) files m" 128 11
  "tty_init ARTY litex_sim_hw" sim_rx sim_tx
  by (rule user_system_on[OF sd_card_sim[of 8192] _ _ litex_sim]) simp_all

text \<open>The disk image of mkfs on the card, and the two servers.\<close>

definition image_card :: "u8 list \<Rightarrow> card" where
  "image_card img = (\<lambda>j. if 4096 \<le> j \<and> j < 8192 then ram_block img (j - 4096) else replicate 512 0, Idle)"

definition board_system :: "u8 list \<Rightarrow> i32 \<Rightarrow> u8 list \<Rightarrow> (uart_sim, card) world system" where
  "board_system img ino path =
     \<lparr>shared = \<lparr>w_tty = \<lparr>sim_rx = [], sim_tx = [], sim_busy = 1\<rparr>, w_disk = image_card img,
        w_kernel = talking, workdir_ino = ino, workdir = path, app_pid = 0, shell_waiting = False\<rparr>,
      procs = (\<lambda>_. None)
        (GPID_FILE \<mapsto> (let s = Sys_recv GPID_ALL (sys_file (file_system (disk_read SD_CARD (\<lambda>_. 0) ARTY card_x) (disk_write SD_CARD ARTY card_x))) in (s, s)),
         GPID_TERMINAL \<mapsto> (let s = Sys_recv GPID_ALL (sys_terminal (tty_init ARTY litex_sim_hw)) in (s, s)))\<rparr>"

lemma app_ready_board:
  assumes "p \<noteq> GPID_FILE" "p \<noteq> GPID_TERMINAL"
  shows "app_ready (replicate 1024 0) p (file_system (disk_read SD_CARD (\<lambda>_. 0) ARTY card_x) (disk_write SD_CARD ARTY card_x))
    (tty_init ARTY litex_sim_hw) (board_system img ino path)"
  using assms by (simp add: app_ready_def waiting_def board_system_def Let_def)

lemma image_card_ready:
  assumes "ram_ok img"
  shows "card_ready (image_card img)" "fs_blocks fst (image_card img) = ram_block img"
proof -
  have l: "length (ram_block img k) = (if k < 4096 then BLOCK_SIZE else 0)" for k
    using assms by (auto simp: ram_block_def ram_ok_def word_less_nat_alt)
  show "card_ready (image_card img)"
  proof -
    have "j - 4096 < 4096" if "4096 \<le> j" "j < 8192" for j :: u32
      using that by unat_arith
    then show ?thesis using l by (auto simp: card_ready_def image_card_def)
  qed
  have "4096 \<le> 4096 + k \<and> 4096 + k < 8192" if "k < 4096" for k :: u32
    using that by (simp add: word_less_nat_alt word_le_nat_alt unat_word_ariths)
  moreover have "ram_block img k = []" if "\<not> k < 4096" for k using l[of k] that by simp
  ultimately show "fs_blocks fst (image_card img) = ram_block img"
    by (auto simp: fs_blocks_def image_card_def fun_eq_iff)
qed

lemma text_file_dir_block:
  assumes "files i = [dir_block t]" "0 \<notin> set t" "length t < BLOCK_SIZE"
  shows "text_file files i t"
proof -
  obtain k where k: "BLOCK_SIZE - length t = Suc k" using assms(3) by (cases "BLOCK_SIZE - length t") auto
  then have "dir_block t = t @ 0 # replicate k 0" using assms(3) by (simp add: dir_block_def take_replicate)
  then show ?thesis using assms k by (simp add: text_file_def)
qed

definition home_entries :: "(u8 list \<times> nat) list" where
  "home_entries = [(str ''./'', 2), (str ''../'', 1), (str ''README'', 5)]"

lemma home_entries:
  "mkfs_contents ! 2 = dir_text home_entries" "entries_ok home_entries" "map_of home_entries (str ''README'') = Some 5"
  "length (dir_text home_entries) = 26"
proof -
  show t: "mkfs_contents ! 2 = dir_text home_entries"
    by (simp add: home_entries_def mkfs_contents_def dir_entry_def str_def dec.simps pad_left_def numeral_3_eq_3)
  show "entries_ok home_entries" by (simp add: home_entries_def entries_ok_def name_ok_def str_def)
  show "map_of home_entries (str ''README'') = Some 5" by (simp add: home_entries_def str_def)
  show "length (dir_text home_entries) = 26" unfolding t[symmetric] by (simp add: mkfs_contents_def)
qed

text \<open>On the image that mkfs builds, \<open>cat README\<close> in the home directory prints the README.\<close>

theorem cat_prints_file_witness:
  "\<exists>img c u. mkfs_main 1 [] (replicate 256 0) fs_init = Inr img \<and>
     calls (replicate 1024 0) 9 (cat_main 2 [str ''cat'', str ''README'']) (board_system img 2 (str ''/home/yunhao'')) 0
       (set_tty (set_disk (board_system img 2 (str ''/home/yunhao'')) c) u) \<and>
     sim_tx u = mkfs_contents ! 5 @ [10, 13]"
proof -
  obtain img files where i: "mkfs_main 1 [] (replicate 256 0) fs_init = Inr img" "ram_ok img"
     "disk_holds 4096 128 (ram_block img) files 0" "mkfs_holds files []"
    using mkfs_image[of "[]" "[]" "replicate 256 0"] by (auto simp: bin_text_def app_blocks_def)
  let ?S = "board_system img 2 (str ''/home/yunhao'')"
  have S: "w_disk (shared ?S) = image_card img" "workdir_ino (shared ?S) = 2" "sim_tx (w_tty (shared ?S)) = []"
    by (simp_all add: board_system_def)
  have f: "files 2 = [dir_block (mkfs_contents ! 2)]" "files 5 = [dir_block (mkfs_contents ! 5)]"
    using i(4) by (simp_all add: mkfs_holds_def)
  have d: "directory files 2 home_entries"
    unfolding directory_def using home_entries text_file_dir_block[of files 2, OF f(1)] zero_notin_dir_text[OF home_entries(2)] by simp
  have n: "name_ok (str ''README'')" "\<not> numeric (str ''README'')" by (simp_all add: name_ok_def numeric_def str_def isdigit_def)
  have c5: "0 \<notin> set (mkfs_contents ! 5)" "length (mkfs_contents ! 5) = 348" "last (mkfs_contents ! 5) = 46" "mkfs_contents ! 5 \<noteq> []"
    by (simp_all add: mkfs_contents_def str_def)
  have t: "text_file files 5 (mkfs_contents ! 5)" by (rule text_file_dir_block[of files 5, OF f(2)]) (simp_all add: c5)
  have "\<exists>c u. calls (replicate 1024 0) 9 (cat_main 2 [str ''cat'', str ''README'']) ?S 0 (set_tty (set_disk ?S c) u) \<and>
      card_ready c \<and> disk_holds 4096 128 (fs_blocks fst c) files 0 \<and> sim_rx u = sim_rx (w_tty (shared ?S)) \<and>
      sim_tx u = sim_tx (w_tty (shared ?S)) @ mkfs_contents ! 5 @ (if last (mkfs_contents ! 5) = 10 then [] else [10, 13])"
    by (rule cat_prints_file[OF sd_card_sim[of 8192] _ _ litex_sim app_ready_board _ _ _ _ n _ home_entries(3) _ t c5(4)])
      (use image_card_ready[OF i(2)] i(3) d home_entries(4) in \<open>simp_all add: S\<close>)
  then show ?thesis using i(1) c5(3) unfolding S(3) by auto
qed

end
