(* ===== verification/Workdir.thy ===== *)
theory Workdir
  imports App_System
begin

text \<open>
  The current directory. \<open>cd\<close> keeps an inode number and a path; here it is shown that they always
  name the same directory.
\<close>

section \<open>Paths and trees of directories\<close>

text \<open>The entry for a subdirectory has its name and a slash.\<close>

fun resolve :: "(nat \<Rightarrow> (u8 list \<times> nat) list) \<Rightarrow> nat \<Rightarrow> u8 list list \<Rightarrow> nat option" where
  "resolve dirs d [] = Some d"
| "resolve dirs d (c # cs) = (case map_of (dirs d) (c @ [47]) of None \<Rightarrow> None | Some d' \<Rightarrow> resolve dirs d' cs)"

definition component :: "u8 list \<Rightarrow> bool" where
  "component c \<longleftrightarrow> name_ok c \<and> 47 \<notin> set c \<and> c \<noteq> str ''.'' \<and> c \<noteq> str ''..''"

definition path_text :: "u8 list list \<Rightarrow> u8 list" where
  "path_text cs = (if cs = [] then [47] else concat (map ((#) 47) cs))"

text \<open>
  The directories below the root, inode 0: each has its own entry, and each subdirectory an entry for
  the directory above.
\<close>

definition dir_tree :: "(nat \<Rightarrow> block list) \<Rightarrow> nat \<Rightarrow> (nat \<Rightarrow> (u8 list \<times> nat) list) \<Rightarrow> bool" where
  "dir_tree files nfiles dirs \<longleftrightarrow>
     map_of (dirs 0) (str ''../'') = Some 0 \<and>
     (\<forall>cs d. list_all component cs \<longrightarrow> resolve dirs 0 cs = Some d \<longrightarrow>
        d < nfiles \<and> directory files d (dirs d) \<and> map_of (dirs d) (str ''./'') = Some d \<and>
        (\<forall>c d'. component c \<longrightarrow> map_of (dirs d) (c @ [47]) = Some d' \<longrightarrow> map_of (dirs d') (str ''../'') = Some d))"

lemmas dir_treeD =
  dir_tree_def[THEN iffD1, THEN conjunct1]
  dir_tree_def[THEN iffD1, THEN conjunct2, rule_format, THEN conjunct1]
  dir_tree_def[THEN iffD1, THEN conjunct2, rule_format, THEN conjunct2, THEN conjunct1]
  dir_tree_def[THEN iffD1, THEN conjunct2, rule_format, THEN conjunct2, THEN conjunct2, THEN conjunct1]
  dir_tree_def[THEN iffD1, THEN conjunct2, rule_format, THEN conjunct2, THEN conjunct2, THEN conjunct2, rule_format]

definition workdir_at :: "(nat \<Rightarrow> (u8 list \<times> nat) list) \<Rightarrow> u8 list list \<Rightarrow> ('t, 'c) world system \<Rightarrow> bool" where
  "workdir_at dirs cs S \<longleftrightarrow>
     list_all component cs \<and> workdir (shared S) = path_text cs \<and> resolve dirs 0 cs = Some (unat (workdir_ino (shared S)))"

definition cd_to :: "u8 list list \<Rightarrow> u8 list \<Rightarrow> u8 list list" where
  "cd_to cs a = (if a = str ''.'' then cs else if a = str ''..'' then butlast cs else cs @ [a])"

lemma resolve_append: "resolve dirs d (cs @ ds) = Option.bind (resolve dirs d cs) (\<lambda>e. resolve dirs e ds)"
  by (induction cs arbitrary: d) (auto split: option.splits)

lemma resolve_cd:
  assumes tree: "dir_tree files nfiles dirs" and cs: "list_all component cs" "resolve dirs 0 cs = Some d"
    and a: "component a \<or> a \<in> {str ''.'', str ''..''}" "map_of (dirs d) (a @ [47]) = Some d'"
  shows "list_all component (cd_to cs a)" "resolve dirs 0 (cd_to cs a) = Some d'"
proof -
  have D: "map_of (dirs d) (str ''./'') = Some d" by (rule dir_treeD(4)[OF tree cs])
  have n: "str ''.'' @ [47] = str ''./''" "str ''..'' @ [47] = str ''../''" by (simp_all add: str_def)
  have ne: "str ''.'' \<noteq> str ''..''" by (simp add: str_def)
  have up: "list_all component (butlast cs)" "map_of (dirs d) (str ''../'') = resolve dirs 0 (butlast cs)"
  proof -
    show "list_all component (butlast cs)" using cs(1) by (simp add: list_all_iff in_set_butlastD)
    show "map_of (dirs d) (str ''../'') = resolve dirs 0 (butlast cs)"
    proof (cases cs rule: rev_cases)
      case Nil
      then show ?thesis using cs(2) dir_treeD(1)[OF tree] by simp
    next
      case (snoc bs b)
      obtain e where e: "resolve dirs 0 bs = Some e" "map_of (dirs e) (b @ [47]) = Some d"
        using cs(2) by (auto simp: snoc resolve_append split: option.splits Option.bind_splits)
      have b: "list_all component bs" "component b" using cs(1) by (simp_all add: snoc)
      show ?thesis using dir_treeD(5)[OF tree b(1) e(1) b(2) e(2)] e(1) by (simp add: snoc)
    qed
  qed
  consider "a = str ''.''" | "a = str ''..''" | "component a" using a(1) by blast
  then have "list_all component (cd_to cs a) \<and> resolve dirs 0 (cd_to cs a) = Some d'"
  proof cases
    case 1
    then show ?thesis using D a(2) cs by (simp add: cd_to_def n)
  next
    case 2
    then show ?thesis using up a(2) ne by (simp add: cd_to_def n)
  next
    case 3
    then have "cd_to cs a = cs @ [a]" by (simp add: cd_to_def component_def)
    then show ?thesis using 3 cs a(2) by (simp add: resolve_append)
  qed
  then show "list_all component (cd_to cs a)" "resolve dirs 0 (cd_to cs a) = Some d'" by simp_all
qed

section \<open>The path\<close>

lemma cd_up_to_slash: "47 \<notin> set c \<Longrightarrow> cd_up (a @ 47 # c) (length a + length c) = Inr (a @ [47], length a)"
proof (induction c rule: rev_induct)
  case Nil
  show ?case by (subst cd_up.simps) (simp add: nth_append)
next
  case (snoc x c)
  then show ?case by (subst cd_up.simps) (simp add: nth_append)
qed

lemma cd_up_last: "47 \<notin> set c \<Longrightarrow> cd_up (a @ 47 # c) (length (a @ 47 # c)) = Inr (a @ [47], length a)"
  using cd_up_to_slash[of c a] by (subst cd_up.simps) simp

lemma path_text_snoc: "path_text (cs @ [c]) = (if cs = [] then [] else path_text cs) @ 47 # c"
  by (simp add: path_text_def)

lemma length_path_text: "list_all component cs \<Longrightarrow> cs \<noteq> [] \<Longrightarrow> 1 < length (path_text cs)"
  by (cases cs) (auto simp: path_text_def component_def name_ok_def)

lemma cd_path_text:
  assumes "list_all component cs" "component a \<or> a \<in> {str ''.'', str ''..''}"
  shows "cd_path (path_text cs) (a @ [47]) = Inr (path_text (cd_to cs a))"
proof -
  have z: "0 \<notin> set (a @ [47])" using assms(2) by (auto simp: component_def name_ok_def str_def)
  have n: "cstr (str ''./'') = str ''.'' @ [47]" "cstr (str ''../'') = str ''..'' @ [47]" by (simp_all add: str_def cstr_def)
  have cmp: "strcmp_eq (str ''./'') (a @ [47]) \<longleftrightarrow> a = str ''.''" "strcmp_eq (str ''../'') (a @ [47]) \<longleftrightarrow> a = str ''..''"
    using cstr_id[OF z] n by (auto simp: strcmp_eq_def)
  note eq = cd_path_def[of "path_text cs" "a @ [47]", unfolded cmp]
  show ?thesis
  proof (cases "a = str ''..''")
    case True
    then have "\<not> a = str ''.''" by (simp add: str_def)
    moreover have "cd_path (path_text cs) (a @ [47]) = Inr (path_text (butlast cs))"
    proof (cases cs rule: rev_cases)
      case Nil
      then show ?thesis using cd_up_last[of "[]" "[]"] True \<open>\<not> a = str ''.''\<close> unfolding eq by (simp add: path_text_def)
    next
      case (snoc bs b)
      then have "47 \<notin> set b" using assms(1) by (simp add: component_def)
      from cd_up_last[OF this, of "if bs = [] then [] else path_text bs"]
      show ?thesis using True \<open>\<not> a = str ''.''\<close> unfolding eq by (auto simp: snoc path_text_snoc) (simp_all add: path_text_def)
    qed
    ultimately show ?thesis using True by (simp add: cd_to_def)
  next
    case False
    then show ?thesis using length_path_text[OF assms(1)]
      unfolding eq by (auto simp: cd_to_def path_text_snoc) (simp_all add: path_text_def)
  qed
qed

section \<open>cd\<close>

lemma calls_put_world: "calls old p (put_world f) S () (S\<lparr>shared := f (shared S)\<rparr>)"
  unfolding put_world_def by (rule calls_act) simp

lemma set_workdir_simps [simp]:
  "workdir_ino (shared (set_workdir S i w)) = i" "workdir (shared (set_workdir S i w)) = w"
  "w_disk (shared (set_workdir S i w)) = w_disk (shared S)" "w_tty (shared (set_workdir S i w)) = w_tty (shared S)"
  by (simp_all add: set_workdir_def)

lemma calls_cd_enter:
  assumes "cd_path path a = Inr path'" "workdir (shared S) = path"
  shows "calls old p (cd_enter ino a) S 0 (set_workdir S ino path')"
proof -
  let ?T = "S\<lparr>shared := (shared S)\<lparr>workdir_ino := ino\<rparr>\<rparr>"
  have "calls old p (bindp (put_world (\<lambda>w. w\<lparr>workdir := path'\<rparr>)) (\<lambda>_. Ret (0 :: i32))) ?T 0 (set_workdir S ino path')"
    using calls_bind[OF calls_put_world[of old p _ ?T] calls_Ret] by (simp add: set_workdir_def)
  then have "calls old p (bindp (get_world workdir) (\<lambda>path. bindp (of_res (cd_path path a)) (\<lambda>path.
      bindp (put_world (\<lambda>w. w\<lparr>workdir := path\<rparr>)) (\<lambda>_. Ret (0 :: i32))))) ?T 0 (set_workdir S ino path')"
    by (intro calls_bind[OF calls_get_world]) (simp add: assms)
  then show ?thesis unfolding cd_enter_def by (rule calls_bind[OF calls_put_world])
qed

lemma INFO_not_found:
  assumes "strlen s < 400"
  shows "INFO (str ''cd: directory %s not found'') [VStr s] = Inr (str ''[INFO] cd: directory '' @ cstr s @ str '' not found'' @ [10, 13])"
proof -
  have "items (str ''cd: directory %s not found'') =
      Some (map Lit (str ''cd: directory '') @ [Dir 115] @ map Lit (str '' not found''))" by (simp add: str_def)
  then show ?thesis
    using LOG_typed[of "str ''cd: directory %s not found''" "[TStr]" "[VStr s]" "[]" "str ''[INFO] ''" "[10, 13]"] assms
    by (simp add: INFO_def fmt_type_def render_def str_def strlen_def)
qed

lemma cd_arg:
  assumes "component a \<or> a \<in> {str ''.'', str ''..''}" "b \<in> {a, a @ [47]}"
  shows "b \<noteq> []" "(if last b \<noteq> 47 then b @ [47] else b) = a @ [47]"
    "name_ok (a @ [47])" "\<not> numeric (a @ [47])" "cstr (a @ [47]) = a @ [47]"
proof -
  have a: "a \<noteq> []" "47 \<notin> set a" "32 \<notin> set a" "0 \<notin> set a" using assms(1) by (auto simp: component_def name_ok_def str_def)
  then show "b \<noteq> []" "name_ok (a @ [47])" "\<not> numeric (a @ [47])" "cstr (a @ [47]) = a @ [47]"
    using assms(2) by (auto simp: name_ok_def numeric_def isdigit_def)
  have "last a \<noteq> 47" using a(1,2) last_in_set[of a] by metis
  then show "(if last b \<noteq> 47 then b @ [47] else b) = a @ [47]" using assms(2) by auto
qed

context user_system
begin

lemma cd_moves:
  assumes r: "app_ready old p fs dev S" "holds (w_disk (shared S)) files m"
    and w: "dir_tree files nfiles dirs" "workdir_at dirs cs S"
    and a: "component a \<or> a \<in> {str ''.'', str ''..''}" "b \<in> {a, a @ [47]}"
      "length a < length (dir_text (dirs (unat (workdir_ino (shared S)))))"
    and f: "map_of (dirs (unat (workdir_ino (shared S)))) (a @ [47]) = Some d'"
  shows "\<exists>c. calls old p (cd_main 2 [n0, b]) S 0 (set_workdir (set_disk S c) (of_nat d') (path_text (cd_to cs a))) \<and> holds c files m \<and>
    workdir_at dirs (cd_to cs a) (set_workdir (set_disk S c) (of_nat d') (path_text (cd_to cs a)))"
proof -
  let ?d = "workdir_ino (shared S)"
  have cs: "list_all component cs" "resolve dirs 0 cs = Some (unat ?d)" "workdir (shared S) = path_text cs"
    using w(2) by (simp_all add: workdir_at_def)
  note arg = cd_arg[OF a(1,2)]
  have d: "unat ?d < nfiles" "directory files (unat ?d) (dirs (unat ?d))"
    by (rule dir_treeD(2)[OF w(1) cs(1,2)], rule dir_treeD(3)[OF w(1) cs(1,2)])
  have "d' < 1000" using d(2) f by (auto simp: directory_def entries_ok_def list_all_iff dest: map_of_SomeD)
  then have ud: "unat (of_nat d' :: i32) = d'" by (intro unat_of_nat_u32) simp
  have nd: "(of_nat d' :: i32) \<noteq> - 1" using of_nat_not_negative[of d'] \<open>d' < 1000\<close> by auto
  obtain c where c: "calls old p (dir_lookup ?d (a @ [47])) S (of_nat d') (set_disk S c)" "holds c files m"
    using lookup[OF r d, of "a @ [47]"] arg a(3) f by (auto simp: strlen_def)
  have "calls old p (cd_enter (of_nat d') (a @ [47])) (set_disk S c) 0 (set_workdir (set_disk S c) (of_nat d') (path_text (cd_to cs a)))"
    using calls_cd_enter[OF cd_path_text[OF cs(1) a(1)], of "set_disk S c"] cs(3) by simp
  then have "calls old p (cd_main 2 [n0, b]) S 0 (set_workdir (set_disk S c) (of_nat d') (path_text (cd_to cs a)))"
    unfolding cd_main_def Let_def using arg(1,2) nd
    by (auto simp: arg_def intro!: calls_bind[OF calls_get_world] calls_bind[OF c(1)])
  moreover have "workdir_at dirs (cd_to cs a) (set_workdir (set_disk S c) (of_nat d') (path_text (cd_to cs a)))"
    using resolve_cd[OF w(1) cs(1,2) a(1) f] by (simp add: workdir_at_def ud)
  ultimately show ?thesis using c(2) by blast
qed

lemma info:
  assumes "app_ready old p fs dev S" "INFO fmt args = Inr s" "length s \<le> TERM_BUF_SIZE"
  shows "\<exists>t. calls old p (INFO_app fmt args) S () (set_tty S t) \<and> coming t = coming (w_tty (shared S)) \<and>
    sent t = sent (w_tty (shared S)) @ s"
proof -
  obtain t where "calls old p (term_write_app s) S () (set_tty S t)" "coming t = coming (w_tty (shared S))"
    "sent t = sent (w_tty (shared S)) @ s"
    using calls_term_write[OF tty_device_axioms _ _ _ assms(3), of S p old] assms(1) unfolding app_ready_def by blast
  moreover from this(1) have "calls old p (INFO_app fmt args) S () (set_tty S t)"
    unfolding INFO_app_def by (intro calls_bind[OF calls_of_res[OF assms(2)]])
  ultimately show ?thesis by blast
qed

lemma cd_stays:
  assumes r: "app_ready old p fs dev S" "holds (w_disk (shared S)) files m"
    and w: "dir_tree files nfiles dirs" "workdir_at dirs cs S"
    and a: "component a \<or> a \<in> {str ''.'', str ''..''}" "b \<in> {a, a @ [47]}" "length a < 399"
      "length a < length (dir_text (dirs (unat (workdir_ino (shared S)))))"
    and f: "map_of (dirs (unat (workdir_ino (shared S)))) (a @ [47]) = None"
  shows "\<exists>c u. calls old p (cd_main 2 [n0, b]) S (- 1) (set_tty (set_disk S c) u) \<and> holds c files m \<and>
    coming u = coming (w_tty (shared S)) \<and>
    sent u = sent (w_tty (shared S)) @ str ''[INFO] cd: directory '' @ a @ str ''/ not found'' @ [10, 13]"
proof -
  let ?d = "workdir_ino (shared S)"
  have cs: "list_all component cs" "resolve dirs 0 cs = Some (unat ?d)" using w(2) by (simp_all add: workdir_at_def)
  note arg = cd_arg[OF a(1,2)]
  have d: "unat ?d < nfiles" "directory files (unat ?d) (dirs (unat ?d))"
    by (rule dir_treeD(2)[OF w(1) cs], rule dir_treeD(3)[OF w(1) cs])
  obtain c where c: "calls old p (dir_lookup ?d (a @ [47])) S (- 1) (set_disk S c)" "holds c files m"
    using lookup[OF r d, of "a @ [47]"] arg a(4) f by (auto simp: strlen_def)
  let ?msg = "str ''[INFO] cd: directory '' @ (a @ [47]) @ str '' not found'' @ [10, 13]"
  have "INFO (str ''cd: directory %s not found'') [VStr (a @ [47])] = Inr ?msg"
    using INFO_not_found[of "a @ [47]"] arg(5) a(3) by (simp add: strlen_def)
  then obtain u where u: "calls old p (INFO_app (str ''cd: directory %s not found'') [VStr (a @ [47])]) (set_disk S c) () (set_tty (set_disk S c) u)"
    "coming u = coming (w_tty (shared S))" "sent u = sent (w_tty (shared S)) @ ?msg"
    using info[of old p "set_disk S c"] r(1) a(3) by fastforce
  have "calls old p (cd_main 2 [n0, b]) S (- 1) (set_tty (set_disk S c) u)"
    unfolding cd_main_def Let_def using arg(1,2)
    by (auto simp: arg_def intro!: calls_bind[OF calls_get_world] calls_bind[OF c(1)] calls_bind[OF u(1)] calls_Ret)
  moreover have "?msg = str ''[INFO] cd: directory '' @ a @ str ''/ not found'' @ [10, 13]" by (simp add: str_def)
  ultimately show ?thesis using c(2) u(2,3) by metis
qed

end

text \<open>C9: The current directory and its path always name the same directory. When they do, and \<open>cd\<close>
  is called with a name, with or without a slash at its end, then either the current directory has
  such a subdirectory, the result is 0, and inode number and path are those of that directory (for
  \<open>.\<close> the same and for \<open>..\<close> one component less); or it has none, the result is -1, and both are
  as before. The names must not be longer than the text of the current directory.\<close>

theorem cd_keeps_workdir:
  assumes "sd_card plat x nblocks ready data" "8192 \<le> nblocks" "nblocks \<le> 2 ^ 32" "uart plat hw rx tx busy"
    and "app_ready old p (file_system (disk_read SD_CARD rom plat x) (disk_write SD_CARD plat x)) (tty_init plat hw) S"
    and "ready (w_disk (shared S))" "disk_holds 4096 128 (fs_blocks data (w_disk (shared S))) files m"
    and "dir_tree files 128 dirs" "workdir_at dirs cs S"
    and "component a \<or> a \<in> {str ''.'', str ''..''}" "b \<in> {a, a @ [47]}" "length a < 399"
    and "length a < length (dir_text (dirs (unat (workdir_ino (shared S)))))"
  shows "\<exists>S'. calls old p (cd_main 2 [str ''cd'', b]) S
      (if map_of (dirs (unat (workdir_ino (shared S)))) (a @ [47]) = None then - 1 else 0) S' \<and>
    workdir_at dirs (if map_of (dirs (unat (workdir_ino (shared S)))) (a @ [47]) = None then cs else cd_to cs a) S' \<and>
    ready (w_disk (shared S')) \<and> disk_holds 4096 128 (fs_blocks data (w_disk (shared S'))) files m"
proof (cases "map_of (dirs (unat (workdir_ino (shared S)))) (a @ [47])")
  case None
  from user_system.cd_stays[OF user_system_on[OF assms(1-4)] assms(5) _ assms(8-13) None, of m "str ''cd''"] assms(6,7)
  obtain c u where "calls old p (cd_main 2 [str ''cd'', b]) S (- 1) (set_tty (set_disk S c) u)" "ready c"
    "disk_holds 4096 128 (fs_blocks data c) files m" by blast
  then show ?thesis using None assms(9) by (intro exI[of _ "set_tty (set_disk S c) u"]) (simp add: workdir_at_def)
next
  case (Some d')
  from user_system.cd_moves[OF user_system_on[OF assms(1-4)] assms(5) _ assms(8-11,13) Some, of m "str ''cd''"] assms(6,7)
  obtain c where "calls old p (cd_main 2 [str ''cd'', b]) S 0 (set_workdir (set_disk S c) (of_nat d') (path_text (cd_to cs a)))" "ready c"
    "disk_holds 4096 128 (fs_blocks data c) files m"
    "workdir_at dirs (cd_to cs a) (set_workdir (set_disk S c) (of_nat d') (path_text (cd_to cs a)))" by blast
  then show ?thesis using Some by (intro exI[of _ "set_workdir (set_disk S c) (of_nat d') (path_text (cd_to cs a))"]) simp
qed

section \<open>The directories of the disk image\<close>

definition mkfs_dirs_of :: "nat \<Rightarrow> (u8 list \<times> nat) list" where
  "mkfs_dirs_of d =
     (if d = 0 then [(str ''./'', 0), (str ''../'', 0), (str ''home/'', 1), (str ''bin/'', 6)]
      else if d = 1 then [(str ''./'', 1), (str ''../'', 0), (str ''yunhao/'', 2), (str ''rvr/'', 3), (str ''yacqub/'', 4)]
      else if d = 2 then home_entries
      else if d = 6 then [(str ''./'', 6), (str ''../'', 0)]
      else [(str ''./'', d), (str ''../'', 1)])"

lemma mkfs_dirs_text:
  "dir_text (mkfs_dirs_of 0) = mkfs_contents ! 0" "dir_text (mkfs_dirs_of 1) = mkfs_contents ! 1"
  "dir_text (mkfs_dirs_of 2) = mkfs_contents ! 2" "dir_text (mkfs_dirs_of 3) = mkfs_contents ! 3"
  "dir_text (mkfs_dirs_of 4) = mkfs_contents ! 4" "dir_text (mkfs_dirs_of 6) = bin_text []"
  by (simp_all add: mkfs_dirs_of_def home_entries_def mkfs_contents_def bin_text_def dir_entry_def str_def dec.simps pad_left_def numeral_3_eq_3)

lemma mkfs_dirs_ok: "d < 1000 \<Longrightarrow> entries_ok (mkfs_dirs_of d)"
  by (simp add: mkfs_dirs_of_def home_entries_def entries_ok_def name_ok_def str_def)

lemma mkfs_subdir:
  assumes "map_of (mkfs_dirs_of d) (c @ [47]) = Some d'" "component c" "d \<in> {0, 1, 2, 3, 4, 6}"
  shows "d' \<in> {0, 1, 2, 3, 4, 6} \<and> map_of (mkfs_dirs_of d') (str ''../'') = Some d"
proof -
  have "str ''./'' = str ''.'' @ [47]" "str ''../'' = str ''..'' @ [47]" by (simp_all add: str_def)
  then have "c @ [47] \<noteq> str ''./''" "c @ [47] \<noteq> str ''../''" using assms(2) by (simp_all add: component_def)
  moreover have "c @ [47] \<noteq> str ''README''"
  proof
    assume "c @ [47] = str ''README''"
    then have "last (c @ [47]) = last (str ''README'')" by (rule arg_cong)
    then show False by (simp add: str_def)
  qed
  ultimately show ?thesis using assms(1,3)
    by (auto simp: mkfs_dirs_of_def home_entries_def split: if_splits) (simp_all add: str_def)
qed

lemma mkfs_dir_tree:
  assumes "mkfs_holds files []" "files 6 = [bin_text [] @ replicate (256 - length (bin_text [])) 0 @ replicate 256 0]"
  shows "dir_tree files 128 mkfs_dirs_of"
  unfolding dir_tree_def
proof (intro conjI allI impI)
  show "map_of (mkfs_dirs_of 0) (str ''../'') = Some 0" by (simp add: mkfs_dirs_of_def str_def)
  have reach: "e \<in> {0, 1, 2, 3, 4, 6}" if "list_all component cs" "resolve mkfs_dirs_of d cs = Some e" "d \<in> {0, 1, 2, 3, 4, 6}" for cs d e
    using that by (induction cs arbitrary: d) (auto split: option.splits dest: mkfs_subdir)
  fix cs d assume "list_all component cs" "resolve mkfs_dirs_of 0 cs = Some d"
  then have d: "d \<in> {0, 1, 2, 3, 4, 6}" using reach by blast
  then show "d < 128" by auto
  show "map_of (mkfs_dirs_of d) (str ''./'') = Some d" using d by (auto simp: mkfs_dirs_of_def home_entries_def str_def)
  show "map_of (mkfs_dirs_of d') (str ''../'') = Some d" if "component c" "map_of (mkfs_dirs_of d) (c @ [47]) = Some d'" for c d'
    using mkfs_subdir[OF that(2,1) d] by simp
  have z: "0 \<notin> set (dir_text (mkfs_dirs_of d))" by (rule zero_notin_dir_text[OF mkfs_dirs_ok]) (use d in auto)
  have "files d = [dir_block (dir_text (mkfs_dirs_of d))]"
  proof (cases "d = 6")
    case True
    then show ?thesis using assms(2) by (simp add: mkfs_dirs_text bin_text_def dir_block_def replicate_add[symmetric])
  next
    case False
    then show ?thesis using d assms(1) by (auto simp: mkfs_holds_def mkfs_dirs_text[unfolded One_nat_def])
  qed
  moreover have "length (dir_text (mkfs_dirs_of d)) < BLOCK_SIZE"
    using d by (auto simp: mkfs_dirs_text[unfolded One_nat_def]) (simp_all add: mkfs_contents_def bin_text_def)
  ultimately show "directory files d (mkfs_dirs_of d)"
    using text_file_dir_block[of files d, OF _ z] mkfs_dirs_ok[of d] d by (auto simp: directory_def)
qed

text \<open>On the image that mkfs builds, \<open>cd ..\<close> goes from the home directory to \<open>/home\<close>.\<close>

theorem cd_keeps_workdir_witness:
  "\<exists>img S'. mkfs_main 1 [] (replicate 256 0) fs_init = Inr img \<and>
     calls (replicate 1024 0) 9 (cd_main 2 [str ''cd'', str ''..'']) (board_system img 2 (str ''/home/yunhao'')) 0 S' \<and>
     workdir (shared S') = str ''/home'' \<and> workdir_ino (shared S') = 1"
proof -
  obtain img files where i: "mkfs_main 1 [] (replicate 256 0) fs_init = Inr img" "ram_ok img"
     "disk_holds 4096 128 (ram_block img) files 0" "mkfs_holds files []"
     "files 6 = [bin_text [] @ replicate (256 - length (bin_text [])) 0 @ replicate 256 0]"
    using mkfs_image[of "[]" "[]" "replicate 256 0"] by (auto simp: bin_text_def app_blocks_def)
  let ?S = "board_system img 2 (str ''/home/yunhao'')" and ?cs = "[str ''home'', str ''yunhao'']"
  have S: "w_disk (shared ?S) = image_card img" "workdir_ino (shared ?S) = 2" "workdir (shared ?S) = str ''/home/yunhao''"
    by (simp_all add: board_system_def)
  have w: "workdir_at mkfs_dirs_of ?cs ?S"
    unfolding workdir_at_def S by (simp add: component_def name_ok_def path_text_def mkfs_dirs_of_def str_def)
  have up: "map_of (mkfs_dirs_of 2) (str ''..'' @ [47]) = Some 1" "cd_to ?cs (str ''..'') = [str ''home'']"
    by (simp_all add: mkfs_dirs_of_def home_entries_def cd_to_def str_def)
  have "\<exists>S'. calls (replicate 1024 0) 9 (cd_main 2 [str ''cd'', str ''..'']) ?S
      (if map_of (mkfs_dirs_of (unat (workdir_ino (shared ?S)))) (str ''..'' @ [47]) = None then - 1 else 0) S' \<and>
    workdir_at mkfs_dirs_of (if map_of (mkfs_dirs_of (unat (workdir_ino (shared ?S)))) (str ''..'' @ [47]) = None then ?cs else cd_to ?cs (str ''..'')) S' \<and>
    card_ready (w_disk (shared S')) \<and> disk_holds 4096 128 (fs_blocks fst (w_disk (shared S'))) files 0"
    by (rule cd_keeps_workdir[OF sd_card_sim[of 8192] _ _ litex_sim app_ready_board _ _ mkfs_dir_tree[OF i(4,5)] w])
      (use image_card_ready[OF i(2)] i(3) in \<open>simp_all add: S mkfs_dirs_text(3) mkfs_contents_def\<close>)
  then obtain S' where S': "calls (replicate 1024 0) 9 (cd_main 2 [str ''cd'', str ''..'']) ?S 0 S'"
    "workdir_at mkfs_dirs_of [str ''home''] S'"
    using up by (auto simp: S)
  from S'(2) have "workdir (shared S') = str ''/home''" "unat (workdir_ino (shared S')) = 1"
    by (auto simp: workdir_at_def path_text_def mkfs_dirs_of_def str_def)
  moreover from this(2) have "workdir_ino (shared S') = 1" by (simp add: word_unat_eq_iff)
  ultimately show ?thesis using i(1) S'(1) by blast
qed

end
