(* ===== verification/Elf_Correct.thy ===== *)
theory Elf_Correct
  imports Elf
begin

text \<open>
  The loader puts every segment into the memory of the new process, and nothing into the memory
  of anybody else.
\<close>

section \<open>Free pages\<close>

definition free_count :: "mmu_state \<Rightarrow> nat" where
  "free_count st = card {i. i < APPS_PAGES_CNT \<and> frame_free st i}"

lemma free_count_take:
  assumes "i < APPS_PAGES_CNT" "frame_free st i" "\<not> frame_free st' i" "\<And>j. j \<noteq> i \<Longrightarrow> frame_free st' j = frame_free st j"
  shows "Suc (free_count st') = free_count st"
proof -
  have "frame_free st' j \<longleftrightarrow> j \<noteq> i \<and> frame_free st j" for j using assms by (cases "j = i") auto
  then have "{j. j < APPS_PAGES_CNT \<and> frame_free st' j} = {j. j < APPS_PAGES_CNT \<and> frame_free st j} - {i}" by auto
  then show ?thesis
    using assms(1,2) card_Suc_Diff1[of "{j. j < APPS_PAGES_CNT \<and> frame_free st j}" i] by (simp add: free_count_def)
qed

lemma map_new_page_correct:
  assumes wf: "vm_wf st" and p: "p \<noteq> 0" "translation st = PAGE_TABLE \<longrightarrow> p <s 256" and v: "user_page v"
    and none: "frame_of st p v = None" and fr: "0 < free_count st"
  obtains pg st' where "map_new_page p v st = Inr (pg, st')" "vm_wf st'" "frame_of st' p v = Some (unat pg)"
    "unat pg < APPS_PAGES_CNT"
    "\<And>q w. q \<noteq> 0 \<Longrightarrow> (q, w) \<noteq> (p, v) \<Longrightarrow> frame_of st' q w = frame_of st q w"
    "memory st' = memory st" "curr_vm_pid st' = curr_vm_pid st" "translation st' = translation st"
    "Suc (free_count st') = free_count st"
proof (cases st rule: mmu_alloc_cases)
  case full
  then have "{i. i < APPS_PAGES_CNT \<and> frame_free st i} = {}" by blast
  then have "free_count st = 0" unfolding free_count_def by (simp only: card.empty)
  then show thesis using fr by simp
next
  case (page i)
  define s1 where "s1 = st\<lparr>page_info_table := (page_info_table st)[i := (page_info_table st ! i)\<lparr>use := 1\<rparr>]\<rparr>"
  have a: "mmu_alloc st = Inr (of_nat i, s1)" using page(4) by (simp add: s1_def)
  note al = mmu_alloc_correct[OF wf a]
  have u: "unat (of_nat i :: u32) = i" using page(1) by (intro unat_of_nat_u32) simp
  note fo = frame_of_alloc[OF wf a]
  have n1: "frame_of s1 p v = None" using fo[OF p(1)] none by simp
  obtain st' where m: "soft_tlb_map p v (of_nat i) s1 = Inr st'" "vm_wf st'" "frame_of st' p v = Some (unat (of_nat i :: u32))"
    "\<And>q w. q \<noteq> 0 \<Longrightarrow> (q, w) \<noteq> (p, v) \<Longrightarrow> frame_of st' q w = frame_of s1 q w"
    "memory st' = memory s1" "curr_vm_pid st' = curr_vm_pid s1" "translation st' = translation s1"
    "\<And>j. j \<noteq> unat (of_nat i :: u32) \<Longrightarrow> page_info_table st' ! j = page_info_table s1 ! j"
    using soft_tlb_map_correct[OF al(1,2) p(1) v n1] by blast
  have "map_new_page p v st = Inr (of_nat i, st')"
    using a m(1) p(2) al(8) by (auto simp: map_new_page_def mmu_map_def page_table_map_def)
  moreover have "Suc (free_count st') = free_count st"
  proof (rule free_count_take[OF page(1,2)])
    show "\<not> frame_free st' i" using frame_ofD(2)[OF m(3)] unfolding u by (simp add: frame_free_def)
    show "frame_free st' j = frame_free st j" if "j \<noteq> i" for j
      using m(8)[of j] al(9)[of j] that unfolding u by (simp add: frame_free_def)
  qed
  moreover have "frame_of st' q w = frame_of st q w" if "q \<noteq> 0" "(q, w) \<noteq> (p, v)" for q w
    using m(4)[OF that] fo[OF that(1)] by simp
  ultimately show thesis using that m(2,3,5-7) page(1) al(6-8) u by simp
qed

section \<open>What has been loaded so far\<close>

text \<open>
  \<open>loads p st0 st P n\<close>: \<open>n\<close> pages have been taken since \<open>st0\<close>, the process sees the pages \<open>P\<close>
  (by page number), and all others see what they saw.
\<close>

definition loads :: "i32 \<Rightarrow> mmu_state \<Rightarrow> mmu_state \<Rightarrow> (nat \<Rightarrow> u8 list option) \<Rightarrow> nat \<Rightarrow> bool" where
  "loads p st0 st P n \<longleftrightarrow> vm_wf st \<and> curr_vm_pid st = curr_vm_pid st0 \<and> translation st = translation st0 \<and>
     (\<forall>q v. q \<noteq> 0 \<longrightarrow> q \<noteq> p \<longrightarrow> view st q v = view st0 q v) \<and>
     (\<forall>v. view st p v = P (unat v)) \<and> free_count st + n = free_count st0"

text \<open>A process that is not mapped and may be given pages.\<close>

definition loadable :: "i32 \<Rightarrow> mmu_state \<Rightarrow> bool" where
  "loadable p st \<longleftrightarrow> p \<noteq> 0 \<and> p \<noteq> curr_vm_pid st \<and> (translation st = PAGE_TABLE \<longrightarrow> p <s 256)"

lemma unat_eq_of_nat: "v < 2 ^ 32 \<Longrightarrow> unat (w :: u32) = v \<longleftrightarrow> w = of_nat v"
  using unat_of_nat_u32[of v] by auto

lemma loads_new:
  assumes l: "loads p st0 st P n" and p: "loadable p st0" and v: "0x80400 \<le> v" "v < 0x80800" "P v = None"
    and n: "n < free_count st0"
  obtains pg st' old where "map_new_page p (of_nat v) st = Inr (pg, st')" "frame_of st' p (of_nat v) = Some (unat pg)"
    "loads p st0 st' (P(v \<mapsto> old)) (Suc n)" "length old = PAGE_SIZE"
proof -
  have uv: "unat (of_nat v :: u32) = v" using v by (intro unat_of_nat_u32) simp
  then have up: "user_page (of_nat v)" using v by (simp add: user_page_def)
  have st: "vm_wf st" "curr_vm_pid st = curr_vm_pid st0" "translation st = translation st0" "free_count st + n = free_count st0"
    "\<And>w. view st p w = P (unat w)" "\<And>q v. q \<noteq> 0 \<Longrightarrow> q \<noteq> p \<Longrightarrow> view st q v = view st0 q v"
    using l by (auto simp: loads_def)
  have nz: "p \<noteq> 0" "p \<noteq> curr_vm_pid st" "translation st = PAGE_TABLE \<longrightarrow> p <s 256"
    using p st(2,3) by (auto simp: loadable_def)
  have none: "frame_of st p (of_nat v) = None" using st(5)[of "of_nat v"] v(3) uv by (simp add: view_def)
  have fc: "0 < free_count st" using st(4) n by simp
  obtain pg st' where m: "map_new_page p (of_nat v) st = Inr (pg, st')" "vm_wf st'"
    "frame_of st' p (of_nat v) = Some (unat pg)" "unat pg < APPS_PAGES_CNT"
    "\<And>q w. q \<noteq> 0 \<Longrightarrow> (q, w) \<noteq> (p, of_nat v) \<Longrightarrow> frame_of st' q w = frame_of st q w"
    "memory st' = memory st" "curr_vm_pid st' = curr_vm_pid st" "translation st' = translation st"
    "Suc (free_count st') = free_count st"
    using map_new_page_correct[OF st(1) nz(1,3) up none fc] by blast
  let ?old = "page_bytes (memory st) (frame_page (unat pg))"
  have vw: "view st' q w = view st q w" if "q \<noteq> 0" "(q, w) \<noteq> (p, of_nat v)" for q w
    using m(5)[OF that] m(6,7) by (simp add: view_def)
  have "view st' p (of_nat v) = Some ?old" using m(3,6,7) nz(2) by (simp add: view_def)
  then have "view st' p w = (P(v \<mapsto> ?old)) (unat w)" for w
    using vw[OF nz(1), of w] st(5)[of w] unat_eq_of_nat[of v w] v(2) uv by (cases "w = of_nat v") auto
  then have "loads p st0 st' (P(v \<mapsto> ?old)) (Suc n)"
    using m(2,7,8,9) st vw by (auto simp: loads_def)
  then show thesis using that[OF m(1,3)] by simp
qed

lemma loads_write:
  assumes l: "loads p st0 st P n" and p: "loadable p st0" and v: "v < 2 ^ 32"
    and f: "frame_of st p (of_nat v) = Some i" and new: "page_bytes m (frame_page i) = new"
    and m: "\<And>q. q < 2 ^ 20 \<Longrightarrow> q \<noteq> frame_page i \<Longrightarrow> page_bytes m q = page_bytes (memory st) q"
  shows "loads p st0 (st\<lparr>memory := m\<rparr>) (P(v \<mapsto> new)) n" "frame_of (st\<lparr>memory := m\<rparr>) q w = frame_of st q w"
proof -
  show fr: "frame_of (st\<lparr>memory := m\<rparr>) q w = frame_of st q w" for q w by (simp add: frame_of_def)
  have st: "vm_wf st" "curr_vm_pid st = curr_vm_pid st0" "\<And>w. view st p w = P (unat w)" using l by (auto simp: loads_def)
  have nz: "p \<noteq> 0" "p \<noteq> curr_vm_pid st" using p st(2) by (auto simp: loadable_def)
  have vw: "view (st\<lparr>memory := m\<rparr>) q w = (if q = p \<and> w = of_nat v then Some new else view st q w)" if "q \<noteq> 0" for q w
    using frame_write_view[OF st(1) f nz(2,1) that m] new by simp
  have "view (st\<lparr>memory := m\<rparr>) p w = (P(v \<mapsto> new)) (unat w)" for w
    using vw[OF nz(1), of w] st(3)[of w] unat_eq_of_nat[OF v, of w] by auto
  moreover have "vm_wf (st\<lparr>memory := m\<rparr>)" "free_count (st\<lparr>memory := m\<rparr>) = free_count st"
    using st(1) by (simp_all add: vm_wf_def Let_def free_count_def frame_free_def)
  ultimately show "loads p st0 (st\<lparr>memory := m\<rparr>) (P(v \<mapsto> new)) n"
    using l vw by (auto simp: loads_def)
qed

lemma PAGE_ID_page: "PAGE_ID_TO_ADDR pg = page_addr (frame_page (unat pg))"
  using PAGE_ID_TO_ADDR_page[of "unat pg"] by simp

lemma loads_zero:
  assumes "loads p st0 st P n" "loadable p st0" "v < 2 ^ 32" "frame_of st p (of_nat v) = Some (unat pg)"
  shows "loads p st0 (zero_page pg st) (P(v \<mapsto> replicate PAGE_SIZE 0)) n" "frame_of (zero_page pg st) q w = frame_of st q w"
proof -
  have fl: "frame_page (unat pg) < 2 ^ 20" by (rule frame_page_less[OF frame_ofD(1)[OF assms(4)]])
  note w = loads_write[OF assms, of "memset (memory st) (PAGE_ID_TO_ADDR pg) 0 PAGE_SIZE" "replicate PAGE_SIZE 0"]
  show "loads p st0 (zero_page pg st) (P(v \<mapsto> replicate PAGE_SIZE 0)) n" "frame_of (zero_page pg st) q w = frame_of st q w"
    using w fl by (simp_all add: zero_page_def PAGE_ID_page)
qed

lemma loads_copy:
  assumes "loads p st0 st P n" "loadable p st0" "v < 2 ^ 32" "frame_of st p (of_nat v) = Some (unat pg)"
    "P v = Some old" "k + length bs \<le> PAGE_SIZE"
  defines "st' \<equiv> st\<lparr>memory := memcpy_in (memory st) (PAGE_ID_TO_ADDR pg + of_nat k) bs\<rparr>"
  shows "loads p st0 st' (P(v \<mapsto> take k old @ bs @ drop (k + length bs) old)) n" "frame_of st' q w = frame_of st q w"
proof -
  have fl: "frame_page (unat pg) < 2 ^ 20" by (rule frame_page_less[OF frame_ofD(1)[OF assms(4)]])
  have "view st p (of_nat v) = Some old"
    using assms(1,5) unat_of_nat_u32[OF assms(3)] by (simp add: loads_def)
  then have "old = page_bytes (memory st) (frame_page (unat pg))"
    using assms(1,2,4) by (auto simp: view_def loads_def loadable_def)
  then have new: "page_bytes (memory st') (frame_page (unat pg)) = take k old @ bs @ drop (k + length bs) old"
    and other: "\<And>q. q < 2 ^ 20 \<Longrightarrow> q \<noteq> frame_page (unat pg) \<Longrightarrow> page_bytes (memory st') q = page_bytes (memory st) q"
    using page_bytes_memcpy_in[OF fl _ assms(6), of _ "memory st"] fl by (simp_all add: st'_def PAGE_ID_page)
  have "st' = st\<lparr>memory := memory st'\<rparr>" by (simp add: st'_def)
  then show "loads p st0 st' (P(v \<mapsto> take k old @ bs @ drop (k + length bs) old)) n" "frame_of st' q w = frame_of st q w"
    using loads_write[OF assms(1-4) new other] by simp_all
qed

section \<open>A segment\<close>

text \<open>The bytes of a segment in the file, and page \<open>k\<close> of its image, filled up with zeros.\<close>

definition page_of :: "u8 list \<Rightarrow> nat \<Rightarrow> u8 list" where
  "page_of d k = take PAGE_SIZE (drop (PAGE_SIZE * k) d @ replicate PAGE_SIZE 0)"

definition file_blocks :: "(u32 \<Rightarrow> u8 list) \<Rightarrow> u32 \<Rightarrow> nat \<Rightarrow> u8 list" where
  "file_blocks reader blk n = concat (map (\<lambda>b. reader (blk + of_nat b)) [0 ..< n])"

definition page_count :: "nat \<Rightarrow> nat" where
  "page_count n = (n + PAGE_SIZE - 1) div PAGE_SIZE"

lemma length_page_of [simp]: "length (page_of d k) = PAGE_SIZE"
  by (simp add: page_of_def)

lemma page_of_append_old:
  assumes "PAGE_SIZE * Suc k \<le> length d"
  shows "page_of (d @ x) k = page_of d k"
  using assms by (simp add: page_of_def)

lemma page_of_append_new:
  assumes "length d = PAGE_SIZE * k + j" "j + length x \<le> PAGE_SIZE"
  shows "page_of (d @ x) k = take j (page_of d k) @ x @ drop (j + length x) (page_of d k)"
proof (rule nth_equalityI)
  show "length (page_of (d @ x) k) = length (take j (page_of d k) @ x @ drop (j + length x) (page_of d k))" using assms(2) by simp
  fix i assume "i < length (page_of (d @ x) k)"
  then have i: "i < PAGE_SIZE" by simp
  show "page_of (d @ x) k ! i = (take j (page_of d k) @ x @ drop (j + length x) (page_of d k)) ! i"
    using assms i by (auto simp: page_of_def nth_append)
qed

lemma page_of_empty: "length d \<le> PAGE_SIZE * k \<Longrightarrow> page_of d k = replicate PAGE_SIZE 0"
  by (simp add: page_of_def)

lemma length_file_blocks:
  assumes "\<And>b. length (reader b) = BLOCK_BYTES"
  shows "length (file_blocks reader f n) = BLOCK_BYTES * n"
  using assms by (induction n) (simp_all add: file_blocks_def)

lemma file_blocks_Suc: "file_blocks reader blk (Suc n) = file_blocks reader blk n @ reader (blk + of_nat n)"
  by (simp add: file_blocks_def)

text \<open>What the process sees after \<open>b\<close> blocks: the data so far, in pages from page \<open>B\<close> on.\<close>

definition with_pages :: "(nat \<Rightarrow> u8 list option) \<Rightarrow> nat \<Rightarrow> u8 list \<Rightarrow> nat \<Rightarrow> nat \<Rightarrow> u8 list option" where
  "with_pages P B d n v = (if B \<le> v \<and> v < B + n then Some (page_of d (v - B)) else P v)"

definition loop_inv :: "i32 \<Rightarrow> mmu_state \<Rightarrow> (nat \<Rightarrow> u8 list option) \<Rightarrow> nat \<Rightarrow> (u32 \<Rightarrow> u8 list) \<Rightarrow> nat \<Rightarrow> u32 \<Rightarrow> nat \<Rightarrow>
    nat \<Rightarrow> load_state \<Rightarrow> bool" where
  "loop_inv p st0 P n0 reader B blk filesz b l \<longleftrightarrow>
     (let d = take filesz (file_blocks reader blk b); k = page_count (BLOCK_BYTES * b) in
      loads p st0 (l_mmu l) (with_pages P B d k) (n0 + k) \<and>
      l_pageno l = of_nat (B + k) \<and> l_blockno l = blk + of_nat b \<and>
      (0 < k \<longrightarrow> frame_of (l_mmu l) p (of_nat (B + k - 1)) = Some (unat (l_ppage l))))"

lemma page_count_blocks:
  "page_count (BLOCK_BYTES * (8 * k)) = k" "0 < r \<Longrightarrow> r \<le> 8 \<Longrightarrow> page_count (BLOCK_BYTES * (8 * k + r)) = Suc k"
proof -
  show "page_count (BLOCK_BYTES * (8 * k)) = k" by (simp add: page_count_def)
  assume r: "0 < r" "r \<le> 8"
  have "BLOCK_BYTES * (8 * k + r) + PAGE_SIZE - 1 = PAGE_SIZE * Suc k + (BLOCK_BYTES * r - 1)" using r by simp
  moreover have "BLOCK_BYTES * r - 1 < PAGE_SIZE" using r by simp
  ultimately show "page_count (BLOCK_BYTES * (8 * k + r)) = Suc k" unfolding page_count_def by (metis div_mult_self4 div_less add.commute add_0 zero_neq_numeral)
qed

lemma with_pages_new:
  assumes "length d \<le> PAGE_SIZE * k"
  shows "(with_pages P B d k)(B + k \<mapsto> replicate PAGE_SIZE 0) = with_pages P B d (Suc k)"
proof
  fix v
  show "((with_pages P B d k)(B + k \<mapsto> replicate PAGE_SIZE 0)) v = with_pages P B d (Suc k) v"
    using page_of_empty[OF assms] by (cases "v = B + k") (auto simp: with_pages_def)
qed

lemma with_pages_append:
  assumes "PAGE_SIZE * k \<le> length d"
  shows "(with_pages P B d (Suc k))(B + k \<mapsto> page_of (d @ x) k) = with_pages P B (d @ x) (Suc k)"
proof
  fix v
  show "((with_pages P B d (Suc k))(B + k \<mapsto> page_of (d @ x) k)) v = with_pages P B (d @ x) (Suc k) v"
  proof (cases "B \<le> v \<and> v < B + k")
    case True
    then have "Suc (v - B) \<le> k" by arith
    then have "PAGE_SIZE * Suc (v - B) \<le> length d" using assms by (meson le_trans mult_le_mono2)
    then show ?thesis using True page_of_append_old[of "v - B" d x] by (simp add: with_pages_def)
  qed (auto simp: with_pages_def)
qed

text \<open>The first half of a round: a new page for every eighth block.\<close>

lemma load_block_page:
  assumes inv: "loop_inv p st0 P n0 reader B blk filesz (8 * k + r) l" and r: "r < 8"
    and p: "loadable p st0" and rd: "\<And>b. length (reader b) = BLOCK_BYTES" and b: "BLOCK_BYTES * (8 * k + r) < filesz"
    and B: "0x80400 \<le> B" "B + Suc k \<le> 0x80800" "P (B + k) = None" "n0 + Suc k \<le> free_count st0"
  obtains l1 where "(if BLOCK_BYTES * (8 * k + r) mod PAGE_SIZE = 0 then
              bindr (map_new_page p (l_pageno l) (l_mmu l)) (\<lambda>(ppage_id, st).
                Inr (l\<lparr>l_ppage := ppage_id, l_pageno := l_pageno l + 1, l_mmu := zero_page ppage_id st\<rparr>))
            else Inr l) = Inr l1"
    "loads p st0 (l_mmu l1) (with_pages P B (take filesz (file_blocks reader blk (8 * k + r))) (Suc k)) (n0 + Suc k)"
    "frame_of (l_mmu l1) p (of_nat (B + k)) = Some (unat (l_ppage l1))" "l_pageno l1 = of_nat (B + Suc k)"
    "l_blockno l1 = blk + of_nat (8 * k + r)"
proof (cases "r = 0")
  case True
  let ?d = "take filesz (file_blocks reader blk (8 * k))"
  have l: "loads p st0 (l_mmu l) (with_pages P B ?d k) (n0 + k)" "l_pageno l = of_nat (B + k)" "l_blockno l = blk + of_nat (8 * k)"
    using inv True page_count_blocks(1)[of k] by (simp_all add: loop_inv_def Let_def)
  have d: "length ?d \<le> PAGE_SIZE * k" using length_file_blocks[OF rd, where f = blk and n = "8 * k"] by simp
  have v: "0x80400 \<le> B + k" "B + k < 0x80800" "with_pages P B ?d k (B + k) = None" "n0 + k < free_count st0"
    using B by (simp_all add: with_pages_def)
  obtain pg st' old where m: "map_new_page p (of_nat (B + k)) (l_mmu l) = Inr (pg, st')"
    "frame_of st' p (of_nat (B + k)) = Some (unat pg)" "loads p st0 st' ((with_pages P B ?d k)(B + k \<mapsto> old)) (Suc (n0 + k))"
    using loads_new[OF l(1) p v] by blast
  have lt: "B + k < 2 ^ 32" using B(2) by simp
  note z = loads_zero[OF m(3) p lt m(2)]
  let ?l = "l\<lparr>l_ppage := pg, l_pageno := l_pageno l + 1, l_mmu := zero_page pg st'\<rparr>"
  have z1: "loads p st0 (zero_page pg st') (with_pages P B ?d (Suc k)) (n0 + Suc k)"
    using z(1) with_pages_new[OF d] by simp
  show thesis
    by (rule that[of ?l]) (use True m(1,2) z1 z(2) l(2,3) in \<open>simp_all add: add.commute\<close>)
next
  case False
  then have "page_count (BLOCK_BYTES * (8 * k + r)) = Suc k" using page_count_blocks(2)[of r k] r by simp
  moreover have "BLOCK_BYTES * (8 * k + r) mod PAGE_SIZE \<noteq> 0"
  proof -
    have "BLOCK_BYTES * (8 * k + r) = PAGE_SIZE * k + BLOCK_BYTES * r" by simp
    then have "BLOCK_BYTES * (8 * k + r) mod PAGE_SIZE = BLOCK_BYTES * r" using r by (simp only: mod_mult_self4) simp
    then show ?thesis using False by simp
  qed
  ultimately show thesis using inv by (intro that[of l]) (simp_all add: loop_inv_def Let_def)
qed

lemma load_block_step:
  assumes inv: "loop_inv p st0 P n0 reader B blk filesz b l"
    and p: "loadable p st0" and rd: "\<And>b. length (reader b) = BLOCK_BYTES" and b: "BLOCK_BYTES * b < filesz"
    and B: "0x80400 \<le> B" "B + page_count filesz \<le> 0x80800" "n0 + page_count filesz \<le> free_count st0"
    and P: "\<And>v. B \<le> v \<Longrightarrow> v < B + page_count filesz \<Longrightarrow> P v = None"
  obtains l' where "load_block p reader filesz (BLOCK_BYTES * b) l = Inr l'"
    "loop_inv p st0 P n0 reader B blk filesz (Suc b) l'"
proof -
  define k r where "k = b div 8" and "r = b mod 8"
  have br: "b = 8 * k + r" "r < 8" by (simp_all add: k_def r_def)
  have kc: "Suc k \<le> page_count filesz"
  proof -
    have "PAGE_SIZE * k + 1 \<le> filesz" using b br(1) by simp
    then have "PAGE_SIZE * Suc k \<le> filesz + PAGE_SIZE - 1" by simp
    then show ?thesis unfolding page_count_def by (simp add: less_eq_div_iff_mult_less_eq mult.commute)
  qed
  have g: "B + Suc k \<le> 0x80800" "P (B + k) = None" "n0 + Suc k \<le> free_count st0" using B P[of "B + k"] kc by simp_all
  let ?F = "file_blocks reader blk"
  obtain l1 where l1: "(if BLOCK_BYTES * b mod PAGE_SIZE = 0 then
              bindr (map_new_page p (l_pageno l) (l_mmu l)) (\<lambda>(ppage_id, st).
                Inr (l\<lparr>l_ppage := ppage_id, l_pageno := l_pageno l + 1, l_mmu := zero_page ppage_id st\<rparr>))
            else Inr l) = Inr l1"
    "loads p st0 (l_mmu l1) (with_pages P B (take filesz (?F b)) (Suc k)) (n0 + Suc k)"
    "frame_of (l_mmu l1) p (of_nat (B + k)) = Some (unat (l_ppage l1))" "l_pageno l1 = of_nat (B + Suc k)"
    "l_blockno l1 = blk + of_nat b"
    using load_block_page[OF inv[unfolded br(1)] br(2) p rd b[unfolded br(1)] B(1) g] unfolding br(1) by blast
  let ?sz = "if BLOCK_BYTES * b + BLOCK_BYTES < filesz then BLOCK_BYTES else filesz - BLOCK_BYTES * b"
  let ?x = "take ?sz (reader (blk + of_nat b))"
  have d: "take filesz (?F b) = ?F b" "length (?F b) = PAGE_SIZE * k + BLOCK_BYTES * r"
    using length_file_blocks[OF rd, where f = blk and n = b] b br(1) by simp_all
  have d': "take filesz (?F (Suc b)) = ?F b @ ?x"
    using length_file_blocks[OF rd, where f = blk and n = b] b rd by (simp add: file_blocks_Suc)
  have md: "BLOCK_BYTES * b mod PAGE_SIZE = BLOCK_BYTES * r"
  proof -
    have "BLOCK_BYTES * b = PAGE_SIZE * k + BLOCK_BYTES * r" using br(1) by simp
    then show ?thesis using br(2) by (simp only: mod_mult_self4) simp
  qed
  have lx: "BLOCK_BYTES * r + length ?x \<le> PAGE_SIZE" using br(2) rd by simp
  have lt: "B + k < 2 ^ 32" using g(1) by simp
  have wp: "with_pages P B (?F b) (Suc k) (B + k) = Some (page_of (?F b) k)" by (simp add: with_pages_def)
  let ?m = "(l_mmu l1)\<lparr>memory := memcpy_in (memory (l_mmu l1)) (PAGE_ID_TO_ADDR (l_ppage l1) + of_nat (BLOCK_BYTES * r)) ?x\<rparr>"
  note c = loads_copy[OF l1(2)[unfolded d(1)] p lt l1(3) wp lx]
  have "loads p st0 ?m (with_pages P B (?F b @ ?x) (Suc k)) (n0 + Suc k)"
    using c(1) unfolding page_of_append_new[OF d(2) lx, symmetric]
    by (subst (asm) with_pages_append) (use d(2) in simp_all)
  moreover have "page_count (BLOCK_BYTES * Suc b) = Suc k"
    using page_count_blocks(2)[of "Suc r" k] br by simp
  ultimately have "loop_inv p st0 P n0 reader B blk filesz (Suc b) (l1\<lparr>l_blockno := l_blockno l1 + 1, l_mmu := ?m\<rparr>)"
    unfolding loop_inv_def Let_def d' using l1(3-5) c(2) by (simp add: add.commute add.left_commute)
  moreover have "load_block p reader filesz (BLOCK_BYTES * b) l = Inr (l1\<lparr>l_blockno := l_blockno l1 + 1, l_mmu := ?m\<rparr>)"
    unfolding load_block_def l1(1) using md l1(5) by (simp add: Let_def)
  ultimately show thesis using that by blast
qed

lemma page_count_le: "page_count n \<le> k \<longleftrightarrow> n \<le> PAGE_SIZE * k"
proof -
  have "page_count n \<le> k \<longleftrightarrow> \<not> Suc k \<le> (n + PAGE_SIZE - 1) div PAGE_SIZE" by (simp add: page_count_def not_less_eq_eq)
  also have "\<dots> \<longleftrightarrow> \<not> Suc k * PAGE_SIZE \<le> n + PAGE_SIZE - 1" by (simp add: less_eq_div_iff_mult_less_eq del: mult_Suc)
  also have "\<dots> \<longleftrightarrow> n \<le> PAGE_SIZE * k" by auto
  finally show ?thesis .
qed

abbreviation block_count :: "nat \<Rightarrow> nat" where
  "block_count n \<equiv> (n + BLOCK_BYTES - 1) div BLOCK_BYTES"

lemma block_count_less: "b < block_count n \<longleftrightarrow> BLOCK_BYTES * b < n"
proof -
  have "b < block_count n \<longleftrightarrow> Suc b * BLOCK_BYTES \<le> n + BLOCK_BYTES - 1"
    by (simp add: Suc_le_eq [symmetric] less_eq_div_iff_mult_less_eq del: mult_Suc)
  then show ?thesis by auto
qed

lemma page_count_block_count: "page_count (BLOCK_BYTES * block_count n) = page_count n"
proof -
  have "BLOCK_BYTES * block_count n \<le> PAGE_SIZE * k \<longleftrightarrow> n \<le> PAGE_SIZE * k" for k
    using block_count_less[of "8 * k" n] by auto
  then show ?thesis using page_count_le by (metis order_antisym order_refl)
qed

lemma load_blocks:
  assumes l: "loads p st0 st P n0" and p: "loadable p st0" and rd: "\<And>b. length (reader b) = BLOCK_BYTES"
    and B: "0x80400 \<le> B" "B + page_count filesz \<le> 0x80800" "n0 + page_count filesz \<le> free_count st0"
    and P: "\<And>v. B \<le> v \<Longrightarrow> v < B + page_count filesz \<Longrightarrow> P v = None"
  obtains l' where "for_each (block_offsets filesz) (load_block p reader filesz)
      \<lparr>l_ppage = 0, l_pageno = of_nat B, l_blockno = blk, l_mmu = st\<rparr> = Inr l'"
    "loads p st0 (l_mmu l') (with_pages P B (take filesz (file_blocks reader blk (block_count filesz))) (page_count filesz))
       (n0 + page_count filesz)" "l_pageno l' = of_nat (B + page_count filesz)"
proof -
  let ?inv = "\<lambda>done. loop_inv p st0 P n0 reader B blk filesz (length done)"
  let ?l = "\<lparr>l_ppage = 0, l_pageno = of_nat B, l_blockno = blk, l_mmu = st\<rparr>"
  have "\<exists>l'. for_each (block_offsets filesz) (load_block p reader filesz) ?l = Inr l' \<and> ?inv (block_offsets filesz) l'"
  proof (rule for_each_invariant)
    have "page_count 0 = 0" by (simp add: page_count_def)
    moreover have "with_pages P B d 0 = P" for d by (rule ext) (auto simp: with_pages_def)
    ultimately show "?inv [] ?l" using l by (simp add: loop_inv_def Let_def)
  next
    fix before off rest l
    assume xs: "block_offsets filesz = before @ off # rest" and i: "?inv before l"
    have lt: "length before < block_count filesz" using arg_cong[OF xs, of length] by (simp add: block_offsets_def)
    have "off = block_offsets filesz ! length before" unfolding xs by simp
    then have off: "off = BLOCK_BYTES * length before" using lt by (simp add: block_offsets_def)
    have b: "BLOCK_BYTES * length before < filesz" using lt block_count_less by blast
    obtain l' where "load_block p reader filesz (BLOCK_BYTES * length before) l = Inr l'"
      "loop_inv p st0 P n0 reader B blk filesz (Suc (length before)) l'"
      using load_block_step[OF i p rd b B P] by blast
    then show "\<exists>l'. load_block p reader filesz off l = Inr l' \<and> ?inv (before @ [off]) l'" by (simp add: off)
  qed
  then obtain l' where f: "for_each (block_offsets filesz) (load_block p reader filesz) ?l = Inr l'"
    and i: "loop_inv p st0 P n0 reader B blk filesz (block_count filesz) l'"
    by (auto simp: block_offsets_def)
  then show thesis
    using that[OF f] unfolding loop_inv_def Let_def page_count_block_count by blast
qed

lemma map_zero_pages:
  assumes l: "loads p st0 st (with_pages P B d n) (n0 + n)" and p: "loadable p st0" and d: "length d \<le> PAGE_SIZE * n"
    and B: "0x80400 \<le> B" "B + n + j \<le> 0x80800" "n0 + n + j \<le> free_count st0"
    and P: "\<And>v. B + n \<le> v \<Longrightarrow> v < B + n + j \<Longrightarrow> P v = None"
  shows "\<exists>st'. for_each [B + n ..< B + n + j] (map_zero_page p) st = Inr st' \<and>
    loads p st0 st' (with_pages P B d (n + j)) (n0 + n + j)"
proof -
  let ?inv = "\<lambda>done st. loads p st0 st (with_pages P B d (n + length done)) (n0 + n + length done)"
  have "\<exists>st'. for_each [B + n ..< B + n + j] (map_zero_page p) st = Inr st' \<and> ?inv [B + n ..< B + n + j] st'"
  proof (rule for_each_invariant)
    show "?inv [] st" using l by simp
  next
    fix before v rest s
    assume xs: "[B + n ..< B + n + j] = before @ v # rest" and i: "?inv before s"
    let ?k = "n + length before"
    have lt: "length before < j" using arg_cong[OF xs, of length] by simp
    have "v = [B + n ..< B + n + j] ! length before" unfolding xs by simp
    then have v: "v = B + ?k" using lt by simp
    have dk: "length d \<le> PAGE_SIZE * ?k" using d by simp
    have g: "0x80400 \<le> B + ?k" "B + ?k < 0x80800" "with_pages P B d ?k (B + ?k) = None" "n0 + n + length before < free_count st0"
      "B + ?k < 2 ^ 32"
      using B lt P[of "B + ?k"] by (simp_all add: with_pages_def)
    obtain pg s1 old where m: "map_new_page p (of_nat (B + ?k)) s = Inr (pg, s1)"
      "frame_of s1 p (of_nat (B + ?k)) = Some (unat pg)"
      "loads p st0 s1 ((with_pages P B d ?k)(B + ?k \<mapsto> old)) (Suc (n0 + n + length before))"
      using loads_new[OF i p g(1-4)] by blast
    have "loads p st0 (zero_page pg s1) (with_pages P B d (Suc ?k)) (Suc (n0 + n + length before))"
      using loads_zero(1)[OF m(3) p g(5) m(2)] with_pages_new[OF dk] by simp
    then show "\<exists>t. map_zero_page p v s = Inr t \<and> ?inv (before @ [v]) t"
      using m(1) by (simp add: map_zero_page_def v)
  qed
  then show ?thesis by simp
qed

section \<open>The image of a program\<close>

definition seg_first :: "elf32_program_header \<Rightarrow> nat" where
  "seg_first h = unat (p_vaddr h) div PAGE_SIZE"

text \<open>The pages of a segment: enough for the file, and up to the page of the end of memory.\<close>

definition seg_pages :: "elf32_program_header \<Rightarrow> nat" where
  "seg_pages h = max (page_count (unat (p_filesz h))) (unat (p_vaddr h + p_memsz h) div PAGE_SIZE - seg_first h)"

definition seg_data :: "(u32 \<Rightarrow> u8 list) \<Rightarrow> elf32_program_header \<Rightarrow> u8 list" where
  "seg_data reader h = take (unat (p_filesz h)) (file_blocks reader (p_offset h div 512) (block_count (unat (p_filesz h))))"

definition seg_image :: "(u32 \<Rightarrow> u8 list) \<Rightarrow> elf32_program_header \<Rightarrow> (nat \<Rightarrow> u8 list option) \<Rightarrow> nat \<Rightarrow> u8 list option" where
  "seg_image reader h P =
     (if p_vaddr h < RAM_START then P else with_pages P (seg_first h) (seg_data reader h) (seg_pages h))"

text \<open>A segment that is loaded lies in user memory and hits no page that is there already.\<close>

definition seg_ok :: "elf32_program_header \<Rightarrow> (nat \<Rightarrow> u8 list option) \<Rightarrow> bool" where
  "seg_ok h P \<longleftrightarrow> (RAM_START \<le> p_vaddr h \<longrightarrow> 0x80400 \<le> seg_first h \<and> seg_first h + seg_pages h \<le> 0x80800 \<and>
     (\<forall>v. seg_first h \<le> v \<and> v < seg_first h + seg_pages h \<longrightarrow> P v = None))"

definition seg_size :: "elf32_program_header \<Rightarrow> nat" where
  "seg_size h = (if p_vaddr h < RAM_START then 0 else seg_pages h)"

lemma load_segment_correct:
  assumes l: "loads p st0 st P n0" and p: "loadable p st0" and rd: "\<And>b. length (reader b) = BLOCK_BYTES"
    and ok: "seg_ok h P" and n: "n0 + seg_size h \<le> free_count st0"
  obtains st' where "load_segment p reader h st = Inr st'" "loads p st0 st' (seg_image reader h P) (n0 + seg_size h)"
proof (cases "p_vaddr h < RAM_START")
  case True
  then show thesis using that[of st] l by (simp add: load_segment_def seg_image_def seg_size_def)
next
  case False
  let ?fs = "unat (p_filesz h)" and ?B = "seg_first h" and ?E = "unat (p_vaddr h + p_memsz h) div PAGE_SIZE"
  let ?fp = "page_count ?fs" and ?d = "seg_data reader h"
  have sp: "?fp + (?E - (?B + ?fp)) = seg_pages h" by (simp add: seg_pages_def)
  have o: "0x80400 \<le> ?B" "?B + seg_pages h \<le> 0x80800" "\<And>v. ?B \<le> v \<Longrightarrow> v < ?B + seg_pages h \<Longrightarrow> P v = None"
    "n0 + seg_pages h \<le> free_count st0"
    using ok False n by (auto simp: seg_ok_def seg_size_def)
  have fp: "?fp \<le> seg_pages h" by (simp add: seg_pages_def)
  have fl: "?B + ?fp \<le> 0x80800" "n0 + ?fp \<le> free_count st0" "\<And>v. ?B \<le> v \<Longrightarrow> v < ?B + ?fp \<Longrightarrow> P v = None"
    using o(2-4) fp by simp_all
  have w: "of_nat ?B = p_vaddr h div 4096" "unat ((p_vaddr h + p_memsz h) div 4096) = ?E"
  proof -
    have d: "unat (x div 4096) = unat x div PAGE_SIZE" for x :: u32 by (simp add: unat_div)
    show "unat ((p_vaddr h + p_memsz h) div 4096) = ?E" by (rule d)
    show "of_nat ?B = p_vaddr h div 4096" unfolding seg_first_def d [symmetric] by simp
  qed
  obtain l' where b: "for_each (block_offsets ?fs) (load_block p reader ?fs)
      \<lparr>l_ppage = 0, l_pageno = of_nat ?B, l_blockno = p_offset h div 512, l_mmu = st\<rparr> = Inr l'"
    "loads p st0 (l_mmu l') (with_pages P ?B ?d ?fp) (n0 + ?fp)" "l_pageno l' = of_nat (?B + ?fp)"
    unfolding seg_data_def by (rule load_blocks[OF l p rd o(1) fl(1-3), where blk = "p_offset h div 512"])
  have u: "unat (l_pageno l') = ?B + ?fp" unfolding b(3) using o(2) fp by (intro unat_of_nat_u32) simp
  have ld: "length ?d \<le> PAGE_SIZE * ?fp" using page_count_le[of ?fs ?fp] by (simp add: seg_data_def)
  have g: "?B + ?fp + (?E - (?B + ?fp)) \<le> 0x80800" "n0 + ?fp + (?E - (?B + ?fp)) \<le> free_count st0"
    using o(2,4) sp by linarith+
  obtain st' where z: "for_each [?B + ?fp ..< ?B + ?fp + (?E - (?B + ?fp))] (map_zero_page p) (l_mmu l') = Inr st'"
    "loads p st0 st' (with_pages P ?B ?d (?fp + (?E - (?B + ?fp)))) (n0 + ?fp + (?E - (?B + ?fp)))"
    using map_zero_pages[OF b(2) p ld o(1) g] o(3) sp by auto
  have "[?B + ?fp ..< ?B + ?fp + (?E - (?B + ?fp))] = [?B + ?fp ..< ?E]"
    by (cases "?B + ?fp \<le> ?E") simp_all
  then have "load_segment p reader h st = Inr st'"
    using False z(1) b(1) u w by (simp add: load_segment_def Let_def)
  moreover have "loads p st0 st' (seg_image reader h P) (n0 + seg_size h)"
    using z(2) False sp by (simp add: seg_image_def seg_size_def add.assoc)
  ultimately show thesis using that by blast
qed

section \<open>All segments\<close>

definition header_at :: "u8 list \<Rightarrow> nat \<Rightarrow> elf32_program_header" where
  "header_at hbuf i = (let k = e_phoff hbuf + 32 * i in
     \<lparr>p_offset = get32 hbuf (k + 4), p_vaddr = get32 hbuf (k + 8), p_filesz = get32 hbuf (k + 16), p_memsz = get32 hbuf (k + 20)\<rparr>)"

definition headers :: "u8 list \<Rightarrow> elf32_program_header list" where
  "headers hbuf = map (header_at hbuf) [0 ..< e_phnum hbuf]"

definition headers_fit :: "u8 list \<Rightarrow> bool" where
  "headers_fit hbuf \<longleftrightarrow> e_phoff hbuf + 32 * e_phnum hbuf \<le> BLOCK_BYTES"

fun segs_ok :: "(u32 \<Rightarrow> u8 list) \<Rightarrow> elf32_program_header list \<Rightarrow> (nat \<Rightarrow> u8 list option) \<Rightarrow> bool" where
  "segs_ok reader [] P = True"
| "segs_ok reader (h # hs) P = (seg_ok h P \<and> segs_ok reader hs (seg_image reader h P))"

definition program_image :: "(u32 \<Rightarrow> u8 list) \<Rightarrow> elf32_program_header list \<Rightarrow> nat \<Rightarrow> u8 list option" where
  "program_image reader hs = fold (seg_image reader) hs (\<lambda>_. None)"

definition program_size :: "elf32_program_header list \<Rightarrow> nat" where
  "program_size hs = sum_list (map seg_size hs)"

lemma load_segments:
  assumes "loads p st0 st P n0" "loadable p st0" "\<And>b. length (reader b) = BLOCK_BYTES" "segs_ok reader hs P"
    "n0 + program_size hs \<le> free_count st0"
  shows "\<exists>st'. for_each hs (load_segment p reader) st = Inr st' \<and> loads p st0 st' (fold (seg_image reader) hs P) (n0 + program_size hs)"
  using assms
proof (induction hs arbitrary: st P n0)
  case (Cons h hs)
  have s: "seg_ok h P" "n0 + seg_size h \<le> free_count st0" using Cons.prems(4,5) by (simp_all add: program_size_def)
  obtain s1 where s1: "load_segment p reader h st = Inr s1" "loads p st0 s1 (seg_image reader h P) (n0 + seg_size h)"
    by (rule load_segment_correct[OF Cons.prems(1-3) s])
  have r: "segs_ok reader hs (seg_image reader h P)" "n0 + seg_size h + program_size hs \<le> free_count st0"
    "program_size (h # hs) = seg_size h + program_size hs"
    using Cons.prems(4,5) by (simp_all add: program_size_def)
  obtain st' where st': "for_each hs (load_segment p reader) s1 = Inr st'"
    "loads p st0 st' (fold (seg_image reader) hs (seg_image reader h P)) (n0 + seg_size h + program_size hs)"
    using Cons.IH[OF s1(2) Cons.prems(2,3) r(1,2)] by blast
  show ?case using st' s1(1) unfolding r(3) by (intro exI[of _ st']) (simp add: add.assoc)
qed (simp add: program_size_def)

lemma for_each_headers:
  assumes "headers_fit hbuf"
  shows "for_each [0 ..< e_phnum hbuf] (\<lambda>i st. bindr (pheader hbuf i) (\<lambda>h. load_segment p reader h st)) st =
    for_each (headers hbuf) (load_segment p reader) st"
proof -
  have "pheader hbuf i = Inr (header_at hbuf i)" if "i < e_phnum hbuf" for i
    using assms that by (simp add: pheader_def header_at_def headers_fit_def Let_def)
  then have "for_each is (\<lambda>i st. bindr (pheader hbuf i) (\<lambda>h. load_segment p reader h st)) st =
      for_each (map (header_at hbuf) is) (load_segment p reader) st" if "set is \<subseteq> {..< e_phnum hbuf}" for "is"
    using that by (induction "is" arbitrary: st) (auto intro!: bindr_cong)
  then show ?thesis by (simp add: headers_def lessThan_atLeast0)
qed

section \<open>Arguments\<close>

definition args_page :: "nat \<Rightarrow> u8 list option \<Rightarrow> u8 list \<Rightarrow> u8 list" where
  "args_page argc argv old =
     (let bs = put32 old 0 (of_nat argc);
          bs = (case argv of None \<Rightarrow> bs | Some a \<Rightarrow> take 68 bs @ take (argc * CMD_ARG_LEN) a @ drop (68 + length (take (argc * CMD_ARG_LEN) a)) bs) in
      fold (\<lambda>i bs. put32 bs (4 + 4 * i) (APPS_ARG + 68 + of_nat (CMD_ARG_LEN * i))) [0 ..< argc] bs)"

lemma write_args_page:
  assumes "f = frame_page (unat pg)" "f < 2 ^ 20" "argc \<le> CMD_NARGS" "q < 2 ^ 20"
  shows "page_bytes (write_args pg argc argv m) q = (if q = f then args_page argc argv (page_bytes m f) else page_bytes m q)"
proof -
  let ?a = "page_addr f"
  have ad: "?a + 4 + 4 * of_nat i = ?a + of_nat (4 + 4 * i)" "?a + 4 + 4 * of_nat CMD_NARGS = ?a + of_nat 68" for i :: nat
    by simp_all
  have fold: "page_bytes (fold (\<lambda>i m. store32 m (?a + 4 + 4 * of_nat i) (w i)) xs m) q =
      (if q = f then fold (\<lambda>i bs. put32 bs (4 + 4 * i) (w i)) xs (page_bytes m f) else page_bytes m q)"
    if "\<forall>i \<in> set xs. i < CMD_NARGS" for w xs m
    using that
  proof (induction xs arbitrary: m)
    case (Cons i xs)
    have le: "4 + 4 * i + 4 \<le> PAGE_SIZE" using Cons.prems by simp
    have "page_bytes (store32 m (?a + 4 + 4 * of_nat i) (w i)) r = (if r = f then put32 (page_bytes m f) (4 + 4 * i) (w i) else page_bytes m r)"
      if "r < 2 ^ 20" for r
      unfolding ad(1) by (rule page_bytes_store32[OF assms(2) that le])
    with Cons assms(2,4) show ?case by simp
  qed simp
  have s: "page_bytes (store32 m ?a w) r = (if r = f then put32 (page_bytes m f) 0 w else page_bytes m r)" if "r < 2 ^ 20" for r w m
    using page_bytes_store32[OF assms(2) that, of 0 m w] by simp
  have c: "page_bytes (memcpy_in m (?a + of_nat 68) bs) r = (if r = f then take 68 (page_bytes m f) @ bs @ drop (68 + length bs) (page_bytes m f)
      else page_bytes m r)" if "r < 2 ^ 20" "length bs \<le> 512" for r m bs
    using page_bytes_memcpy_in[OF assms(2) that(1), of 68 bs m] that(2) by simp
  have len: "length (take (argc * CMD_ARG_LEN) a) \<le> 512" for a :: "u8 list" using assms(3) by simp
  have in16: "\<forall>i \<in> set [0 ..< argc]. i < CMD_NARGS" using assms(3) by auto
  have e: "APPS_ARG + 4 + 4 * of_nat CMD_NARGS + of_nat i * of_nat CMD_ARG_LEN = APPS_ARG + 68 + of_nat (CMD_ARG_LEN * i)" for i
    by simp
  show ?thesis
    unfolding write_args_def Let_def PAGE_ID_page assms(1) [symmetric] e fold[OF in16] args_page_def ad(2)
    using s[OF assms(4)] s[OF assms(2)] c[OF assms(4) len] c[OF assms(2) len] by (auto split: option.split)
qed

lemma fold_put32_other:
  assumes "\<forall>i \<in> set xs. j + 4 \<le> 4 + 4 * i \<or> 4 + 4 * i + 4 \<le> j"
  shows "get32 (fold (\<lambda>i bs. put32 bs (4 + 4 * i) (w i)) xs bs) j = get32 bs j"
  using assms by (induction xs arbitrary: bs) (auto simp: get32_put32_other)

lemma fold_put32_length: "length (fold (\<lambda>i bs. put32 bs (4 + 4 * i) (w i)) xs bs) = length bs"
  by (induction xs arbitrary: bs) simp_all

lemma fold_put32_drop:
  assumes "\<forall>i \<in> set xs. 8 + 4 * i \<le> n"
  shows "drop n (fold (\<lambda>i bs. put32 bs (4 + 4 * i) (w i)) xs bs) = drop n bs"
  using assms
proof (induction xs arbitrary: bs)
  case (Cons i xs)
  have "drop n (put32 bs (4 + 4 * i) (w i)) = drop n bs" using Cons.prems by (simp add: put32_def)
  with Cons show ?case by simp
qed simp

lemma fold_put32_at:
  assumes "i < argc" "4 + 4 * argc \<le> length bs"
  shows "get32 (fold (\<lambda>i bs. put32 bs (4 + 4 * i) (w i)) [0 ..< argc] bs) (4 + 4 * i) = w i"
  using assms
proof (induction argc)
  case (Suc n)
  show ?case
  proof (cases "i = n")
    case True
    then show ?thesis using Suc.prems by (simp add: fold_put32_length)
  next
    case False
    then have i: "i < n" "4 + 4 * n \<le> length bs" using Suc.prems by simp_all
    have "4 + 4 * i + 4 \<le> 4 + 4 * n" using i by simp
    then show ?thesis using Suc.IH[OF i] by (simp add: get32_put32_other)
  qed
qed simp

lemma args_page_correct:
  assumes "length old = PAGE_SIZE" "argc \<le> CMD_NARGS" "length a = argc * CMD_ARG_LEN"
  defines "bs \<equiv> args_page argc (Some a) old"
  shows "get32 bs 0 = of_nat argc" "i < argc \<Longrightarrow> get32 bs (4 + 4 * i) = APPS_ARG + 68 + of_nat (CMD_ARG_LEN * i)"
    "take (argc * CMD_ARG_LEN) (drop 68 bs) = a" "length bs = PAGE_SIZE"
proof -
  define b where "b = take 68 (put32 old 0 (of_nat argc)) @ a @ drop (68 + length a) (put32 old 0 (of_nat argc))"
  have lb: "length b = PAGE_SIZE" using assms(1-3) by (simp add: b_def)
  have bs: "bs = fold (\<lambda>i bs. put32 bs (4 + 4 * i) (APPS_ARG + 68 + of_nat (CMD_ARG_LEN * i))) [0 ..< argc] b"
    unfolding bs_def args_page_def Let_def b_def using assms(3) by simp
  show "length bs = PAGE_SIZE" unfolding bs fold_put32_length by (rule lb)
  have "get32 bs 0 = get32 b 0" unfolding bs by (rule fold_put32_other) simp
  also have "\<dots> = of_nat argc" using assms(1) by (simp add: b_def get32_def nth_append put32_def)
  finally show "get32 bs 0 = of_nat argc" .
  show "get32 bs (4 + 4 * i) = APPS_ARG + 68 + of_nat (CMD_ARG_LEN * i)" if "i < argc"
    unfolding bs by (rule fold_put32_at[OF that]) (use lb assms(2) in simp)
  have "drop 68 bs = drop 68 b" unfolding bs by (rule fold_put32_drop) (use assms(2) in auto)
  then show "take (argc * CMD_ARG_LEN) (drop 68 bs) = a" using assms(1,3) by (simp add: b_def)
qed

section \<open>The loader\<close>

definition no_pages :: "nat \<Rightarrow> u8 list option" where
  "no_pages = (\<lambda>_. None)"

text \<open>A program that fits: its headers are in the first block, its segments are disjoint and leave the pages of the arguments,
  the system calls and the stack alone.\<close>

definition program_ok :: "(u32 \<Rightarrow> u8 list) \<Rightarrow> bool" where
  "program_ok reader \<longleftrightarrow> headers_fit (reader 0) \<and> segs_ok reader (headers (reader 0)) no_pages \<and>
     (\<forall>v \<in> {0x80600, 0x80601, 0x807FE, 0x807FF}. program_image reader (headers (reader 0)) v = None)"

lemma loads_write_args:
  assumes l: "loads p st0 st (P(v \<mapsto> old)) n" and p: "loadable p st0" and v: "v < 2 ^ 32"
    and f: "frame_of st p (of_nat v) = Some (unat pg)" and a: "argc \<le> CMD_NARGS" "length old = PAGE_SIZE"
  shows "loads p st0 (st\<lparr>memory := write_args pg argc argv (memory st)\<rparr>) (P(v \<mapsto> args_page argc argv old)) n"
proof -
  have fl: "frame_page (unat pg) < 2 ^ 20" by (rule frame_page_less[OF frame_ofD(1)[OF f]])
  have "view st p (of_nat v) = Some old" using l unat_of_nat_u32[OF v] by (simp add: loads_def)
  then have "old = page_bytes (memory st) (frame_page (unat pg))"
    using f l p by (auto simp: view_def loads_def loadable_def)
  then have "page_bytes (write_args pg argc argv (memory st)) (frame_page (unat pg)) = args_page argc argv old"
    using write_args_page[OF refl fl a(1) fl] by simp
  from loads_write(1)[OF l p v f this] write_args_page[OF refl fl a(1)] show ?thesis by simp
qed

lemma elf_load_loads:
  assumes wf: "vm_wf st" and p: "loadable p st" and none: "\<And>v. frame_of st p v = None"
    and rd: "\<And>b. length (reader b) = BLOCK_BYTES" and ok: "program_ok reader"
    and n: "program_size (headers (reader 0)) + 4 \<le> free_count st" and a: "argc \<le> CMD_NARGS"
  obtains st' old sc s1 s2 where "elf_load p reader argc argv st = Inr st'" "length old = PAGE_SIZE"
    "loads p st st' ((program_image reader (headers (reader 0)))(0x80600 \<mapsto> args_page argc argv old, 0x80601 \<mapsto> sc,
       0x807FF \<mapsto> s1, 0x807FE \<mapsto> s2)) (program_size (headers (reader 0)) + 4)"
proof -
  let ?hs = "headers (reader 0)" and ?n = "program_size (headers (reader 0))"
  let ?P = "program_image reader ?hs"
  have fit: "headers_fit (reader 0)" "segs_ok reader ?hs no_pages" "?P 0x80600 = None" "?P 0x80601 = None" "?P 0x807FE = None" "?P 0x807FF = None"
    using ok by (simp_all add: program_ok_def)
  have l0: "loads p st st no_pages 0"
    using wf none by (simp add: loads_def view_def no_pages_def)
  have n0: "0 + ?n \<le> free_count st" using n by simp
  have "\<exists>s. for_each ?hs (load_segment p reader) st = Inr s \<and> loads p st s (fold (seg_image reader) ?hs no_pages) (0 + ?n)"
    by (rule load_segments[OF l0 p rd fit(2) n0])
  then obtain s where s: "for_each ?hs (load_segment p reader) st = Inr s" "loads p st s ?P ?n"
    by (auto simp: program_image_def no_pages_def)
  have c: "?n < free_count st" "Suc ?n < free_count st" "Suc (Suc ?n) < free_count st" "Suc (Suc (Suc ?n)) < free_count st" using n by simp_all
  obtain pg t1 old where t1: "map_new_page p (of_nat 0x80600) s = Inr (pg, t1)" "frame_of t1 p (of_nat 0x80600) = Some (unat pg)"
    "loads p st t1 (?P(0x80600 \<mapsto> old)) (Suc ?n)" "length old = PAGE_SIZE"
    by (rule loads_new[OF s(2) p _ _ fit(3) c(1)]) simp_all
  let ?t = "t1\<lparr>memory := write_args pg argc argv (memory t1)\<rparr>" and ?P1 = "?P(0x80600 \<mapsto> args_page argc argv old)"
  have t: "loads p st ?t ?P1 (Suc ?n)" by (rule loads_write_args[OF t1(3) p _ t1(2) a t1(4)]) simp
  have r2: "0x80400 \<le> (0x80601::nat)" "(0x80601::nat) < 0x80800" by simp_all
  have f2: "?P1 0x80601 = None" using fit(4) by simp
  obtain pg2 t2 sc where t2: "map_new_page p (of_nat 0x80601) ?t = Inr (pg2, t2)" "frame_of t2 p (of_nat 0x80601) = Some (unat pg2)"
    "loads p st t2 (?P1(0x80601 \<mapsto> sc)) (Suc (Suc ?n))" "length sc = PAGE_SIZE"
    by (rule loads_new[OF t p r2 f2 c(2)])
  have r3: "0x80400 \<le> (0x807FF::nat)" "(0x807FF::nat) < 0x80800" by simp_all
  have f3: "(?P1(0x80601 \<mapsto> sc)) 0x807FF = None" using fit(6) by simp
  obtain pg3 t3 s1 where t3: "map_new_page p (of_nat 0x807FF) t2 = Inr (pg3, t3)" "frame_of t3 p (of_nat 0x807FF) = Some (unat pg3)"
    "loads p st t3 (?P1(0x80601 \<mapsto> sc, 0x807FF \<mapsto> s1)) (Suc (Suc (Suc ?n)))" "length s1 = PAGE_SIZE"
    by (rule loads_new[OF t2(3) p r3 f3 c(3)])
  have r4: "0x80400 \<le> (0x807FE::nat)" "(0x807FE::nat) < 0x80800" by simp_all
  have f4: "(?P1(0x80601 \<mapsto> sc, 0x807FF \<mapsto> s1)) 0x807FE = None" using fit(5) by simp
  obtain pg4 t4 s2 where t4: "map_new_page p (of_nat 0x807FE) t3 = Inr (pg4, t4)" "frame_of t4 p (of_nat 0x807FE) = Some (unat pg4)"
    "loads p st t4 (?P1(0x80601 \<mapsto> sc, 0x807FF \<mapsto> s1, 0x807FE \<mapsto> s2)) (Suc (Suc (Suc (Suc ?n))))" "length s2 = PAGE_SIZE"
    by (rule loads_new[OF t3(3) p r4 f4 c(4)])
  have "elf_load p reader argc argv st = Inr t4"
    unfolding elf_load_def Let_def for_each_headers[OF fit(1)] s(1)
    using t1(1) t2(1) t3(1) t4(1) by simp
  moreover have "Suc (Suc (Suc (Suc ?n))) = ?n + 4" by simp
  ultimately show thesis using that[of t4 old sc s1 s2] t1(4) t4(3) by metis
qed

end
