(* ===== verification/Loader.thy ===== *)
theory Loader
  imports Elf_Correct Memory
begin

text \<open>
  What \<open>elf_load\<close> promises of a program that fits, byte by byte, and the page it leaves out at the end
  of a segment.
\<close>

section \<open>Bytes and addresses\<close>

text \<open>A byte of the executable, and a byte of a process's memory.\<close>

definition file_byte :: "(u32 \<Rightarrow> u8 list) \<Rightarrow> nat \<Rightarrow> u8" where
  "file_byte reader n = reader (of_nat (n div BLOCK_BYTES)) ! (n mod BLOCK_BYTES)"

definition byte_at :: "mmu_state \<Rightarrow> i32 \<Rightarrow> addr \<Rightarrow> u8 option" where
  "byte_at st p a = map_option (\<lambda>pg. pg ! (unat a mod PAGE_SIZE)) (view st p (a div 4096))"

text \<open>
  What the ELF format asks for a segment: the bytes of the file from \<open>p_offset\<close> on at the addresses from
  \<open>p_vaddr\<close> on, and zeros behind them up to \<open>p_memsz\<close>.
\<close>

definition seg_loaded :: "mmu_state \<Rightarrow> i32 \<Rightarrow> (u32 \<Rightarrow> u8 list) \<Rightarrow> elf32_program_header \<Rightarrow> bool" where
  "seg_loaded st p reader h \<longleftrightarrow>
     (\<forall>k < unat (p_filesz h). byte_at st p (p_vaddr h + of_nat k) = Some (file_byte reader (unat (p_offset h) + k))) \<and>
     (\<forall>k < unat (p_memsz h). unat (p_filesz h) \<le> k \<longrightarrow> byte_at st p (p_vaddr h + of_nat k) = Some 0)"

text \<open>
  A segment that the loader can handle starts at a page boundary and, in the file, at a block
  boundary, does not wrap around, and its zeros end at a page boundary or in the last page with bytes
  of the file.
\<close>

definition seg_proper :: "elf32_program_header \<Rightarrow> bool" where
  "seg_proper h \<longleftrightarrow> p_vaddr h mod 4096 = 0 \<and> p_offset h mod 512 = 0 \<and> unat (p_vaddr h) + unat (p_memsz h) < 2 ^ 32 \<and>
     (p_memsz h mod 4096 = 0 \<or> unat (p_memsz h) \<le> PAGE_SIZE * page_count (unat (p_filesz h)))"

text \<open>Page \<open>v\<close> has an address of the segment.\<close>

definition seg_page :: "elf32_program_header \<Rightarrow> nat \<Rightarrow> bool" where
  "seg_page h v \<longleftrightarrow> RAM_START \<le> p_vaddr h \<and> unat (p_vaddr h) \<le> PAGE_SIZE * v \<and>
     PAGE_SIZE * v < unat (p_vaddr h) + max (unat (p_filesz h)) (unat (p_memsz h))"

lemma aligned_unat: "w mod n = 0 \<Longrightarrow> unat w mod unat n = 0" for w n :: u32
  by (simp add: unat_mod[symmetric])

lemma nth_file_blocks:
  assumes "\<And>b. length (reader b) = BLOCK_BYTES" "k < BLOCK_BYTES * n"
  shows "file_blocks reader blk n ! k = reader (blk + of_nat (k div BLOCK_BYTES)) ! (k mod BLOCK_BYTES)"
  using assms(2)
proof (induction n)
  case (Suc n)
  note l = length_file_blocks[of reader blk n, OF assms(1)]
  show ?case
  proof (cases "k < BLOCK_BYTES * n")
    case False
    then obtain r where r: "k = BLOCK_BYTES * n + r" "r < BLOCK_BYTES" using Suc.prems le_Suc_ex[of "BLOCK_BYTES * n" k] by auto
    then show ?thesis using l by (simp add: file_blocks_Suc nth_append)
  qed (use Suc l in \<open>simp add: file_blocks_Suc nth_append\<close>)
qed simp

lemma nth_page_of: "j < PAGE_SIZE \<Longrightarrow> page_of d k ! j = (if PAGE_SIZE * k + j < length d then d ! (PAGE_SIZE * k + j) else 0)"
  by (auto simp: page_of_def nth_append)

lemma file_byte_block:
  assumes "p_offset h mod 512 = 0"
  shows "file_byte reader (unat (p_offset h) + k) = reader (p_offset h div 512 + of_nat (k div BLOCK_BYTES)) ! (k mod BLOCK_BYTES)"
proof -
  let ?o = "unat (p_offset h)"
  have o: "?o mod BLOCK_BYTES = 0" using aligned_unat[OF assms] by simp
  have "(?o + k) div BLOCK_BYTES = ?o div BLOCK_BYTES + k div BLOCK_BYTES" "(?o + k) mod BLOCK_BYTES = k mod BLOCK_BYTES"
    using o by (simp_all add: div_add1_eq mod_add_left_eq[symmetric, of ?o])
  moreover have "of_nat (?o div BLOCK_BYTES) = p_offset h div 512"
    by (simp add: unat_div[symmetric, of "p_offset h" 512, simplified])
  ultimately show ?thesis by (simp add: file_byte_def)
qed

lemma seg_data_file:
  assumes "\<And>b. length (reader b) = BLOCK_BYTES" "p_offset h mod 512 = 0"
  shows "length (seg_data reader h) = unat (p_filesz h)"
    "k < unat (p_filesz h) \<Longrightarrow> seg_data reader h ! k = file_byte reader (unat (p_offset h) + k)"
proof -
  let ?n = "unat (p_filesz h)" and ?o = "unat (p_offset h)"
  have n: "?n \<le> BLOCK_BYTES * block_count ?n" using block_count_less[of "block_count ?n" ?n] by linarith
  show "length (seg_data reader h) = ?n"
    using length_file_blocks[of reader "p_offset h div 512" "block_count ?n", OF assms(1)] n by (simp add: seg_data_def)
  assume "k < ?n"
  then show "seg_data reader h ! k = file_byte reader (?o + k)"
    using n nth_file_blocks[of reader k "block_count ?n" "p_offset h div 512", OF assms(1)]
    by (simp add: seg_data_def file_byte_block[OF assms(2)])
qed

text \<open>Later segments leave the pages of earlier ones alone.\<close>

lemma fold_seg_image_keeps: "segs_ok reader hs P \<Longrightarrow> P v = Some pg \<Longrightarrow> fold (seg_image reader) hs P v = Some pg"
proof (induction hs arbitrary: P)
  case (Cons h hs)
  then have "seg_image reader h P v = Some pg" by (auto simp: seg_image_def with_pages_def seg_ok_def)
  then show ?case using Cons by simp
qed simp

lemma fold_seg_image:
  assumes "segs_ok reader hs P" "h \<in> set hs" "RAM_START \<le> p_vaddr h" "k < seg_pages h"
  shows "fold (seg_image reader) hs P (seg_first h + k) = Some (page_of (seg_data reader h) k)"
  using assms(1,2)
proof (induction hs arbitrary: P)
  case (Cons g hs)
  show ?case
  proof (cases "g = h")
    case True
    then have "seg_image reader g P (seg_first h + k) = Some (page_of (seg_data reader h) k)"
      using assms(3,4) by (simp add: seg_image_def with_pages_def leD)
    then show ?thesis using Cons.prems fold_seg_image_keeps by simp
  qed (use Cons in simp)
qed simp

lemma fold_seg_image_other:
  assumes "\<And>h. h \<in> set hs \<Longrightarrow> RAM_START \<le> p_vaddr h \<Longrightarrow> \<not> (seg_first h \<le> v \<and> v < seg_first h + seg_pages h)"
  shows "fold (seg_image reader) hs P v = P v"
  using assms
proof (induction hs arbitrary: P)
  case (Cons h hs)
  have "seg_image reader h P v = P v" using Cons.prems[of h] by (auto simp: seg_image_def with_pages_def not_less)
  then show ?case using Cons by simp
qed simp

lemma segs_ok_user:
  assumes "segs_ok reader hs P" "h \<in> set hs" "RAM_START \<le> p_vaddr h"
  shows "0x80400 \<le> seg_first h" "seg_first h + seg_pages h \<le> 0x80800"
  using assms by (induction hs arbitrary: P) (auto simp: seg_ok_def)

text \<open>The pages of a segment at page boundaries are the pages that have one of its addresses.\<close>

lemma proper_pages:
  assumes "seg_proper h"
  shows "unat (p_vaddr h) = PAGE_SIZE * seg_first h" "seg_pages h = max (page_count (unat (p_filesz h))) (unat (p_memsz h) div PAGE_SIZE)"
    "unat (p_filesz h) \<le> PAGE_SIZE * seg_pages h" "unat (p_memsz h) \<le> PAGE_SIZE * seg_pages h"
proof -
  let ?a = "unat (p_vaddr h)" and ?f = "unat (p_filesz h)" and ?m = "unat (p_memsz h)"
  have "?a mod PAGE_SIZE = 0" using assms aligned_unat[of "p_vaddr h" 4096] by (simp add: seg_proper_def)
  then show a: "?a = PAGE_SIZE * seg_first h" unfolding seg_first_def by (metis add.right_neutral mult_div_mod_eq)
  have "unat (p_vaddr h + p_memsz h) = ?a + ?m" using assms by (subst unat_add_lem[THEN iffD1]) (simp_all add: seg_proper_def)
  then have "unat (p_vaddr h + p_memsz h) div PAGE_SIZE - seg_first h = ?m div PAGE_SIZE" by (simp add: a)
  then show p: "seg_pages h = max (page_count ?f) (?m div PAGE_SIZE)" by (simp add: seg_pages_def)
  show "?f \<le> PAGE_SIZE * seg_pages h" using page_count_le[of ?f "seg_pages h"] p by simp
  have "p_memsz h mod 4096 = 0 \<Longrightarrow> ?m = PAGE_SIZE * (?m div PAGE_SIZE)"
    using aligned_unat[of "p_memsz h" 4096] mult_div_mod_eq[of PAGE_SIZE ?m] by simp
  moreover have "PAGE_SIZE * page_count ?f \<le> PAGE_SIZE * seg_pages h" "PAGE_SIZE * (?m div PAGE_SIZE) \<le> PAGE_SIZE * seg_pages h"
    using p by simp_all
  ultimately show "?m \<le> PAGE_SIZE * seg_pages h" using assms unfolding seg_proper_def by linarith
qed

lemma not_seg_page:
  assumes "seg_proper h" "RAM_START \<le> p_vaddr h" "\<not> seg_page h v"
  shows "\<not> (seg_first h \<le> v \<and> v < seg_first h + seg_pages h)"
proof
  assume v: "seg_first h \<le> v \<and> v < seg_first h + seg_pages h"
  note pp = proper_pages[OF assms(1)]
  let ?f = "unat (p_filesz h)" and ?m = "unat (p_memsz h)"
  define k where "k = v - seg_first h"
  have k: "v = seg_first h + k" "k < seg_pages h" using v by (auto simp: k_def)
  have "PAGE_SIZE * k < ?f \<or> PAGE_SIZE * k < ?m"
  proof (cases "k < page_count ?f")
    case True
    then show ?thesis using page_count_le[of ?f k] by linarith
  next
    case False
    then have "k < ?m div PAGE_SIZE" using k(2) pp(2) by simp
    then have "PAGE_SIZE * Suc k \<le> PAGE_SIZE * (?m div PAGE_SIZE)" by (intro mult_le_mono2) simp
    then show ?thesis using times_div_less_eq_dividend[of PAGE_SIZE ?m] by (simp only: mult_Suc_right) linarith
  qed
  then show False using assms(2,3) pp(1) k(1) by (auto simp: seg_page_def)
qed

text \<open>In a memory that has the pages of the program's image every proper segment is loaded.\<close>

lemma seg_byte_at:
  assumes "seg_proper h" "0x80400 \<le> seg_first h" "seg_first h + seg_pages h \<le> 0x80800" "k < PAGE_SIZE * seg_pages h"
    and "\<And>v. unat v = seg_first h + k div PAGE_SIZE \<Longrightarrow> view st p v = Some (page_of d (k div PAGE_SIZE))"
  shows "byte_at st p (p_vaddr h + of_nat k) = Some (if k < length d then d ! k else 0)"
proof -
  let ?a = "p_vaddr h + of_nat k"
  note v = proper_pages(1)[OF assms(1)]
  have "PAGE_SIZE * (seg_first h + seg_pages h) \<le> PAGE_SIZE * 0x80800" using assms(3) by (rule mult_le_mono2)
  then have lt: "unat (p_vaddr h) + k < 2 ^ 32" using assms(4) v by (simp add: distrib_left)
  then have "unat (of_nat k :: u32) = k" by (intro unat_of_nat_u32) simp
  then have a: "unat ?a = PAGE_SIZE * seg_first h + k" using lt v by (subst unat_add_lem[THEN iffD1]) simp_all
  have "unat (?a div 4096) = seg_first h + k div PAGE_SIZE" using a by (simp add: unat_div)
  from assms(5)[OF this] show ?thesis
    using nth_page_of[of "k mod PAGE_SIZE" d "k div PAGE_SIZE"] by (simp add: byte_at_def a)
qed

lemma program_image_loaded:
  assumes rd: "\<And>b. length (reader b) = BLOCK_BYTES" and ok: "program_ok reader"
    and h: "h \<in> set (headers (reader 0))" "RAM_START \<le> p_vaddr h" "seg_proper h"
    and view: "\<And>v. unat v \<notin> {0x80600, 0x80601, 0x807FE, 0x807FF} \<Longrightarrow> view st p v = program_image reader (headers (reader 0)) (unat v)"
  shows "seg_loaded st p reader h"
proof -
  let ?hs = "headers (reader 0)"
  have so: "segs_ok reader ?hs no_pages" and sp: "\<forall>v \<in> {0x80600, 0x80601, 0x807FE, 0x807FF}. program_image reader ?hs v = None"
    using ok by (simp_all add: program_ok_def)
  note d = seg_data_file[OF rd, of h] and pp = proper_pages(3,4)[OF h(3)]
  have al: "p_offset h mod 512 = 0" using h(3) by (simp add: seg_proper_def)
  have byte: "byte_at st p (p_vaddr h + of_nat k) = Some (if k < length (seg_data reader h) then seg_data reader h ! k else 0)"
    if k: "k < PAGE_SIZE * seg_pages h" for k
  proof (rule seg_byte_at[OF h(3) segs_ok_user[OF so h(1,2)] k])
    fix v :: u32 assume v: "unat v = seg_first h + k div PAGE_SIZE"
    have "k div PAGE_SIZE < seg_pages h" using k by (simp add: less_mult_imp_div_less mult.commute)
    from fold_seg_image[OF so h(1,2) this]
    have i: "program_image reader ?hs (unat v) = Some (page_of (seg_data reader h) (k div PAGE_SIZE))"
      by (simp add: program_image_def no_pages_def v)
    then have "unat v \<notin> {0x80600, 0x80601, 0x807FE, 0x807FF}" using sp by force
    then show "view st p v = Some (page_of (seg_data reader h) (k div PAGE_SIZE))" using view i by simp
  qed
  show ?thesis
    unfolding seg_loaded_def using byte pp d[OF al] by (auto simp: not_less[symmetric])
qed

definition segments_loaded :: "mmu_state \<Rightarrow> i32 \<Rightarrow> (u32 \<Rightarrow> u8 list) \<Rightarrow> bool" where
  "segments_loaded st p reader \<longleftrightarrow>
     (\<forall>h \<in> set (headers (reader 0)). RAM_START \<le> p_vaddr h \<longrightarrow> seg_proper h \<longrightarrow> seg_loaded st p reader h)"

lemma program_image_segments:
  assumes "\<And>b. length (reader b) = BLOCK_BYTES" "program_ok reader"
    and "\<And>v. unat v \<notin> {0x80600, 0x80601, 0x807FE, 0x807FF} \<Longrightarrow> view st p v = program_image reader (headers (reader 0)) (unat v)"
  shows "segments_loaded st p reader"
  unfolding segments_loaded_def by (intro ballI impI) (rule program_image_loaded[OF assms(1,2) _ _ _ assms(3)])

section \<open>An executable of one segment\<close>

definition sample_program :: "u32 \<Rightarrow> u32 \<Rightarrow> u8 list" where
  "sample_program memsz b =
     (if b = 0 then
        put32 (put32 (put32 (put32 (put32 ((replicate 512 0)[44 := 1]) 28 52) 56 512) 60 0x80400000) 68 5) 72 memsz
      else if b = 1 then [1, 2, 3, 4, 5] @ replicate 507 9 else replicate 512 0)"

lemma length_sample_program: "length (sample_program memsz b) = BLOCK_BYTES"
  by (simp add: sample_program_def)

lemma sample_headers:
  "headers (sample_program memsz 0) = [\<lparr>p_offset = 512, p_vaddr = 0x80400000, p_filesz = 5, p_memsz = memsz\<rparr>]"
  "headers_fit (sample_program memsz 0)"
proof -
  have o: "e_phoff (sample_program memsz 0) = 52"
    by (simp add: e_phoff_def sample_program_def get32_put32_other get32_put32_same)
  have n: "e_phnum (sample_program memsz 0) = 1"
    by (simp add: e_phnum_def get16_def sample_program_def put32_def bytes32_def nth_append)
  show "headers_fit (sample_program memsz 0)" by (simp add: headers_fit_def o n)
  show "headers (sample_program memsz 0) = [\<lparr>p_offset = 512, p_vaddr = 0x80400000, p_filesz = 5, p_memsz = memsz\<rparr>]"
    by (simp add: headers_def n header_at_def o) (simp add: sample_program_def get32_put32_other get32_put32_same)
qed

lemma sample_program_ok:
  assumes "unat memsz \<le> 4096 * 16"
  shows "program_ok (sample_program memsz)"
    "program_size (headers (sample_program memsz 0)) = max 1 (unat memsz div 4096)"
    "program_image (sample_program memsz) (headers (sample_program memsz 0)) v =
       with_pages (\<lambda>_. None) 0x80400 [1, 2, 3, 4, 5] (max 1 (unat memsz div 4096)) v"
proof -
  have e: "unat (0x80400000 + memsz) = 0x80400000 + unat memsz"
    using assms by (subst unat_add_lem[THEN iffD1]) simp_all
  have d: "(0x80400000 + unat memsz) div 4096 - 0x80400 = unat memsz div 4096" by simp
  let ?h = "\<lparr>p_offset = 512, p_vaddr = 0x80400000, p_filesz = 5, p_memsz = memsz\<rparr>"
  have f: "seg_first ?h = 0x80400" by (simp add: seg_first_def)
  have s: "seg_pages ?h = max 1 (unat memsz div 4096)" by (simp add: seg_pages_def f e page_count_def)
  have b: "seg_data (sample_program memsz) ?h = [1, 2, 3, 4, 5]"
    by (simp add: seg_data_def file_blocks_def sample_program_def)
  have le: "max 1 (unat memsz div 4096) \<le> 16" using assms by simp
  have i: "program_image (sample_program memsz) (headers (sample_program memsz 0)) w =
      with_pages (\<lambda>_. None) 0x80400 [1, 2, 3, 4, 5] (max 1 (unat memsz div 4096)) w" for w
    by (simp add: program_image_def sample_headers seg_image_def s f b)
  then show "program_image (sample_program memsz) (headers (sample_program memsz 0)) v =
      with_pages (\<lambda>_. None) 0x80400 [1, 2, 3, 4, 5] (max 1 (unat memsz div 4096)) v" .
  show "program_size (headers (sample_program memsz 0)) = max 1 (unat memsz div 4096)"
    by (simp add: program_size_def sample_headers seg_size_def s)
  have "seg_ok ?h no_pages" using le by (simp add: seg_ok_def f s no_pages_def)
  then show "program_ok (sample_program memsz)"
    using le by (simp add: program_ok_def sample_headers(2) i) (simp add: sample_headers(1) with_pages_def)
qed

lemma two_processes_room: "2044 \<le> free_count two_processes"
proof -
  have "{4 ..< 2048} \<subseteq> {i. i < APPS_PAGES_CNT \<and> frame_free two_processes i}"
    by (auto simp: frame_free_def two_processes_table free_page_def)
  then have "card {4 ..< 2048 :: nat} \<le> free_count two_processes"
    unfolding free_count_def by (rule card_mono[rotated]) simp
  then show ?thesis by simp
qed

lemma two_processes_third: "frame_of two_processes 3 v = None" "loadable 3 two_processes"
proof -
  show "frame_of two_processes 3 v = None"
    unfolding frame_of_def find_None_iff Let_def by (simp add: two_processes_table free_page_def)
  show "loadable 3 two_processes" by (simp add: loadable_def two_processes_def)
qed

section \<open>Correctness\<close>

text \<open>C16: Loading a program that fits, with segments that start at a page boundary in memory and at a block
  boundary in the file and whose zeros end at a page boundary or in the last page of their file data,
  gives the new process every byte of every segment at its address: the byte of the file at
  \<open>p_offset + k\<close> at \<open>p_vaddr + k\<close>, and zeros from \<open>p_filesz\<close> up to \<open>p_memsz\<close>. There is an argument page with
  argc, the argv pointers and the argument strings where they point, and pages for system calls and
  the stack, and no page besides these and the pages that a segment reaches into. No other process
  notices.\<close>

theorem elf_load_correct:
  assumes "vm_wf st" "loadable p st" "\<forall>v. frame_of st p v = None" "\<forall>b. length (reader b) = BLOCK_BYTES" "program_ok reader"
    and "program_size (headers (reader 0)) + 4 \<le> free_count st" "argc \<le> CMD_NARGS" "length argv = argc * CMD_ARG_LEN"
    and "\<forall>h \<in> set (headers (reader 0)). RAM_START \<le> p_vaddr h \<longrightarrow> seg_proper h"
  shows "\<exists>st' args. elf_load p reader argc (Some argv) st = Inr st' \<and> vm_wf st' \<and>
     (\<forall>q v. q \<noteq> 0 \<longrightarrow> q \<noteq> p \<longrightarrow> view st' q v = view st q v) \<and>
     (\<forall>h \<in> set (headers (reader 0)). RAM_START \<le> p_vaddr h \<longrightarrow> seg_loaded st' p reader h) \<and>
     (\<forall>v. unat v \<notin> {0x80600, 0x80601, 0x807FE, 0x807FF} \<longrightarrow> (\<forall>h \<in> set (headers (reader 0)). \<not> seg_page h (unat v)) \<longrightarrow>
        view st' p v = None) \<and>
     view st' p 0x80600 = Some args \<and> get32 args 0 = of_nat argc \<and>
     (\<forall>i < argc. get32 args (4 + 4 * i) = APPS_ARG + 68 + of_nat (CMD_ARG_LEN * i)) \<and>
     take (argc * CMD_ARG_LEN) (drop 68 args) = argv \<and>
     view st' p 0x80601 \<noteq> None \<and> view st' p 0x807FE \<noteq> None \<and> view st' p 0x807FF \<noteq> None"
proof -
  let ?hs = "headers (reader 0)"
  have none: "\<And>v. frame_of st p v = None" and rd: "\<And>b. length (reader b) = BLOCK_BYTES" using assms(3,4) by simp_all
  obtain st' old sc s1 s2 where e: "elf_load p reader argc (Some argv) st = Inr st'" "length old = PAGE_SIZE"
    "loads p st st' ((program_image reader ?hs)(0x80600 \<mapsto> args_page argc (Some argv) old, 0x80601 \<mapsto> sc,
       0x807FF \<mapsto> s1, 0x807FE \<mapsto> s2)) (program_size ?hs + 4)"
    by (rule elf_load_loads[OF assms(1,2) none rd assms(5-7)])
  have v: "view st' p w = ((program_image reader ?hs)(0x80600 \<mapsto> args_page argc (Some argv) old, 0x80601 \<mapsto> sc,
       0x807FF \<mapsto> s1, 0x807FE \<mapsto> s2)) (unat w)" for w
    using e(3) by (simp add: loads_def)
  have "segments_loaded st' p reader" by (rule program_image_segments[OF rd assms(5)]) (simp add: v)
  then have segs: "\<forall>h \<in> set ?hs. RAM_START \<le> p_vaddr h \<longrightarrow> seg_loaded st' p reader h"
    using assms(9) by (simp add: segments_loaded_def)
  have other: "view st' p w = None" if "unat w \<notin> {0x80600, 0x80601, 0x807FE, 0x807FF}" "\<forall>h \<in> set ?hs. \<not> seg_page h (unat w)" for w
    using that fold_seg_image_other[of ?hs "unat w" reader no_pages] not_seg_page assms(9)
    by (simp add: v program_image_def no_pages_def)
  have "vm_wf st'" "\<And>q v. q \<noteq> 0 \<Longrightarrow> q \<noteq> p \<Longrightarrow> view st' q v = view st q v" using e(3) by (simp_all add: loads_def)
  then show ?thesis
    using e(1) args_page_correct(1-3)[OF e(2) assms(7,8)] segs other
    by (intro exI[of _ st'] exI[of _ "args_page argc (Some argv) old"]) (simp add: v)
qed

text \<open>A file of five bytes in a segment of two pages.\<close>

theorem elf_load_correct_witness:
  "\<exists>st'. elf_load 3 (sample_program 8192) 1 (Some (replicate 32 65)) two_processes = Inr st' \<and>
     byte_at st' 3 0x80400004 = Some 5 \<and> byte_at st' 3 0x80401FFF = Some 0 \<and> view st' 3 0x80402 = None \<and>
     view st' 1 0x80400 = view two_processes 1 0x80400"
proof -
  let ?h = "\<lparr>p_offset = 512, p_vaddr = 0x80400000, p_filesz = 5, p_memsz = 8192\<rparr> :: elf32_program_header"
  have h: "set (headers (sample_program 8192 0)) = {?h}" by (simp add: sample_headers)
  have pr: "seg_proper ?h" by (simp add: seg_proper_def)
  obtain st' where st': "elf_load 3 (sample_program 8192) 1 (Some (replicate 32 65)) two_processes = Inr st'"
    "\<forall>q v. q \<noteq> 0 \<longrightarrow> q \<noteq> 3 \<longrightarrow> view st' q v = view two_processes q v" "seg_loaded st' 3 (sample_program 8192) ?h"
    "\<forall>v. unat v \<notin> {0x80600, 0x80601, 0x807FE, 0x807FF} \<longrightarrow> \<not> seg_page ?h (unat v) \<longrightarrow> view st' 3 v = None"
    using elf_load_correct[OF vm_wf_two_processes two_processes_third(2), of "sample_program 8192" 1 "replicate 32 65"]
      two_processes_third(1) length_sample_program sample_program_ok(1,2)[of 8192] two_processes_room pr unfolding h by auto
  have b: "file_byte (sample_program 8192) (512 + 4) = 5" by (simp add: file_byte_def sample_program_def)
  have "byte_at st' 3 0x80400004 = Some 5" "byte_at st' 3 0x80401FFF = Some 0"
    using st'(3) b unfolding seg_loaded_def by (auto dest: spec[of _ 4] spec[of _ "0x1FFF"])
  moreover have "view st' 3 0x80402 = None" using st'(4)[rule_format, of "0x80402"] by (simp add: seg_page_def)
  ultimately show ?thesis using st'(1,2) by auto
qed



end
