(* ===== verification/Proc_Correct.thy ===== *)
theory Proc_Correct
  imports Proc Workdir Loader
begin

text \<open>
  What the process server does with a request to start an application.
\<close>

section \<open>Reading an executable from the file server\<close>

text \<open>The blocks that the loader gets: behind the end of the file, what the request left in the buffer.\<close>

definition file_reader :: "(nat \<Rightarrow> block list) \<Rightarrow> u32 \<Rightarrow> u32 \<Rightarrow> u8 list" where
  "file_reader files ino b =
     (if unat b < length (files (unat ino)) then files (unat ino) ! unat b else bytes32 ino @ bytes32 b @ uninit 504)"

definition readable :: "nat \<Rightarrow> (nat \<Rightarrow> block list) \<Rightarrow> u32 \<Rightarrow> bool" where
  "readable nfiles files ino \<longleftrightarrow> unat ino < nfiles \<and> (\<forall>blk \<in> set (files (unat ino)). length blk = BLOCK_SIZE)"

definition set_kernel :: "('t, 'c) world system \<Rightarrow> kernel \<Rightarrow> ('t, 'c) world system" where
  "set_kernel S k = S\<lparr>shared := (shared S)\<lparr>w_kernel := k\<rparr>\<rparr>"

definition set_app_pid :: "('t, 'c) world system \<Rightarrow> i32 \<Rightarrow> ('t, 'c) world system" where
  "set_app_pid S p = S\<lparr>shared := (shared S)\<lparr>app_pid := p\<rparr>\<rparr>"

lemma set_kernel_simps [simp]:
  "w_kernel (shared (set_kernel S k)) = k" "w_disk (shared (set_kernel S k)) = w_disk (shared S)"
  "app_ready old p fs dev (set_kernel S k) = app_ready old p fs dev S"
  "w_kernel (shared (set_app_pid S i)) = w_kernel (shared S)" "w_disk (shared (set_app_pid S i)) = w_disk (shared S)"
  "app_pid (shared (set_app_pid S i)) = i" "app_pid (shared (set_kernel S k)) = app_pid (shared S)"
  "app_ready old p fs dev (set_app_pid S i) = app_ready old p fs dev S"
  "app_pid (shared (set_disk S c)) = app_pid (shared S)" "app_pid (shared (set_mmu S st)) = app_pid (shared S)"
  "w_kernel (shared (set_mmu S st)) = (w_kernel (shared S))\<lparr>mmu := st\<rparr>"
  "w_tty (shared (set_kernel S k)) = w_tty (shared S)" "w_tty (shared (set_app_pid S i)) = w_tty (shared S)"
  "app_pid (shared (set_tty S t)) = app_pid (shared S)" "w_kernel (shared (set_tty S t)) = w_kernel (shared S)"
  by (simp_all add: set_kernel_def set_app_pid_def app_ready_def waiting_def set_disk_def set_tty_def set_mmu_def)

lemma calls_on_kernel: "f (w_kernel (shared S)) = Inr (x, k) \<Longrightarrow> calls old p (on_kernel f) S x (set_kernel S k)"
  unfolding on_kernel_def set_kernel_def by (rule calls_act) simp

lemma calls_put_app_pid: "calls old p (put_world (\<lambda>w. w\<lparr>app_pid := i\<rparr>)) S () (set_app_pid S i)"
  unfolding put_world_def set_app_pid_def by (rule calls_act) simp

context user_system
begin

lemma app_reader:
  "block_reader dev old p (app_read ino) (file_reader files ino) UNIV
    (\<lambda>S. app_ready old p fs dev S \<and> holds (w_disk (shared S)) files m \<and> readable nfiles files ino)"
proof
  fix S :: "('t, 'c) world system" and b
  assume S: "app_ready old p fs dev S \<and> holds (w_disk (shared S)) files m \<and> readable nfiles files ino"
  let ?buf = "bytes32 ino @ bytes32 b @ uninit 504"
  obtain r c where r: "read_op fs ino b ?buf (w_disk (shared S)) = Inr (r, file_reader files ino b, c)" "holds c files m"
    using read_holds[of "w_disk (shared S)" files m ino b ?buf] S
    by (auto simp: file_reader_def readable_def split: if_splits)
  have l: "length (file_reader files ino b) = BLOCK_SIZE"
    using S by (auto simp: file_reader_def uninit_def readable_def)
  have "calls old p (file_read ino b) S (if r = 0 then 0 else - 1, file_reader files ino b) (set_disk S c)"
    by (rule calls_file_read[OF _ _ _ r(1) l]) (use S in \<open>simp_all add: app_ready_def\<close>)
  then have "calls old p (app_read ino b) S (file_reader files ino b) (set_disk S c)"
    unfolding app_read_def by (rule calls_bind) (simp add: calls_Ret)
  then show "\<exists>c. calls old p (app_read ino b) S (file_reader files ino b) (set_disk S c) \<and>
      app_ready old p fs dev (set_disk S c) \<and> holds (w_disk (shared (set_disk S c))) files m \<and> readable nfiles files ino"
    using S r(2) by (intro exI[of _ c]) simp
next
  fix s :: "u8 list" and t :: 't
  show "\<exists>t'. term_write dev s t = Inr t'" using term_write_written[of s t] by blast
qed simp_all

lemma app_spawn_loads:
  assumes a: "app_ready old p fs dev S" "holds (w_disk (shared S)) files m"
    and root: "0 < nfiles" "directory files 0 res" "map_of res (str ''bin/'') = Some b" "4 \<le> length (dir_text res)"
    and bin: "b < nfiles" "directory files b bes" "name_ok (cstr (drop 8 buf))"
      "\<not> numeric (cstr (drop 8 buf))" "strlen (drop 8 buf) \<le> length (dir_text bes)"
      "map_of bes (cstr (drop 8 buf)) = Some i"
    and fl: "i < nfiles" "\<forall>blk \<in> set (files i). length blk = BLOCK_SIZE"
    and args: "last_arg_char (unat (get32 buf 4)) buf = Inr ch" "argc = (if ch = 38 then unat (get32 buf 4) - 1 else unat (get32 buf 4))"
      "argc * CMD_ARG_LEN \<le> length (drop 8 buf)"
    and k: "proc_alloc (w_kernel (shared S)) = Inr (q, k1)"
      "elf_load q (file_reader files (of_nat i)) argc (Some (drop 8 buf)) (mmu k1) = Inr st'"
  shows "\<exists>S'. calls old p (app_spawn dev buf) S CMD_OK S' \<and> w_kernel (shared S') = proc_set_ready q (k1\<lparr>mmu := st'\<rparr>) \<and>
    app_pid (shared S') = q \<and> holds (w_disk (shared S')) files m"
proof -
  let ?name = "drop 8 buf"
  have bi: "b < 1000" "i < 1000"
    using root(2,3) bin(2,6) by (auto simp: directory_def entries_ok_def list_all_iff dest: map_of_SomeD)
  then have u: "unat (of_nat b :: i32) = b" "unat (of_nat i :: i32) = i" "\<not> (of_nat i :: i32) <s 0"
    by (auto intro: unat_of_nat_u32 simp: of_nat_not_negative)
  have nb: "cstr (str ''bin/'') = str ''bin/''" "name_ok (str ''bin/'')" "\<not> numeric (str ''bin/'')" "strlen (str ''bin/'') = 4"
    by (simp_all add: cstr_def str_def name_ok_def numeric_def isdigit_def strlen_def)
  obtain c1 where c1: "calls old p (dir_lookup 0 (str ''bin/'')) S (of_nat b) (set_disk S c1)" "holds c1 files m"
    using lookup[OF a, of 0 res "str ''bin/''"] root nb by auto
  obtain c2 where c2: "calls old p (dir_lookup (of_nat b) ?name) (set_disk S c1) (of_nat i) (set_disk S c2)" "holds c2 files m"
    using lookup[of old p "set_disk S c1" files m "of_nat b" bes ?name] a(1) c1(2) bin u by auto
  let ?T = "set_app_pid (set_kernel (set_disk S c2) k1) q"
  have "readable nfiles files (of_nat i)" using fl u by (simp add: readable_def)
  with block_reader.elf_load_agrees[OF app_reader[of old p "of_nat i" files m], of ?T q argc "Some (drop 8 buf)" st']
  obtain c3 t3 where c3: "calls old p (elf_load_prog dev q (app_read (of_nat i)) argc (Some (drop 8 buf))) ?T () (set_mmu (set_tty (set_disk ?T c3) t3) st')"
    "holds c3 files m" using a(1) c2(2) k(2) by auto
  let ?U = "set_mmu (set_tty (set_disk ?T c3) t3) st'"
  let ?V = "set_kernel ?U (proc_set_ready q (w_kernel (shared ?U)))"
  have kk: "calls old p (on_kernel proc_alloc) (set_disk S c2) q (set_kernel (set_disk S c2) k1)"
    by (rule calls_on_kernel) (simp add: set_disk_def k(1))
  have rd: "calls old p (on_kernel (\<lambda>k. Inr ((), proc_set_ready q k))) ?U () ?V" by (rule calls_on_kernel) simp
  have "calls old p (app_spawn dev buf) S CMD_OK ?V"
    unfolding app_spawn_def Let_def
    apply (rule calls_bind[OF c1(1)], rule calls_bind[OF c2(1)])
    apply (simp only: u(3) if_False, rule calls_bind[OF calls_of_res[OF args(1)]])
    apply (simp only: args(2)[symmetric], rule calls_bind[OF kk], rule calls_bind[OF calls_put_app_pid])
    using args(3) apply (simp only: not_less[symmetric] if_False)
    apply (rule calls_bind[OF c3(1)], rule calls_bind[OF rd], rule calls_Ret)
    done
  moreover have "w_kernel (shared ?V) = proc_set_ready q (k1\<lparr>mmu := st'\<rparr>)" by (simp add: set_disk_def)
  ultimately show ?thesis using c3(2) by (intro exI[of _ ?V]) simp
qed

end

interpretation board_reader: block_reader "tty_init ARTY litex_sim_hw" "replicate 1024 0" p "app_read ino" "file_reader files ino" UNIV
  "\<lambda>S. app_ready (replicate 1024 0) p (file_system (disk_read SD_CARD (\<lambda>_. 0) ARTY card_x) (disk_write SD_CARD ARTY card_x))
       (tty_init ARTY litex_sim_hw) S \<and>
     (card_ready (w_disk (shared S)) \<and> disk_holds 4096 128 (fs_blocks fst (w_disk (shared S))) files m) \<and> readable 128 files ino"
  for p ino files m
  by (rule board.app_reader)

section \<open>Starting an application\<close>

text \<open>Every block of a file is a block of the disk or the null block.\<close>

lemma lookup_block: "lookup d l b off = null_block \<or> lookup d l b off \<in> d ` nodes d l b"
proof (induction l arbitrary: b)
  case (Suc l)
  let ?i = "off div 128 ^ l mod 128"
  have "b \<noteq> 0 \<Longrightarrow> nodes d l (refs (d b) ?i) \<subseteq> nodes d (Suc l) b" by (rule nodes_child) simp_all
  then show ?case using Suc.IH[of "refs (d b) ?i"] by (auto simp: lookup.simps(2))
qed simp

lemma disk_holds_blocks:
  assumes "disk_holds nb N d files m" "\<And>k. k < nb \<Longrightarrow> length (d k) = BLOCK_SIZE" "j < N" "blk \<in> set (files j)"
  shows "length blk = BLOCK_SIZE"
proof -
  obtain F where F: "treedisk_inv nb d F" "n_files d = N" "file_of d j = files j"
    using assms(1,3) by (auto simp: disk_holds_def)
  obtain off where "blk = lookup d (file_depth d j) (file_root d j) off"
    using assms(4) unfolding F(3)[symmetric] by (auto simp: file_of_def file_block_def)
  moreover have "k < nb" if "k \<in> nodes d (file_depth d j) (file_root d j)" for k
    using F(1,2) assms(3) that unfolding treedisk_inv_def file_nodes_def by blast
  ultimately show ?thesis using lookup_block[of d "file_depth d j" "file_root d j" off] assms(2) by (auto simp: null_block_def)
qed

lemma proc_alloc_mmu: "proc_alloc k = Inr (q, k1) \<Longrightarrow> mmu k1 = mmu k"
  by (auto simp: proc_alloc_def Let_def split: option.splits)

lemma args_page_take: "args_page argc (Some a) old = args_page argc (Some (take (argc * CMD_ARG_LEN) a)) old"
  by (simp add: args_page_def)

lemma length_file_reader:
  "\<forall>blk \<in> set (files (unat ino)). length blk = BLOCK_SIZE \<Longrightarrow> length (file_reader files ino b) = BLOCK_BYTES"
  by (auto simp: file_reader_def uninit_def)

text \<open>C8: Starting an application from the disk. When the process server, with the file server on an SD
  card, gets a request whose first argument names an entry of /bin, and a slot for a process and
  enough pages are free, then it can run to the answer CMD_OK, and then there is a new process
  that is ready; its memory has the pages that the loader makes of the executable file, which hold every
  byte of its page-aligned segments at its address, with the arguments of the request
  (without a final \<open>&\<close>) in the argument page; and every other process's memory and all files are as
  before.\<close>

theorem app_spawn_starts_program:
  assumes "sd_card plat x nblocks ready data" "8192 \<le> nblocks" "nblocks \<le> 2 ^ 32" "uart plat hw rx tx busy"
    and "app_ready old p (file_system (disk_read SD_CARD rom plat x) (disk_write SD_CARD plat x)) (tty_init plat hw) S"
    and "ready (w_disk (shared S))" "disk_holds 4096 128 (fs_blocks data (w_disk (shared S))) files m"
    and "directory files 0 res" "map_of res (str ''bin/'') = Some b" "4 \<le> length (dir_text res)" "b < 128" "directory files b bes"
    and "name = cstr (drop 8 buf)" "name_ok name" "\<not> numeric name" "length name \<le> length (dir_text bes)"
      "map_of bes name = Some i" "i < 128"
    and "last_arg_char (unat (get32 buf 4)) buf = Inr ch" "argc = (if ch = 38 then unat (get32 buf 4) - 1 else unat (get32 buf 4))"
      "argc \<le> CMD_NARGS" "argc * CMD_ARG_LEN + 8 \<le> length buf"
    and "k = w_kernel (shared S)" "proc_alloc k = Inr (q, k1)" "vm_wf (mmu k)" "loadable q (mmu k)" "\<forall>v. frame_of (mmu k) q v = None"
    and "reader = file_reader files (of_nat i)" "program_ok reader" "program_size (headers (reader 0)) + 4 \<le> free_count (mmu k)"
  shows "\<exists>S' st args. calls old p (app_spawn (tty_init plat hw) buf) S CMD_OK S' \<and>
     w_kernel (shared S') = proc_set_ready q (k1\<lparr>mmu := st\<rparr>) \<and> app_pid (shared S') = q \<and> vm_wf st \<and>
     (\<forall>r v. r \<noteq> 0 \<longrightarrow> r \<noteq> q \<longrightarrow> view st r v = view (mmu k) r v) \<and>
     (\<forall>v. unat v \<notin> {0x80600, 0x80601, 0x807FE, 0x807FF} \<longrightarrow> view st q v = program_image reader (headers (reader 0)) (unat v)) \<and>
     segments_loaded st q reader \<and>
     view st q 0x80600 = Some args \<and> get32 args 0 = of_nat argc \<and>
     take (argc * CMD_ARG_LEN) (drop 68 args) = take (argc * CMD_ARG_LEN) (drop 8 buf) \<and>
     ready (w_disk (shared S')) \<and> disk_holds 4096 128 (fs_blocks data (w_disk (shared S'))) files m"
proof -
  have i: "unat (of_nat i :: u32) = i" using assms(18) by (intro unat_of_nat_u32) simp
  have fl: "\<forall>blk \<in> set (files i). length blk = BLOCK_SIZE"
    using disk_holds_blocks[OF assms(7) _ assms(18)] block_store.length_contents[OF fs_disk_block_store[OF assms(1-3)] assms(6)] by blast
  have rd: "length (reader v) = BLOCK_BYTES" for v unfolding assms(28) by (rule length_file_reader) (simp add: i fl)
  obtain st old' sc s1 s2 where e: "elf_load q reader argc (Some (drop 8 buf)) (mmu k) = Inr st" "length old' = PAGE_SIZE"
    "loads q (mmu k) st ((program_image reader (headers (reader 0)))(0x80600 \<mapsto> args_page argc (Some (drop 8 buf)) old', 0x80601 \<mapsto> sc,
       0x807FF \<mapsto> s1, 0x807FE \<mapsto> s2)) (program_size (headers (reader 0)) + 4)"
    by (rule elf_load_loads[OF assms(25,26) _ rd assms(29,30,21)]) (use assms(27) in blast)
  define args where "args = args_page argc (Some (take (argc * CMD_ARG_LEN) (drop 8 buf))) old'"
  have v: "view st q w = ((program_image reader (headers (reader 0)))(0x80600 \<mapsto> args, 0x80601 \<mapsto> sc, 0x807FF \<mapsto> s1, 0x807FE \<mapsto> s2)) (unat w)" for w
    using e(3) by (simp add: loads_def args_page_take[of argc "drop 8 buf"] args_def)
  have la: "length (take (argc * CMD_ARG_LEN) (drop 8 buf)) = argc * CMD_ARG_LEN" using assms(22) by simp
  note args = args_page_correct(1,3)[OF e(2) assms(21) la, folded args_def]
  have o: "vm_wf st" "\<forall>r v. r \<noteq> 0 \<longrightarrow> r \<noteq> q \<longrightarrow> view st r v = view (mmu k) r v" using e(3) by (simp_all add: loads_def)
  have "\<exists>S'. calls old p (app_spawn (tty_init plat hw) buf) S CMD_OK S' \<and> w_kernel (shared S') = proc_set_ready q (k1\<lparr>mmu := st\<rparr>) \<and>
    app_pid (shared S') = q \<and>
    ready (w_disk (shared S')) \<and> disk_holds 4096 128 (fs_blocks data (w_disk (shared S'))) files m"
    by (rule user_system.app_spawn_loads[OF user_system_on[OF assms(1-4)] assms(5) _ _ assms(8-12) _ _ _ _ assms(18) fl assms(19,20) _ assms(24)[unfolded assms(23)]])
      (use assms e(1) proc_alloc_mmu[OF assms(24)] in \<open>simp_all add: strlen_def\<close>)
  then obtain S' where S': "calls old p (app_spawn (tty_init plat hw) buf) S CMD_OK S'" "w_kernel (shared S') = proc_set_ready q (k1\<lparr>mmu := st\<rparr>)"
    "app_pid (shared S') = q" "ready (w_disk (shared S'))" "disk_holds 4096 128 (fs_blocks data (w_disk (shared S'))) files m" by blast
  have segs: "segments_loaded st q reader" by (rule program_image_segments[OF rd assms(29)]) (simp add: v)
  show ?thesis by (intro exI[of _ S'] exI[of _ st] exI[of _ args] conjI S' o segs args) (simp_all add: v)
qed

section \<open>An application of the disk image\<close>

definition prog_elf :: "u8 list" where
  "prog_elf = sample_program 5 0 @ sample_program 5 1"

definition prog_apps :: "(u8 list \<times> u8 list) list" where
  "prog_apps = [(str ''prog.elf'', prog_elf)]"

lemma prog_bin_text:
  "bin_text prog_apps = str ''./   6 ../   0 prog   7 ''" "dir_text (bin_entries prog_apps) = str ''./   6 ../   0 prog   7 ''"
proof -
  show bt: "bin_text prog_apps = str ''./   6 ../   0 prog   7 ''"
    by (simp add: prog_apps_def bin_text_def file_entry_def str_def dec.simps pad_left_def numeral_3_eq_3)
  show "dir_text (bin_entries prog_apps) = str ''./   6 ../   0 prog   7 ''"
    using bin_text_entries[of prog_apps] bt by (simp add: prog_apps_def)
qed

lemma prog_image:
  obtains img files where "mkfs_main 1 prog_apps (replicate 256 0) fs_init = Inr img" "ram_ok img"
    "disk_holds 4096 128 (ram_block img) files 0" "directory files 0 (mkfs_dirs_of 0)" "directory files 6 (bin_entries prog_apps)"
    "files 7 = [sample_program 5 0, sample_program 5 1]"
proof -
  have l: "length prog_elf = 1024" by (simp add: prog_elf_def length_sample_program)
  have "sublist (str ''.elf'') (str ''prog.elf'')" by code_simp
  then have apps: "prog_apps = filter is_app prog_apps" by (simp add: prog_apps_def is_app_def)
  obtain img files where i: "mkfs_main 1 prog_apps (replicate 256 0) fs_init = Inr img" "ram_ok img"
    "disk_holds 4096 128 (ram_block img) files 0" "mkfs_holds files prog_apps"
    "files 6 = [bin_text prog_apps @ replicate (256 - length (bin_text prog_apps)) 0 @ replicate 256 0]"
    using mkfs_image[OF apps, of "replicate 256 0"] prog_bin_text(1) l
    by (auto simp: prog_apps_def app_blocks_def nblocks_of_def str_def)
  have "files 0 = [dir_block (dir_text (mkfs_dirs_of 0))]" using i(4) by (simp add: mkfs_holds_def mkfs_dirs_text)
  then have d0: "directory files 0 (mkfs_dirs_of 0)"
    using text_file_dir_block[of files 0 "dir_text (mkfs_dirs_of 0)"] zero_notin_dir_text[OF mkfs_dirs_ok[of 0]] mkfs_dirs_ok[of 0]
    by (simp add: directory_def mkfs_dirs_text mkfs_contents_def)
  have e6: "entries_ok (bin_entries prog_apps)" by (simp add: bin_entries_def prog_apps_def entries_ok_def name_ok_def str_def)
  note bt = prog_bin_text(1) and t6 = prog_bin_text(2)
  have "files 6 = [dir_block (dir_text (bin_entries prog_apps))]"
    unfolding i(5) bt t6 by (simp add: dir_block_def replicate_add[symmetric])
  then have d6: "directory files 6 (bin_entries prog_apps)"
    using text_file_dir_block[of files 6 "dir_text (bin_entries prog_apps)"] zero_notin_dir_text[OF e6] e6
    by (simp add: directory_def t6)
  have len: "length blk = BLOCK_SIZE" if "blk \<in> set (files 7)" for blk
    using disk_holds_blocks[OF i(3) _ _ that] ram.length_contents[OF i(2)] by simp
  have st: "length (files 7) = 2" "take 1024 (concat (files 7)) = prog_elf"
    using i(4) l by (simp_all add: mkfs_holds_def prog_apps_def stores_def nblocks_of_def)
  then obtain b0 b1 where b: "files 7 = [b0, b1]" by (auto simp: numeral_2_eq_2 length_Suc_conv)
  have "b0 @ b1 = sample_program 5 0 @ sample_program 5 1" using st(2) len b by (simp add: prog_elf_def)
  then have "files 7 = [sample_program 5 0, sample_program 5 1]" using b len length_sample_program by simp
  then show thesis using that i(1-3) d0 d6 by blast
qed

lemma sample_reader:
  assumes "reader 0 = sample_program 5 0" "reader 1 = sample_program 5 1"
  shows "program_ok reader" "program_size (headers (reader 0)) = 1"
    "program_image reader (headers (reader 0)) v = with_pages (\<lambda>_. None) 0x80400 [1, 2, 3, 4, 5] 1 v"
proof -
  let ?h = "\<lparr>p_offset = 512, p_vaddr = 0x80400000, p_filesz = 5, p_memsz = 5\<rparr> :: elf32_program_header"
  have "seg_data reader ?h = seg_data (sample_program 5) ?h"
    by (simp add: seg_data_def file_blocks_def assms)
  then have i: "program_image reader [?h] = program_image (sample_program 5) [?h]"
    by (simp add: program_image_def seg_image_def)
  note s = sample_program_ok[of 5, simplified sample_headers, simplified]
  show "program_image reader (headers (reader 0)) v = with_pages (\<lambda>_. None) 0x80400 [1, 2, 3, 4, 5] 1 v"
    "program_size (headers (reader 0)) = 1" using s(2,3) by (simp_all add: assms(1) sample_headers i)
  show "program_ok reader" using s(1) by (simp add: program_ok_def assms(1) sample_headers i)
qed

definition spawn_prog :: "u8 list" where
  "spawn_prog = proc_request PROC_SPAWN 1 (str ''prog'' @ replicate 508 0)"

lemma spawn_prog_request:
  "length spawn_prog = 520" "get32 spawn_prog 4 = 1" "drop 8 spawn_prog = str ''prog'' @ replicate 508 0"
  "last_arg_char 1 spawn_prog = Inr 112" "cstr (drop 8 spawn_prog) = str ''prog''"
proof -
  have b: "length (bytes32 w) = 4" for w by (simp add: bytes32_def)
  show d: "length spawn_prog = 520" "drop 8 spawn_prog = str ''prog'' @ replicate 508 0"
    by (simp_all add: spawn_prog_def proc_request_def b str_def)
  show "get32 spawn_prog 4 = 1" by (simp add: spawn_prog_def proc_request_def bytes32_def get32_def str_def)
  have "spawn_prog ! 8 = 112" using nth_drop[of 8 spawn_prog 0] d by (simp add: str_def)
  then show "last_arg_char 1 spawn_prog = Inr 112" by (simp add: last_arg_char_def d)
  show "cstr (drop 8 spawn_prog) = str ''prog''" unfolding d by (simp add: cstr_def str_def)
qed

text \<open>A kernel with two processes after five were started.\<close>

definition used_kernel :: kernel where
  "used_kernel = talking\<lparr>last_pid := 4\<rparr>"

lemma used_kernel_simps: "mmu used_kernel = two_processes" "loadable 5 two_processes" "frame_of two_processes 5 v = None"
proof -
  show "mmu used_kernel = two_processes" by (simp add: used_kernel_def talking_def)
  show "frame_of two_processes 5 v = None"
    unfolding frame_of_def find_None_iff Let_def by (simp add: two_processes_table free_page_def)
  show "loadable 5 two_processes" by (simp add: loadable_def two_processes_def)
qed

lemma proc_alloc_used: "\<exists>k1. proc_alloc used_kernel = Inr (5, k1)"
proof -
  have "[0 ..< MAX_NPROCESS] = 0 # 1 # 2 # [3 ..< MAX_NPROCESS]" by (simp add: upt_conv_Cons)
  then have "find (\<lambda>i. status (proc_set used_kernel ! i) = PROC_UNUSED) [0 ..< MAX_NPROCESS] = Some 2"
    by (simp add: used_kernel_def talking_nth no_process_def)
  then show ?thesis by (simp add: proc_alloc_def Let_def) (simp add: used_kernel_def)
qed

theorem app_spawn_starts_program_witness:
  "\<exists>img S' k1 st. mkfs_main 1 prog_apps (replicate 256 0) fs_init = Inr img \<and> proc_alloc used_kernel = Inr (5, k1) \<and>
     calls (replicate 1024 0) GPID_PROCESS (app_spawn (tty_init ARTY litex_sim_hw) spawn_prog) (set_kernel (board_system img 0 [47]) used_kernel) CMD_OK S' \<and>
     w_kernel (shared S') = proc_set_ready 5 (k1\<lparr>mmu := st\<rparr>) \<and>
     view st 5 0x80400 = Some ([1, 2, 3, 4, 5] @ replicate 4091 0)"
proof -
  obtain img files where i: "mkfs_main 1 prog_apps (replicate 256 0) fs_init = Inr img" "ram_ok img"
    "disk_holds 4096 128 (ram_block img) files 0" "directory files 0 (mkfs_dirs_of 0)" "directory files 6 (bin_entries prog_apps)"
    "files 7 = [sample_program 5 0, sample_program 5 1]" by (rule prog_image)
  let ?S = "set_kernel (board_system img 0 [47]) used_kernel"
  have S: "w_disk (shared (board_system img 0 [47])) = image_card img" "w_kernel (shared ?S) = used_kernel" by (simp_all add: board_system_def)
  have rdy: "app_ready (replicate 1024 0) GPID_PROCESS (file_system (disk_read SD_CARD (\<lambda>_. 0) ARTY card_x) (disk_write SD_CARD ARTY card_x))
      (tty_init ARTY litex_sim_hw) ?S" by (simp add: app_ready_board)
  obtain k1 where k1: "proc_alloc used_kernel = Inr (5, k1)" using proc_alloc_used by blast
  define reader where "reader = file_reader files (of_nat 7)"
  have rd: "reader 0 = sample_program 5 0" "reader 1 = sample_program 5 1" by (simp_all add: reader_def file_reader_def i(6))
  note r = sample_reader[OF rd]
  have n: "name_ok (str ''prog'')" "\<not> numeric (str ''prog'')" by (simp_all add: name_ok_def numeric_def str_def isdigit_def)
  have root: "map_of (mkfs_dirs_of 0) (str ''bin/'') = Some 6" "4 \<le> length (dir_text (mkfs_dirs_of 0))"
    by (simp add: mkfs_dirs_of_def str_def) (simp add: mkfs_dirs_text mkfs_contents_def str_def)
  have bin: "map_of (bin_entries prog_apps) (str ''prog'') = Some 7" "4 \<le> length (dir_text (bin_entries prog_apps))"
    by (simp_all add: prog_bin_text(2)) (simp_all add: bin_entries_def prog_apps_def str_def)
  have "\<exists>S' st args. calls (replicate 1024 0) GPID_PROCESS (app_spawn (tty_init ARTY litex_sim_hw) spawn_prog) ?S CMD_OK S' \<and>
     w_kernel (shared S') = proc_set_ready 5 (k1\<lparr>mmu := st\<rparr>) \<and> app_pid (shared S') = 5 \<and> vm_wf st \<and>
     (\<forall>r v. r \<noteq> 0 \<longrightarrow> r \<noteq> 5 \<longrightarrow> view st r v = view (mmu used_kernel) r v) \<and>
     (\<forall>v. unat v \<notin> {0x80600, 0x80601, 0x807FE, 0x807FF} \<longrightarrow> view st 5 v = program_image reader (headers (reader 0)) (unat v)) \<and>
     segments_loaded st 5 reader \<and>
     view st 5 0x80600 = Some args \<and> get32 args 0 = of_nat 1 \<and>
     take (1 * CMD_ARG_LEN) (drop 68 args) = take (1 * CMD_ARG_LEN) (drop 8 spawn_prog) \<and>
     card_ready (w_disk (shared S')) \<and> disk_holds 4096 128 (fs_blocks fst (w_disk (shared S'))) files 0"
    by (rule app_spawn_starts_program[OF sd_card_sim[of 8192] _ _ litex_sim rdy _ _ i(4) root _ i(5) spawn_prog_request(5)[symmetric]
        n _ bin(1) _ _ _ _ _ S(2)[symmetric] k1 _ _ _ reader_def r(1), where ch = 112])
      (use image_card_ready[OF i(2)] i(3) bin(2) spawn_prog_request vm_wf_two_processes used_kernel_simps two_processes_room r(2)
       in \<open>simp_all add: S str_def del: One_nat_def\<close>)
  then obtain S' st where "calls (replicate 1024 0) GPID_PROCESS (app_spawn (tty_init ARTY litex_sim_hw) spawn_prog) ?S CMD_OK S'"
    "w_kernel (shared S') = proc_set_ready 5 (k1\<lparr>mmu := st\<rparr>)"
    "\<forall>v. unat v \<notin> {0x80600, 0x80601, 0x807FE, 0x807FF} \<longrightarrow> view st 5 v = program_image reader (headers (reader 0)) (unat v)" by blast
  moreover from this(3) have "view st 5 0x80400 = Some ([1, 2, 3, 4, 5] @ replicate 4091 0)"
    by (simp add: r(3) with_pages_def page_of_def)
  ultimately show ?thesis using i(1) k1 by blast
qed

end
