(* ===== verification/Lifecycle.thy ===== *)
theory Lifecycle
  imports Ipc
begin

text \<open>
  Creating and ending processes (\<open>proc_alloc\<close>, \<open>proc_set_ready\<close> and \<open>proc_free\<close> of
  grass/process.c), which GPID_PROCESS calls while it runs.
\<close>

section \<open>Creating\<close>

lemma proc_alloc_cases:
  obtains (full) "\<And>i. i < MAX_NPROCESS \<Longrightarrow> status (proc_set st ! i) \<noteq> PROC_UNUSED"
      "proc_alloc st = Inl (FATAL ''proc_alloc: reach the limit of %d processes'')"
  | (slot) i where "i < MAX_NPROCESS" "status (proc_set st ! i) = PROC_UNUSED"
      "proc_alloc st = Inr (last_pid st + 1, st\<lparr>last_pid := last_pid st + 1, proc_set := (proc_set st)[i :=
            (proc_set st ! i)\<lparr>pid := last_pid st + 1, status := PROC_LOADING\<rparr>]\<rparr>)"
proof (cases "find (\<lambda>i. status (proc_set st ! i) = PROC_UNUSED) [0 ..< MAX_NPROCESS]")
  case None
  then have "proc_alloc st = Inl (FATAL ''proc_alloc: reach the limit of %d processes'')" by (simp add: proc_alloc_def)
  with None show thesis using full by (auto simp: find_None_iff)
next
  case (Some i)
  then have "i < MAX_NPROCESS" "status (proc_set st ! i) = PROC_UNUSED" by (auto simp: find_Some_iff)
  then show thesis using slot Some by (simp add: proc_alloc_def Let_def)
qed

lemma less_next_pid:
  fixes n :: u32
  assumes "n + 1 \<noteq> 0"
  shows "n < n + 1" "p \<le> n \<Longrightarrow> p \<le> n + 1" "p \<le> n \<Longrightarrow> p \<noteq> n + 1"
proof -
  have "1 + n \<noteq> 0" using assms by (simp add: add.commute)
  then have "unat (1 + n) = Suc (unat n)" by (rule unatSuc)
  then show l: "n < n + 1" by (simp add: word_less_nat_alt add.commute)
  show "p \<le> n \<Longrightarrow> p \<le> n + 1" "p \<le> n \<Longrightarrow> p \<noteq> n + 1" using l by (auto intro: order.trans less_imp_le)
qed

lemma proc_alloc_kinv:
  assumes inv: "kinv st" and nw: "last_pid st + 1 \<noteq> 0"
    and i: "i < MAX_NPROCESS" "status (proc_set st ! i) = PROC_UNUSED"
  defines "st' \<equiv> st\<lparr>last_pid := last_pid st + 1, proc_set := (proc_set st)[i :=
            (proc_set st ! i)\<lparr>pid := last_pid st + 1, status := PROC_LOADING\<rparr>]\<rparr>"
  shows "kinv st'"
proof -
  let ?p = "(proc_set st ! i)\<lparr>pid := last_pid st + 1, status := PROC_LOADING\<rparr>"
  have wf: "procs_wf st" "ipc_wf st" "calls_wf st" "vm_wf (mmu st)" and c: "curr_proc_idx st < MAX_NPROCESS"
    and run: "status (proc_set st ! curr_proc_idx st) = PROC_RUNNING"
    using inv by (auto simp: kinv_def kwf_def core_ok_def curr_proc_def)
  have len: "length (proc_set st) = MAX_NPROCESS + 1" using procs_wfD(1)[OF wf(1) c] .
  have ps: "proc_set st' ! k = (if k = i then ?p else proc_set st ! k)" if "k < MAX_NPROCESS" for k
    using that len by (simp add: st'_def)
  have st': "last_pid st' = last_pid st + 1" "length (proc_set st') = MAX_NPROCESS + 1" "mmu st' = mmu st"
    "curr_proc_idx st' = curr_proc_idx st" "core_ok st' = core_ok st"
    using len by (simp_all add: st'_def curr_proc_idx_def core_ok_def)
  have ic: "i \<noteq> curr_proc_idx st" using i(2) run by auto
  note next_pid = less_next_pid[OF nw]
  have "procs_wf st'"
    unfolding procs_wf_def Let_def st'(1,2)
  proof (intro conjI allI impI)
    fix k assume k: "k < MAX_NPROCESS"
    note w = procs_wfD[OF wf(1) k]
    show "pid (proc_set st' ! k) \<noteq> 0" if "status (proc_set st' ! k) \<noteq> PROC_UNUSED"
      using that w(2) ps[OF k] nw by (auto split: if_splits)
    show "pid (proc_set st' ! k) \<le> last_pid st + 1" "length (saved_registers (proc_set st' ! k)) = SAVED_REGISTER_NUM"
      using w(3,4) ps[OF k] next_pid(2) by auto
    show "k = l" if l: "l < MAX_NPROCESS" "pid (proc_set st' ! l) = pid (proc_set st' ! k) \<and> pid (proc_set st' ! k) \<noteq> 0" for l
      using w(5)[OF l(1)] l(2) ps[OF k] ps[OF l(1)] next_pid(3)[OF procs_wfD(3)[OF wf(1) k]]
        next_pid(3)[OF procs_wfD(3)[OF wf(1) l(1)]] by (auto split: if_splits)
  qed simp
  moreover have "ipc_wf st'"
    unfolding ipc_wf_def Let_def st'(1)
  proof (intro allI impI)
    fix k assume k: "k < MAX_NPROCESS" and d: "delivered (proc_set st' ! k)"
    have ki: "proc_set st' ! k = proc_set st ! k" using ps[OF k] d by (auto simp: delivered_def split: if_splits)
    then have old: "sc_sender (syscall (proc_set st ! k)) \<noteq> 0" "sc_sender (syscall (proc_set st ! k)) \<le> last_pid st"
      "\<And>l. l < MAX_NPROCESS \<Longrightarrow> pid (proc_set st ! l) = sc_sender (syscall (proc_set st ! k)) \<Longrightarrow> sender_of (proc_set st ! k) (proc_set st ! l)"
      using wf(2) k d by (auto simp: ipc_wf_def Let_def)
    then show "sc_sender (syscall (proc_set st' ! k)) \<noteq> 0 \<and> sc_sender (syscall (proc_set st' ! k)) \<le> last_pid st + 1 \<and>
      (\<forall>l < MAX_NPROCESS. pid (proc_set st' ! l) = sc_sender (syscall (proc_set st' ! k)) \<longrightarrow>
        sender_of (proc_set st' ! k) (proc_set st' ! l))"
      unfolding ki using ps next_pid(2,3)[OF old(2)] by (auto split: if_splits)
  qed
  moreover have "calls_wf st'" using wf(3) ps by (auto simp: calls_wf_def)
  moreover have "only_current_runs st'"
    unfolding only_current_runs_def st'(4)
  proof (intro allI impI)
    fix k assume k: "k < MAX_NPROCESS" "status (proc_set st' ! k) = PROC_RUNNING"
    then have "status (proc_set st ! k) = PROC_RUNNING" using ps[OF k(1)] by (simp split: if_splits)
    then show "k = curr_proc_idx st" using inv k(1) unfolding kinv_def only_current_runs_def by blast
  qed
  ultimately show ?thesis
    using inv wf(4) ps[OF c] ic by (simp add: kinv_def kwf_def st' curr_proc_def)
qed

text \<open>C25: proc_alloc fails exactly when all 16 slots are in use. Otherwise the new process gets an
  id that no slot has, in use or not, and is not schedulable yet; nothing else changes and the
  kernel invariant holds. (Ids count up from 1 and would repeat only after 2^32 processes.)\<close>

theorem proc_alloc_fresh:
  assumes "kinv st" "last_pid st + 1 \<noteq> 0"
  shows "case proc_alloc st of
       Inl f \<Rightarrow> f = FATAL ''proc_alloc: reach the limit of %d processes'' \<and>
         (\<forall>i < MAX_NPROCESS. status (proc_set st ! i) \<noteq> PROC_UNUSED)
     | Inr (p, st') \<Rightarrow> kinv st' \<and> p \<noteq> 0 \<and> mmu st' = mmu st \<and> (\<forall>k < MAX_NPROCESS. pid (proc_set st ! k) \<noteq> p) \<and>
         (\<exists>i < MAX_NPROCESS. status (proc_set st ! i) = PROC_UNUSED \<and> pid (proc_set st' ! i) = p \<and>
            status (proc_set st' ! i) = PROC_LOADING \<and>
            (\<forall>k < MAX_NPROCESS. k \<noteq> i \<longrightarrow> proc_set st' ! k = proc_set st ! k))"
proof (cases rule: proc_alloc_cases[of st])
  case full
  then show ?thesis by simp
next
  case (slot i)
  have pw: "procs_wf st" using assms(1) by (simp add: kinv_def kwf_def)
  have len: "length (proc_set st) = MAX_NPROCESS + 1" using procs_wfD(1)[OF pw slot(1)] .
  have "pid (proc_set st ! k) \<noteq> last_pid st + 1" if "k < MAX_NPROCESS" for k
    using less_next_pid(3)[OF assms(2) procs_wfD(3)[OF pw that]] .
  then show ?thesis
    using proc_alloc_kinv[OF assms slot(1,2)] slot len assms(2) by (auto intro!: exI[of _ i])
qed

theorem proc_alloc_fresh_witness:
  "\<exists>p st'. proc_alloc three_processes = Inr (p, st') \<and> kinv st' \<and> (\<forall>k < MAX_NPROCESS. pid (proc_set three_processes ! k) \<noteq> p)"
proof -
  have "\<exists>i < MAX_NPROCESS. status (proc_set three_processes ! i) = PROC_UNUSED"
    by (rule exI[of _ 5]) (simp add: three_processes_nth no_process_same)
  with proc_alloc_fresh[OF kinv_three_processes] show ?thesis
    by (auto simp: three_processes_same split: sum.splits)
qed

section \<open>Ending\<close>

text \<open>The state after the process in a slot has been ended.\<close>

definition ended :: "nat \<Rightarrow> kernel \<Rightarrow> kernel" where
  "ended i st = st\<lparr>mmu := mmu_free (pid (proc_set st ! i)) (mmu st),
     proc_set := (proc_set st)[i := (proc_set st ! i)\<lparr>status := PROC_UNUSED\<rparr>]\<rparr>"

lemma ended_same [simp]:
  "curr_proc_idx (ended i st) = curr_proc_idx st" "core_ok (ended i st) = core_ok st" "last_pid (ended i st) = last_pid st"
  "length (proc_set (ended i st)) = length (proc_set st)" "mmu (ended i st) = mmu_free (pid (proc_set st ! i)) (mmu st)"
  by (simp_all add: ended_def curr_proc_idx_def core_ok_def)

lemma nth_ended:
  "k < length (proc_set st) \<Longrightarrow> proc_set (ended i st) ! k =
    (if k = i then (proc_set st ! i)\<lparr>status := PROC_UNUSED\<rparr> else proc_set st ! k)"
  by (simp add: ended_def)

lemma ended_kinv:
  assumes inv: "kinv st" and i: "i < MAX_NPROCESS" "i \<noteq> curr_proc_idx st"
  shows "kinv (ended i st)"
proof -
  have wf: "procs_wf st" "ipc_wf st" "calls_wf st" "vm_wf (mmu st)" and c: "curr_proc_idx st < MAX_NPROCESS"
    using inv by (auto simp: kinv_def kwf_def core_ok_def)
  have len: "length (proc_set st) = MAX_NPROCESS + 1" using procs_wfD(1)[OF wf(1) c] .
  have ps: "proc_set (ended i st) ! k = (if k = i then (proc_set st ! k)\<lparr>status := PROC_UNUSED\<rparr> else proc_set st ! k)"
    if "k < MAX_NPROCESS" for k using that len by (simp add: nth_ended)
  have "procs_wf (ended i st)"
    using wf(1) ps unfolding procs_wf_def Let_def by (auto split: if_splits)
  moreover have "ipc_wf (ended i st)"
    unfolding ipc_wf_def Let_def ended_same
  proof (intro allI impI)
    fix k assume k: "k < MAX_NPROCESS" and d: "delivered (proc_set (ended i st) ! k)"
    have ki: "proc_set (ended i st) ! k = proc_set st ! k" using ps[OF k] d by (auto simp: delivered_def split: if_splits)
    then have old: "sc_sender (syscall (proc_set st ! k)) \<noteq> 0" "sc_sender (syscall (proc_set st ! k)) \<le> last_pid st"
      "\<And>l. l < MAX_NPROCESS \<Longrightarrow> pid (proc_set st ! l) = sc_sender (syscall (proc_set st ! k)) \<Longrightarrow> sender_of (proc_set st ! k) (proc_set st ! l)"
      using wf(2) k d by (auto simp: ipc_wf_def Let_def)
    have "sender_of (proc_set st ! k) (proc_set (ended i st) ! l)"
      if "l < MAX_NPROCESS" "pid (proc_set (ended i st) ! l) = sc_sender (syscall (proc_set st ! k))" for l
      using old(3)[OF that(1)] that(2) ps[OF that(1)] by (auto simp: sender_of_def split: if_splits)
    with old ki show "sc_sender (syscall (proc_set (ended i st) ! k)) \<noteq> 0 \<and>
      sc_sender (syscall (proc_set (ended i st) ! k)) \<le> last_pid st \<and>
      (\<forall>l < MAX_NPROCESS. pid (proc_set (ended i st) ! l) = sc_sender (syscall (proc_set (ended i st) ! k)) \<longrightarrow>
        sender_of (proc_set (ended i st) ! k) (proc_set (ended i st) ! l))" by simp
  qed
  moreover have "calls_wf (ended i st)" using wf(3) ps by (auto simp: calls_wf_def)
  moreover have "only_current_runs (ended i st)"
    unfolding only_current_runs_def ended_same
  proof (intro allI impI)
    fix k assume k: "k < MAX_NPROCESS" "status (proc_set (ended i st) ! k) = PROC_RUNNING"
    then have "status (proc_set st ! k) = PROC_RUNNING" using ps[OF k(1)] by (simp split: if_splits)
    then show "k = curr_proc_idx st" using inv k(1) unfolding kinv_def only_current_runs_def by blast
  qed
  ultimately show ?thesis
    using inv ps[OF c] i(2) mmu_free_correct(1)[OF wf(4)] by (simp add: kinv_def kwf_def curr_proc_def mmu_free_correct(4)[OF wf(4)])
qed

lemma proc_free_one:
  assumes pw: "procs_wf st" and i: "i < MAX_NPROCESS" "pid (proc_set st ! i) = p" "p \<noteq> 0" "p \<noteq> GPID_ALL"
  shows "proc_free p st = ended i st"
proof -
  have len: "length (proc_set st) = MAX_NPROCESS + 1" using procs_wfD(1)[OF pw i(1)] .
  let ?st = "st\<lparr>mmu := mmu_free p (mmu st)\<rparr>"
  have uq: "pid (proc_set st ! k) = p \<longleftrightarrow> k = i" if "k < MAX_NPROCESS" for k
    using procs_wfD(5)[OF pw i(1) that] i by auto
  have "proc_set (proc_set_status p PROC_UNUSED ?st) = proc_set (ended i st)"
  proof (rule nth_equalityI)
    show "length (proc_set (proc_set_status p PROC_UNUSED ?st)) = length (proc_set (ended i st))"
      using len by (simp add: nth_proc_set_status(2))
    fix k assume "k < length (proc_set (proc_set_status p PROC_UNUSED ?st))"
    then consider "k < MAX_NPROCESS" | "k = MAX_NPROCESS" using len by (fastforce simp: nth_proc_set_status(2))
    then show "proc_set (proc_set_status p PROC_UNUSED ?st) ! k = proc_set (ended i st) ! k"
    proof cases
      case 1
      then show ?thesis using len uq[OF 1] by (auto simp: nth_proc_set_status(1) nth_ended)
    next
      case 2
      then show ?thesis using len i(1) by (simp add: nth_ended proc_set_status_def nth_append)
    qed
  qed
  moreover have "proc_set_status p s x = x\<lparr>proc_set := proc_set (proc_set_status p s x)\<rparr>" for s x
    by (simp add: proc_set_status_def)
  ultimately have "proc_set_status p PROC_UNUSED ?st = ?st\<lparr>proc_set := proc_set (ended i st)\<rparr>" by metis
  then show ?thesis using i by (simp add: proc_free_def ended_def)
qed

text \<open>C26: Ending a process frees its slot and takes its memory; every other process keeps its slot,
  its state and its memory, and the kernel invariant holds.\<close>

theorem proc_free_ends_one:
  assumes "kinv st" "i < MAX_NPROCESS" "i \<noteq> curr_proc_idx st" "pid (proc_set st ! i) = p" "p \<noteq> 0" "p \<noteq> GPID_ALL"
  shows "kinv (proc_free p st) \<and> status (proc_set (proc_free p st) ! i) = PROC_UNUSED \<and>
     (\<forall>k < MAX_NPROCESS. k \<noteq> i \<longrightarrow> proc_set (proc_free p st) ! k = proc_set st ! k) \<and>
     (\<forall>q w. q \<noteq> 0 \<longrightarrow> view (mmu (proc_free p st)) q w = (if q = p then None else view (mmu st) q w))"
proof -
  have pw: "procs_wf st" "vm_wf (mmu st)" using assms(1) by (simp_all add: kinv_def kwf_def)
  have len: "length (proc_set st) = MAX_NPROCESS + 1" using procs_wfD(1)[OF pw(1) assms(2)] .
  show ?thesis
    unfolding proc_free_one[OF pw(1) assms(2,4-6)]
    using ended_kinv[OF assms(1-3)] mmu_free_correct(2)[OF pw(2)] len assms(2,4) by (simp add: nth_ended)
qed

theorem proc_free_ends_one_witness:
  "kinv (proc_free 2 three_processes) \<and> view (mmu (proc_free 2 three_processes)) 2 0x80400 = None"
  using proc_free_ends_one[OF kinv_three_processes, of 1 2] by (simp add: three_processes_same three_processes_nth)

lemma proc_free_slots:
  assumes "kinv st" "pid (proc_set st ! curr_proc_idx st) <s GPID_USER_START" "distinct is" "\<forall>i \<in> set is. i < MAX_NPROCESS"
  shows "kinv (fold proc_free_slot is st) \<and> curr_proc_idx (fold proc_free_slot is st) = curr_proc_idx st \<and>
    (\<forall>k < MAX_NPROCESS. proc_set (fold proc_free_slot is st) ! k =
       (if k \<in> set is \<and> GPID_USER_START \<le>s pid (proc_set st ! k) then (proc_set st ! k)\<lparr>status := PROC_UNUSED\<rparr>
        else proc_set st ! k)) \<and>
    (\<forall>q w. q <s GPID_USER_START \<longrightarrow> q \<noteq> 0 \<longrightarrow> view (mmu (fold proc_free_slot is st)) q w = view (mmu st) q w)"
  using assms
proof (induction "is" arbitrary: st)
  case (Cons i "is")
  have i: "i < MAX_NPROCESS" using Cons.prems(4) by simp
  have pw: "procs_wf st" "vm_wf (mmu st)" using Cons.prems(1) by (simp_all add: kinv_def kwf_def)
  have len: "length (proc_set st) = MAX_NPROCESS + 1" using procs_wfD(1)[OF pw(1) i] .
  let ?st = "proc_free_slot i st"
  have st: "kinv ?st \<and> curr_proc_idx ?st = curr_proc_idx st \<and>
    (\<forall>k < MAX_NPROCESS. proc_set ?st ! k = (if k = i \<and> GPID_USER_START \<le>s pid (proc_set st ! k)
       then (proc_set st ! k)\<lparr>status := PROC_UNUSED\<rparr> else proc_set st ! k)) \<and>
    (\<forall>q w. q <s GPID_USER_START \<longrightarrow> q \<noteq> 0 \<longrightarrow> view (mmu ?st) q w = view (mmu st) q w)"
  proof (cases "GPID_USER_START \<le>s pid (proc_set st ! i) \<and> status (proc_set st ! i) \<noteq> PROC_UNUSED")
    case True
    have ic: "i \<noteq> curr_proc_idx st" using Cons.prems(2) True by (auto simp: word_sless_alt word_sle_eq)
    have "?st = ended i st" using True by (simp add: proc_free_slot_def ended_def)
    then show ?thesis
      using ended_kinv[OF Cons.prems(1) i ic] True len mmu_free_correct(2)[OF pw(2)]
      by (auto simp: nth_ended word_sless_alt word_sle_eq)
  next
    case False
    then have eq: "?st = st" by (auto simp: proc_free_slot_def)
    have "proc_set st ! i = (proc_set st ! i)\<lparr>status := PROC_UNUSED\<rparr>" if "GPID_USER_START \<le>s pid (proc_set st ! i)"
      using False that by simp
    then show ?thesis using Cons.prems(1) unfolding eq by auto
  qed
  have cur: "pid (proc_set ?st ! curr_proc_idx ?st) <s GPID_USER_START"
    using st Cons.prems(1,2) by (auto simp: kinv_def core_ok_def)
  have IH: "kinv (fold proc_free_slot is ?st) \<and> curr_proc_idx (fold proc_free_slot is ?st) = curr_proc_idx ?st \<and>
    (\<forall>k < MAX_NPROCESS. proc_set (fold proc_free_slot is ?st) ! k =
       (if k \<in> set is \<and> GPID_USER_START \<le>s pid (proc_set ?st ! k) then (proc_set ?st ! k)\<lparr>status := PROC_UNUSED\<rparr>
        else proc_set ?st ! k)) \<and>
    (\<forall>q w. q <s GPID_USER_START \<longrightarrow> q \<noteq> 0 \<longrightarrow> view (mmu (fold proc_free_slot is ?st)) q w = view (mmu ?st) q w)"
    using Cons.IH[OF _ cur] st Cons.prems(3,4) by simp
  show ?case
    using IH st Cons.prems(3) by auto
qed simp

text \<open>C27: Ending all processes (the killall of the shell) ends exactly the user processes: the
  system processes keep their slots and their memory, and the kernel invariant holds.\<close>

theorem proc_free_ends_all:
  assumes "kinv st" "pid (curr_proc st) <s GPID_USER_START"
  shows "let st' = proc_free GPID_ALL st in kinv st' \<and>
     (\<forall>k < MAX_NPROCESS. proc_set st' ! k =
        (if GPID_USER_START \<le>s pid (proc_set st ! k) then (proc_set st ! k)\<lparr>status := PROC_UNUSED\<rparr> else proc_set st ! k)) \<and>
     (\<forall>q w. q <s GPID_USER_START \<longrightarrow> q \<noteq> 0 \<longrightarrow> view (mmu st') q w = view (mmu st) q w)"
  using proc_free_slots[OF assms(1), of "[0 ..< MAX_NPROCESS]"] assms(2) by (simp add: proc_free_def curr_proc_def)

theorem proc_free_ends_all_witness:
  "kinv (proc_free GPID_ALL three_processes) \<and>
   view (mmu (proc_free GPID_ALL three_processes)) 2 0x80400 = view (mmu three_processes) 2 0x80400"
proof -
  have "(1 :: i32) <s GPID_USER_START" "(2 :: i32) <s GPID_USER_START" by (simp_all add: word_sless_alt)
  then show ?thesis using proc_free_ends_all[OF kinv_three_processes] by (simp add: Let_def three_processes_same)
qed

section \<open>A sender that is ended while its message is under way\<close>

text \<open>C28: A process that is ended after its message has been delivered and before the receiver has
  taken it does not stay ended: when the receiver takes the message the kernel marks the freed
  slot as runnable again, although the process has no memory left.\<close>

theorem ended_sender_runs_again:
  assumes "kinv st" "j < MAX_NPROCESS" "delivered (proc_set st ! j)" "i < MAX_NPROCESS"
    "pid (proc_set st ! i) = sc_sender (syscall (proc_set st ! j))" "i \<noteq> curr_proc_idx st"
    "pid (proc_set st ! i) \<noteq> GPID_ALL"
  shows "let p = pid (proc_set st ! i); st1 = proc_free p st in
     status (proc_set st1 ! i) = PROC_UNUSED \<and>
     (\<exists>st2. proc_try_syscall j st1 = Inr st2 \<and> status (proc_set st2 ! i) = PROC_RUNNABLE \<and>
        (\<forall>v. view (mmu st2) p v = None))"
proof -
  let ?p = "pid (proc_set st ! i)" and ?r = "proc_set st ! j"
  have wf: "procs_wf st" "ipc_wf st" "vm_wf (mmu st)" using assms(1) by (simp_all add: kinv_def kwf_def)
  have s: "sc_sender (syscall ?r) \<noteq> 0" "sender_of ?r (proc_set st ! i)"
    using wf(2) assms(2-5) by (auto simp: ipc_wf_def Let_def)
  have ij: "i \<noteq> j" using s(2) assms(3) by (auto simp: sender_of_def delivered_def)
  have len: "length (proc_set st) = MAX_NPROCESS + 1" using procs_wfD(1)[OF wf(1) assms(2)] .
  have eq: "proc_free ?p st = ended i st"
    using proc_free_one[OF wf(1) assms(4) refl _ assms(7)] s(1) assms(5) by simp
  have k1: "kwf (ended i st)" "procs_wf (ended i st)" "vm_wf (mmu (ended i st))"
    using ended_kinv[OF assms(1,4,6)] by (simp_all add: kinv_def kwf_def)
  have r: "proc_set (ended i st) ! j = ?r" "status (proc_set (ended i st) ! i) = PROC_UNUSED" "pid (proc_set (ended i st) ! i) = ?p"
    using len assms(2,4) ij by (simp_all add: nth_ended)
  have d: "sc_type (syscall ?r) = SYS_RECV" "sc_status (syscall ?r) = DONE" "status ?r = PROC_PENDING_SYSCALL"
    using assms(3) by (simp_all add: delivered_def)
  have nz: "pid ?r \<noteq> 0" using procs_wfD(2)[OF wf(1) assms(2)] d(3) by simp
  have c: "length (content (syscall ?r)) = SYSCALL_MSG_LEN"
    using assms(1,2) d(3) by (auto simp: kinv_def kwf_def calls_wf_def)
  have ne: "?p \<noteq> pid ?r" using procs_wfD(5)[OF wf(1) assms(2,4)] nz ij by auto
  have "view (mmu (message_taken j (ended i st))) ?p v = None" for v
    using message_taken_mmu(3)[OF k1(3), of j ?p v] r(1) nz c ne s(1) assms(5) mmu_free_correct(2)[OF wf(3)] by simp
  moreover have "status (proc_set (message_taken j (ended i st)) ! i) = PROC_RUNNABLE"
    using nth_message_taken(1)[OF k1(2) assms(2) _ assms(4)] r nz assms(5) by simp
  moreover have "proc_try_syscall j (ended i st) = Inr (message_taken j (ended i st))"
    using r(1) d by (simp add: proc_try_syscall_def proc_try_recv_eq)
  ultimately show ?thesis unfolding Let_def eq using r(2) by simp
qed

text \<open>Process 1 runs, process 2 has sent to process 3, and process 3 has not taken the message yet.\<close>

definition in_flight :: kernel where
  "in_flight = three_processes\<lparr>proc_set := (proc_set three_processes)
     [1 := no_process\<lparr>pid := 2, status := PROC_PENDING_SYSCALL, syscall := no_call\<lparr>sc_type := SYS_SEND, sc_receiver := 3\<rparr>\<rparr>,
      2 := no_process\<lparr>pid := 3, status := PROC_PENDING_SYSCALL,
             syscall := no_call\<lparr>sc_type := SYS_RECV, sc_sender := 2, sc_status := DONE\<rparr>\<rparr>]\<rparr>"

lemma in_flight_nth:
  assumes "i < MAX_NPROCESS"
  shows "proc_set in_flight ! i =
    (if i = 0 then no_process\<lparr>pid := 1, status := PROC_RUNNING\<rparr>
     else if i = 1 then no_process\<lparr>pid := 2, status := PROC_PENDING_SYSCALL, syscall := no_call\<lparr>sc_type := SYS_SEND, sc_receiver := 3\<rparr>\<rparr>
     else if i = 2 then no_process\<lparr>pid := 3, status := PROC_PENDING_SYSCALL,
             syscall := no_call\<lparr>sc_type := SYS_RECV, sc_sender := 2, sc_status := DONE\<rparr>\<rparr>
     else no_process)"
  unfolding in_flight_def kernel.select_convs using assms
  by (simp add: nth_list_update three_processes_same three_processes_nth)

lemma in_flight_same:
  "curr_proc_idx in_flight = 0" "core_ok in_flight" "length (proc_set in_flight) = MAX_NPROCESS + 1" "last_pid in_flight = 3"
  "mmu in_flight = soft_tlb_switch 1 two_processes"
  using three_processes_same kinv_three_processes
  by (simp_all add: in_flight_def curr_proc_idx_def kinv_def core_ok_def)

lemma kinv_in_flight: "kinv in_flight"
proof -
  have "procs_wf in_flight"
    unfolding procs_wf_def Let_def by (auto simp: in_flight_same in_flight_nth no_process_same)
  moreover have "ipc_wf in_flight"
    unfolding ipc_wf_def Let_def
    by (auto simp: in_flight_same in_flight_nth no_process_same delivered_def sender_of_def split: if_splits)
  moreover have "calls_wf in_flight"
    unfolding calls_wf_def by (auto simp: in_flight_nth no_process_same)
  moreover have "only_current_runs in_flight"
    unfolding only_current_runs_def by (auto simp: in_flight_same in_flight_nth no_process_same split: if_splits)
  ultimately show ?thesis
    using soft_tlb_switch_wf(1,2)[OF vm_wf_two_processes, of 1]
    by (simp add: kinv_def kwf_def in_flight_same in_flight_nth no_process_same curr_proc_def)
qed

theorem ended_sender_runs_again_witness:
  "\<exists>st2. proc_try_syscall 2 (proc_free 2 in_flight) = Inr st2 \<and> status (proc_set st2 ! 1) = PROC_RUNNABLE \<and>
     status (proc_set (proc_free 2 in_flight) ! 1) = PROC_UNUSED"
  using ended_sender_runs_again[OF kinv_in_flight, of 2 1]
  by (auto simp: in_flight_nth in_flight_same no_process_same delivered_def Let_def)

end
