(* ===== verification/Boot_Correct.thy ===== *)
theory Boot_Correct
  imports Boot Proc_Correct Lifecycle
begin

text \<open>
  What booting leads to: the kernel's invariant, with GPID_PROCESS as the only process.
\<close>

section \<open>Messages without arguments\<close>

lemma LOG_plain:
  assumes "0 \<notin> set fmt" "37 \<notin> set fmt" "0 \<notin> set pre" "0 \<notin> set suf" "length pre + length fmt + length suf < 512"
  shows "LOG pre suf fmt [] = Inr (pre @ fmt @ suf)"
proof -
  have i: "items fmt = Some (map Lit fmt)" using assms(2) by (induction fmt rule: items.induct) auto
  have "concat (map item_type (map Lit fmt)) = []" "items_text (map Lit fmt) [] = fmt" by (induction fmt) auto
  then have "fmt_type fmt = Some []" "render fmt [] = fmt" by (simp_all add: fmt_type_def render_def i)
  then show ?thesis using LOG_typed[of fmt "[]" "[]" "[]" pre suf] assms by simp
qed

lemmas boot_texts = CRITICAL_def SUCCESS_def INFO_def my_printf_def LOG_plain str_def

lemma translation_text:
  "\<exists>s. INFO (str ''%s translation is chosen'') [VStr (if b then str ''Page table'' else str ''Software'')] = Inr s"
proof -
  let ?f = "str ''%s translation is chosen''" and ?s = "if b then str ''Page table'' else str ''Software''"
  have "items ?f = Some (Dir 115 # map Lit (str '' translation is chosen''))" by (simp add: str_def)
  then have "fmt_type ?f = Some [TStr]" "length (render ?f [VStr ?s]) < 400"
    by (simp_all add: fmt_type_def render_def str_def cstr_def)
  then show ?thesis unfolding INFO_def
    using LOG_typed[of ?f "[TStr]" "[VStr ?s]" "[]" "str ''[INFO] ''" "[10, 13]"] by (simp add: str_def)
qed

lemma process_text: "\<exists>s. INFO (str ''Load kernel process #%d: sys_process'') [VInt GPID_PROCESS] = Inr s"
proof -
  let ?f = "str ''Load kernel process #%d: sys_process''"
  have "items ?f = Some (map Lit (str ''Load kernel process #'') @ Dir 100 # map Lit (str '': sys_process''))" by (simp add: str_def)
  then have "fmt_type ?f = Some [TInt]" "length (render ?f [VInt GPID_PROCESS]) < 400"
    using length_itoa[of GPID_PROCESS] by (simp_all add: fmt_type_def render_def str_def)
  then show ?thesis unfolding INFO_def
    using LOG_typed[of ?f "[TInt]" "[VInt GPID_PROCESS]" "[]" "str ''[INFO] ''" "[10, 13]"] by (simp add: str_def)
qed

section \<open>The memory management unit\<close>

lemma free_count_mark:
  assumes "alloc_mark st k" "k \<le> 12"
  shows "2036 \<le> free_count st"
proof -
  have "{12 ..< 2048} \<subseteq> {i. i < APPS_PAGES_CNT \<and> frame_free st i}" using assms by (auto simp: alloc_mark_def)
  then have "card {12 ..< 2048 :: nat} \<le> free_count st" unfolding free_count_def by (rule card_mono[rotated]) simp
  then show ?thesis by simp
qed

lemma mmu_init_boot:
  assumes "mmu_fresh st" "c = 48 \<or> c = 49"
  obtains st' where "mmu_init [c] st = Inr st'" "vm_wf st'" "loadable GPID_PROCESS st'" "\<And>v. frame_of st' GPID_PROCESS v = None"
    "2036 \<le> free_count st'" "translation st' = (if c = 48 then PAGE_TABLE else SOFT_TLB)" "platform st' = platform st"
proof -
  let ?st = "st\<lparr>pmpaddr0 := 0x40000000, pmpcfg0 := 0xF, translation := PAGE_TABLE\<rparr>"
  have f: "mmu_fresh ?st" using assms(1) by (simp add: mmu_fresh_def)
  have "\<exists>st' k. mmu_init [c] st = Inr st' \<and> translation st' = (if c = 48 then PAGE_TABLE else SOFT_TLB) \<and>
      platform st' = platform st \<and> alloc_mark st' k \<and> k \<le> 12"
  proof (cases "c = 48")
    case True
    then show ?thesis
      using pagetable_identity_map_walk[OF f, of 0] by (auto simp: mmu_init_defs Let_def alloc_mark_def frame_free_def)
  next
    case False
    then show ?thesis
      using mmu_fresh_mark[OF assms(1)] assms(2) by (auto simp: mmu_init_defs Let_def alloc_mark_def frame_free_def)
  qed
  then obtain st' k where st': "mmu_init [c] st = Inr st'" "translation st' = (if c = 48 then PAGE_TABLE else SOFT_TLB)"
    "platform st' = platform st" "alloc_mark st' k" "k \<le> 12" by blast
  note b = mmu_init_pages[OF assms(1) st'(1)]
  have "loadable GPID_PROCESS st'" using b by (simp add: loadable_def boot_pages_def word_sless_alt)
  moreover have "frame_of st' GPID_PROCESS v = None" for v
    using b unfolding frame_of_def find_None_iff Let_def by (auto simp: boot_pages_def)
  ultimately show thesis
    using that[OF st'(1) mmu_init_wf[OF assms(1) st'(1)]] free_count_mark[OF st'(4,5)] st'(2,3) by blast
qed

section \<open>The first process\<close>

text \<open>The kernel's variables before anything runs, as the C startup leaves them.\<close>

definition bss_kernel :: "kernel \<Rightarrow> bool" where
  "bss_kernel k \<longleftrightarrow> core_in_kernel k = 0 \<and> core_to_proc_idx k = replicate 5 0 \<and>
     proc_set k = replicate (MAX_NPROCESS + 1) no_process \<and> last_pid k = 0"

lemma first_process:
  assumes b: "core_in_kernel k = 0" "core_to_proc_idx k = replicate 5 0"
      "proc_set k = replicate (MAX_NPROCESS + 1) no_process" "last_pid k = 0" and wf: "vm_wf (mmu k)"
  obtains k1 where "proc_alloc k = Inr (GPID_PROCESS, k1)" "mmu k1 = mmu k"
    "kinv ((proc_set_running GPID_PROCESS k1)\<lparr>mmu := mmu_switch GPID_PROCESS (mmu k1)\<rparr>)"
    "pid (curr_proc ((proc_set_running GPID_PROCESS k1)\<lparr>mmu := mmu_switch GPID_PROCESS (mmu k1)\<rparr>)) = GPID_PROCESS"
proof -
  let ?p = "no_process\<lparr>pid := 1, status := PROC_LOADING\<rparr>"
  let ?k1 = "k\<lparr>last_pid := 1, proc_set := (replicate (MAX_NPROCESS + 1) no_process)[0 := ?p]\<rparr>"
  define K where "K = (proc_set_running GPID_PROCESS ?k1)\<lparr>mmu := mmu_switch GPID_PROCESS (mmu ?k1)\<rparr>"
  have "[0 ..< MAX_NPROCESS] = 0 # [1 ..< MAX_NPROCESS]" by (simp add: upt_conv_Cons)
  then have f: "find (\<lambda>i. status (proc_set k ! i) = PROC_UNUSED) [0 ..< MAX_NPROCESS] = Some 0"
    by (simp add: b no_process_same)
  have a: "proc_alloc k = Inr (GPID_PROCESS, ?k1)"
    unfolding proc_alloc_def f option.case Let_def using b by (simp add: no_process_same)
  have n: "proc_set K ! i = (if i = 0 then no_process\<lparr>pid := 1, status := PROC_RUNNING\<rparr> else no_process)" if "i < MAX_NPROCESS" for i
    using that by (simp add: K_def proc_set_running_def proc_set_status_def nth_append nth_list_update no_process_same)
  have len: "length (proc_set K) = MAX_NPROCESS + 1" by (simp add: K_def proc_set_running_def proc_set_status_def)
  have K: "last_pid K = 1" "core_in_kernel K = 0" "core_to_proc_idx K = replicate 5 0"
    using b by (simp_all add: K_def proc_set_running_def proc_set_status_def)
  have i: "curr_proc_idx K = 0" by (simp add: curr_proc_idx_def K)
  have c: "curr_proc K = no_process\<lparr>pid := 1, status := PROC_RUNNING\<rparr>" using n[of 0] by (simp add: curr_proc_def i)
  have "procs_wf K" unfolding procs_wf_def Let_def K using len by (auto simp: n no_process_same)
  moreover have "ipc_wf K" unfolding ipc_wf_def Let_def by (auto simp: n delivered_def no_process_same)
  moreover have "calls_wf K" unfolding calls_wf_def by (auto simp: n no_process_same)
  moreover have "only_current_runs K" unfolding only_current_runs_def i by (auto simp: n no_process_same split: if_splits)
  moreover have "core_ok K" by (simp add: core_ok_def K i)
  ultimately have "kinv K"
    unfolding kinv_def kwf_def c using soft_tlb_switch_wf[OF wf, of GPID_PROCESS] by (simp add: K_def)
  then show thesis using that[OF a, folded K_def] c by simp
qed

section \<open>Booting\<close>

context tty_device
begin

lemma prints_text:
  assumes "m = Inr s"
  shows "\<exists>S'. calls old p (print_sys dev m) S () S' \<and> w_kernel (shared S') = w_kernel (shared S) \<and>
    w_disk (shared S') = w_disk (shared S) \<and> coming (w_tty (shared S')) = coming (w_tty (shared S))"
proof -
  obtain t where t: "term_write dev s (w_tty (shared S)) = Inr t" "coming t = coming (w_tty (shared S))"
    using term_write_written by blast
  then show ?thesis using calls_print_sys[OF assms t(1)] by (intro exI[of _ "set_tty S t"]) (simp add: set_tty_def)
qed

lemma mmu_ask_answer:
  assumes "coming t = junk @ key # rest" "48 \<notin> set junk" "49 \<notin> set junk" "key = 48 \<or> key = 49" "c \<noteq> 48" "c \<noteq> 49"
  shows "\<exists>t'. mmu_ask dev c t = Some (Inr (key, t')) \<and> coming t' = rest"
  using assms
proof (induction junk arbitrary: t c)
  case Nil
  then obtain t1 where t1: "tty_read_op dev t = Inr (key, t1)" "coming t1 = rest" using read_input[of t key rest] by auto
  have "mmu_ask dev key t1 = Some (Inr (key, t1))" using Nil(4) by (subst mmu_ask.simps) auto
  then show ?case using t1 Nil(5,6) by (subst mmu_ask.simps) simp
next
  case (Cons d junk)
  then obtain t1 where t1: "tty_read_op dev t = Inr (d, t1)" "coming t1 = junk @ key # rest" using read_input[of t d "junk @ key # rest"] by auto
  obtain t' where "mmu_ask dev d t1 = Some (Inr (key, t'))" "coming t' = rest"
    using Cons.IH[OF t1(2), of d] Cons.prems(2-4) by auto
  then show ?case using t1(1) Cons.prems(5,6) by (subst mmu_ask.simps) simp
qed

lemma mmu_init_chooses:
  assumes "coming (w_tty (shared S)) = junk @ key # rest" "48 \<notin> set junk" "49 \<notin> set junk" "key = 48 \<or> key = 49"
    and "mmu_init [key] (mmu_of S) = Inr st"
  shows "\<exists>S'. calls old p (mmu_init_prog dev) S () S' \<and> w_kernel (shared S') = (w_kernel (shared S))\<lparr>mmu := st\<rparr> \<and>
    w_disk (shared S') = w_disk (shared S) \<and> coming (w_tty (shared S')) = rest"
proof -
  have "\<exists>s. CRITICAL (str ''Choose a memory translation mechanism:'') [] = Inr s"
    "\<exists>s. my_printf (str ''Enter 0: page tables'' @ [10, 13] @ str ''Enter 1: software TLB'' @ [10, 13]) [] = Inr s"
    by (simp_all add: boot_texts)
  then obtain s1 s2 s3 where s: "CRITICAL (str ''Choose a memory translation mechanism:'') [] = Inr s1"
    "my_printf (str ''Enter 0: page tables'' @ [10, 13] @ str ''Enter 1: software TLB'' @ [10, 13]) [] = Inr s2"
    "INFO (str ''%s translation is chosen'') [VStr (if key = 48 then str ''Page table'' else str ''Software'')] = Inr s3"
    using translation_text by blast
  let ?k = "w_kernel (shared S)" and ?t = "if key = 48 then PAGE_TABLE else SOFT_TLB"
  let ?T0 = "set_mmu S (pmp_init (mmu_of S))"
  have T0: "calls old p (on_mmu (\<lambda>st. Inr ((), pmp_init st))) S () ?T0" by (rule calls_on_mmu) simp
  obtain T1 where T1: "calls old p (print_sys dev (CRITICAL (str ''Choose a memory translation mechanism:'') [])) ?T0 () T1"
    "w_kernel (shared T1) = ?k\<lparr>mmu := pmp_init (mmu ?k)\<rparr>" "w_disk (shared T1) = w_disk (shared S)" "coming (w_tty (shared T1)) = junk @ key # rest"
    using prints_text[OF s(1), of old p ?T0] assms(1) by (auto simp: set_mmu_def)
  obtain T2 where T2: "calls old p (print_sys dev (my_printf (str ''Enter 0: page tables'' @ [10, 13] @ str ''Enter 1: software TLB'' @ [10, 13]) [])) T1 () T2"
    "w_kernel (shared T2) = ?k\<lparr>mmu := pmp_init (mmu ?k)\<rparr>" "w_disk (shared T2) = w_disk (shared S)" "coming (w_tty (shared T2)) = junk @ key # rest"
    using prints_text[OF s(2), of old p T1] T1(2-4) by auto
  obtain t where t: "mmu_ask dev 0 (w_tty (shared T2)) = Some (Inr (key, t))" "coming t = rest"
    using mmu_ask_answer[OF T2(4) assms(2-4), of 0] by auto
  let ?T3 = "set_tty T2 t"
  have T3: "calls old p (on_tty (\<lambda>t. case mmu_ask dev 0 t of None \<Rightarrow> Inl Diverge | Some r \<Rightarrow> r)) T2 key ?T3"
    by (rule calls_on_tty) (simp add: t(1))
  let ?st = "pmp_init (mmu ?k)\<lparr>translation := ?t\<rparr>"
  let ?T = "set_mmu ?T3 ?st"
  have T: "calls old p (on_mmu (\<lambda>st. Inr ((), st\<lparr>translation := ?t\<rparr>))) ?T3 () ?T"
    by (rule calls_on_mmu) (simp add: set_tty_def T2(2))
  obtain T4 where T4: "calls old p (print_sys dev (INFO (str ''%s translation is chosen'') [VStr (if key = 48 then str ''Page table'' else str ''Software'')])) ?T () T4"
    "w_kernel (shared T4) = ?k\<lparr>mmu := ?st\<rparr>" "w_disk (shared T4) = w_disk (shared S)" "coming (w_tty (shared T4)) = rest"
    using prints_text[OF s(3), of old p ?T] T2(2,3) t(2) by (auto simp: set_tty_def set_mmu_def)
  have "mmu_setup ?st = Inr st" using assms(4,5) by (auto simp: mmu_init_def Let_def)
  then have m: "calls old p (on_mmu (\<lambda>st. bindr (mmu_setup st) (\<lambda>st. Inr ((), st)))) T4 () (set_mmu T4 st)"
    by (intro calls_on_mmu) (simp add: T4(2))
  have "calls old p (mmu_init_prog dev) S () (set_mmu T4 st)"
    unfolding mmu_init_prog_def
    by (rule calls_bind[OF T0], rule calls_bind[OF T1(1)], rule calls_bind[OF T2(1)], rule calls_bind[OF T3], rule calls_bind[OF T],
      rule calls_bind[OF T4(1)], rule m)
  then show ?thesis using T4 by (intro exI[of _ "set_mmu T4 st"]) (simp add: set_mmu_def)
qed

lemma intr_init_timer:
  "\<exists>S'. calls old p (intr_init dev trap_addr core_id r) S
      (r\<lparr>csr_mtvec := trap_addr, csr_mip := 0, csr_mie := csr_mie r OR 0x80, csr_mstatus := csr_mstatus r OR 0x88\<rparr>) S' \<and>
    w_kernel (shared S') = (w_kernel (shared S))\<lparr>mtimecmp := (mtimecmp (w_kernel (shared S)))(core_id := 0x0FFFFFFFFFFFFFFF)\<rparr> \<and>
    w_disk (shared S') = w_disk (shared S)"
proof -
  obtain s where s: "INFO (str ''Use direct mode and put the address of the trap_entry into mtvec'') [] = Inr s"
    by (auto simp: boot_texts)
  let ?k = "(w_kernel (shared S))\<lparr>mtimecmp := mtimecmp_set 0x0FFFFFFFFFFFFFFF core_id (mtimecmp (w_kernel (shared S)))\<rparr>"
  let ?T = "set_kernel S ?k"
  have T: "calls old p (on_kernel (\<lambda>k. Inr ((), k\<lparr>mtimecmp := mtimecmp_set 0x0FFFFFFFFFFFFFFF core_id (mtimecmp k)\<rparr>))) S () ?T"
    by (rule calls_on_kernel) simp
  obtain S' where S': "calls old p (print_sys dev (INFO (str ''Use direct mode and put the address of the trap_entry into mtvec'') [])) ?T () S'"
    "w_kernel (shared S') = ?k" "w_disk (shared S') = w_disk (shared S)"
    using prints_text[OF s, of old p ?T] by auto
  have "calls old p (intr_init dev trap_addr core_id r) S
      (r\<lparr>csr_mtvec := trap_addr, csr_mip := 0, csr_mie := csr_mie r OR 0x80, csr_mstatus := csr_mstatus r OR 0x88\<rparr>) S'"
    unfolding intr_init_def Let_def by (rule calls_bind[OF T], rule calls_bind[OF S'(1)]) (simp add: calls_Ret)
  then show ?thesis using S'(2,3) by (auto simp: mtimecmp_set_eq)
qed

end

text \<open>The executable of a system server on the disk, and that it can be read during boot.\<close>

definition disk_file :: "nat \<Rightarrow> (u32 \<Rightarrow> block) \<Rightarrow> u32 \<Rightarrow> u32 \<Rightarrow> block" where
  "disk_file nblocks d base b = (if unat (base + b) < nblocks then d (base + b) else uninit_block)"

lemma disk_reader:
  assumes card: "sd_card plat x nblocks ready data" and n: "nblocks \<le> 2 ^ 32" and tty: "tty_device dev coming sent"
  shows "block_reader dev old p (sys_proc_read (disk_read SD_CARD rom plat x) base) (disk_file nblocks d base)
    {b. unat (base + b) < nblocks} (\<lambda>S. ready (w_disk (shared S)) \<and> data (w_disk (shared S)) = d)"
proof
  fix S :: "('b, 'a) world system" and b
  assume S: "ready (w_disk (shared S)) \<and> data (w_disk (shared S)) = d" and "b \<in> {b. unat (base + b) < nblocks}"
  then have b: "unat (base + b) + 1 \<le> nblocks" by simp
  obtain c where c: "disk_read SD_CARD rom plat x (base + b) 1 (w_disk (shared S)) = Inr (disk_file nblocks d base b, c)"
    "ready c" "data c = d"
    using disk_read_blocks[OF card _ b n, of "w_disk (shared S)" rom] S b by (auto simp: disk_file_def)
  have "calls old p (sys_proc_read (disk_read SD_CARD rom plat x) base b) S (disk_file nblocks d base b) (set_disk S c)"
    unfolding sys_proc_read_def by (rule calls_on_disk) (rule c(1))
  then show "\<exists>c. calls old p (sys_proc_read (disk_read SD_CARD rom plat x) base b) S (disk_file nblocks d base b) (set_disk S c) \<and>
      ready (w_disk (shared (set_disk S c))) \<and> data (w_disk (shared (set_disk S c))) = d"
    using c(2,3) by (intro exI[of _ c]) (simp add: set_disk_def)
next
  fix s t
  show "\<exists>t'. term_write dev s t = Inr t'" using tty_device.term_write_written[OF tty, of s t] by blast
qed (simp_all add: set_tty_def)

interpretation boot_reader: block_reader "tty_init ARTY litex_sim_hw" old p "sys_proc_read (disk_read SD_CARD rom ARTY card_x) base"
  "disk_file 8192 d base" "{b. unat (base + b) < 8192}" "\<lambda>S. card_ready (w_disk (shared S)) \<and> fst (w_disk (shared S)) = d"
  for old p rom base d
  by (rule disk_reader[OF sd_card_sim _ uart_tty_device[OF litex_sim]]) simp

lemma length_disk_file:
  "sd_card plat x nblocks ready data \<Longrightarrow> ready c \<Longrightarrow> length (disk_file nblocks (data c) base b) = BLOCK_BYTES"
  using sd_cardD(1)[of plat x nblocks ready data c "base + b"] by (simp add: disk_file_def uninit_block_def)

text \<open>What the memory of GPID_PROCESS holds when it starts: the executable, and \<open>argc\<close> is 0.\<close>

definition holds_program :: "(u32 \<Rightarrow> u8 list) \<Rightarrow> mmu_state \<Rightarrow> bool" where
  "holds_program reader st \<longleftrightarrow>
     (\<forall>v. unat v \<notin> {0x80600, 0x80601, 0x807FE, 0x807FF} \<longrightarrow> view st GPID_PROCESS v = program_image reader (headers (reader 0)) (unat v)) \<and>
     (\<exists>args. view st GPID_PROCESS 0x80600 = Some args \<and> get32 args 0 = 0)"

lemma holds_program_switch: "vm_wf st \<Longrightarrow> holds_program reader (mmu_switch q st) = holds_program reader st" if "q \<noteq> 0"
  using that soft_tlb_switch_view[of st q GPID_PROCESS] by (simp add: holds_program_def)

lemma boot_load:
  assumes card: "sd_card plat x nblocks ready data" "nblocks \<le> 2 ^ 32" and tty: "tty_device dev coming sent"
    and S: "ready (w_disk (shared S))"
    and m: "vm_wf (mmu_of S)" "loadable GPID_PROCESS (mmu_of S)" "\<And>v. frame_of (mmu_of S) GPID_PROCESS v = None"
    and e: "reader = disk_file nblocks (data (w_disk (shared S))) SYS_PROC_EXEC_START" "program_ok reader"
      "program_size (headers (reader 0)) + 4 \<le> free_count (mmu_of S)"
      "\<forall>b \<in> program_blocks (reader 0). unat (SYS_PROC_EXEC_START + b) < nblocks"
  shows "\<exists>S' st. calls old p (elf_load_prog dev GPID_PROCESS (sys_proc_read (disk_read SD_CARD rom plat x) SYS_PROC_EXEC_START) 0 None) S () S' \<and>
    w_kernel (shared S') = (w_kernel (shared S))\<lparr>mmu := st\<rparr> \<and> vm_wf st \<and> translation st = translation (mmu_of S) \<and> holds_program reader st \<and>
    ready (w_disk (shared S')) \<and> data (w_disk (shared S')) = data (w_disk (shared S))"
proof -
  have rd: "length (reader b) = BLOCK_BYTES" for b unfolding e(1) by (rule length_disk_file[OF card(1) S])
  obtain st old' sc s1 s2 where l: "elf_load GPID_PROCESS reader 0 None (mmu_of S) = Inr st" "length old' = PAGE_SIZE"
    "loads GPID_PROCESS (mmu_of S) st ((program_image reader (headers (reader 0)))(0x80600 \<mapsto> args_page 0 None old', 0x80601 \<mapsto> sc,
       0x807FF \<mapsto> s1, 0x807FE \<mapsto> s2)) (program_size (headers (reader 0)) + 4)"
    by (rule elf_load_loads[OF m rd e(2,3), of 0 None]) simp_all
  have "block_reader dev old p (sys_proc_read (disk_read SD_CARD rom plat x) SYS_PROC_EXEC_START) reader
    {b. unat (SYS_PROC_EXEC_START + b) < nblocks} (\<lambda>S'. ready (w_disk (shared S')) \<and> data (w_disk (shared S')) = data (w_disk (shared S)))"
    unfolding e(1) by (rule disk_reader[OF card tty])
  from block_reader.elf_load_agrees[OF this, of S GPID_PROCESS 0 None st]
  obtain c t where c: "calls old p (elf_load_prog dev GPID_PROCESS (sys_proc_read (disk_read SD_CARD rom plat x) SYS_PROC_EXEC_START) 0 None) S ()
      (set_mmu (set_tty (set_disk S c) t) st)" "ready c" "data c = data (w_disk (shared S))" using S l(1) e(4) by (auto simp: set_disk_def)
  have "get32 (args_page 0 None old') 0 = 0" using l(2) by (simp add: args_page_def)
  then have "holds_program reader st" "vm_wf st" "translation st = translation (mmu_of S)"
    using l(3) by (simp_all add: loads_def holds_program_def)
  then show ?thesis using c by (intro exI[of _ "set_mmu (set_tty (set_disk S c) t) st"] exI[of _ st]) (simp add: set_disk_def)
qed

lemma grass_entry_starts:
  assumes card: "sd_card plat x nblocks ready data" "nblocks \<le> 2 ^ 32" and tty: "tty_device dev coming sent"
    and S: "ready (w_disk (shared S))" "bss_kernel (w_kernel (shared S))"
    and m: "vm_wf (mmu_of S)" "loadable GPID_PROCESS (mmu_of S)" "\<And>v. frame_of (mmu_of S) GPID_PROCESS v = None"
    and e: "reader = disk_file nblocks (data (w_disk (shared S))) SYS_PROC_EXEC_START" "program_ok reader"
      "program_size (headers (reader 0)) + 4 \<le> free_count (mmu_of S)"
      "\<forall>b \<in> program_blocks (reader 0). unat (SYS_PROC_EXEC_START + b) < nblocks"
  shows "\<exists>S' fs. calls old p (grass_entry dev (disk_read SD_CARD rom plat x) lock_addr r) S
      (r\<lparr>csr_mstatus := (csr_mstatus r AND NOT (push_bit 11 3)) OR push_bit 11 (if translation (mmu_of S) = SOFT_TLB then 3 else 0)\<rparr>,
       \<lparr>start_mepc = APPS_ENTRY, start_a0 = APPS_ARG, start_a1 = lock_addr, start_fences = fs\<rparr>) S' \<and>
    (translation (mmu_of S) = PAGE_TABLE \<longrightarrow> SFENCE_VMA \<in> set fs) \<and>
    kinv (w_kernel (shared S')) \<and> pid (curr_proc (w_kernel (shared S'))) = GPID_PROCESS \<and>
    mtimecmp (w_kernel (shared S')) = mtimecmp (w_kernel (shared S)) \<and> translation (mmu_of S') = translation (mmu_of S) \<and>
    holds_program reader (mmu_of S') \<and> ready (w_disk (shared S')) \<and> data (w_disk (shared S')) = data (w_disk (shared S))"
proof -
  obtain s where s: "SUCCESS (str ''Enter the grass layer'') [] = Inr s" by (auto simp: boot_texts)
  obtain s' where s': "INFO (str ''Load kernel process #%d: sys_process'') [VInt GPID_PROCESS] = Inr s'" using process_text by blast
  note print = tty_device.prints_text[OF tty]
  obtain T1 where T1: "calls old p (print_sys dev (SUCCESS (str ''Enter the grass layer'') [])) S () T1"
    "w_kernel (shared T1) = w_kernel (shared S)" "w_disk (shared T1) = w_disk (shared S)" using print[OF s, of old p S] by auto
  obtain T2 where T2: "calls old p (print_sys dev (INFO (str ''Load kernel process #%d: sys_process'') [VInt GPID_PROCESS])) T1 () T2"
    "w_kernel (shared T2) = w_kernel (shared S)" "w_disk (shared T2) = w_disk (shared S)" using print[OF s', of old p T1] T1(2,3) by auto
  obtain T3 st where T3: "calls old p (elf_load_prog dev GPID_PROCESS (sys_proc_read (disk_read SD_CARD rom plat x) SYS_PROC_EXEC_START) 0 None) T2 () T3"
    "w_kernel (shared T3) = (w_kernel (shared S))\<lparr>mmu := st\<rparr>" "vm_wf st" "translation st = translation (mmu_of S)" "holds_program reader st"
    "ready (w_disk (shared T3))" "data (w_disk (shared T3)) = data (w_disk (shared S))"
    using boot_load[OF card tty, of T2 reader old p rom] S(1) m e unfolding T2(2,3) by auto
  obtain k1 where k1: "proc_alloc (w_kernel (shared T3)) = Inr (GPID_PROCESS, k1)" "mmu k1 = st"
    "kinv ((proc_set_running GPID_PROCESS k1)\<lparr>mmu := mmu_switch GPID_PROCESS (mmu k1)\<rparr>)"
    "pid (curr_proc ((proc_set_running GPID_PROCESS k1)\<lparr>mmu := mmu_switch GPID_PROCESS (mmu k1)\<rparr>)) = GPID_PROCESS"
    using first_process[of "w_kernel (shared T3)"] S(2) T3(3) unfolding T3(2) by (auto simp: bss_kernel_def)
  let ?T4 = "set_kernel T3 (proc_set_running GPID_PROCESS k1)" and ?m = "mmu_switch GPID_PROCESS st"
  let ?S' = "set_mmu ?T4 ?m"
  have T4: "calls old p (on_kernel (\<lambda>k. bindr (proc_alloc k) (\<lambda>(p, k). Inr ((), proc_set_running p k)))) T3 () ?T4"
    by (rule calls_on_kernel) (simp add: k1(1))
  have T5: "calls old p (on_mmu (\<lambda>st. Inr ((), mmu_switch GPID_PROCESS st))) ?T4 () ?S'"
    by (rule calls_on_mmu) (simp add: proc_set_running_def proc_set_status_def k1(2))
  have g: "calls old p (get_world (\<lambda>w. mmu (w_kernel w))) ?S' ?m ?S'"
    using calls_get_world[of old p "\<lambda>w. mmu (w_kernel w)" ?S'] by simp
  have t: "translation ?m = translation (mmu_of S)" using T3(4) by (simp add: soft_tlb_switch_def Let_def)
  have "calls old p (grass_entry dev (disk_read SD_CARD rom plat x) lock_addr r) S
      (r\<lparr>csr_mstatus := (csr_mstatus r AND NOT (push_bit 11 3)) OR push_bit 11 (if translation (mmu_of S) = SOFT_TLB then 3 else 0)\<rparr>,
       \<lparr>start_mepc = APPS_ENTRY, start_a0 = APPS_ARG, start_a1 = lock_addr, start_fences = flush_cache ?m\<rparr>) ?S'"
    unfolding grass_entry_def Let_def
    by (rule calls_bind[OF T1(1)], rule calls_bind[OF T2(1)], rule calls_bind[OF T3(1)], rule calls_bind[OF T4], rule calls_bind[OF T5],
        rule calls_bind[OF g]) (simp only: t, rule calls_Ret)
  moreover have "w_kernel (shared ?S') = (proc_set_running GPID_PROCESS k1)\<lparr>mmu := mmu_switch GPID_PROCESS (mmu k1)\<rparr>" by (simp add: k1(2))
  moreover have "mtimecmp (proc_set_running GPID_PROCESS k1) = mtimecmp (w_kernel (shared S))"
    using k1(1) T3(2) by (auto simp: proc_set_running_def proc_set_status_def proc_alloc_def Let_def split: option.splits)
  moreover have "translation (mmu_of S) = PAGE_TABLE \<longrightarrow> SFENCE_VMA \<in> set (flush_cache ?m)" unfolding flush_cache_def t by simp
  ultimately show ?thesis
    using k1(2-4) t T3(5-7) holds_program_switch[OF _ T3(3), of GPID_PROCESS reader]
    by (intro exI[of _ ?S'] exI[of _ "flush_cache ?m"]) simp
qed

lemma mstatus_mode:
  fixes m :: u32
  assumes "M = ((m OR 0x88) AND NOT (push_bit 11 3)) OR push_bit 11 (if b then 3 else 0)"
  shows "bit M 3" "bit M 11 = b" "bit M 12 = b"
proof -
  have n: "bit (0x88 :: u32) 3" "bit (3 :: u32) 0" "bit (3 :: u32) (Suc 0)" by simp_all
  show "bit M 3" "bit M 11 = b" "bit M 12 = b"
    unfolding assms using n by (simp_all add: bit_or_iff bit_and_iff bit_not_iff bit_push_bit_iff)
qed

text \<open>
  The kernel and the registers when the processor is about to enter GPID_PROCESS, after the user has
  chosen the translation by typing \<open>key\<close>.
\<close>

definition booted :: "u8 \<Rightarrow> addr \<Rightarrow> addr \<Rightarrow> nat \<Rightarrow> (u32 \<Rightarrow> u8 list) \<Rightarrow> kernel \<Rightarrow> csrs \<Rightarrow> start \<Rightarrow> bool" where
  "booted key trap_addr lock_addr core_id reader k r e \<longleftrightarrow>
     kinv k \<and> pid (curr_proc k) = GPID_PROCESS \<and> translation (mmu k) = (if key = 48 then PAGE_TABLE else SOFT_TLB) \<and>
     holds_program reader (mmu k) \<and> mtimecmp k core_id = 0x0FFFFFFFFFFFFFFF \<and>
     csr_mtvec r = trap_addr \<and> bit (csr_mie r) 7 \<and> bit (csr_mstatus r) 3 \<and>
     bit (csr_mstatus r) 11 = (key = 49) \<and> bit (csr_mstatus r) 12 = (key = 49) \<and>
     start_mepc e = APPS_ENTRY \<and> start_a0 e = APPS_ARG \<and> start_a1 e = lock_addr \<and> (key = 48 \<longrightarrow> SFENCE_VMA \<in> set (start_fences e))"

lemma boot_kernel_boots:
  assumes "sd_card plat x nblocks ready data" "nblocks \<le> 2 ^ 32" "uart plat hw rx tx busy"
    and "ready (w_disk (shared S))" "bss_kernel (w_kernel (shared S))" "mmu_fresh (mmu (w_kernel (shared S)))"
    and "rx (w_tty (shared S)) = junk @ key # rest" "48 \<notin> set junk" "49 \<notin> set junk" "key = 48 \<or> key = 49"
    and "reader = disk_file nblocks (data (w_disk (shared S))) SYS_PROC_EXEC_START" "program_ok reader"
      "program_size (headers (reader 0)) \<le> 2032" "\<forall>b \<in> program_blocks (reader 0). unat (SYS_PROC_EXEC_START + b) < nblocks"
  shows "\<exists>S' r' e. calls old p (boot_kernel (tty_init plat hw) (disk_read SD_CARD rom plat x) trap_addr lock_addr core_id r) S (r', e) S' \<and>
     booted key trap_addr lock_addr core_id reader (w_kernel (shared S')) r' e \<and>
     ready (w_disk (shared S')) \<and> data (w_disk (shared S')) = data (w_disk (shared S))"
proof -
  note tty = uart_tty_device[OF assms(3)]
  let ?dev = "tty_init plat hw"
  obtain st where st: "mmu_init [key] (mmu_of S) = Inr st" "vm_wf st" "loadable GPID_PROCESS st" "\<And>v. frame_of st GPID_PROCESS v = None"
    "2036 \<le> free_count st" "translation st = (if key = 48 then PAGE_TABLE else SOFT_TLB)"
    using mmu_init_boot[OF assms(6,10)] by metis
  obtain T1 where T1: "calls old p (mmu_init_prog ?dev) S () T1" "w_kernel (shared T1) = (w_kernel (shared S))\<lparr>mmu := st\<rparr>"
    "w_disk (shared T1) = w_disk (shared S)"
    using tty_device.mmu_init_chooses[OF tty assms(7-10) st(1)] by metis
  let ?r = "r\<lparr>csr_mtvec := trap_addr, csr_mip := 0, csr_mie := csr_mie r OR 0x80, csr_mstatus := csr_mstatus r OR 0x88\<rparr>"
  obtain T2 where T2: "calls old p (intr_init ?dev trap_addr core_id r) T1 ?r T2"
    "w_kernel (shared T2) = (w_kernel (shared T1))\<lparr>mtimecmp := (mtimecmp (w_kernel (shared T1)))(core_id := 0x0FFFFFFFFFFFFFFF)\<rparr>"
    "w_disk (shared T2) = w_disk (shared S)"
    using tty_device.intr_init_timer[OF tty, of old p trap_addr core_id r T1] T1(3) by auto
  obtain s where s: "SUCCESS (str ''Finished initializing the MMU, timer and interrupts'') [] = Inr s" by (auto simp: boot_texts)
  obtain T3 where T3: "calls old p (print_sys ?dev (SUCCESS (str ''Finished initializing the MMU, timer and interrupts'') [])) T2 () T3"
    "w_kernel (shared T3) = w_kernel (shared T2)" "w_disk (shared T3) = w_disk (shared S)"
    using tty_device.prints_text[OF tty s, of old p T2] T2(3) by auto
  have k: "mmu_of T3 = st" "bss_kernel (w_kernel (shared T3))" "mtimecmp (w_kernel (shared T3)) core_id = 0x0FFFFFFFFFFFFFFF"
    using assms(5) unfolding T3(2) T2(2) T1(2) by (simp_all add: bss_kernel_def)
  let ?r' = "?r\<lparr>csr_mstatus := (csr_mstatus ?r AND NOT (push_bit 11 3)) OR push_bit 11 (if key = 49 then 3 else 0)\<rparr>"
  have sk: "(translation st = SOFT_TLB) = (key = 49)" "(translation st = PAGE_TABLE) = (key = 48)" using st(6) assms(10) by auto
  obtain S' fs where S': "calls old p (grass_entry ?dev (disk_read SD_CARD rom plat x) lock_addr ?r) T3
      (?r', \<lparr>start_mepc = APPS_ENTRY, start_a0 = APPS_ARG, start_a1 = lock_addr, start_fences = fs\<rparr>) S'"
    "key = 48 \<longrightarrow> SFENCE_VMA \<in> set fs" "kinv (w_kernel (shared S'))" "pid (curr_proc (w_kernel (shared S'))) = GPID_PROCESS"
    "mtimecmp (w_kernel (shared S')) = mtimecmp (w_kernel (shared T3))" "translation (mmu_of S') = translation st" "holds_program reader (mmu_of S')"
    "ready (w_disk (shared S'))" "data (w_disk (shared S')) = data (w_disk (shared S))"
    using grass_entry_starts[OF assms(1,2) tty, of T3 reader old p rom lock_addr ?r] st(2-5) k(1,2) assms(4,11-14)
    unfolding T3(3) k(1) sk by auto
  have "calls old p (boot_kernel ?dev (disk_read SD_CARD rom plat x) trap_addr lock_addr core_id r) S
      (?r', \<lparr>start_mepc = APPS_ENTRY, start_a0 = APPS_ARG, start_a1 = lock_addr, start_fences = fs\<rparr>) S'"
    unfolding boot_kernel_def
    by (rule calls_bind[OF T1(1)], rule calls_bind[OF T2(1)], rule calls_bind[OF T3(1)], rule S'(1))
  moreover have "bit (csr_mie ?r') 7" by (simp add: bit_or_iff)
  ultimately show ?thesis
    unfolding booted_def using S'(2-9) k(3) st(6) mstatus_mode[of "csr_mstatus ?r'" "csr_mstatus r" "key = 49"]
    by (intro exI[of _ S'] exI[of _ ?r'] exI[of _ "\<lparr>start_mepc = APPS_ENTRY, start_a0 = APPS_ARG, start_a1 = lock_addr, start_fences = fs\<rparr>"]) simp
qed

lemma booted_segments:
  assumes "\<And>b. length (reader b) = BLOCK_BYTES" "program_ok reader" "booted key trap_addr lock_addr core_id reader k r e"
  shows "segments_loaded (mmu k) GPID_PROCESS reader"
  by (rule program_image_segments[OF assms(1,2)]) (use assms(3) in \<open>simp add: booted_def holds_program_def\<close>)

text \<open>C7: Booting establishes the kernel's invariant. From \<open>mmu_init\<close> on, when terminal and SD card are
  initialized and the executable of GPID_PROCESS is on the card, and the user types 0 or 1 to choose the
  translation (and anything else before), boot reaches the point where it enters user code: then the
  invariant that every trap keeps holds, GPID_PROCESS is the current and only running process, its
  memory has the pages that the loader makes of the executable, which hold every byte of its page-aligned
  segments at its address, traps go to trap_entry with
  timer interrupts enabled but the timer not set to fire, and the processor returns in machine mode
  for the software TLB and in user mode for page tables, whose entries are flushed.\<close>

theorem boot_establishes_invariant:
  assumes "sd_card plat x nblocks ready data" "nblocks \<le> 2 ^ 32" "uart plat hw rx tx busy"
    and "ready (w_disk (shared S))" "bss_kernel (w_kernel (shared S))" "mmu_fresh (mmu (w_kernel (shared S)))"
    and "rx (w_tty (shared S)) = junk @ key # rest" "48 \<notin> set junk" "49 \<notin> set junk" "key = 48 \<or> key = 49"
    and "reader = disk_file nblocks (data (w_disk (shared S))) SYS_PROC_EXEC_START" "program_ok reader"
      "program_size (headers (reader 0)) \<le> 2032" "\<forall>b \<in> program_blocks (reader 0). unat (SYS_PROC_EXEC_START + b) < nblocks"
  shows "\<exists>S' r' e. calls old p (boot_kernel (tty_init plat hw) (disk_read SD_CARD rom plat x) trap_addr lock_addr core_id r) S (r', e) S' \<and>
     booted key trap_addr lock_addr core_id reader (w_kernel (shared S')) r' e \<and>
     segments_loaded (mmu (w_kernel (shared S'))) GPID_PROCESS reader \<and>
     ready (w_disk (shared S')) \<and> data (w_disk (shared S')) = data (w_disk (shared S))"
proof -
  have "length (reader b) = BLOCK_BYTES" for b unfolding assms(11) by (rule length_disk_file[OF assms(1,4)])
  then show ?thesis using boot_kernel_boots[OF assms, of old p rom trap_addr lock_addr core_id r] booted_segments[OF _ assms(12)] by metis
qed

section \<open>A machine that boots\<close>

definition boot_card :: card where
  "boot_card = (\<lambda>j. if j = 256 then sample_program 5 0 else if j = 257 then sample_program 5 1 else uninit_block, Idle)"

definition boot_system :: "u8 list \<Rightarrow> (uart_sim, card) world system" where
  "boot_system keys =
     \<lparr>shared = \<lparr>w_tty = \<lparr>sim_rx = keys, sim_tx = [], sim_busy = 1\<rparr>, w_disk = boot_card,
        w_kernel = \<lparr>core_in_kernel = 0, core_to_proc_idx = replicate 5 0, proc_set = replicate (MAX_NPROCESS + 1) no_process,
          last_pid = 0, mmu = boot_mmu, mtimecmp = (\<lambda>_. 0)\<rparr>,
        workdir_ino = 0, workdir = [], app_pid = 0, shell_waiting = False\<rparr>,
      procs = (\<lambda>_. None)\<rparr>"

lemma sample_program_blocks: "program_blocks (sample_program 5 0) = {0, 1}"
proof -
  let ?h = "\<lparr>p_offset = 512, p_vaddr = 0x80400000, p_filesz = 5, p_memsz = 5\<rparr> :: elf32_program_header"
  have h: "headers (sample_program 5 0) = [?h]" by (rule sample_headers)
  have n: "e_phnum (sample_program 5 0) = 1" using arg_cong[OF h, of length] by (simp add: headers_def)
  have "pheader (sample_program 5 0) 0 = Inr ?h"
    using h sample_headers(2)[of 5] by (simp add: headers_def n pheader_def header_at_def headers_fit_def Let_def)
  moreover have "segment_blocks ?h = {1}" by (simp add: segment_blocks_def block_offsets_def lessThan_Suc)
  ultimately show ?thesis by (simp add: program_blocks_def n lessThan_Suc)
qed

theorem boot_establishes_invariant_witness:
  "\<exists>S' r' e. calls (replicate 1024 0) 1 (boot_kernel (tty_init ARTY litex_sim_hw) (disk_read SD_CARD (\<lambda>_. 0) ARTY card_x) 0x80001000 0x80002000 0
       \<lparr>csr_mtvec = 0, csr_mip = 0, csr_mie = 0, csr_mstatus = 0\<rparr>) (boot_system [13, 48]) (r', e) S' \<and>
     kinv (w_kernel (shared S')) \<and> pid (curr_proc (w_kernel (shared S'))) = GPID_PROCESS \<and>
     view (mmu (w_kernel (shared S'))) GPID_PROCESS 0x80400 = Some ([1, 2, 3, 4, 5] @ replicate 4091 0) \<and> \<not> bit (csr_mstatus r') 11"
proof -
  let ?S = "boot_system [13, 48]"
  define reader where "reader = disk_file 8192 (fst (w_disk (shared ?S))) SYS_PROC_EXEC_START"
  have rd: "reader 0 = sample_program 5 0" "reader 1 = sample_program 5 1"
    by (simp_all add: reader_def disk_file_def SYS_PROC_EXEC_START_def boot_system_def boot_card_def)
  note r = sample_reader[OF rd]
  have S: "card_ready (w_disk (shared ?S))" "bss_kernel (w_kernel (shared ?S))" "mmu_fresh (mmu (w_kernel (shared ?S)))"
      "sim_rx (w_tty (shared ?S)) = [13] @ 48 # []"
    using mmu_fresh_boot by (simp_all add: boot_system_def card_ready_def boot_card_def bss_kernel_def length_sample_program uninit_block_def)
  have b: "\<forall>b \<in> program_blocks (reader 0). unat (SYS_PROC_EXEC_START + b) < 8192"
    by (simp add: rd sample_program_blocks SYS_PROC_EXEC_START_def)
  obtain S' r' e where c: "calls (replicate 1024 0) 1 (boot_kernel (tty_init ARTY litex_sim_hw) (disk_read SD_CARD (\<lambda>_. 0) ARTY card_x) 0x80001000 0x80002000 0
       \<lparr>csr_mtvec = 0, csr_mip = 0, csr_mie = 0, csr_mstatus = 0\<rparr>) ?S (r', e) S'"
    "kinv (w_kernel (shared S'))" "pid (curr_proc (w_kernel (shared S'))) = GPID_PROCESS" "holds_program reader (mmu (w_kernel (shared S')))"
    "\<not> bit (csr_mstatus r') 11"
    using boot_establishes_invariant[OF sd_card_sim[of 8192] _ litex_sim S _ _ _ reader_def r(1) _ b, of "replicate 1024 0" 1 "\<lambda>_. 0" "0x80001000" "0x80002000" 0
        "\<lparr>csr_mtvec = 0, csr_mip = 0, csr_mie = 0, csr_mstatus = 0\<rparr>"] r(2) by (auto simp: booted_def)
  have "view (mmu (w_kernel (shared S'))) GPID_PROCESS 0x80400 = Some ([1, 2, 3, 4, 5] @ replicate 4091 0)"
    using c(4) by (simp add: holds_program_def r(3) with_pages_def page_of_def)
  then show ?thesis using c by blast
qed

end
