(* ===== verification/Image.thy ===== *)
theory Image
  imports Filesys Servers_Correct
begin

text \<open>
  The whole of tools/mkfs.c: loading the kernel and the system servers into \<open>exec\<close>, the file system,
  and the two files that are written. The files of the host are a function from their names to
  their bytes; the bytes that are written to the host are the result.
\<close>

section \<open>Operations\<close>

abbreviation EGOS_BIN_MAX_NBYTE :: nat where
  "EGOS_BIN_MAX_NBYTE \<equiv> 128 * 1024"

definition egos_binaries :: "u8 list list" where
  "egos_binaries = map str
     [''./qemu/egos.bin'', ''../build/release/sys_proc.elf'', ''../build/release/sys_terminal.elf'',
      ''../build/release/sys_file.elf'', ''../build/release/sys_shell.elf'', ''./screenshots/Bohr.bmp'']"

text \<open>\<open>load_file\<close> copies a file to an offset of an array; behind the end of the array it is undefined.\<close>

definition load_file :: "u8 list \<Rightarrow> nat \<Rightarrow> u8 list \<Rightarrow> u8 list res" where
  "load_file bytes off dst =
     (if off + length bytes \<le> length dst then Inr (take off dst @ bytes @ drop (off + length bytes) dst)
      else Inl (Undef ''load_file''))"

definition load_exec :: "(u8 list \<Rightarrow> u8 list) \<Rightarrow> u8 list res" where
  "load_exec host =
     for_each [0 ..< length egos_binaries] (\<lambda>i. load_file (host (egos_binaries ! i)) (i * EGOS_BIN_MAX_NBYTE)) (replicate SIZE_2MB 0)"

definition mkfs_program ::
  "nat \<Rightarrow> (u8 list \<Rightarrow> u8 list) \<Rightarrow> u8 list \<Rightarrow> (u8 list \<times> u8 list) list \<Rightarrow> u8 list \<Rightarrow> (u8 list \<times> u8 list) res" where
  "mkfs_program FILESYS host CPU_BIN_FILE eps adj =
     bindr (load_exec host) (\<lambda>exec.
     bindr (mkfs_main FILESYS eps adj fs_init) (\<lambda>fs.
     let disk_img = exec @ fs in
     bindr (load_file (host CPU_BIN_FILE) 0 (replicate (SIZE_2MB * 2) 0)) (\<lambda>vexriscv.
     if \<not> length (host CPU_BIN_FILE) < SIZE_2MB * 2 then Inl (FATAL ''assert'')
     else Inr (disk_img, vexriscv @ exec @ fs))))"

section \<open>The image\<close>

text \<open>A block of the image, as the disk has it when the image is written to it.\<close>

definition image_block :: "u8 list \<Rightarrow> u32 \<Rightarrow> block" where
  "image_block img k = take BLOCK_SIZE (drop (BLOCK_SIZE * unat k) img)"

text \<open>Files that stay within their 128KB, the last one within the rest of the array.\<close>

definition binaries_fit :: "(u8 list \<Rightarrow> u8 list) \<Rightarrow> bool" where
  "binaries_fit host \<longleftrightarrow>
     (\<forall>i < 5. length (host (egos_binaries ! i)) \<le> EGOS_BIN_MAX_NBYTE) \<and>
     length (host (egos_binaries ! 5)) \<le> SIZE_2MB - 5 * EGOS_BIN_MAX_NBYTE"

text \<open>The area of a file: its bytes and zeros behind them.\<close>

definition exec_area :: "u8 list \<Rightarrow> u8 list" where
  "exec_area bytes = bytes @ replicate (EGOS_BIN_MAX_NBYTE - length bytes) 0"

text \<open>The array \<open>exec\<close> when the first \<open>j\<close> files are loaded.\<close>

definition exec_loaded :: "(u8 list \<Rightarrow> u8 list) \<Rightarrow> nat \<Rightarrow> u8 list \<Rightarrow> bool" where
  "exec_loaded host j exec \<longleftrightarrow> length exec = SIZE_2MB \<and>
     (\<forall>i < min j 5. take EGOS_BIN_MAX_NBYTE (drop (i * EGOS_BIN_MAX_NBYTE) exec) = exec_area (host (egos_binaries ! i))) \<and>
     (if j \<le> 5 then drop (j * EGOS_BIN_MAX_NBYTE) exec = replicate (SIZE_2MB - j * EGOS_BIN_MAX_NBYTE) 0
      else take (length (host (egos_binaries ! 5))) (drop (5 * EGOS_BIN_MAX_NBYTE) exec) = host (egos_binaries ! 5))"

lemma load_exec_step:
  assumes fit: "binaries_fit host" and e: "exec_loaded host j e" and j: "j < 6"
  shows "\<exists>e'. load_file (host (egos_binaries ! j)) (j * EGOS_BIN_MAX_NBYTE) e = Inr e' \<and> exec_loaded host (Suc j) e'"
proof -
  let ?b = "host (egos_binaries ! j)" and ?M = EGOS_BIN_MAX_NBYTE
  define e' where "e' = take (j * ?M) e @ ?b @ drop (j * ?M + length ?b) e"
  have l: "length e = SIZE_2MB" and z: "drop (j * ?M) e = replicate (SIZE_2MB - j * ?M) 0" using e j by (simp_all add: exec_loaded_def)
  have b: "length ?b \<le> (if j = 5 then SIZE_2MB - 5 * ?M else ?M)" using fit j by (auto simp: binaries_fit_def)
  have jM: "j * ?M \<le> 5 * ?M" using j by (intro mult_le_mono1) simp
  have le: "j * ?M + length ?b \<le> SIZE_2MB"
    using b jM by (cases "j = 5") simp_all
  have ll: "length e' = SIZE_2MB" using l le by (simp add: e'_def)
  have rest: "drop (j * ?M + length ?b) e = replicate (SIZE_2MB - j * ?M - length ?b) 0"
    using arg_cong[OF z, of "drop (length ?b)"] by (simp add: add.commute)
  have at: "drop (j * ?M) e' = ?b @ replicate (SIZE_2MB - j * ?M - length ?b) 0" using l le rest by (simp add: e'_def)
  have before: "take ?M (drop (i * ?M) e') = exec_area (host (egos_binaries ! i))" if "i < j" for i
  proof -
    have "i * ?M + ?M \<le> j * ?M" using mult_le_mono1[of "Suc i" j ?M] that by simp
    then have "take ?M (drop (i * ?M) e') = take ?M (drop (i * ?M) e)" using l le by (simp add: e'_def take_drop add.commute)
    then show ?thesis using e that j by (simp add: exec_loaded_def)
  qed
  have "exec_loaded host (Suc j) e'"
  proof (cases "j = 5")
    case True
    then show ?thesis using before at ll by (auto simp: exec_loaded_def)
  next
    case False
    then have j5: "j < 5" using j by simp
    then have "Suc j * ?M \<le> SIZE_2MB" using mult_le_mono1[of "Suc j" 5 ?M] by simp
    moreover have "drop (Suc j * ?M) e' = drop ?M (drop (j * ?M) e')" by simp
    ultimately have r: "take ?M (drop (j * ?M) e') = exec_area ?b" "drop (Suc j * ?M) e' = replicate (SIZE_2MB - Suc j * ?M) 0"
      using b False unfolding at by (simp_all add: exec_area_def)
    have "take ?M (drop (i * ?M) e') = exec_area (host (egos_binaries ! i))" if "i < Suc j" for i
      using before r(1) that less_Suc_eq by metis
    then show ?thesis unfolding exec_loaded_def using ll r(2) j5 by simp
  qed
  then show ?thesis using l le by (simp add: load_file_def e'_def)
qed

lemma load_exec_ok:
  assumes "binaries_fit host"
  shows "\<exists>exec. load_exec host = Inr exec \<and> exec_loaded host 6 exec"
proof -
  let ?P = "\<lambda>js. exec_loaded host (length js)"
  have n: "length egos_binaries = 6" by (simp add: egos_binaries_def)
  have "\<exists>e. for_each [0 ..< 6] (\<lambda>i. load_file (host (egos_binaries ! i)) (i * EGOS_BIN_MAX_NBYTE)) (replicate SIZE_2MB 0) = Inr e \<and> ?P [0 ..< 6] e"
  proof (rule for_each_invariant)
    fix before j rest e
    assume js: "[0 ..< 6] = before @ j # rest" and e: "?P before e"
    have l: "length before < 6" using arg_cong[OF js, of length] by simp
    have "j = [0 ..< 6] ! length before" by (subst js) simp
    then have "j = length before" using l nth_upt[of 0 "length before" 6] by simp
    then show "\<exists>e'. load_file (host (egos_binaries ! j)) (j * EGOS_BIN_MAX_NBYTE) e = Inr e' \<and> ?P (before @ [j]) e'"
      using load_exec_step[OF assms e l] by simp
  next
    show "?P [] (replicate SIZE_2MB 0)" by (simp add: exec_loaded_def)
  qed
  then show ?thesis unfolding load_exec_def n length_upt by simp
qed

lemma image_block_fs:
  assumes "length exec = SIZE_2MB" "ram_ok fs"
  shows "fs_blocks image_block (exec @ fs) = ram_block fs"
proof
  fix k :: u32
  show "fs_blocks image_block (exec @ fs) k = ram_block fs k"
  proof (cases "k < 4096")
    case True
    then have "unat (4096 + k) = 4096 + unat k" by (simp add: word_less_nat_alt unat_word_ariths)
    then show ?thesis using True assms(1) by (simp add: fs_blocks_def image_block_def ram_block_def algebra_simps)
  next
    case False
    then have "4096 \<le> unat k" by (simp add: word_less_nat_alt)
    then have "SIZE_2MB \<le> 512 * unat k" by simp
    then show ?thesis using False assms(2) by (simp add: fs_blocks_def ram_block_def ram_ok_def)
  qed
qed

lemma exec_file:
  assumes "exec_loaded host 6 exec" "binaries_fit host" "i < 6"
  shows "take (length (host (egos_binaries ! i))) (drop (i * EGOS_BIN_MAX_NBYTE) (exec @ fs)) = host (egos_binaries ! i)"
proof -
  let ?b = "host (egos_binaries ! i)" and ?M = EGOS_BIN_MAX_NBYTE
  have l: "length exec = SIZE_2MB" using assms(1) by (simp add: exec_loaded_def)
  have e: "take (length ?b) (drop (i * ?M) exec) = ?b"
  proof (cases "i = 5")
    case True
    then show ?thesis using assms(1) by (simp add: exec_loaded_def)
  next
    case False
    then have "take ?M (drop (i * ?M) exec) = exec_area ?b" "length ?b \<le> ?M" using assms by (simp_all add: exec_loaded_def binaries_fit_def)
    from arg_cong[OF this(1), of "take (length ?b)"] this(2) show ?thesis by (simp add: exec_area_def min_def)
  qed
  have "length ?b \<le> length exec - i * ?M" using arg_cong[OF e, of length] by simp
  moreover have "i * ?M \<le> length exec" using assms(3) l mult_le_mono1[of i 5 ?M] by simp
  ultimately show ?thesis using e by simp
qed

text \<open>What mkfs writes, in its parts.\<close>

lemma mkfs_program_image:
  assumes "apps = filter is_app eps" "length apps \<le> 121" "length (bin_text apps) < 256"
    and "11 * (7 + app_blocks apps) \<le> 4093" "length adj = 256"
    and "\<forall>a \<in> set apps. length (snd a) \<le> SIZE_2MB \<and> 0 \<notin> set (fst a)"
    and "binaries_fit host" "length (host cpu) < SIZE_2MB * 2"
  shows "\<exists>exec fs files. mkfs_program 1 host cpu eps adj =
       Inr (exec @ fs, host cpu @ replicate (SIZE_2MB * 2 - length (host cpu)) 0 @ exec @ fs) \<and> exec_loaded host 6 exec \<and> ram_ok fs \<and>
     disk_holds 4096 128 (fs_blocks image_block (exec @ fs)) files 0 \<and> mkfs_holds files apps \<and>
     files 6 = [bin_text apps @ replicate (256 - length (bin_text apps)) 0 @ adj]"
proof -
  obtain exec where e: "load_exec host = Inr exec" "exec_loaded host 6 exec" using load_exec_ok[OF assms(7)] by blast
  obtain fs files where f: "mkfs_main 1 eps adj fs_init = Inr fs" "ram_ok fs" "disk_holds 4096 128 (ram_block fs) files 0"
    "mkfs_holds files apps" "files 6 = [bin_text apps @ replicate (256 - length (bin_text apps)) 0 @ adj]"
    using mkfs_image[OF assms(1-6)] by blast
  have "length exec = SIZE_2MB" using e(2) by (simp add: exec_loaded_def)
  then have "fs_blocks image_block (exec @ fs) = ram_block fs" using f(2) by (rule image_block_fs)
  moreover have "mkfs_program 1 host cpu eps adj = Inr (exec @ fs, host cpu @ replicate (SIZE_2MB * 2 - length (host cpu)) 0 @ exec @ fs)"
    using e(1) f(1) assms(8) by (simp add: mkfs_program_def load_file_def)
  ultimately show ?thesis using e(2) f(2-5) by metis
qed

text \<open>C15: mkfs, built with treedisk, produces a disk image of 4MB: each kernel binary is where the boot
  loader and the process server look for it, and the file system behind them holds what it should:
  inodes 0 to 5 the fixed directories and the README, each application of the build directory under
  its own inode from 7 on, block for block, inode 6 the /bin directory with one entry per application,
  and nothing else. The boot ROM is the processor image with the disk image behind it. The binaries
  have to stay within their areas, and the applications have to fit: at most 121 of them, names within
  the 256 bytes of \<open>bin_dir\<close>, and 11 blocks of the image per block written.\<close>

theorem mkfs_image_correct:
  assumes "apps = filter is_app eps" "length apps \<le> 121" "length (bin_text apps) < 256"
    and "11 * (7 + app_blocks apps) \<le> 4093" "length adj = 256"
    and "\<forall>a \<in> set apps. length (snd a) \<le> SIZE_2MB \<and> 0 \<notin> set (fst a)"
    and "binaries_fit host" "length (host cpu) < SIZE_2MB * 2"
  shows "\<exists>disk rom files. mkfs_program 1 host cpu eps adj = Inr (disk, rom) \<and> length disk = SIZE_2MB * 2 \<and>
     (\<forall>i < 6. take (length (host (egos_binaries ! i))) (drop (i * EGOS_BIN_MAX_NBYTE) disk) = host (egos_binaries ! i)) \<and>
     disk_holds 4096 128 (fs_blocks image_block disk) files 0 \<and> mkfs_holds files apps \<and>
     files 6 = [bin_text apps @ replicate (256 - length (bin_text apps)) 0 @ adj] \<and>
     rom = host cpu @ replicate (SIZE_2MB * 2 - length (host cpu)) 0 @ disk"
proof -
  obtain exec fs files where i: "mkfs_program 1 host cpu eps adj =
       Inr (exec @ fs, host cpu @ replicate (SIZE_2MB * 2 - length (host cpu)) 0 @ exec @ fs)" "exec_loaded host 6 exec" "ram_ok fs"
     "disk_holds 4096 128 (fs_blocks image_block (exec @ fs)) files 0" "mkfs_holds files apps"
     "files 6 = [bin_text apps @ replicate (256 - length (bin_text apps)) 0 @ adj]"
    using mkfs_program_image[OF assms] by blast
  have "length (exec @ fs) = SIZE_2MB * 2" using i(2,3) by (simp add: ram_ok_def exec_loaded_def)
  then show ?thesis using i(1,4-6) exec_file[OF i(2) assms(7)] by blast
qed

theorem mkfs_image_correct_witness:
  "\<exists>disk rom files. mkfs_program 1 (\<lambda>name. name) (str ''cpu'') [(str ''.'', []), (str ''ls.elf'', replicate 1000 3)] (replicate 256 0) = Inr (disk, rom) \<and>
     take 29 (drop (128 * 1024) disk) = str ''../build/release/sys_proc.elf'' \<and>
     disk_holds 4096 128 (fs_blocks image_block disk) files 0 \<and> Mkfs.stores (files 7) (replicate 1000 3) \<and>
     take 24 (files 6 ! 0) = str ''./   6 ../   0 ls   7 '' @ [0, 0]"
proof -
  let ?eps = "[(str ''.'', []), (str ''ls.elf'', replicate 1000 3)]" and ?apps = "[(str ''ls.elf'', replicate 1000 3)]"
  have zero_notin: "0 \<notin> set (str ''ls.elf'')" by (simp add: str_def)
  have "\<not> sublist (str ''.elf'') (str ''.'')" "sublist (str ''.elf'') (str ''ls.elf'')" by code_simp+
  then have apps: "?apps = filter is_app ?eps" by (simp add: is_app_def)
  have bt: "bin_text ?apps = str ''./   6 ../   0 ls   7 ''"
    by (simp add: bin_text_def file_entry_def str_def dec.simps pad_left_def numeral_3_eq_3)
  have len: "length (egos_binaries ! i) \<le> 100" if "i < 6" for i
  proof -
    have "list_all (\<lambda>b. length b \<le> 100) egos_binaries" "length egos_binaries = 6" by (simp_all add: egos_binaries_def)
    then show ?thesis using that by (simp add: list_all_length)
  qed
  have "length (egos_binaries ! i) \<le> EGOS_BIN_MAX_NBYTE" if "i < 5" for i using len[of i] that by simp
  then have fit: "binaries_fit (\<lambda>name. name)" using len[of 5] by (simp add: binaries_fit_def)
  have sp: "egos_binaries ! 1 = str ''../build/release/sys_proc.elf''" "length (str ''../build/release/sys_proc.elf'') = 29"
    by (simp add: egos_binaries_def) (simp add: str_def)
  have "\<exists>disk rom files. mkfs_program 1 (\<lambda>name. name) (str ''cpu'') ?eps (replicate 256 0) = Inr (disk, rom) \<and> length disk = SIZE_2MB * 2 \<and>
     (\<forall>i < 6. take (length (egos_binaries ! i)) (drop (i * EGOS_BIN_MAX_NBYTE) disk) = egos_binaries ! i) \<and>
     disk_holds 4096 128 (fs_blocks image_block disk) files 0 \<and> mkfs_holds files ?apps \<and>
     files 6 = [bin_text ?apps @ replicate (256 - length (bin_text ?apps)) 0 @ replicate 256 0] \<and>
     rom = str ''cpu'' @ replicate (SIZE_2MB * 2 - length (str ''cpu'')) 0 @ disk"
    by (rule mkfs_image_correct[OF apps, of "replicate 256 0" "\<lambda>name. name"])
      (simp_all add: bt app_blocks_def nblocks_of_def zero_notin fit)
  then obtain disk rom files where i: "mkfs_program 1 (\<lambda>name. name) (str ''cpu'') ?eps (replicate 256 0) = Inr (disk, rom)"
     "\<forall>i < 6. take (length (egos_binaries ! i)) (drop (i * EGOS_BIN_MAX_NBYTE) disk) = egos_binaries ! i"
     "disk_holds 4096 128 (fs_blocks image_block disk) files 0" "mkfs_holds files ?apps"
     "files 6 = [str ''./   6 ../   0 ls   7 '' @ replicate 234 0 @ replicate 256 0]"
    unfolding bt by auto
  have "take 24 (files 6 ! 0) = str ''./   6 ../   0 ls   7 '' @ [0, 0]" unfolding i(5) by (simp add: numeral_2_eq_2)
  moreover have "take 29 (drop (128 * 1024) disk) = str ''../build/release/sys_proc.elf''"
    using i(2)[rule_format, of 1] unfolding sp(1) sp(2) by simp
  moreover have "Mkfs.stores (files 7) (replicate 1000 3)" using i(4) by (simp add: mkfs_holds_def)
  ultimately show ?thesis using i(1,3) by blast
qed

end
