(* ===== verification/Boot_Image.thy ===== *)
theory Boot_Image
  imports Boot_Correct Image
begin

text \<open>
  The disk image of mkfs as the boot loader reads it: the blocks behind SYS_PROC_EXEC_START are those of
  the executable of GPID_PROCESS.
\<close>

section \<open>Executables by their blocks\<close>

lemma length_block_offsets: "length (block_offsets n) = block_count n"
  by (simp add: block_offsets_def)

lemma segment_program_blocks:
  assumes "headers_fit hbuf" "h \<in> set (headers hbuf)"
  shows "segment_blocks h \<subseteq> program_blocks hbuf"
proof -
  obtain i where i: "i < e_phnum hbuf" "h = header_at hbuf i" using assms(2) by (auto simp: headers_def)
  then have "pheader hbuf i = Inr h" using assms(1) by (simp add: pheader_def header_at_def headers_fit_def Let_def)
  then show ?thesis using i(1) by (force simp: program_blocks_def)
qed

lemma seg_image_cong:
  assumes "\<And>b. b \<in> segment_blocks h \<Longrightarrow> r b = r' b"
  shows "seg_image r h P = seg_image r' h P"
proof (cases "p_vaddr h < RAM_START")
  case False
  define n where "n = length (block_offsets (unat (p_filesz h)))"
  have "r (p_offset h div 512 + of_nat i) = r' (p_offset h div 512 + of_nat i)" if "i < n" for i
    by (rule assms) (use False that in \<open>simp add: segment_blocks_def flip: n_def\<close>)
  then have "file_blocks r (p_offset h div 512) n = file_blocks r' (p_offset h div 512) n"
    unfolding file_blocks_def by (intro arg_cong[where f = concat] map_cong) simp_all
  then have "seg_data r h = seg_data r' h" by (simp only: seg_data_def n_def length_block_offsets)
  then show ?thesis by (simp add: seg_image_def)
qed (simp add: seg_image_def)

lemma segs_ok_cong:
  assumes "\<And>h b. h \<in> set hs \<Longrightarrow> b \<in> segment_blocks h \<Longrightarrow> r b = r' b"
  shows "segs_ok r hs P = segs_ok r' hs P"
  using assms
proof (induction hs arbitrary: P)
  case (Cons h hs)
  have "seg_image r h P = seg_image r' h P" by (rule seg_image_cong) (use Cons.prems in auto)
  moreover have "segs_ok r hs (seg_image r' h P) = segs_ok r' hs (seg_image r' h P)"
    by (rule Cons.IH) (use Cons.prems in auto)
  ultimately show ?case by simp
qed simp

text \<open>Two readers that agree on the blocks of an executable agree on the executable.\<close>

lemma program_cong:
  assumes fit: "headers_fit (r 0)" and eq: "\<And>b. b \<in> program_blocks (r 0) \<Longrightarrow> r b = r' b"
  shows "r' 0 = r 0" "program_ok r' = program_ok r" "program_image r' (headers (r 0)) = program_image r (headers (r 0))"
proof -
  show z: "r' 0 = r 0" using eq[of 0] by (simp add: program_blocks_def)
  have e: "r b = r' b" if "h \<in> set (headers (r 0))" "b \<in> segment_blocks h" for h b
    using eq segment_program_blocks[OF fit that(1)] that(2) by blast
  have "seg_image r' h = seg_image r h" if "h \<in> set (headers (r 0))" for h
    by (rule ext, rule seg_image_cong) (use e[OF that] in simp)
  then show i: "program_image r' (headers (r 0)) = program_image r (headers (r 0))"
    unfolding program_image_def by (rule fold_cong[OF refl refl])
  show "program_ok r' = program_ok r" unfolding program_ok_def z i using segs_ok_cong[of "headers (r 0)" r r'] e by simp
qed

lemma holds_program_cong:
  assumes "headers_fit (r 0)" "\<And>b. b \<in> program_blocks (r 0) \<Longrightarrow> r b = r' b"
  shows "holds_program r' st = holds_program r st"
  using program_cong[of r r', OF assms] by (simp add: holds_program_def)

lemma segments_loaded_cong:
  assumes fit: "headers_fit (r 0)" and eq: "\<And>b. b \<in> program_blocks (r 0) \<Longrightarrow> r b = r' b"
  shows "segments_loaded st p r' = segments_loaded st p r"
proof -
  have "file_byte r' (unat (p_offset h) + k) = file_byte r (unat (p_offset h) + k)"
    if h: "h \<in> set (headers (r 0))" "RAM_START \<le> p_vaddr h" "seg_proper h" and k: "k < unat (p_filesz h)" for h k
  proof -
    have "k div BLOCK_BYTES < block_count (unat (p_filesz h))"
      using block_count_less[of "k div BLOCK_BYTES"] k times_div_less_eq_dividend[of BLOCK_BYTES k] by linarith
    then have "p_offset h div 512 + of_nat (k div BLOCK_BYTES) \<in> segment_blocks h"
      using h(2) by (simp add: segment_blocks_def length_block_offsets leD)
    then have "p_offset h div 512 + of_nat (k div BLOCK_BYTES) \<in> program_blocks (r 0)" using segment_program_blocks[OF fit h(1)] by blast
    moreover have "p_offset h mod 512 = 0" using h(3) by (simp add: seg_proper_def)
    ultimately show ?thesis using eq by (simp only: file_byte_block)
  qed
  moreover have "r' 0 = r 0" by (rule program_cong(1)[of r r', OF assms])
  ultimately show ?thesis by (simp add: segments_loaded_def seg_loaded_def)
qed

section \<open>The image on the card\<close>

definition exec_block :: "u8 list \<Rightarrow> u32 \<Rightarrow> block" where
  "exec_block bytes b = take BLOCK_SIZE (drop (BLOCK_SIZE * unat b) (exec_area bytes))"

lemma image_exec_block:
  assumes "exec_loaded host 6 exec" "i < 5" "unat b < 256"
  shows "image_block (exec @ fs) (of_nat (256 * i) + b) = exec_block (host (egos_binaries ! i)) b"
proof -
  let ?M = EGOS_BIN_MAX_NBYTE and ?b = "512 * unat b"
  have u: "unat (of_nat (256 * i) + b) = 256 * i + unat b"
  proof -
    have "unat (of_nat (256 * i) :: u32) = 256 * i" by (rule unat_of_nat_u32) (use assms(2) in simp)
    then show ?thesis using assms(2,3) by (simp add: unat_word_ariths)
  qed
  have l: "length exec = SIZE_2MB" and a: "take ?M (drop (i * ?M) exec) = exec_area (host (egos_binaries ! i))"
    using assms(1,2) by (simp_all add: exec_loaded_def)
  have iM: "i * ?M \<le> 4 * ?M" using assms(2) by (intro mult_le_mono1) simp
  have bM: "?b + 512 \<le> ?M" using assms(3) by simp
  have "exec_block (host (egos_binaries ! i)) b = take 512 (drop ?b (take ?M (drop (i * ?M) exec)))" by (simp only: exec_block_def a)
  also have "\<dots> = take 512 (drop (?b + i * ?M) exec)" using bM by (simp add: drop_take min_def)
  also have "\<dots> = image_block (exec @ fs) (of_nat (256 * i) + b)"
    unfolding image_block_def u using l iM bM by (simp add: algebra_simps)
  finally show ?thesis ..
qed

lemma card_image:
  assumes "\<forall>k. unat k < 8192 \<longrightarrow> data c k = image_block disk k"
  shows "fs_blocks data c = fs_blocks image_block disk"
proof
  fix k :: u32
  show "fs_blocks data c k = fs_blocks image_block disk k"
  proof (cases "k < 4096")
    case True
    then have "unat (4096 + k) < 8192" by (simp add: word_less_nat_alt unat_word_ariths)
    then show ?thesis using assms True by (simp add: fs_blocks_def)
  qed (simp add: fs_blocks_def)
qed

lemma card_exec:
  assumes "\<forall>k. unat k < 8192 \<longrightarrow> data c k = image_block (exec @ fs) k" "exec_loaded host 6 exec" "8192 \<le> nblocks" "unat b < 256"
  shows "disk_file nblocks (data c) SYS_PROC_EXEC_START b = exec_block (host (egos_binaries ! 1)) b"
proof -
  have "unat (256 + b) < 8192" using assms(4) by (simp add: unat_word_ariths)
  moreover have "image_block (exec @ fs) (256 + b) = exec_block (host (egos_binaries ! 1)) b"
    using image_exec_block[OF assms(2) _ assms(4), of 1 fs] by simp
  ultimately show ?thesis using assms(1,3) by (simp add: disk_file_def SYS_PROC_EXEC_START_def)
qed

section \<open>A sample image\<close>

text \<open>A build directory with one executable, which is sys_proc.elf and an application, and its image on a card.\<close>

definition build_host :: "u8 list \<Rightarrow> u8 list" where
  "build_host name = (if name = egos_binaries ! 1 then prog_elf else [])"

definition flashed :: "u8 list \<Rightarrow> card" where
  "flashed disk = (\<lambda>k. if unat k < 8192 then image_block disk k else uninit_block, Idle)"

lemma build_host_fits: "binaries_fit build_host" "length (build_host cpu) < SIZE_2MB * 2"
proof -
  have l: "length (build_host name) \<le> 1024" for name by (simp add: build_host_def prog_elf_def length_sample_program)
  show "length (build_host cpu) < SIZE_2MB * 2" using l[of cpu] by simp
  have "length (build_host name) \<le> EGOS_BIN_MAX_NBYTE" for name using l[of name] by simp
  moreover have "length (build_host name) \<le> SIZE_2MB - 5 * EGOS_BIN_MAX_NBYTE" for name using l[of name] by simp
  ultimately show "binaries_fit build_host" by (simp add: binaries_fit_def)
qed

lemma build_host_blocks:
  "exec_block (build_host (egos_binaries ! 1)) 0 = sample_program 5 0"
  "exec_block (build_host (egos_binaries ! 1)) 1 = sample_program 5 1"
proof -
  have h: "build_host (egos_binaries ! 1) = sample_program 5 0 @ sample_program 5 1" by (simp add: build_host_def prog_elf_def)
  show "exec_block (build_host (egos_binaries ! 1)) 0 = sample_program 5 0"
    "exec_block (build_host (egos_binaries ! 1)) 1 = sample_program 5 1"
    unfolding h by (simp_all add: exec_block_def exec_area_def length_sample_program)
qed

lemma prog_apps_fit:
  "prog_apps = filter is_app prog_apps" "length prog_apps \<le> 121" "length (bin_text prog_apps) < 256"
  "11 * (7 + app_blocks prog_apps) \<le> 4093" "\<forall>a \<in> set prog_apps. length (snd a) \<le> SIZE_2MB \<and> 0 \<notin> set (fst a)"
proof -
  have "sublist (str ''.elf'') (str ''prog.elf'')" by code_simp
  then show "prog_apps = filter is_app prog_apps" by (simp add: prog_apps_def is_app_def)
  show "length prog_apps \<le> 121" by (simp add: prog_apps_def)
  show "length (bin_text prog_apps) < 256" by (simp add: prog_bin_text str_def)
  have l: "length prog_elf = 1024" by (simp add: prog_elf_def length_sample_program)
  show "11 * (7 + app_blocks prog_apps) \<le> 4093" by (simp add: prog_apps_def app_blocks_def nblocks_of_def l)
  show "\<forall>a \<in> set prog_apps. length (snd a) \<le> SIZE_2MB \<and> 0 \<notin> set (fst a)" by (simp add: prog_apps_def l str_def)
qed

lemma flashed_ready: "length disk = SIZE_2MB * 2 \<Longrightarrow> card_ready (flashed disk)"
proof -
  assume l: "length disk = SIZE_2MB * 2"
  have "512 \<le> length disk - 512 * unat k" if "unat k < 8192" for k :: u32 using that l by simp
  then show ?thesis by (auto simp: card_ready_def flashed_def image_block_def uninit_block_def)
qed

end
