(* ===== verification/Demos.thy ===== *)
theory Demos
  imports Mmu
begin

text \<open>
  Small programs that do not talk to a server: \<open>_sbrk\<close> of library/libc/malloc.c, apps/user/vga_demo.c
  and apps/user/crash2.c. They work on addresses.
\<close>

section \<open>The heap\<close>

text \<open>
  \<open>_sbrk\<close> with the linker's \<open>__heap_end\<close>, the requested size and \<open>brk\<close>: the old and the new \<open>brk\<close>, or
  the store to address 0.
\<close>

definition sbrk :: "addr \<Rightarrow> i32 \<Rightarrow> addr \<Rightarrow> (addr \<times> addr) res" where
  "sbrk heap_end n brk =
     (if heap_end < brk + n then Inl (Undef ''_sbrk: heap grows too large'') else Inr (brk, brk + n))"

text \<open>Unless the sum wraps around, the new memory lies behind what was given out before and inside the heap.\<close>

lemma sbrk_inside:
  assumes "sbrk heap_end n brk = Inr (p, brk')" "unat brk + unat n < 2 ^ 32"
  shows "p = brk" "unat brk' = unat p + unat n" "brk' \<le> heap_end"
proof -
  have "brk' = brk + n" "p = brk" "\<not> heap_end < brk + n" using assms(1) by (auto simp: sbrk_def split: if_splits)
  then show "p = brk" "unat brk' = unat p + unat n" "brk' \<le> heap_end"
    using assms(2) by (simp_all add: unat_word_ariths not_less)
qed

text \<open>A size that makes the sum wrap around is not noticed.\<close>

lemma sbrk_wraps: "sbrk 0x80600000 0x7FB00000 0x80500000 = Inr (0x80500000, 0)"
  by (simp add: sbrk_def)

section \<open>The VGA demo\<close>

abbreviation HRES :: nat where "HRES \<equiv> 800"
abbreviation VRES :: nat where "VRES \<equiv> 600"

text \<open>A pixel is a store to the frame buffer, with the colours at \<open>rgb\<close> in the boot ROM.\<close>

definition vga_addr :: "nat \<Rightarrow> nat \<Rightarrow> addr" where
  "vga_addr i j = VGA_MMIO_START + 4 * of_nat (i * HRES + (HRES - j))"

definition vga_pixel :: "mem \<Rightarrow> nat \<Rightarrow> nat \<Rightarrow> addr \<times> (addr \<times> u32) list \<Rightarrow> addr \<times> (addr \<times> u32) list" where
  "vga_pixel rom i j = (\<lambda>(rgb, ws).
     (rgb - 3, ws @ [(vga_addr i j, ucast (rom rgb) OR push_bit 8 (ucast (rom (rgb + 1))) OR push_bit 16 (ucast (rom (rgb + 2))))]))"

definition vga_main :: "mem \<Rightarrow> (addr \<times> u32) list" where
  "vga_main rom =
     snd (fold (\<lambda>i. fold (vga_pixel rom i) [0 ..< HRES]) [0 ..< VRES]
       (0x20400000 + 128 * 1024 * 5 + (56 + of_nat (HRES * VRES * 3)) - 3, []))"

lemma vga_row: "map fst (snd (fold (vga_pixel rom i) js st)) = map fst (snd st) @ map (vga_addr i) js"
  by (induction js arbitrary: st) (auto simp: vga_pixel_def split: prod.splits)

lemma vga_rows:
  "map fst (snd (fold (\<lambda>i. fold (vga_pixel rom i) js) is st)) = map fst (snd st) @ concat (map (\<lambda>i. map (vga_addr i) js) is)"
  by (induction "is" arbitrary: st) (simp_all add: vga_row)

text \<open>
  The pixels of a row are numbered from \<open>HRES\<close> down to 1: pixel 0 of the screen is never written, and
  the last row writes one pixel behind the screen.
\<close>

lemma vga_pixels:
  "fst ` set (vga_main rom) = (\<lambda>k. VGA_MMIO_START + 4 * of_nat k) ` {1 .. VRES * HRES}"
proof -
  have "fst ` set (vga_main rom) = (\<Union>i \<in> {..< VRES}. vga_addr i ` {..< HRES})"
    using arg_cong[OF vga_rows[of rom "[0 ..< HRES]" "[0 ..< VRES]"
      "(0x20400000 + 128 * 1024 * 5 + (56 + of_nat (HRES * VRES * 3)) - 3, [])"], of set]
    by (simp only: vga_main_def set_map set_append set_concat) (simp add: atLeast0LessThan)
  also have "\<dots> = (\<lambda>k. VGA_MMIO_START + 4 * of_nat k) ` (\<Union>i \<in> {..< VRES}. (\<lambda>j. i * HRES + (HRES - j)) ` {..< HRES})"
    by (simp add: vga_addr_def image_UN image_image)
  also have "(\<Union>i \<in> {..< VRES}. (\<lambda>j. i * HRES + (HRES - j)) ` {..< HRES}) = {1 .. VRES * HRES}"
  proof (intro equalityI subsetI)
    fix k assume "k \<in> {1 .. VRES * HRES}"
    then have b: "1 \<le> k" "k - 1 < VRES * HRES" by auto
    define q m where "q = (k - 1) div HRES" and "m = (k - 1) mod HRES"
    have "q * HRES + m = k - 1" unfolding q_def m_def by (rule div_mult_mod_eq)
    moreover have m: "m < HRES" by (simp add: m_def)
    ultimately have "k = q * HRES + (HRES - (HRES - 1 - m))" using b(1) by simp
    moreover have "q < VRES" unfolding q_def by (rule less_mult_imp_div_less[OF b(2)])
    moreover have "HRES - 1 - m < HRES" by simp
    ultimately show "k \<in> (\<Union>i \<in> {..< VRES}. (\<lambda>j. i * HRES + (HRES - j)) ` {..< HRES})" by blast
  next
    fix k assume "k \<in> (\<Union>i \<in> {..< VRES}. (\<lambda>j. i * HRES + (HRES - j)) ` {..< HRES})"
    then obtain i j where k: "i < VRES" "j < HRES" "k = i * HRES + (HRES - j)" by auto
    then have "1 \<le> k" "k \<le> VRES * HRES" by linarith+
    then show "k \<in> {1 .. VRES * HRES}" by simp
  qed
  finally show ?thesis .
qed

section \<open>Corrupting memory\<close>

definition crash2_main :: "mem \<Rightarrow> mem" where
  "crash2_main m = memset m APPS_PAGES_BASE 0 (unat (RAM_END - APPS_PAGES_BASE))"

text \<open>Where memory is not protected, every other process loses its pages.\<close>

lemma crash2_corrupts:
  assumes "frame_of st q v = Some i" "q \<noteq> curr_vm_pid st"
  shows "view (st\<lparr>memory := crash2_main (memory st)\<rparr>) q v = Some (replicate PAGE_SIZE 0)"
proof -
  have i: "i < APPS_PAGES_CNT" using assms(1) by (auto simp: frame_of_def find_Some_iff)
  have "crash2_main (memory st) (page_addr (frame_page i) + of_nat k) = 0" if "k < PAGE_SIZE" for k
  proof -
    have d: "page_addr (frame_page i) + of_nat k - APPS_PAGES_BASE = (of_nat (i * 4096 + k) :: u32)"
      by (simp add: page_addr_def frame_page_def algebra_simps)
    have b: "i * 4096 + k < 8388608" using i that by simp
    have "unat (page_addr (frame_page i) + of_nat k - APPS_PAGES_BASE) < 8388608"
      unfolding d by (subst unat_of_nat_u32) (use b in simp_all)
    then show ?thesis by (simp add: crash2_main_def memset_def memcpy_in_def)
  qed
  then have "page_bytes (crash2_main (memory st)) (frame_page i) = replicate PAGE_SIZE 0"
    by (intro nth_equalityI) (simp_all add: page_bytes_def memcpy_out_def)
  moreover have "frame_of (st\<lparr>memory := crash2_main (memory st)\<rparr>) q v = Some i" using assms(1) by (simp add: frame_of_def)
  ultimately show ?thesis using assms(2) by (simp add: view_def)
qed

end
