(* ===== verification/Spec2Isabelle.thy ===== *)
theory Spec2Isabelle
  imports Udp_Frame Shell_Read Boot_Image Demos
begin

text \<open>
  A verification of egos-2000, a teaching operating system in C and RISC-V assembly. The whole
  system is modelled but for what is listed at the end, from the loader in boot.s to the applications, and so is the host program mkfs
  that builds its disk image. Definitions follow the source function by function and keep its names;
  file names below are relative to \<open>src/\<close>.

  \<^bold>\<open>The program.\<close>
  The \<^emph>\<open>earth\<close> layer (earth/) drives the hardware: terminal, SD card, timer and the memory management
  unit. The \<^emph>\<open>grass\<close> layer (grass/) is the kernel: traps, a round-robin scheduler, and processes that
  exchange messages. Above them run four server processes (apps/system/): GPID_PROCESS starts
  programs, GPID_TERMINAL reads and prints, GPID_FILE is the file system, GPID_SHELL the shell; and the
  applications (apps/user/), which reach the servers through library/syscall/servers.c. Files are
  kept by treedisk (library/file/file1.c) on the SD card, whose contents tools/mkfs.c prepares.

  \<^bold>\<open>How C is modelled.\<close>
  Integers are words at their width (\<open>u8\<close>, \<open>u32\<close>, \<open>i32\<close>, \<open>u64\<close>). A function that can fail
  returns \<open>'a res = fault + 'a\<close>, where a fault is a FATAL message, undefined behaviour (an access outside an
  array, a missing argument, a write behind a buffer), or a loop that never ends. Global variables are
  records that are passed along. Structs that the source overlays on character arrays are byte lists with
  their fields at the C offsets (\<open>get32\<close>, \<open>put32\<close>). Memory is a function from addresses to bytes. Code
  that calls other processes is a program \<open>('s, 'a) prog\<close> (theory Prog): it computes on the shared
  state, sends and receives, and \<open>calls old p prog S x S'\<close> says that process \<open>p\<close> can run it in the system \<open>S\<close>
  to the result \<open>x\<close> and the system \<open>S'\<close>, while the servers it talks to run too.

  \<^bold>\<open>Theories, in the order of the layers.\<close>
  \<^item> Prelude, Machine, Cstring, Clib: result type and loops, memory and pages with the memory map of
    library/egos.h, C strings, and the functions of the C library that the sources call.
  \<^item> Inode, Treedisk, Treedisk_Spec, Treedisk_Correct, Treedisk_Files, Treedisk_Ops, Treedisk_Create,
    Treedisk_Contract: library/file/inode.h, file1.h and file1.c. The locale \<open>block_store\<close> is what treedisk
    relies on of the store below, \<open>file_store\<close> what it promises: files that are lists of blocks. Every
    operation is shown to refine the abstract files, with the invariant that each block belongs to
    exactly one of the superblock, the inode table, the free list and the files. Mydisk is file0.c.
  \<^item> Mkfs, Filesys, Image: tools/mkfs.c; the properties of treedisk on its ramdisk, and the contents of the
    two images it writes.
  \<^item> Mmu, Pagetable, Memory: earth/cpu_mmu.c. The software TLB gives each process its own pages (\<open>view\<close>), and
    the page tables built at boot are read back by an Sv32 walk.
  \<^item> Intr: the timer of earth/cpu_intr.c, with a clock that counts while it is read.
  \<^item> Process, Kernel, Kernel_Inv, Sched, Trap, Regs, Kernel_Spec, Ipc, Lifecycle: grass/process.c, kernel.c,
    kernel.s and library/syscall/syscall.c. \<open>kinv\<close> is the invariant between two traps; traps keep
    it, resume each process where it was, serve everybody in turn, and pass messages unchanged.
  \<^item> Elf, Elf_Correct, Loader, Elf_Prog: library/elf/elf.c as a function of the pages and as a program
    whose reader asks a device or a server; the locale \<open>block_reader\<close> shows that the two agree.
    \<open>program_image\<close> are the pages that the loader makes of an executable, with its rounding of addresses;
    \<open>seg_loaded\<close> says, independently of it, what the ELF format asks for the bytes of a segment.
  \<^item> Print, Tty, Terminal, Disk, Disk_Correct: library/libc/print.c, earth/dev_tty.c, the terminal part of
    servers.c, earth/dev_disk.c. The locale \<open>tty_device\<close> is a terminal by what comes in and what was sent.
  \<^item> Prog, Servers, Servers_Correct, Directory, Apps, Apps_Correct, App_System, Workdir: the messages and
    library functions of servers.c, sys_terminal.c, sys_file.c, and the applications cat, cd, echo, loop
    and ls. The locale \<open>user_system\<close> is a system whose two servers wait for requests.
  \<^item> Shell, Shell_Correct, Shell_Read, Proc, Proc_Correct: sys_shell.c and sys_proc.c.
  \<^item> Boot, Boot_Correct, Boot_Image: boot.s, boot.c, the initialization of the devices and grass/init.c up to the
    first instruction of GPID_PROCESS.
  \<^item> Udp, Udp_Correct, Udp_Frame, Demos: udp_demo.c with its checksums, \<open>_sbrk\<close>, vga_demo.c and crash2.c.

  \<^bold>\<open>Properties.\<close>
  Those of a component are in the last theory of its group, each behind a text that states it. This
  theory has the one that spans all of them: the image that mkfs builds boots to a state with the
  kernel's invariant. Several properties exhibit defects of the code: a sender that ended and runs
  again, an unmapped end of a segment, a directory lookup that reads behind a short directory, a
  printing buffer that overflows, arguments that are shifted behind an unknown directive.

  \<^bold>\<open>Loops.\<close>
  Loops over data are structural recursion or \<open>for_each\<close>. Loops that wait for a device, for a key or for
  a clock are \<open>partial_function (option)\<close>, with \<open>None\<close> for a loop that never ends (\<open>poll\<close>,
  \<open>term_loop\<close>, \<open>shell_read_loop\<close>, \<open>mmu_ask\<close>, \<open>exchange_loop\<close>, \<open>acmd41_loop\<close>, \<open>mtime_get\<close>, \<open>wait_ready\<close>, and three loops of
  treedisk whose end depends on the superblock); the properties show that they end, under the
  hypotheses on the devices; only \<open>acmd41_loop\<close>, which belongs to the initialization of the card, has no such
  result. No fuel is used. The request loop of a server is one round, which starts again when it has ended.

  \<^bold>\<open>Hardware.\<close>
  Device registers are read and written through the record \<open>mmio\<close>, an argument. \<open>uart\<close> and \<open>sd_card\<close> say what
  the drivers rely on: that a character which is ready can be read and a sent one goes out, and that the
  card answers the commands for reading and writing a block as the SD specification describes in SPI
  mode. Both are shown to hold of a simulated UART and a simulated card, on which the witnesses run.

  \<^bold>\<open>Not modelled.\<close>
  \<^item> More than one core, and the kernel lock: the code that the other cores would run is left to students,
    and they print a line and stop. Other functions left empty for students have no effect.
  \<^item> The properties of boot start when the terminal and the card are initialized; \<open>disk_init\<close> is a definition
    and part of \<open>boot\<close>, but the hypotheses on the card do not describe the answers to its commands.
  \<^item> The tables of function pointers \<open>earth\<close> and \<open>grass\<close>: a call through them is a call of the function.
    The C stack, and the caches, of which only the flush instructions are recorded.
  \<^item> malloc and free of the C library, and with them crash1.c, which only calls malloc; the Makefile and
    the linker scripts, whose addresses are arguments; what mkfs prints on the host, and the
    progress messages of the SD card's initialization.
  \<^item> The path of the current directory is a list without the bound of the page it is kept in.
\<close>

section \<open>From mkfs to the first process\<close>

text \<open>C2: The image that mkfs builds boots. Take the disk image of mkfs for kernel binaries and
  applications that fit, put it on an SD card, and let boot run from \<open>mmu_init\<close> on, when terminal and card
  are initialized: when the user chooses a translation, boot enters GPID_PROCESS in a state with the
  kernel's invariant, its memory has the pages that the loader makes of the executable sys_proc.elf that
  mkfs was given, which hold every byte of its page-aligned segments at its address, and the card still
  holds the file system with the directories and all applications under /bin.\<close>

theorem mkfs_image_boots:
  assumes "apps = filter is_app eps" "length apps \<le> 121" "length (bin_text apps) < 256"
    and "11 * (7 + app_blocks apps) \<le> 4093" "length adj = 256"
    and "\<forall>a \<in> set apps. length (snd a) \<le> SIZE_2MB \<and> 0 \<notin> set (fst a)"
    and "binaries_fit host" "length (host cpu) < SIZE_2MB * 2" "mkfs_program 1 host cpu eps adj = Inr (disk, rom)"
    and "exe = exec_block (host (egos_binaries ! 1))" "program_ok exe" "program_size (headers (exe 0)) \<le> 2032" "\<forall>b \<in> program_blocks (exe 0). unat b < 256"
    and "sd_card plat x nblocks ready data" "8192 \<le> nblocks" "nblocks \<le> 2 ^ 32" "uart plat hw rx tx busy"
    and "ready (w_disk (shared S))" "\<forall>k. unat k < 8192 \<longrightarrow> data (w_disk (shared S)) k = image_block disk k"
    and "bss_kernel (w_kernel (shared S))" "mmu_fresh (mmu (w_kernel (shared S)))"
    and "rx (w_tty (shared S)) = junk @ key # rest" "48 \<notin> set junk" "49 \<notin> set junk" "key = 48 \<or> key = 49"
  shows "\<exists>S' r' e files. calls old p (boot_kernel (tty_init plat hw) (disk_read SD_CARD rom0 plat x) trap_addr lock_addr core_id r) S (r', e) S' \<and>
     booted key trap_addr lock_addr core_id exe (w_kernel (shared S')) r' e \<and>
     segments_loaded (mmu (w_kernel (shared S'))) GPID_PROCESS exe \<and> ready (w_disk (shared S')) \<and>
     disk_holds 4096 128 (fs_blocks data (w_disk (shared S'))) files 0 \<and> mkfs_holds files apps \<and>
     files 6 = [bin_text apps @ replicate (256 - length (bin_text apps)) 0 @ adj]"
proof -
  obtain exec fs files where i: "disk = exec @ fs" "exec_loaded host 6 exec" "disk_holds 4096 128 (fs_blocks image_block disk) files 0"
    "mkfs_holds files apps" "files 6 = [bin_text apps @ replicate (256 - length (bin_text apps)) 0 @ adj]"
    using mkfs_program_image[OF assms(1-8)] assms(9) by auto
  define d where "d = disk_file nblocks (data (w_disk (shared S))) SYS_PROC_EXEC_START"
  have d: "exe b = d b" if "b \<in> program_blocks (exe 0)" for b
    using card_exec[of data "w_disk (shared S)", OF assms(19)[unfolded i(1)] i(2) assms(15)] assms(13) that by (simp add: d_def assms(10))
  have fit: "headers_fit (exe 0)" using assms(11) by (simp add: program_ok_def)
  note c = program_cong[of exe d, OF fit d]
  have blocks: "\<forall>b \<in> program_blocks (d 0). unat (SYS_PROC_EXEC_START + b) < nblocks"
  proof
    fix b assume "b \<in> program_blocks (d 0)"
    then have "unat b < 256" using assms(13) c(1) by simp
    then have "unat (256 + b) < 8192" by (simp add: unat_word_ariths)
    then show "unat (SYS_PROC_EXEC_START + b) < nblocks" using assms(15) by (simp add: SYS_PROC_EXEC_START_def)
  qed
  have "program_ok d" "program_size (headers (d 0)) \<le> 2032" using assms(11,12) c by simp_all
  from boot_kernel_boots[OF assms(14,16,17,18,20-25) d_def this blocks, of old p rom0 trap_addr lock_addr core_id r]
  obtain S' r' e where S': "calls old p (boot_kernel (tty_init plat hw) (disk_read SD_CARD rom0 plat x) trap_addr lock_addr core_id r) S (r', e) S'"
    "booted key trap_addr lock_addr core_id d (w_kernel (shared S')) r' e" "ready (w_disk (shared S'))"
    "data (w_disk (shared S')) = data (w_disk (shared S))" by blast
  have "booted key trap_addr lock_addr core_id exe (w_kernel (shared S')) r' e"
    using S'(2) holds_program_cong[of exe d, OF fit d] by (simp add: booted_def)
  moreover have "length (d b) = BLOCK_BYTES" for b unfolding d_def by (rule length_disk_file[OF assms(14,18)])
  from booted_segments[OF this \<open>program_ok d\<close> S'(2)]
  have "segments_loaded (mmu (w_kernel (shared S'))) GPID_PROCESS exe" by (simp only: segments_loaded_cong[of exe d, OF fit d])
  moreover have "fs_blocks data (w_disk (shared S')) = fs_blocks image_block disk"
    by (rule card_image) (use assms(19) S'(4) in simp)
  ultimately show ?thesis using S'(1,3) i(3-5) by metis
qed

theorem mkfs_image_boots_witness:
  "\<exists>disk rom S' r' e files. mkfs_program 1 build_host (str ''cpu'') prog_apps (replicate 256 0) = Inr (disk, rom) \<and>
     calls (replicate 1024 0) 1 (boot_kernel (tty_init ARTY litex_sim_hw) (disk_read SD_CARD (\<lambda>_. 0) ARTY card_x) 0x80001000 0x80002000 0
       \<lparr>csr_mtvec = 0, csr_mip = 0, csr_mie = 0, csr_mstatus = 0\<rparr>) (set_disk (boot_system [13, 49]) (flashed disk)) (r', e) S' \<and>
     kinv (w_kernel (shared S')) \<and> view (mmu (w_kernel (shared S'))) GPID_PROCESS 0x80400 = Some ([1, 2, 3, 4, 5] @ replicate 4091 0) \<and>
     disk_holds 4096 128 (fs_blocks fst (w_disk (shared S'))) files 0 \<and> Mkfs.stores (files 7) prog_elf"
proof -
  define exe where "exe = exec_block (build_host (egos_binaries ! 1))"
  have rd: "exe 0 = sample_program 5 0" "exe 1 = sample_program 5 1" unfolding exe_def by (rule build_host_blocks)+
  note r = sample_reader[OF rd]
  have b: "\<forall>b \<in> program_blocks (exe 0). unat b < 256" by (simp add: rd sample_program_blocks)
  have adj: "length (replicate 256 (0 :: u8)) = 256" by simp
  obtain exec fs where i: "mkfs_program 1 build_host (str ''cpu'') prog_apps (replicate 256 0) =
       Inr (exec @ fs, build_host (str ''cpu'') @ replicate (SIZE_2MB * 2 - length (build_host (str ''cpu''))) 0 @ exec @ fs)"
     "exec_loaded build_host 6 exec" "ram_ok fs"
    using mkfs_program_image[OF prog_apps_fit(1-4) adj prog_apps_fit(5) build_host_fits] by blast
  define disk where "disk = exec @ fs"
  obtain rom where img: "mkfs_program 1 build_host (str ''cpu'') prog_apps (replicate 256 0) = Inr (disk, rom)" using i(1) by (simp add: disk_def)
  let ?S = "set_disk (boot_system [13, 49]) (flashed disk)"
  have "length disk = SIZE_2MB * 2" using i(2,3) by (simp add: disk_def ram_ok_def exec_loaded_def)
  then have rdy: "card_ready (w_disk (shared ?S))" by (simp add: set_disk_def flashed_ready)
  have on: "\<forall>k. unat k < 8192 \<longrightarrow> fst (w_disk (shared ?S)) k = image_block disk k" by (simp add: set_disk_def flashed_def)
  have S: "bss_kernel (w_kernel (shared ?S))" "mmu_fresh (mmu (w_kernel (shared ?S)))" "sim_rx (w_tty (shared ?S)) = [13] @ 49 # []"
    using mmu_fresh_boot by (simp_all add: set_disk_def boot_system_def bss_kernel_def)
  have sz: "program_size (headers (exe 0)) \<le> 2032" "(8192 :: nat) \<le> 8192" "(8192 :: nat) \<le> 2 ^ 32" using r(2) by simp_all
  have k: "48 \<notin> set [13 :: u8]" "49 \<notin> set [13 :: u8]" "(49 :: u8) = 48 \<or> (49 :: u8) = 49" by simp_all
  obtain S' r' e files where c: "calls (replicate 1024 0) 1 (boot_kernel (tty_init ARTY litex_sim_hw) (disk_read SD_CARD (\<lambda>_. 0) ARTY card_x) 0x80001000 0x80002000 0
       \<lparr>csr_mtvec = 0, csr_mip = 0, csr_mie = 0, csr_mstatus = 0\<rparr>) ?S (r', e) S'"
    "booted 49 0x80001000 0x80002000 0 exe (w_kernel (shared S')) r' e"
    "disk_holds 4096 128 (fs_blocks fst (w_disk (shared S'))) files 0" "mkfs_holds files prog_apps"
    using mkfs_image_boots[OF prog_apps_fit(1-4) adj prog_apps_fit(5) build_host_fits img exe_def r(1) sz(1) b sd_card_sim[of 8192] sz(2,3) litex_sim
        rdy on S k, of "replicate 1024 0" 1 "\<lambda>_. 0" "0x80001000" "0x80002000" 0 "\<lparr>csr_mtvec = 0, csr_mip = 0, csr_mie = 0, csr_mstatus = 0\<rparr>"] by blast
  have "view (mmu (w_kernel (shared S'))) GPID_PROCESS 0x80400 = Some ([1, 2, 3, 4, 5] @ replicate 4091 0)"
    using c(2) by (simp add: booted_def holds_program_def r(3) with_pages_def page_of_def)
  moreover have "kinv (w_kernel (shared S'))" using c(2) by (simp add: booted_def)
  moreover have "Mkfs.stores (files 7) prog_elf" using c(4) by (simp add: mkfs_holds_def prog_apps_def)
  ultimately show ?thesis using img c(1,3) by blast
qed

end
